(* ===== verification/Oxide_Prelude.thy ===== *)
theory Oxide_Prelude
  imports Main "HOL-Library.Word" "HOL-Library.Signed_Division" "HOL-Library.Monad_Syntax"
begin

text \<open>
  Shared vocabulary of the development.

  \<^item> The outcome of a fallible Rust function: \<open>Ok\<close>, an error value, or a panic
    (overflow under overflow checks, an out-of-range slice, a failed assertion).
  \<^item> 64-bit signed arithmetic on \<^typ>\<open>int\<close> with the range test written out.
  \<^item> Byte strings: \<^typ>\<open>string\<close> is a list of bytes and models \<open>&str\<close>;
    \<open>8 word list\<close> models \<open>&[u8]\<close>. UTF-8 validity as \<open>core::str::from_utf8\<close> tests it.
  \<^item> Decimal rendering of integers, as \<open>format!\<close> prints them.
  \<^item> Little-endian integers and slices of byte lists.
\<close>

unbundle bit_operations_syntax

named_theorems outcome_simps \<open>rewriting of results, errors and panics\<close>
named_theorems i64_simps \<open>unfolding of checked 64-bit arithmetic\<close>

section \<open>Outcomes\<close>

datatype ('a, 'e) outcome = Ok 'a | Err 'e | Panic

text \<open>The \<open>?\<close> operator: go on with the value, or return the error; a panic unwinds.\<close>

fun try_let :: "('a, 'e) outcome \<Rightarrow> ('a \<Rightarrow> ('b, 'e) outcome) \<Rightarrow> ('b, 'e) outcome" where
  "try_let (Ok x) f = f x"
| "try_let (Err e) f = Err e"
| "try_let Panic f = Panic"

lemma try_let_cong [fundef_cong]:
  "m = m' \<Longrightarrow> (\<And>x. m' = Ok x \<Longrightarrow> f x = f' x) \<Longrightarrow> try_let m f = try_let m' f'"
  by (cases m') auto

text \<open>\<open>ok_or\<close>: an absent value becomes the given error.\<close>

fun ok_or :: "'a option \<Rightarrow> 'e \<Rightarrow> ('a, 'e) outcome" where
  "ok_or (Some x) e = Ok x"
| "ok_or None e = Err e"

text \<open>A computation that can only panic, \<open>None\<close> being the panic.\<close>

fun or_panic :: "'a option \<Rightarrow> ('a, 'e) outcome" where
  "or_panic (Some x) = Ok x"
| "or_panic None = Panic"

text \<open>\<open>map_err\<close>.\<close>

fun map_err :: "('e \<Rightarrow> 'f) \<Rightarrow> ('a, 'e) outcome \<Rightarrow> ('a, 'f) outcome" where
  "map_err h (Ok x) = Ok x"
| "map_err h (Err e) = Err (h e)"
| "map_err h Panic = Panic"

lemma try_let_Ok_iff [outcome_simps]:
  "try_let m f = Ok y \<longleftrightarrow> (\<exists>x. m = Ok x \<and> f x = Ok y)"
  by (cases m) auto

lemma try_let_Panic_iff [outcome_simps]:
  "try_let m f = Panic \<longleftrightarrow> m = Panic \<or> (\<exists>x. m = Ok x \<and> f x = Panic)"
  by (cases m) auto

lemma ok_or_Ok_iff [outcome_simps]: "ok_or m e = Ok x \<longleftrightarrow> m = Some x"
  by (cases m) auto

lemma ok_or_not_Panic [outcome_simps]: "ok_or m e \<noteq> Panic"
  by (cases m) auto

lemma or_panic_Ok_iff [outcome_simps]: "or_panic m = Ok x \<longleftrightarrow> m = Some x"
  by (cases m) auto

lemma or_panic_Panic_iff [outcome_simps]: "or_panic m = Panic \<longleftrightarrow> m = None"
  by (cases m) auto

lemma map_err_Ok_iff [outcome_simps]: "map_err h m = Ok x \<longleftrightarrow> m = Ok x"
  by (cases m) auto

text \<open>\<open>collect::<Result<Vec<_>, _>>\<close>: apply left to right, stop at the first failure.\<close>

fun collect_results :: "('a \<Rightarrow> ('b, 'e) outcome) \<Rightarrow> 'a list \<Rightarrow> ('b list, 'e) outcome" where
  "collect_results f [] = Ok []"
| "collect_results f (x # xs) =
     try_let (f x) (\<lambda>y. try_let (collect_results f xs) (\<lambda>ys. Ok (y # ys)))"

lemma collect_results_cong [fundef_cong]:
  "xs = ys \<Longrightarrow> (\<And>x. x \<in> set ys \<Longrightarrow> f x = g x) \<Longrightarrow> collect_results f xs = collect_results g ys"
  by (induction xs arbitrary: ys) auto

lemma collect_results_Ok_iff [outcome_simps]:
  "collect_results f xs = Ok ys \<longleftrightarrow> list_all2 (\<lambda>x y. f x = Ok y) xs ys"
  by (induction xs arbitrary: ys) (auto simp: outcome_simps list_all2_Cons1)

text \<open>A loop whose body returns early on an error.\<close>

fun for_each :: "('a \<Rightarrow> (unit, 'e) outcome) \<Rightarrow> 'a list \<Rightarrow> (unit, 'e) outcome" where
  "for_each f [] = Ok ()"
| "for_each f (x # xs) = try_let (f x) (\<lambda>_. for_each f xs)"

lemma for_each_cong [fundef_cong]:
  "xs = ys \<Longrightarrow> (\<And>x. x \<in> set ys \<Longrightarrow> f x = g x) \<Longrightarrow> for_each f xs = for_each g ys"
  by (induction xs arbitrary: ys) auto

lemma for_each_Ok_iff [outcome_simps]: "for_each f xs = Ok () \<longleftrightarrow> (\<forall>x \<in> set xs. f x = Ok ())"
  by (induction xs) (auto simp: outcome_simps)

section \<open>64-bit signed integers\<close>

abbreviation i64_min :: int where "i64_min \<equiv> - 9223372036854775808"
abbreviation i64_max :: int where "i64_max \<equiv> 9223372036854775807"

definition in_i64 :: "int \<Rightarrow> bool" where
  "in_i64 x \<longleftrightarrow> i64_min \<le> x \<and> x \<le> i64_max"

definition i64_fit :: "int \<Rightarrow> int option" where
  "i64_fit x = (if in_i64 x then Some x else None)"

text \<open>
  \<open>checked_add\<close>, \<open>checked_mul\<close> return \<open>None\<close> on overflow; the plain operators
  panic there when overflow checks are on. Both are the same partial function; the plain
  operators also panic on a zero divisor. \<open>sdiv\<close> and \<open>smod\<close> truncate towards zero, as
  Rust's \<open>/\<close> and \<open>%\<close> do.
\<close>

definition i64_add :: "int \<Rightarrow> int \<Rightarrow> int option" where "i64_add a b = i64_fit (a + b)"
definition i64_sub :: "int \<Rightarrow> int \<Rightarrow> int option" where "i64_sub a b = i64_fit (a - b)"
definition i64_mul :: "int \<Rightarrow> int \<Rightarrow> int option" where "i64_mul a b = i64_fit (a * b)"
definition i64_div :: "int \<Rightarrow> int \<Rightarrow> int option" where
  "i64_div a b = (if b = 0 then None else i64_fit (a sdiv b))"
definition i64_rem :: "int \<Rightarrow> int \<Rightarrow> int option" where
  "i64_rem a b = (if b = 0 \<or> (a = i64_min \<and> b = - 1) then None else Some (a smod b))"
definition i64_abs :: "int \<Rightarrow> int option" where "i64_abs a = i64_fit \<bar>a\<bar>"

text \<open>The cast \<open>as i64\<close> of a \<open>u64\<close> value.\<close>

definition u64_as_i64 :: "nat \<Rightarrow> int" where
  "u64_as_i64 n = (if int n \<le> i64_max then int n else int n - 2 ^ 64)"

lemma i64_fit_Some_iff [i64_simps]: "i64_fit x = Some y \<longleftrightarrow> in_i64 x \<and> y = x"
  by (auto simp: i64_fit_def)

lemma i64_fit_None_iff [i64_simps]: "i64_fit x = None \<longleftrightarrow> \<not> in_i64 x"
  by (auto simp: i64_fit_def)

lemmas i64_arith_Some [i64_simps] = i64_add_def i64_sub_def i64_mul_def i64_abs_def

lemma i64_div_Some_iff [i64_simps]:
  "i64_div a b = Some c \<longleftrightarrow> b \<noteq> 0 \<and> in_i64 (a sdiv b) \<and> c = a sdiv b"
  by (auto simp: i64_div_def i64_simps)

lemma i64_rem_Some_iff [i64_simps]:
  "i64_rem a b = Some c \<longleftrightarrow> b \<noteq> 0 \<and> \<not> (a = i64_min \<and> b = - 1) \<and> c = a smod b"
  by (auto simp: i64_rem_def)

lemma sdiv_nonneg: "0 \<le> a \<Longrightarrow> 0 \<le> b \<Longrightarrow> (a::int) sdiv b = a div b"
  by (cases "a = 0"; cases "b = 0") (simp_all add: signed_divide_int_def)

lemma smod_nonneg: "0 \<le> a \<Longrightarrow> 0 \<le> b \<Longrightarrow> (a::int) smod b = a mod b"
  by (simp add: signed_modulo_int_def sgn_if)

lemma in_i64_mono: "in_i64 b \<Longrightarrow> 0 \<le> a \<Longrightarrow> a \<le> b \<Longrightarrow> in_i64 a"
  by (simp add: in_i64_def)

text \<open>Sums and products of a list, folding from the left and stopping at an overflow.\<close>

fun i64_sum_from :: "int \<Rightarrow> int option list \<Rightarrow> int option" where
  "i64_sum_from acc [] = Some acc"
| "i64_sum_from acc (x # xs) = do { v \<leftarrow> x; acc' \<leftarrow> i64_add acc v; i64_sum_from acc' xs }"

fun i64_product_from :: "int \<Rightarrow> int option list \<Rightarrow> int option" where
  "i64_product_from acc [] = Some acc"
| "i64_product_from acc (x # xs) = do { v \<leftarrow> x; acc' \<leftarrow> i64_mul acc v; i64_product_from acc' xs }"

lemma i64_sum_from_SomeD:
  "i64_sum_from acc (map f xs) = Some r \<Longrightarrow>
     (\<forall>x \<in> set xs. f x \<noteq> None) \<and> r = acc + (\<Sum>x\<leftarrow>xs. the (f x))"
  by (induction xs arbitrary: acc) (fastforce simp: i64_simps bind_eq_Some_conv)+

lemma i64_product_from_SomeD:
  "i64_product_from acc (map f xs) = Some r \<Longrightarrow>
     (\<forall>x \<in> set xs. f x \<noteq> None) \<and> r = acc * (\<Prod>x\<leftarrow>xs. the (f x))"
  by (induction xs arbitrary: acc) (fastforce simp: i64_simps bind_eq_Some_conv mult.assoc)+

lemma i64_sum_from_cong [fundef_cong]:
  "acc = acc' \<Longrightarrow> xs = ys \<Longrightarrow> i64_sum_from acc xs = i64_sum_from acc' ys"
  by simp

section \<open>Bytes and strings\<close>

type_synonym byte = "8 word"

definition as_bytes :: "string \<Rightarrow> byte list" where
  "as_bytes = map (\<lambda>c. word_of_nat (of_char c))"

definition string_of_bytes :: "byte list \<Rightarrow> string" where
  "string_of_bytes = map (\<lambda>b. char_of (unat b))"

lemma length_as_bytes [simp]: "length (as_bytes s) = length s"
  by (simp add: as_bytes_def)

lemma string_of_as_bytes [simp]: "string_of_bytes (as_bytes s) = s"
  by (induction s)
     (simp_all add: as_bytes_def string_of_bytes_def unat_of_nat)

lemma as_bytes_Nil_iff [simp]: "as_bytes s = [] \<longleftrightarrow> s = []"
  by (simp add: as_bytes_def)

text \<open>
  UTF-8 as Table 3-7 of the Unicode Standard gives it, which is what
  \<open>core::str::from_utf8\<close> accepts.
\<close>

definition cont_byte :: "byte \<Rightarrow> bool" where
  "cont_byte b \<longleftrightarrow> 0x80 \<le> b \<and> b \<le> 0xBF"

fun utf8_valid :: "byte list \<Rightarrow> bool" where
  "utf8_valid [] = True"
| "utf8_valid (a # r) =
     (if a \<le> 0x7F then utf8_valid r
      else if 0xC2 \<le> a \<and> a \<le> 0xDF then
        (case r of b # r' \<Rightarrow> cont_byte b \<and> utf8_valid r' | _ \<Rightarrow> False)
      else if 0xE0 \<le> a \<and> a \<le> 0xEF then
        (case r of b # c # r' \<Rightarrow>
           (if a = 0xE0 then 0xA0 \<le> b \<and> b \<le> 0xBF
            else if a = 0xED then 0x80 \<le> b \<and> b \<le> 0x9F
            else cont_byte b) \<and> cont_byte c \<and> utf8_valid r'
         | _ \<Rightarrow> False)
      else if 0xF0 \<le> a \<and> a \<le> 0xF4 then
        (case r of b # c # d # r' \<Rightarrow>
           (if a = 0xF0 then 0x90 \<le> b \<and> b \<le> 0xBF
            else if a = 0xF4 then 0x80 \<le> b \<and> b \<le> 0x8F
            else cont_byte b) \<and> cont_byte c \<and> cont_byte d \<and> utf8_valid r'
         | _ \<Rightarrow> False)
      else False)"

text \<open>Every \<open>&str\<close> is valid UTF-8.\<close>

definition valid_str :: "string \<Rightarrow> bool" where
  "valid_str s \<longleftrightarrow> utf8_valid (as_bytes s)"

text \<open>Decimal rendering.\<close>

fun show_nat :: "nat \<Rightarrow> string" where
  "show_nat n = (if n < 10 then [char_of (48 + n)] else show_nat (n div 10) @ [char_of (48 + n mod 10)])"

declare show_nat.simps [simp del]

definition show_int :: "int \<Rightarrow> string" where
  "show_int i = (if i < 0 then CHR ''-'' # show_nat (nat (- i)) else show_nat (nat i))"

section \<open>Slices and little-endian integers\<close>

definition slice :: "'a list \<Rightarrow> nat \<Rightarrow> nat \<Rightarrow> 'a list" where
  "slice xs off n = take n (drop off xs)"

definition splice :: "'a list \<Rightarrow> nat \<Rightarrow> 'a list \<Rightarrow> 'a list" where
  "splice xs off ys = take off xs @ ys @ drop (off + length ys) xs"

lemma length_splice [simp]: "off + length ys \<le> length xs \<Longrightarrow> length (splice xs off ys) = length xs"
  by (simp add: splice_def)

lemma nth_splice:
  "off + length ys \<le> length xs \<Longrightarrow> i < length xs \<Longrightarrow>
     splice xs off ys ! i = (if off \<le> i \<and> i < off + length ys then ys ! (i - off) else xs ! i)"
  by (auto simp: splice_def nth_append min_def)

lemma length_slice: "off + n \<le> length xs \<Longrightarrow> length (slice xs off n) = n"
  by (simp add: slice_def)

lemma nth_slice: "off + n \<le> length xs \<Longrightarrow> i < n \<Longrightarrow> slice xs off n ! i = xs ! (off + i)"
  by (simp add: slice_def)

lemma slice_eqI:
  assumes "off + length ys \<le> length xs" and "\<And>i. i < length ys \<Longrightarrow> xs ! (off + i) = ys ! i"
  shows "slice xs off (length ys) = ys"
  using assms by (auto intro!: nth_equalityI simp: length_slice nth_slice)

lemma slice_splice_same [simp]:
  "off + length ys \<le> length xs \<Longrightarrow> n = length ys \<Longrightarrow> slice (splice xs off ys) off n = ys"
  by (simp add: slice_def splice_def)

fun le_bytes :: "nat \<Rightarrow> nat \<Rightarrow> byte list" where
  "le_bytes 0 x = []"
| "le_bytes (Suc n) x = word_of_nat (x mod 256) # le_bytes n (x div 256)"

fun le_nat :: "byte list \<Rightarrow> nat" where
  "le_nat [] = 0"
| "le_nat (b # bs) = unat b + 256 * le_nat bs"

lemma length_le_bytes [simp]: "length (le_bytes n x) = n"
  by (induction n arbitrary: x) simp_all

lemma le_nat_le_bytes: "le_nat (le_bytes n x) = x mod 256 ^ n"
proof (induction n arbitrary: x)
  case 0
  then show ?case by simp
next
  case (Suc n)
  then show ?case by (simp add: unat_of_nat mod_mult2_eq)
qed

lemma le_nat_bound: "le_nat bs < 256 ^ length bs"
proof (induction bs)
  case Nil
  then show ?case by simp
next
  case (Cons b bs)
  have "unat b < 256" using unsigned_less [of b] by simp
  with Cons show ?case by simp
qed

end
