(* ===== verification/Artifact_Bundle.thy ===== *)
theory Artifact_Bundle
  imports Oxide_Prelude
begin

text \<open>
  The embedded device-artifact container of \<open>cuda-oxide/crates/oxide-artifacts/src/lib.rs\<close>:
  compile-option bits and their sidecar text, the bundle types, the writer
  \<open>build_artifact_blob\<close> and the readers \<open>parse_artifact_blob\<close> and
  \<open>parse_artifact_section\<close>, with every error value and every slice that could panic.
  The compiler writes these blobs into the \<open>.oxart\<close> section of host objects; the host
  runtime reads them back.
\<close>

section \<open>Constants\<close>

definition ARTIFACT_SECTION_NAME :: string where "ARTIFACT_SECTION_NAME = ''.oxart''"
definition ARTIFACT_ANCHOR_SECTION_NAME :: string where "ARTIFACT_ANCHOR_SECTION_NAME = ''.oxlink''"
definition ARTIFACT_MAGIC :: "byte list" where "ARTIFACT_MAGIC = as_bytes ''OXIDEART''"
definition ARTIFACT_VERSION :: "16 word" where "ARTIFACT_VERSION = 2"
definition LEGACY_ARTIFACT_VERSION :: "16 word" where "LEGACY_ARTIFACT_VERSION = 1"

definition HEADER_BYTES :: nat where [simp]: "HEADER_BYTES = 32"
definition PAYLOAD_RECORD_BYTES :: nat where [simp]: "PAYLOAD_RECORD_BYTES = 24"
definition ENTRY_RECORD_BYTES :: nat where [simp]: "ENTRY_RECORD_BYTES = 24"

definition OPTION_NO_FMA_CONTRACTION :: "64 word" where "OPTION_NO_FMA_CONTRACTION = push_bit 0 1"
definition OPTION_DEBUG_LINE_TABLES :: "64 word" where "OPTION_DEBUG_LINE_TABLES = push_bit 1 1"
definition OPTION_DEBUG_FULL :: "64 word" where "OPTION_DEBUG_FULL = push_bit 2 1"
definition OPTION_DEBUG_MASK :: "64 word" where
  "OPTION_DEBUG_MASK = OPTION_DEBUG_LINE_TABLES OR OPTION_DEBUG_FULL"
definition KNOWN_COMPILE_OPTIONS :: "64 word" where
  "KNOWN_COMPILE_OPTIONS = OPTION_NO_FMA_CONTRACTION OR OPTION_DEBUG_MASK"

lemmas option_bits = OPTION_NO_FMA_CONTRACTION_def OPTION_DEBUG_LINE_TABLES_def
  OPTION_DEBUG_FULL_def OPTION_DEBUG_MASK_def KNOWN_COMPILE_OPTIONS_def

abbreviation newline :: string where "newline \<equiv> [char_of (10::nat)]"

definition COMPILE_OPTIONS_SIDECAR_HEADER :: string where
  "COMPILE_OPTIONS_SIDECAR_HEADER = ''cuda-oxide-compile-options-v1''"
definition COMPILE_OPTIONS_FMA_ON :: string where
  "COMPILE_OPTIONS_FMA_ON =
     ''cuda-oxide-compile-options-v1'' @ newline @ ''fma-contraction=on'' @ newline"
definition COMPILE_OPTIONS_FMA_OFF :: string where
  "COMPILE_OPTIONS_FMA_OFF =
     ''cuda-oxide-compile-options-v1'' @ newline @ ''fma-contraction=off'' @ newline"
definition COMPILE_OPTIONS_FMA_ON_LINE_TABLES :: string where
  "COMPILE_OPTIONS_FMA_ON_LINE_TABLES =
     ''cuda-oxide-compile-options-v2'' @ newline @ ''fma-contraction=on'' @ newline @
     ''debug=line-tables'' @ newline"
definition COMPILE_OPTIONS_FMA_OFF_LINE_TABLES :: string where
  "COMPILE_OPTIONS_FMA_OFF_LINE_TABLES =
     ''cuda-oxide-compile-options-v2'' @ newline @ ''fma-contraction=off'' @ newline @
     ''debug=line-tables'' @ newline"
definition COMPILE_OPTIONS_FMA_ON_FULL_DEBUG :: string where
  "COMPILE_OPTIONS_FMA_ON_FULL_DEBUG =
     ''cuda-oxide-compile-options-v2'' @ newline @ ''fma-contraction=on'' @ newline @
     ''debug=full'' @ newline"
definition COMPILE_OPTIONS_FMA_OFF_FULL_DEBUG :: string where
  "COMPILE_OPTIONS_FMA_OFF_FULL_DEBUG =
     ''cuda-oxide-compile-options-v2'' @ newline @ ''fma-contraction=off'' @ newline @
     ''debug=full'' @ newline"

lemmas sidecar_texts = COMPILE_OPTIONS_FMA_ON_def COMPILE_OPTIONS_FMA_OFF_def
  COMPILE_OPTIONS_FMA_ON_LINE_TABLES_def COMPILE_OPTIONS_FMA_OFF_LINE_TABLES_def
  COMPILE_OPTIONS_FMA_ON_FULL_DEBUG_def COMPILE_OPTIONS_FMA_OFF_FULL_DEBUG_def

section \<open>Errors\<close>

datatype ArtifactError =
    TooLarge string
  | EmptyBundleName
  | EmptyTarget
  | EmptyPayloadName
  | EmptyPayload
  | EmptyEntrySymbol
  | Truncated string
  | BadMagic
  | UnsupportedVersion "16 word"
  | UnsupportedCompileOptions "64 word"
  | MalformedCompileOptions string
  | UnsupportedPayloadKind "16 word"
  | UnsupportedEntryKind "16 word"
  | InvalidUtf8 string
  | UnsupportedHostTarget string
  | Object string
  | Malformed string

type_synonym 'a artifact_result = "('a, ArtifactError) outcome"

section \<open>Compile options\<close>

datatype ArtifactDebugPolicy = NoDebug | LineTables | FullDebug

datatype ArtifactCompileOptions = ArtifactCompileOptions (bits: "64 word")

definition options_new :: ArtifactCompileOptions where
  "options_new = ArtifactCompileOptions 0"

definition with_fma_contraction :: "ArtifactCompileOptions \<Rightarrow> bool \<Rightarrow> ArtifactCompileOptions" where
  "with_fma_contraction self enabled =
     (if enabled then ArtifactCompileOptions (bits self AND NOT OPTION_NO_FMA_CONTRACTION)
      else ArtifactCompileOptions (bits self OR OPTION_NO_FMA_CONTRACTION))"

definition fma_contraction_enabled :: "ArtifactCompileOptions \<Rightarrow> bool" where
  "fma_contraction_enabled self \<longleftrightarrow> bits self AND OPTION_NO_FMA_CONTRACTION = 0"

definition with_debug_policy :: "ArtifactCompileOptions \<Rightarrow> ArtifactDebugPolicy \<Rightarrow> ArtifactCompileOptions" where
  "with_debug_policy self policy =
     ArtifactCompileOptions ((bits self AND NOT OPTION_DEBUG_MASK) OR
       (case policy of NoDebug \<Rightarrow> 0 | LineTables \<Rightarrow> OPTION_DEBUG_LINE_TABLES
                     | FullDebug \<Rightarrow> OPTION_DEBUG_FULL))"

definition debug_policy :: "ArtifactCompileOptions \<Rightarrow> ArtifactDebugPolicy" where
  "debug_policy self =
     (let masked = bits self AND OPTION_DEBUG_MASK in
      if masked = OPTION_DEBUG_LINE_TABLES then LineTables
      else if masked = OPTION_DEBUG_FULL then FullDebug
      else NoDebug)"

definition from_bits :: "64 word \<Rightarrow> ArtifactCompileOptions artifact_result" where
  "from_bits b =
     (if b AND NOT KNOWN_COMPILE_OPTIONS \<noteq> 0 \<or> b AND OPTION_DEBUG_MASK = OPTION_DEBUG_MASK
      then Err (UnsupportedCompileOptions b)
      else Ok (ArtifactCompileOptions b))"

definition sidecar_text :: "ArtifactCompileOptions \<Rightarrow> string" where
  "sidecar_text self =
     (case (fma_contraction_enabled self, debug_policy self) of
        (True, NoDebug) \<Rightarrow> COMPILE_OPTIONS_FMA_ON
      | (False, NoDebug) \<Rightarrow> COMPILE_OPTIONS_FMA_OFF
      | (True, LineTables) \<Rightarrow> COMPILE_OPTIONS_FMA_ON_LINE_TABLES
      | (False, LineTables) \<Rightarrow> COMPILE_OPTIONS_FMA_OFF_LINE_TABLES
      | (True, FullDebug) \<Rightarrow> COMPILE_OPTIONS_FMA_ON_FULL_DEBUG
      | (False, FullDebug) \<Rightarrow> COMPILE_OPTIONS_FMA_OFF_FULL_DEBUG)"

definition from_sidecar_text :: "string \<Rightarrow> ArtifactCompileOptions artifact_result" where
  "from_sidecar_text value =
     (if value = COMPILE_OPTIONS_FMA_ON then Ok options_new
      else if value = COMPILE_OPTIONS_FMA_OFF then Ok (with_fma_contraction options_new False)
      else if value = COMPILE_OPTIONS_FMA_ON_LINE_TABLES
        then Ok (with_debug_policy options_new LineTables)
      else if value = COMPILE_OPTIONS_FMA_OFF_LINE_TABLES
        then Ok (with_debug_policy (with_fma_contraction options_new False) LineTables)
      else if value = COMPILE_OPTIONS_FMA_ON_FULL_DEBUG
        then Ok (with_debug_policy options_new FullDebug)
      else if value = COMPILE_OPTIONS_FMA_OFF_FULL_DEBUG
        then Ok (with_debug_policy (with_fma_contraction options_new False) FullDebug)
      else Err (MalformedCompileOptions
        (''expected `'' @ COMPILE_OPTIONS_SIDECAR_HEADER @
         ''` or `cuda-oxide-compile-options-v2` with canonical fma/debug settings'')))"

section \<open>Payload and entry kinds\<close>

datatype ArtifactPayloadKind = Ptx | NvvmIr | Ltoir | Cubin

fun payload_kind_to_u16 :: "ArtifactPayloadKind \<Rightarrow> 16 word" where
  "payload_kind_to_u16 Ptx = 0x100"
| "payload_kind_to_u16 NvvmIr = 0x110"
| "payload_kind_to_u16 Ltoir = 0x120"
| "payload_kind_to_u16 Cubin = 0x200"

definition payload_kind_from_u16 :: "16 word \<Rightarrow> ArtifactPayloadKind option" where
  "payload_kind_from_u16 value =
     (if value = 0x100 then Some Ptx else if value = 0x110 then Some NvvmIr
      else if value = 0x120 then Some Ltoir else if value = 0x200 then Some Cubin else None)"

datatype ArtifactEntryKind = Kernel | DeviceFunction

fun entry_kind_to_u16 :: "ArtifactEntryKind \<Rightarrow> 16 word" where
  "entry_kind_to_u16 Kernel = 1"
| "entry_kind_to_u16 DeviceFunction = 2"

definition entry_kind_from_u16 :: "16 word \<Rightarrow> ArtifactEntryKind option" where
  "entry_kind_from_u16 value =
     (if value = 1 then Some Kernel else if value = 2 then Some DeviceFunction else None)"

section \<open>Bundles\<close>

record ArtifactPayloadSpec =
  ps_kind :: ArtifactPayloadKind
  ps_name :: string
  ps_bytes :: "byte list"

record ArtifactEntrySpec =
  es_symbol :: string
  es_kind :: ArtifactEntryKind
  es_metadata :: "64 word option"

record ArtifactBundleSpec =
  bs_name :: string
  bs_target :: string
  bs_compile_options :: ArtifactCompileOptions
  bs_payloads :: "ArtifactPayloadSpec list"
  bs_entries :: "ArtifactEntrySpec list"

definition entry_spec_new :: "string \<Rightarrow> ArtifactEntryKind \<Rightarrow> ArtifactEntrySpec" where
  "entry_spec_new symbol kind = \<lparr>es_symbol = symbol, es_kind = kind, es_metadata = None\<rparr>"

definition with_metadata :: "ArtifactEntrySpec \<Rightarrow> 64 word \<Rightarrow> ArtifactEntrySpec" where
  "with_metadata self metadata = self\<lparr>es_metadata := Some metadata\<rparr>"

definition bundle_spec_new :: "string \<Rightarrow> string \<Rightarrow> ArtifactBundleSpec" where
  "bundle_spec_new name target =
     \<lparr>bs_name = name, bs_target = target, bs_compile_options = options_new,
      bs_payloads = [], bs_entries = []\<rparr>"

definition with_payload :: "ArtifactBundleSpec \<Rightarrow> ArtifactPayloadSpec \<Rightarrow> ArtifactBundleSpec" where
  "with_payload self payload = self\<lparr>bs_payloads := bs_payloads self @ [payload]\<rparr>"

definition with_compile_options :: "ArtifactBundleSpec \<Rightarrow> ArtifactCompileOptions \<Rightarrow> ArtifactBundleSpec" where
  "with_compile_options self options = self\<lparr>bs_compile_options := options\<rparr>"

definition with_entry :: "ArtifactBundleSpec \<Rightarrow> ArtifactEntrySpec \<Rightarrow> ArtifactBundleSpec" where
  "with_entry self entry = self\<lparr>bs_entries := bs_entries self @ [entry]\<rparr>"

record ArtifactPayload =
  pl_kind :: ArtifactPayloadKind
  pl_name :: string
  pl_bytes :: "byte list"

record ArtifactEntry =
  en_symbol :: string
  en_kind :: ArtifactEntryKind
  en_metadata :: "64 word option"

record ArtifactBundle =
  bu_name :: string
  bu_target :: string
  bu_compile_options :: ArtifactCompileOptions
  bu_payloads :: "ArtifactPayload list"
  bu_entries :: "ArtifactEntry list"

definition bundle_payload :: "ArtifactBundle \<Rightarrow> ArtifactPayloadKind \<Rightarrow> byte list option" where
  "bundle_payload self kind =
     map_option pl_bytes (find (\<lambda>payload. pl_kind payload = kind) (bu_payloads self))"

definition bundle_entry :: "ArtifactBundle \<Rightarrow> string \<Rightarrow> ArtifactEntry option" where
  "bundle_entry self symbol = find (\<lambda>entry. en_symbol entry = symbol) (bu_entries self)"

section \<open>Byte-level helpers\<close>

definition checked_u16 :: "nat \<Rightarrow> string \<Rightarrow> (16 word) artifact_result" where
  "checked_u16 value field = (if value < 2 ^ 16 then Ok (word_of_nat value) else Err (TooLarge field))"

definition checked_u32 :: "nat \<Rightarrow> string \<Rightarrow> (32 word) artifact_result" where
  "checked_u32 value field = (if value < 2 ^ 32 then Ok (word_of_nat value) else Err (TooLarge field))"

definition push_bytes :: "byte list \<Rightarrow> byte list \<Rightarrow> byte list" where
  "push_bytes out bytes = out @ bytes"

definition align_vec :: "byte list \<Rightarrow> nat \<Rightarrow> byte list" where
  "align_vec out alignment =
     (let rem = length out mod alignment in
      if rem \<noteq> 0 then out @ replicate (alignment - rem) 0 else out)"

definition read_slice :: "byte list \<Rightarrow> nat \<Rightarrow> nat \<Rightarrow> string \<Rightarrow> byte list artifact_result" where
  "read_slice bytes offset len field =
     (if offset + len \<ge> 2 ^ 64 then Err (TooLarge field)
      else if offset + len \<le> length bytes then Ok (slice bytes offset len)
      else Err (Truncated field))"

definition read_str :: "byte list \<Rightarrow> nat \<Rightarrow> nat \<Rightarrow> string \<Rightarrow> string artifact_result" where
  "read_str bytes offset len field =
     try_let (read_slice bytes offset len field) (\<lambda>bytes.
       if utf8_valid bytes then Ok (string_of_bytes bytes) else Err (InvalidUtf8 field))"

definition require_len :: "byte list \<Rightarrow> nat \<Rightarrow> string \<Rightarrow> unit artifact_result" where
  "require_len bytes len field = (if length bytes < len then Err (Truncated field) else Ok ())"

text \<open>The array \<open>[bytes[0], .., bytes[n - 1]]\<close> handed to \<open>from_le_bytes\<close>: an index out of range
  panics.\<close>

definition leading_bytes :: "nat \<Rightarrow> byte list \<Rightarrow> byte list artifact_result" where
  "leading_bytes n bytes = (if n \<le> length bytes then Ok (take n bytes) else Panic)"

definition read_u16 :: "byte list \<Rightarrow> nat \<Rightarrow> (16 word) artifact_result" where
  "read_u16 bytes offset =
     try_let (read_slice bytes offset 2 ''u16'') (\<lambda>b.
     try_let (leading_bytes 2 b) (\<lambda>b. Ok (word_of_nat (le_nat b))))"

definition read_u32 :: "byte list \<Rightarrow> nat \<Rightarrow> (32 word) artifact_result" where
  "read_u32 bytes offset =
     try_let (read_slice bytes offset 4 ''u32'') (\<lambda>b.
     try_let (leading_bytes 4 b) (\<lambda>b. Ok (word_of_nat (le_nat b))))"

definition read_u64 :: "byte list \<Rightarrow> nat \<Rightarrow> (64 word) artifact_result" where
  "read_u64 bytes offset =
     try_let (read_slice bytes offset 8 ''u64'') (\<lambda>b.
     try_let (leading_bytes 8 b) (\<lambda>b. Ok (word_of_nat (le_nat b))))"

text \<open>The slice \<open>bytes[a..b]\<close> panics when the range is not inside.\<close>

definition index_range :: "byte list \<Rightarrow> nat \<Rightarrow> nat \<Rightarrow> byte list artifact_result" where
  "index_range bytes a b = (if a \<le> b \<and> b \<le> length bytes then Ok (slice bytes a (b - a)) else Panic)"

text \<open>\<open>out[offset..offset + n].copy_from_slice(..)\<close> panics when the range is not inside.\<close>

definition write_at :: "byte list \<Rightarrow> nat \<Rightarrow> byte list \<Rightarrow> byte list artifact_result" where
  "write_at out offset bs = (if offset + length bs \<le> length out then Ok (splice out offset bs) else Panic)"

definition write_u16 :: "byte list \<Rightarrow> nat \<Rightarrow> 16 word \<Rightarrow> byte list artifact_result" where
  "write_u16 out offset value = write_at out offset (le_bytes 2 (unat value))"

definition write_u32 :: "byte list \<Rightarrow> nat \<Rightarrow> 32 word \<Rightarrow> byte list artifact_result" where
  "write_u32 out offset value = write_at out offset (le_bytes 4 (unat value))"

definition write_u64 :: "byte list \<Rightarrow> nat \<Rightarrow> 64 word \<Rightarrow> byte list artifact_result" where
  "write_u64 out offset value = write_at out offset (le_bytes 8 (unat value))"

section \<open>The writer\<close>

fun validate_payloads :: "ArtifactPayloadSpec list \<Rightarrow> unit artifact_result" where
  "validate_payloads [] = Ok ()"
| "validate_payloads (payload # rest) =
     (if ps_name payload = [] then Err EmptyPayloadName
      else if ps_bytes payload = [] then Err EmptyPayload
      else validate_payloads rest)"

fun validate_entries :: "ArtifactEntrySpec list \<Rightarrow> unit artifact_result" where
  "validate_entries [] = Ok ()"
| "validate_entries (entry # rest) =
     (if es_symbol entry = [] then Err EmptyEntrySymbol else validate_entries rest)"

definition validate_spec :: "ArtifactBundleSpec \<Rightarrow> unit artifact_result" where
  "validate_spec spec =
     (if bs_name spec = [] then Err EmptyBundleName
      else if bs_target spec = [] then Err EmptyTarget
      else if bs_payloads spec = [] then Err EmptyPayload
      else try_let (validate_payloads (bs_payloads spec)) (\<lambda>_. validate_entries (bs_entries spec)))"

text \<open>One turn of the payload loop of \<open>build_artifact_blob\<close>, and the loop.\<close>

definition build_payload ::
    "nat \<Rightarrow> nat \<Rightarrow> ArtifactPayloadSpec \<Rightarrow> byte list \<Rightarrow> byte list artifact_result" where
  "build_payload payload_record_start index payload out =
     try_let (checked_u32 (length out) ''payload name offset'') (\<lambda>name_offset.
     let out = align_vec (push_bytes out (as_bytes (ps_name payload))) 8 in
     try_let (checked_u32 (length out) ''payload data offset'') (\<lambda>data_offset.
     let out = align_vec (push_bytes out (ps_bytes payload)) 8;
         record = payload_record_start + index * PAYLOAD_RECORD_BYTES in
     try_let (write_u16 out record (payload_kind_to_u16 (ps_kind payload))) (\<lambda>out.
     try_let (write_u16 out (record + 2) 0) (\<lambda>out.
     try_let (write_u32 out (record + 4) data_offset) (\<lambda>out.
     try_let (checked_u32 (length (ps_bytes payload)) ''payload length'') (\<lambda>data_len.
     try_let (write_u32 out (record + 8) data_len) (\<lambda>out.
     try_let (write_u32 out (record + 12) name_offset) (\<lambda>out.
     try_let (checked_u16 (length (ps_name payload)) ''payload name length'') (\<lambda>name_len.
     write_u16 out (record + 16) name_len)))))))))"

fun build_payloads ::
    "nat \<Rightarrow> nat \<Rightarrow> ArtifactPayloadSpec list \<Rightarrow> byte list \<Rightarrow> byte list artifact_result" where
  "build_payloads start index [] out = Ok out"
| "build_payloads start index (payload # rest) out =
     try_let (build_payload start index payload out) (build_payloads start (Suc index) rest)"

definition build_entry ::
    "nat \<Rightarrow> nat \<Rightarrow> ArtifactEntrySpec \<Rightarrow> byte list \<Rightarrow> byte list artifact_result" where
  "build_entry entry_record_start index entry out =
     try_let (checked_u32 (length out) ''entry symbol offset'') (\<lambda>symbol_offset.
     let out = align_vec (push_bytes out (as_bytes (es_symbol entry))) 8;
         record = entry_record_start + index * ENTRY_RECORD_BYTES in
     try_let (write_u16 out record (entry_kind_to_u16 (es_kind entry))) (\<lambda>out.
     try_let (write_u16 out (record + 2) (if es_metadata entry \<noteq> None then 1 else 0)) (\<lambda>out.
     try_let (write_u64 out (record + 4) (case es_metadata entry of Some m \<Rightarrow> m | None \<Rightarrow> 0)) (\<lambda>out.
     try_let (write_u32 out (record + 12) symbol_offset) (\<lambda>out.
     try_let (checked_u16 (length (es_symbol entry)) ''entry symbol length'') (\<lambda>symbol_len.
     write_u16 out (record + 16) symbol_len))))))"

fun build_entries ::
    "nat \<Rightarrow> nat \<Rightarrow> ArtifactEntrySpec list \<Rightarrow> byte list \<Rightarrow> byte list artifact_result" where
  "build_entries start index [] out = Ok out"
| "build_entries start index (entry # rest) out =
     try_let (build_entry start index entry out) (build_entries start (Suc index) rest)"

definition blob_version :: "ArtifactCompileOptions \<Rightarrow> 16 word" where
  "blob_version options = (if options = options_new then LEGACY_ARTIFACT_VERSION else ARTIFACT_VERSION)"

definition build_header :: "ArtifactBundleSpec \<Rightarrow> byte list \<Rightarrow> byte list artifact_result" where
  "build_header spec out =
     try_let (checked_u32 (length out) ''total length'') (\<lambda>total_len.
     try_let (write_at out 0 ARTIFACT_MAGIC) (\<lambda>out.
     try_let (write_u16 out 8 (blob_version (bs_compile_options spec))) (\<lambda>out.
     try_let (write_u16 out 10 (word_of_nat HEADER_BYTES)) (\<lambda>out.
     try_let (write_u32 out 12 total_len) (\<lambda>out.
     try_let (checked_u16 (length (bs_name spec)) ''name length'') (\<lambda>name_len.
     try_let (write_u16 out 16 name_len) (\<lambda>out.
     try_let (checked_u16 (length (bs_target spec)) ''target length'') (\<lambda>target_len.
     try_let (write_u16 out 18 target_len) (\<lambda>out.
     try_let (checked_u16 (length (bs_payloads spec)) ''payload count'') (\<lambda>payload_count.
     try_let (write_u16 out 20 payload_count) (\<lambda>out.
     try_let (checked_u16 (length (bs_entries spec)) ''entry count'') (\<lambda>entry_count.
     try_let (write_u16 out 22 entry_count) (\<lambda>out.
     write_u64 out 24 (bits (bs_compile_options spec)))))))))))))))"

definition build_artifact_blob :: "ArtifactBundleSpec \<Rightarrow> byte list artifact_result" where
  "build_artifact_blob spec =
     try_let (validate_spec spec) (\<lambda>_.
     let out = replicate HEADER_BYTES 0;
         out = push_bytes out (as_bytes (bs_name spec));
         out = push_bytes out (as_bytes (bs_target spec));
         payload_record_start = length out;
         out = out @ replicate (length (bs_payloads spec) * PAYLOAD_RECORD_BYTES) 0;
         entry_record_start = length out;
         out = out @ replicate (length (bs_entries spec) * ENTRY_RECORD_BYTES) 0 in
     try_let (build_payloads payload_record_start 0 (bs_payloads spec) out) (\<lambda>out.
     try_let (build_entries entry_record_start 0 (bs_entries spec) out) (\<lambda>out.
     build_header spec out)))"

section \<open>The reader\<close>

definition parse_payload :: "byte list \<Rightarrow> nat \<Rightarrow> ArtifactPayload artifact_result" where
  "parse_payload bytes record =
     try_let (read_u16 bytes record) (\<lambda>kind_raw.
     try_let (ok_or (payload_kind_from_u16 kind_raw) (UnsupportedPayloadKind kind_raw)) (\<lambda>kind.
     try_let (read_u32 bytes (record + 4)) (\<lambda>data_offset.
     try_let (read_u32 bytes (record + 8)) (\<lambda>data_len.
     try_let (read_u32 bytes (record + 12)) (\<lambda>name_offset.
     try_let (read_u16 bytes (record + 16)) (\<lambda>name_len.
     try_let (read_str bytes (unat name_offset) (unat name_len) ''payload name'') (\<lambda>name.
     try_let (read_slice bytes (unat data_offset) (unat data_len) ''payload data'') (\<lambda>data.
     Ok \<lparr>pl_kind = kind, pl_name = name, pl_bytes = data\<rparr>))))))))"

fun parse_payloads :: "byte list \<Rightarrow> nat \<Rightarrow> nat \<Rightarrow> nat \<Rightarrow> ArtifactPayload list artifact_result" where
  "parse_payloads bytes payload_records index 0 = Ok []"
| "parse_payloads bytes payload_records index (Suc n) =
     try_let (parse_payload bytes (payload_records + index * PAYLOAD_RECORD_BYTES)) (\<lambda>p.
     try_let (parse_payloads bytes payload_records (Suc index) n) (\<lambda>ps. Ok (p # ps)))"

definition parse_entry :: "byte list \<Rightarrow> nat \<Rightarrow> ArtifactEntry artifact_result" where
  "parse_entry bytes record =
     try_let (read_u16 bytes record) (\<lambda>kind_raw.
     try_let (ok_or (entry_kind_from_u16 kind_raw) (UnsupportedEntryKind kind_raw)) (\<lambda>kind.
     try_let (read_u16 bytes (record + 2)) (\<lambda>flags.
     try_let (if flags AND 1 \<noteq> 0
              then try_let (read_u64 bytes (record + 4)) (\<lambda>m. Ok (Some m)) else Ok None) (\<lambda>metadata.
     try_let (read_u32 bytes (record + 12)) (\<lambda>symbol_offset.
     try_let (read_u16 bytes (record + 16)) (\<lambda>symbol_len.
     try_let (read_str bytes (unat symbol_offset) (unat symbol_len) ''entry symbol'') (\<lambda>symbol.
     Ok \<lparr>en_symbol = symbol, en_kind = kind, en_metadata = metadata\<rparr>)))))))"

fun parse_entries :: "byte list \<Rightarrow> nat \<Rightarrow> nat \<Rightarrow> nat \<Rightarrow> ArtifactEntry list artifact_result" where
  "parse_entries bytes entry_records index 0 = Ok []"
| "parse_entries bytes entry_records index (Suc n) =
     try_let (parse_entry bytes (entry_records + index * ENTRY_RECORD_BYTES)) (\<lambda>e.
     try_let (parse_entries bytes entry_records (Suc index) n) (\<lambda>es. Ok (e # es)))"

text \<open>
  \<open>cursor.checked_add(count * RECORD_BYTES)\<close>: the product of a 16-bit count and 24 fits in
  \<open>usize\<close>; the sum is tested against \<open>2 ^ 64\<close>.
\<close>

definition usize_checked_add :: "nat \<Rightarrow> nat \<Rightarrow> nat option" where
  "usize_checked_add a b = (if a + b < 2 ^ 64 then Some (a + b) else None)"

text \<open>The part of \<open>parse_artifact_blob\<close> after the header tests, on the trimmed blob.\<close>

definition parse_artifact_body :: "byte list \<Rightarrow> 16 word \<Rightarrow> ArtifactBundle artifact_result" where
  "parse_artifact_body bytes version =
     try_let (read_u16 bytes 16) (\<lambda>name_len.
     try_let (read_u16 bytes 18) (\<lambda>target_len.
     try_let (read_u16 bytes 20) (\<lambda>payload_count.
     try_let (read_u16 bytes 22) (\<lambda>entry_count.
     try_let (if version = LEGACY_ARTIFACT_VERSION then Ok options_new
              else try_let (read_u64 bytes 24) from_bits) (\<lambda>compile_options.
     let cursor = HEADER_BYTES in
     try_let (read_str bytes cursor (unat name_len) ''bundle name'') (\<lambda>name.
     let cursor = cursor + unat name_len in
     try_let (read_str bytes cursor (unat target_len) ''target'') (\<lambda>target.
     let cursor = cursor + unat target_len; payload_records = cursor in
     try_let (ok_or (usize_checked_add cursor (unat payload_count * PAYLOAD_RECORD_BYTES))
                (TooLarge ''payload records'')) (\<lambda>cursor.
     try_let (require_len bytes cursor ''payload records'') (\<lambda>_.
     let entry_records = cursor in
     try_let (ok_or (usize_checked_add cursor (unat entry_count * ENTRY_RECORD_BYTES))
                (TooLarge ''entry records'')) (\<lambda>cursor.
     try_let (require_len bytes cursor ''entry records'') (\<lambda>_.
     try_let (parse_payloads bytes payload_records 0 (unat payload_count)) (\<lambda>payloads.
     try_let (parse_entries bytes entry_records 0 (unat entry_count)) (\<lambda>entries.
     Ok \<lparr>bu_name = name, bu_target = target, bu_compile_options = compile_options,
         bu_payloads = payloads, bu_entries = entries\<rparr>)))))))))))))"

definition parse_artifact_blob :: "byte list \<Rightarrow> ArtifactBundle artifact_result" where
  "parse_artifact_blob bytes =
     try_let (require_len bytes HEADER_BYTES ''header'') (\<lambda>_.
     try_let (index_range bytes 0 8) (\<lambda>magic.
     if magic \<noteq> ARTIFACT_MAGIC then Err BadMagic else
     try_let (read_u16 bytes 8) (\<lambda>version.
     if version \<noteq> LEGACY_ARTIFACT_VERSION \<and> version \<noteq> ARTIFACT_VERSION
     then Err (UnsupportedVersion version) else
     try_let (read_u16 bytes 10) (\<lambda>header_len.
     if unat header_len \<noteq> HEADER_BYTES
     then Err (Malformed (''unsupported embedded artifact header length '' @ show_nat (unat header_len)))
     else
     try_let (read_u32 bytes 12) (\<lambda>total_len.
     if unat total_len < HEADER_BYTES
     then Err (Malformed (''embedded artifact length '' @ show_nat (unat total_len) @
                          '' is smaller than the header''))
     else if unat total_len > length bytes then Err (Truncated ''blob'')
     else try_let (index_range bytes 0 (unat total_len)) (\<lambda>bytes. parse_artifact_body bytes version))))))"

definition artifact_blob_total_len :: "byte list \<Rightarrow> nat artifact_result" where
  "artifact_blob_total_len bytes =
     try_let (require_len bytes HEADER_BYTES ''header'') (\<lambda>_.
     try_let (index_range bytes 0 8) (\<lambda>magic.
     if magic \<noteq> ARTIFACT_MAGIC then Err BadMagic else
     try_let (read_u32 bytes 12) (\<lambda>total_len.
     if unat total_len < HEADER_BYTES
     then Err (Malformed (''embedded artifact length '' @ show_nat (unat total_len) @
                          '' is smaller than the header''))
     else if unat total_len > length bytes then Err (Truncated ''blob'')
     else Ok (unat total_len))))"

lemma artifact_blob_total_len_bounds:
  assumes "artifact_blob_total_len bytes = Ok n"
  shows "32 \<le> n" and "n \<le> length bytes"
  using assms by (auto simp: artifact_blob_total_len_def outcome_simps split: if_splits)

text \<open>
  The section loop. Each turn consumes at least the header, so it ends; \<open>split_at\<close> panics
  past the end of the slice.
\<close>

definition split_at :: "byte list \<Rightarrow> nat \<Rightarrow> (byte list \<times> byte list) artifact_result" where
  "split_at bytes n = (if n \<le> length bytes then Ok (take n bytes, drop n bytes) else Panic)"

function parse_artifact_section :: "byte list \<Rightarrow> ArtifactBundle list artifact_result" where
  "parse_artifact_section bytes =
     (if bytes = [] then Ok []
      else if list_all (\<lambda>byte. byte = 0) bytes then Ok []
      else try_let (artifact_blob_total_len bytes) (\<lambda>total_len.
           try_let (split_at bytes total_len) (\<lambda>(blob, rest).
           try_let (parse_artifact_blob blob) (\<lambda>bundle.
           try_let (parse_artifact_section rest) (\<lambda>bundles. Ok (bundle # bundles))))))"
  by pat_completeness auto
termination
proof (relation "measure length")
  fix bytes total_len x blob rest
  assume nonempty: "bytes \<noteq> []" and len: "artifact_blob_total_len bytes = Ok total_len"
    and split: "split_at bytes total_len = Ok x" and x: "(blob, rest) = x"
  have "32 \<le> total_len" using len by (rule artifact_blob_total_len_bounds)
  moreover have "rest = drop total_len bytes"
    using split x by (auto simp: split_at_def split: if_splits)
  ultimately show "(rest, bytes) \<in> measure length" using nonempty by simp
qed simp

declare parse_artifact_section.simps [simp del]

end
