(* ===== verification/Artifact_Roundtrip.thy ===== *)
theory Artifact_Roundtrip
  imports Artifact_Bundle
begin

text \<open>
  Correctness of the artifact container. The buffer the writer fills is described by what may
  be read from it: \<open>unchanged_outside\<close> relates a buffer to a later one that differs in one
  window only, \<open>stored\<close> says that a byte string sits at an offset. The locale \<open>wire_int\<close>
  is the contract of a fixed-width little-endian integer; it is interpreted for the three
  widths the format uses, and the record and header lemmas rest on it.
\<close>

section \<open>Buffers\<close>

definition unchanged_outside :: "nat \<Rightarrow> nat \<Rightarrow> byte list \<Rightarrow> byte list \<Rightarrow> bool" where
  "unchanged_outside a b xs ys \<longleftrightarrow>
     length xs \<le> length ys \<and> (\<forall>i < length xs. i < a \<or> b \<le> i \<longrightarrow> ys ! i = xs ! i)"

definition stored :: "byte list \<Rightarrow> nat \<Rightarrow> byte list \<Rightarrow> bool" where
  "stored out off bs \<longleftrightarrow> off + length bs \<le> length out \<and> slice out off (length bs) = bs"

lemma unchanged_outside_refl [simp]: "unchanged_outside a b xs xs"
  by (simp add: unchanged_outside_def)

lemma unchanged_outside_append [simp]: "unchanged_outside a b xs (xs @ ys)"
  by (simp add: unchanged_outside_def nth_append)

lemma unchanged_outside_length: "unchanged_outside a b xs ys \<Longrightarrow> length xs \<le> length ys"
  by (simp add: unchanged_outside_def)

lemma unchanged_outside_widen:
  "unchanged_outside a b xs ys \<Longrightarrow> a' \<le> a \<Longrightarrow> b \<le> b' \<Longrightarrow> unchanged_outside a' b' xs ys"
  by (auto simp: unchanged_outside_def)

lemma unchanged_outside_trans [trans]:
  "unchanged_outside a b xs ys \<Longrightarrow> unchanged_outside a b ys zs \<Longrightarrow> unchanged_outside a b xs zs"
  by (auto simp: unchanged_outside_def)

lemma unchanged_outside_splice:
  "off + length ys \<le> length xs \<Longrightarrow> unchanged_outside off (off + length ys) xs (splice xs off ys)"
  by (auto simp: unchanged_outside_def nth_splice)

lemma unchanged_outside_align: "unchanged_outside a b out (align_vec (push_bytes out bs) k)"
  by (simp add: align_vec_def push_bytes_def Let_def)

lemma slice_unchanged:
  assumes "unchanged_outside a b xs ys" and "off + n \<le> length xs"
    and "n = 0 \<or> off + n \<le> a \<or> b \<le> off"
  shows "slice ys off n = slice xs off n"
proof (rule nth_equalityI)
  have ys: "off + n \<le> length ys" using assms(1,2) by (auto simp: unchanged_outside_def)
  then show "length (slice ys off n) = length (slice xs off n)"
    using assms(2) by (simp add: length_slice)
  fix i assume "i < length (slice ys off n)"
  then have i: "i < n" using ys by (simp add: length_slice)
  then have "ys ! (off + i) = xs ! (off + i)"
    using assms by (auto simp: unchanged_outside_def)
  then show "slice ys off n ! i = slice xs off n ! i"
    using i ys assms(2) by (simp add: nth_slice)
qed

lemma stored_unchanged:
  assumes "stored xs off bs" and "unchanged_outside a b xs ys"
    and "off + length bs \<le> a \<or> b \<le> off"
  shows "stored ys off bs"
  using assms slice_unchanged [OF assms(2), of off "length bs"]
  by (auto simp: stored_def unchanged_outside_def)

lemma stored_push: "stored (align_vec (push_bytes out bs) k) (length out) bs"
  by (simp add: stored_def align_vec_def push_bytes_def Let_def slice_def)

lemma read_slice_stored:
  "stored out off bs \<Longrightarrow> length out < 2 ^ 64 \<Longrightarrow> read_slice out off (length bs) f = Ok bs"
  by (simp add: stored_def read_slice_def)

lemma read_slice_stored_len:
  "stored out off bs \<Longrightarrow> length out < 2 ^ 64 \<Longrightarrow> n = length bs \<Longrightarrow> read_slice out off n f = Ok bs"
  by (simp add: read_slice_stored)

lemma read_str_stored:
  "stored out off (as_bytes s) \<Longrightarrow> length out < 2 ^ 64 \<Longrightarrow> valid_str s \<Longrightarrow> n = length s \<Longrightarrow>
     read_str out off n f = Ok s"
  by (simp add: read_str_def read_slice_stored_len valid_str_def)

section \<open>Fixed-width integers of the wire format\<close>

locale wire_int =
  fixes width :: nat
    and put :: "byte list \<Rightarrow> nat \<Rightarrow> 'v \<Rightarrow> byte list artifact_result"
    and fetch :: "byte list \<Rightarrow> nat \<Rightarrow> 'v artifact_result"
    and encode :: "'v \<Rightarrow> byte list"
  assumes width_encode: "length (encode v) = width"
    and put_encode: "put out off v = write_at out off (encode v)"
    and fetch_stored: "stored out off (encode v) \<Longrightarrow> length out < 2 ^ 64 \<Longrightarrow> fetch out off = Ok v"
begin

lemma put_panics_iff: "put out off v = Panic \<longleftrightarrow> length out < off + width"
  by (simp add: put_encode write_at_def width_encode)

lemma put_never_errs: "put out off v \<noteq> Err e"
  by (simp add: put_encode write_at_def)

lemma put_effect:
  assumes "put out off v = Ok out'"
  shows "length out' = length out" and "off + width \<le> length out"
    and "unchanged_outside off (off + width) out out'" and "stored out' off (encode v)"
  using assms unchanged_outside_splice [of off "encode v" out]
  by (auto simp: put_encode write_at_def width_encode stored_def split: if_splits)

end

lemma stored_le_bytes_word:
  assumes "stored out off (le_bytes n (unat v))" and "length out < 2 ^ 64"
    and "LENGTH('a::len) = 8 * n"
  shows "try_let (read_slice out off n f) (\<lambda>b. try_let (leading_bytes n b) (\<lambda>b. Ok (word_of_nat (le_nat b)))) = Ok (v :: 'a word)"
proof -
  have bound: "unat v < 256 ^ n"
    using unsigned_less [of v] assms(3) by (simp add: power_mult)
  show ?thesis
    using assms(1,2) bound by (simp add: read_slice_stored_len le_nat_le_bytes leading_bytes_def)
qed

interpretation w16: wire_int 2 write_u16 read_u16 "\<lambda>v. le_bytes 2 (unat v)"
  by unfold_locales (simp_all add: write_u16_def read_u16_def stored_le_bytes_word)

interpretation w32: wire_int 4 write_u32 read_u32 "\<lambda>v. le_bytes 4 (unat v)"
  by unfold_locales (simp_all add: write_u32_def read_u32_def stored_le_bytes_word)

interpretation w64: wire_int 8 write_u64 read_u64 "\<lambda>v. le_bytes 8 (unat v)"
  by unfold_locales (simp_all add: write_u64_def read_u64_def stored_le_bytes_word)

lemmas write_lengths = w16.put_effect(1) w32.put_effect(1) w64.put_effect(1)
lemmas write_windows = w16.put_effect(3) w32.put_effect(3) w64.put_effect(3)
lemmas write_stores = w16.put_effect(4) w32.put_effect(4) w64.put_effect(4)
lemmas stored_reads = w16.fetch_stored w32.fetch_stored w64.fetch_stored
lemmas write_panics = w16.put_panics_iff w32.put_panics_iff w64.put_panics_iff

lemma checked_u16_Ok_iff [outcome_simps]:
  "checked_u16 n f = Ok w \<longleftrightarrow> n < 2 ^ 16 \<and> unat w = n"
  by (auto simp: checked_u16_def unat_of_nat word_unat_eq_iff)

lemma checked_u32_Ok_iff [outcome_simps]:
  "checked_u32 n f = Ok w \<longleftrightarrow> n < 2 ^ 32 \<and> unat w = n"
  by (auto simp: checked_u32_def unat_of_nat word_unat_eq_iff)

lemma checked_not_Panic [outcome_simps]: "checked_u16 n f \<noteq> Panic" "checked_u32 n f \<noteq> Panic"
  by (auto simp: checked_u16_def checked_u32_def)

lemma length_align_push: "length out \<le> length (align_vec (push_bytes out bs) k)"
  by (simp add: align_vec_def push_bytes_def Let_def)

section \<open>Sequences of field writes\<close>

text \<open>
  A record or header is filled by writes at ascending offsets. \<open>fields lo ws hi\<close> says that the
  fields lie one after the other inside the window from \<open>lo\<close> to \<open>hi\<close>.
\<close>

fun put_all :: "byte list \<Rightarrow> (nat \<times> byte list) list \<Rightarrow> byte list" where
  "put_all out [] = out"
| "put_all out ((off, bs) # ws) = put_all (splice out off bs) ws"

fun fields :: "nat \<Rightarrow> (nat \<times> byte list) list \<Rightarrow> nat \<Rightarrow> bool" where
  "fields lo [] hi \<longleftrightarrow> lo \<le> hi"
| "fields lo ((off, bs) # ws) hi \<longleftrightarrow> lo \<le> off \<and> fields (off + length bs) ws hi"

lemma fields_le: "fields lo ws hi \<Longrightarrow> lo \<le> hi"
  by (induction ws arbitrary: lo) fastforce+

lemma put_all_effect:
  assumes "fields lo ws hi" and "hi \<le> length out"
  shows "unchanged_outside lo hi out (put_all out ws) \<and> length (put_all out ws) = length out \<and>
         (\<forall>(off, bs) \<in> set ws. stored (put_all out ws) off bs)"
  using assms
proof (induction ws arbitrary: lo out)
  case Nil
  then show ?case by simp
next
  case (Cons w ws)
  obtain off bs where w: "w = (off, bs)" by (cases w)
  let ?out = "splice out off bs"
  have rest: "fields (off + length bs) ws hi" and lo: "lo \<le> off"
    using Cons.prems(1) w by simp_all
  have inside: "off + length bs \<le> length out" "off + length bs \<le> hi"
    using fields_le [OF rest] Cons.prems(2) by simp_all
  have win: "unchanged_outside off (off + length bs) out ?out" and len: "length ?out = length out"
    using inside unchanged_outside_splice by simp_all
  have ih: "unchanged_outside (off + length bs) hi ?out (put_all ?out ws)"
      "length (put_all ?out ws) = length out" "\<forall>(o', b) \<in> set ws. stored (put_all ?out ws) o' b"
    using Cons.IH [OF rest, of ?out] Cons.prems(2) len by simp_all
  have here: "stored (put_all ?out ws) off bs"
    by (rule stored_unchanged [OF _ ih(1)]) (use inside in \<open>simp_all add: stored_def\<close>)
  have "unchanged_outside lo hi out (put_all ?out ws)"
    by (rule unchanged_outside_trans [OF unchanged_outside_widen [OF win] unchanged_outside_widen [OF ih(1)]])
       (use lo inside in simp_all)
  with ih here w show ?case by simp
qed

lemmas put_all_unchanged = put_all_effect [THEN conjunct1]
lemmas length_put_all = put_all_effect [THEN conjunct2, THEN conjunct1]

lemma put_all_stored:
  "fields lo ws hi \<Longrightarrow> hi \<le> length out \<Longrightarrow> (off, bs) \<in> set ws \<Longrightarrow> stored (put_all out ws) off bs"
  using put_all_effect by blast

text \<open>A chain of \<open>try_let\<close>s over the write operations, read as one \<open>put_all\<close>.\<close>

lemma write_Ok_iff [outcome_simps]:
  "write_at out off bs = Ok out' \<longleftrightarrow> off + length bs \<le> length out \<and> out' = splice out off bs"
  "write_u16 out off v = Ok out' \<longleftrightarrow> off + 2 \<le> length out \<and> out' = splice out off (le_bytes 2 (unat v))"
  "write_u32 out off w = Ok out' \<longleftrightarrow> off + 4 \<le> length out \<and> out' = splice out off (le_bytes 4 (unat w))"
  "write_u64 out off x = Ok out' \<longleftrightarrow> off + 8 \<le> length out \<and> out' = splice out off (le_bytes 8 (unat x))"
  by (auto simp: write_at_def write_u16_def write_u32_def write_u64_def)

section \<open>Payload records\<close>

definition payload_of_spec :: "ArtifactPayloadSpec \<Rightarrow> ArtifactPayload" where
  "payload_of_spec p = \<lparr>pl_kind = ps_kind p, pl_name = ps_name p, pl_bytes = ps_bytes p\<rparr>"

text \<open>The record at \<open>record\<close> describes \<open>p\<close>, whose strings lie at or above \<open>lo\<close>.\<close>

definition payload_stored_with ::
    "byte list \<Rightarrow> nat \<Rightarrow> nat \<Rightarrow> ArtifactPayloadSpec \<Rightarrow> 32 word \<Rightarrow> 32 word \<Rightarrow> 32 word \<Rightarrow> 16 word \<Rightarrow> bool" where
  "payload_stored_with out lo record p doff dlen noff nlen \<longleftrightarrow>
     stored out record (le_bytes 2 (unat (payload_kind_to_u16 (ps_kind p)))) \<and>
     stored out (record + 4) (le_bytes 4 (unat doff)) \<and>
     stored out (record + 8) (le_bytes 4 (unat dlen)) \<and>
     stored out (record + 12) (le_bytes 4 (unat noff)) \<and>
     stored out (record + 16) (le_bytes 2 (unat nlen)) \<and>
     length (ps_bytes p) = unat dlen \<and> length (ps_name p) = unat nlen \<and>
     lo \<le> unat doff \<and> stored out (unat doff) (ps_bytes p) \<and>
     lo \<le> unat noff \<and> stored out (unat noff) (as_bytes (ps_name p))"

definition payload_stored :: "byte list \<Rightarrow> nat \<Rightarrow> nat \<Rightarrow> ArtifactPayloadSpec \<Rightarrow> bool" where
  "payload_stored out lo record p \<longleftrightarrow>
     (\<exists>doff dlen noff nlen. payload_stored_with out lo record p doff dlen noff nlen)"

lemma payload_stored_unchanged:
  assumes "payload_stored xs lo record p" and "unchanged_outside a b xs ys"
    and "record + 18 \<le> a \<or> b \<le> record" and "b \<le> lo"
  shows "payload_stored ys lo record p"
proof -
  have "payload_stored_with ys lo record p doff dlen noff nlen"
    if "payload_stored_with xs lo record p doff dlen noff nlen" for doff dlen noff nlen
    using that assms(3,4) unfolding payload_stored_with_def
    by (auto intro: stored_unchanged [OF _ assms(2)])
  with assms(1) show ?thesis unfolding payload_stored_def by blast
qed

lemma payload_kind_roundtrip [simp]:
  "payload_kind_from_u16 (payload_kind_to_u16 k) = Some k"
  by (cases k) (simp_all add: payload_kind_from_u16_def)

lemma parse_payload_stored:
  assumes "payload_stored out lo record p" and "length out < 2 ^ 64" and "valid_str (ps_name p)"
  shows "parse_payload out record = Ok (payload_of_spec p)"
  using assms(1) unfolding payload_stored_def payload_stored_with_def
  by (elim exE conjE)
     (simp add: parse_payload_def payload_of_spec_def stored_reads [OF _ assms(2)]
        read_str_stored [OF _ assms(2,3)] read_slice_stored_len [OF _ assms(2)])

lemma build_payload_effect:
  assumes build: "build_payload start index p out = Ok out'"
    and rcd: "record = start + index * 24" and lo: "record + 18 \<le> lo" "lo \<le> length out"
  shows "unchanged_outside record (record + 18) out out'" and "payload_stored out' lo record p"
proof -
  let ?o1 = "align_vec (push_bytes out (as_bytes (ps_name p))) 8"
  let ?o2 = "align_vec (push_bytes ?o1 (ps_bytes p)) 8"
  let ?ws = "\<lambda>(doff :: 32 word) (dlen :: 32 word) (noff :: 32 word) (nlen :: 16 word).
    [(record, le_bytes 2 (unat (payload_kind_to_u16 (ps_kind p)))),
     (record + 2, le_bytes 2 (unat (0 :: 16 word))), (record + 4, le_bytes 4 (unat doff)),
     (record + 8, le_bytes 4 (unat dlen)), (record + 12, le_bytes 4 (unat noff)),
     (record + 16, le_bytes 2 (unat nlen))]"
  from build obtain noff doff dlen nlen where
      noff: "unat (noff :: 32 word) = length out" and doff: "unat (doff :: 32 word) = length ?o1"
    and dlen: "unat (dlen :: 32 word) = length (ps_bytes p)"
    and nlen: "unat (nlen :: 16 word) = length (ps_name p)"
    and out': "out' = put_all ?o2 (?ws doff dlen noff nlen)"
    unfolding build_payload_def outcome_simps Let_def rcd PAYLOAD_RECORD_BYTES_def put_all.simps
    by blast
  have seq: "fields record (?ws doff dlen noff nlen) (record + 18)" by simp
  have len: "record + 18 \<le> length ?o2"
    using lo length_align_push [of out "as_bytes (ps_name p)" 8] length_align_push [of ?o1 "ps_bytes p" 8]
    by linarith
  have after2: "unchanged_outside record (record + 18) ?o2 out'"
    unfolding out' by (rule put_all_unchanged [OF seq len])
  have o12: "unchanged_outside a b out ?o1" "unchanged_outside a b ?o1 ?o2" for a b
    by (rule unchanged_outside_align)+
  show "unchanged_outside record (record + 18) out out'"
    using o12 after2 by (blast intro: unchanged_outside_trans)
  have name: "stored out' (unat noff) (as_bytes (ps_name p))"
    unfolding noff
    by (rule stored_unchanged [OF stored_unchanged [OF stored_push o12(2) [of 0 0]] after2])
       (use lo in simp_all)
  have data: "stored out' (unat doff) (ps_bytes p)"
    unfolding doff
    by (rule stored_unchanged [OF stored_push after2])
       (use lo length_align_push [of out "as_bytes (ps_name p)" 8] in simp)
  have "lo \<le> unat doff" "lo \<le> unat noff"
    using lo noff doff length_align_push [of out] by (auto intro: le_trans)
  then have "payload_stored_with out' lo record p doff dlen noff nlen"
    using name data dlen nlen put_all_stored [OF seq len, folded out']
    by (simp add: payload_stored_with_def)
  then show "payload_stored out' lo record p" by (auto simp: payload_stored_def)
qed

lemma build_payloads_effect:
  assumes "build_payloads start index ps out = Ok out'"
    and "start + (index + length ps) * 24 \<le> lo" and "lo \<le> length out"
  shows "unchanged_outside (start + index * 24) (start + (index + length ps) * 24) out out' \<and>
         (\<forall>k < length ps. payload_stored out' lo (start + (index + k) * 24) (ps ! k))"
  using assms
proof (induction ps arbitrary: index out)
  case Nil
  then show ?case by simp
next
  case (Cons p ps)
  let ?r = "start + index * 24" and ?e = "start + (index + length (p # ps)) * 24"
  from Cons.prems(1) obtain x where
      step: "build_payload start index p out = Ok x"
    and rest: "build_payloads start (Suc index) ps x = Ok out'"
    by (auto simp: outcome_simps)
  have lo: "?r + 18 \<le> lo" using Cons.prems(2) by simp
  note one = build_payload_effect [OF step refl lo Cons.prems(3)]
  have x: "lo \<le> length x" using Cons.prems(3) one(1) by (auto dest: unchanged_outside_length)
  from Cons.IH [OF rest _ x] Cons.prems(2) have
      ih: "unchanged_outside (?r + 24) ?e x out'"
    and stored: "\<forall>k < length ps. payload_stored out' lo (start + (index + Suc k) * 24) (ps ! k)"
    by (simp_all add: algebra_simps)
  have "payload_stored out' lo ?r p"
    by (rule payload_stored_unchanged [OF one(2) ih]) (use Cons.prems(2) in simp_all)
  then have "\<forall>k < length (p # ps). payload_stored out' lo (start + (index + k) * 24) ((p # ps) ! k)"
    using stored by (auto simp: less_Suc_eq_0_disj algebra_simps)
  moreover have "unchanged_outside ?r ?e out out'"
    by (rule unchanged_outside_trans [OF unchanged_outside_widen [OF one(1)] unchanged_outside_widen [OF ih]])
       simp_all
  ultimately show ?case by simp
qed

lemma parse_payloads_stored:
  assumes "\<forall>k < length ps. payload_stored out lo (start + (index + k) * 24) (ps ! k)"
    and "length out < 2 ^ 64" and "\<forall>p \<in> set ps. valid_str (ps_name p)"
  shows "parse_payloads out start index (length ps) = Ok (map payload_of_spec ps)"
  using assms
proof (induction ps arbitrary: index)
  case Nil
  then show ?case by simp
next
  case (Cons p ps)
  have tail: "\<forall>k < length ps. payload_stored out lo (start + (Suc index + k) * 24) (ps ! k)"
    using Cons.prems(1) by (metis Suc_less_eq add_Suc add_Suc_right length_Cons nth_Cons_Suc)
  have "payload_stored out lo (start + index * 24) p"
    using Cons.prems(1) by (auto dest: spec [of _ 0])
  then show ?case
    using Cons.IH [OF tail] Cons.prems(2,3) by (simp add: parse_payload_stored)
qed

section \<open>Entry records\<close>

definition entry_of_spec :: "ArtifactEntrySpec \<Rightarrow> ArtifactEntry" where
  "entry_of_spec e = \<lparr>en_symbol = es_symbol e, en_kind = es_kind e, en_metadata = es_metadata e\<rparr>"

definition entry_stored_with ::
    "byte list \<Rightarrow> nat \<Rightarrow> nat \<Rightarrow> ArtifactEntrySpec \<Rightarrow> 32 word \<Rightarrow> 16 word \<Rightarrow> bool" where
  "entry_stored_with out lo record e soff slen \<longleftrightarrow>
     stored out record (le_bytes 2 (unat (entry_kind_to_u16 (es_kind e)))) \<and>
     stored out (record + 2) (le_bytes 2 (unat (if es_metadata e \<noteq> None then 1 else 0 :: 16 word))) \<and>
     stored out (record + 4) (le_bytes 8 (unat (case es_metadata e of Some m \<Rightarrow> m | None \<Rightarrow> 0))) \<and>
     stored out (record + 12) (le_bytes 4 (unat soff)) \<and>
     stored out (record + 16) (le_bytes 2 (unat slen)) \<and>
     length (es_symbol e) = unat slen \<and>
     lo \<le> unat soff \<and> stored out (unat soff) (as_bytes (es_symbol e))"

definition entry_stored :: "byte list \<Rightarrow> nat \<Rightarrow> nat \<Rightarrow> ArtifactEntrySpec \<Rightarrow> bool" where
  "entry_stored out lo record e \<longleftrightarrow> (\<exists>soff slen. entry_stored_with out lo record e soff slen)"

lemma entry_stored_unchanged:
  assumes "entry_stored xs lo record e" and "unchanged_outside a b xs ys"
    and "record + 18 \<le> a \<or> b \<le> record" and "b \<le> lo"
  shows "entry_stored ys lo record e"
proof -
  have "entry_stored_with ys lo record e soff slen"
    if "entry_stored_with xs lo record e soff slen" for soff slen
    using that assms(3,4) unfolding entry_stored_with_def
    by (elim conjE, intro conjI) (auto intro: stored_unchanged [OF _ assms(2)])
  with assms(1) show ?thesis unfolding entry_stored_def by blast
qed

lemma entry_kind_roundtrip [simp]: "entry_kind_from_u16 (entry_kind_to_u16 k) = Some k"
  by (cases k) (simp_all add: entry_kind_from_u16_def)

lemma parse_entry_stored:
  assumes "entry_stored out lo record e" and "length out < 2 ^ 64" and "valid_str (es_symbol e)"
  shows "parse_entry out record = Ok (entry_of_spec e)"
proof -
  from assms(1) obtain soff slen where st: "entry_stored_with out lo record e soff slen"
    by (auto simp: entry_stored_def)
  note reads = st [unfolded entry_stored_with_def, THEN conjunct1, THEN w16.fetch_stored, OF assms(2)]
    st [unfolded entry_stored_with_def, THEN conjunct2, THEN conjunct1, THEN w16.fetch_stored, OF assms(2)]
    st [unfolded entry_stored_with_def, THEN conjunct2, THEN conjunct2, THEN conjunct1,
      THEN w64.fetch_stored, OF assms(2)]
  have rest: "read_u32 out (record + 12) = Ok soff" "read_u16 out (record + 16) = Ok slen"
    "read_str out (unat soff) (unat slen) ''entry symbol'' = Ok (es_symbol e)"
    using st assms(2,3) unfolding entry_stored_with_def
    by (simp_all add: stored_reads read_str_stored)
  show ?thesis
    using reads rest by (cases "es_metadata e") (simp_all add: parse_entry_def entry_of_spec_def)
qed

lemma build_entry_effect:
  assumes build: "build_entry start index e out = Ok out'"
    and rcd: "record = start + index * 24" and lo: "record + 18 \<le> lo" "lo \<le> length out"
  shows "unchanged_outside record (record + 18) out out'" and "entry_stored out' lo record e"
proof -
  let ?o1 = "align_vec (push_bytes out (as_bytes (es_symbol e))) 8"
  let ?ws = "\<lambda>(soff :: 32 word) (slen :: 16 word).
    [(record, le_bytes 2 (unat (entry_kind_to_u16 (es_kind e)))),
     (record + 2, le_bytes 2 (unat (if es_metadata e \<noteq> None then 1 else 0 :: 16 word))),
     (record + 4, le_bytes 8 (unat (case es_metadata e of Some m \<Rightarrow> m | None \<Rightarrow> 0))),
     (record + 12, le_bytes 4 (unat soff)), (record + 16, le_bytes 2 (unat slen))]"
  from build obtain soff slen where
      soff: "unat (soff :: 32 word) = length out"
    and slen: "unat (slen :: 16 word) = length (es_symbol e)"
    and out': "out' = put_all ?o1 (?ws soff slen)"
    unfolding build_entry_def outcome_simps Let_def rcd ENTRY_RECORD_BYTES_def put_all.simps by blast
  have seq: "fields record (?ws soff slen) (record + 18)" by simp
  have len: "record + 18 \<le> length ?o1"
    using lo length_align_push [of out "as_bytes (es_symbol e)" 8] by linarith
  have after1: "unchanged_outside record (record + 18) ?o1 out'"
    unfolding out' by (rule put_all_unchanged [OF seq len])
  show "unchanged_outside record (record + 18) out out'"
    by (rule unchanged_outside_trans [OF unchanged_outside_align after1])
  have symbol: "stored out' (unat soff) (as_bytes (es_symbol e))"
    unfolding soff by (rule stored_unchanged [OF stored_push after1]) (use lo in simp)
  have "entry_stored_with out' lo record e soff slen"
    using symbol lo soff slen put_all_stored [OF seq len, folded out']
    by (simp add: entry_stored_with_def)
  then show "entry_stored out' lo record e" by (auto simp: entry_stored_def)
qed

lemma build_entries_effect:
  assumes "build_entries start index es out = Ok out'"
    and "start + (index + length es) * 24 \<le> lo" and "lo \<le> length out"
  shows "unchanged_outside (start + index * 24) (start + (index + length es) * 24) out out' \<and>
         (\<forall>k < length es. entry_stored out' lo (start + (index + k) * 24) (es ! k))"
  using assms
proof (induction es arbitrary: index out)
  case Nil
  then show ?case by simp
next
  case (Cons e es)
  let ?r = "start + index * 24" and ?e = "start + (index + length (e # es)) * 24"
  from Cons.prems(1) obtain x where
      step: "build_entry start index e out = Ok x"
    and rest: "build_entries start (Suc index) es x = Ok out'"
    by (auto simp: outcome_simps)
  have lo: "?r + 18 \<le> lo" using Cons.prems(2) by simp
  note one = build_entry_effect [OF step refl lo Cons.prems(3)]
  have x: "lo \<le> length x" using Cons.prems(3) one(1) by (auto dest: unchanged_outside_length)
  from Cons.IH [OF rest _ x] Cons.prems(2) have
      ih: "unchanged_outside (?r + 24) ?e x out'"
    and stored: "\<forall>k < length es. entry_stored out' lo (start + (index + Suc k) * 24) (es ! k)"
    by (simp_all add: algebra_simps)
  have "entry_stored out' lo ?r e"
    by (rule entry_stored_unchanged [OF one(2) ih]) (use Cons.prems(2) in simp_all)
  then have "\<forall>k < length (e # es). entry_stored out' lo (start + (index + k) * 24) ((e # es) ! k)"
    using stored by (auto simp: less_Suc_eq_0_disj algebra_simps)
  moreover have "unchanged_outside ?r ?e out out'"
    by (rule unchanged_outside_trans [OF unchanged_outside_widen [OF one(1)] unchanged_outside_widen [OF ih]])
       simp_all
  ultimately show ?case by simp
qed

lemma parse_entries_stored:
  assumes "\<forall>k < length es. entry_stored out lo (start + (index + k) * 24) (es ! k)"
    and "length out < 2 ^ 64" and "\<forall>e \<in> set es. valid_str (es_symbol e)"
  shows "parse_entries out start index (length es) = Ok (map entry_of_spec es)"
  using assms
proof (induction es arbitrary: index)
  case Nil
  then show ?case by simp
next
  case (Cons e es)
  have tail: "\<forall>k < length es. entry_stored out lo (start + (Suc index + k) * 24) (es ! k)"
    using Cons.prems(1) by (metis Suc_less_eq add_Suc add_Suc_right length_Cons nth_Cons_Suc)
  have "entry_stored out lo (start + index * 24) e"
    using Cons.prems(1) by (auto dest: spec [of _ 0])
  then show ?case
    using Cons.IH [OF tail] Cons.prems(2,3) by (simp add: parse_entry_stored)
qed

section \<open>Header and whole blobs\<close>

definition header_fields :: "ArtifactBundleSpec \<Rightarrow> 32 word \<Rightarrow> 16 word \<Rightarrow> 16 word \<Rightarrow> 16 word \<Rightarrow> 16 word \<Rightarrow>
    (nat \<times> byte list) list" where
  "header_fields spec tot nl gl pc ec =
     [(0, ARTIFACT_MAGIC), (8, le_bytes 2 (unat (blob_version (bs_compile_options spec)))),
      (10, le_bytes 2 (unat (word_of_nat HEADER_BYTES :: 16 word))), (12, le_bytes 4 (unat tot)),
      (16, le_bytes 2 (unat nl)), (18, le_bytes 2 (unat gl)), (20, le_bytes 2 (unat pc)),
      (22, le_bytes 2 (unat ec)), (24, le_bytes 8 (unat (bits (bs_compile_options spec))))]"

lemma length_ARTIFACT_MAGIC [simp]: "length ARTIFACT_MAGIC = 8"
  by (simp add: ARTIFACT_MAGIC_def)

lemma fields_header: "fields 0 (header_fields spec tot nl gl pc ec) 32"
  by (simp add: header_fields_def)

lemma build_header_Ok:
  assumes "build_header spec out = Ok blob"
  obtains tot nl gl pc ec where
    "blob = put_all out (header_fields spec tot nl gl pc ec)" "32 \<le> length out"
    "length out < 2 ^ 32" "unat tot = length out" "unat nl = length (bs_name spec)"
    "unat gl = length (bs_target spec)" "unat pc = length (bs_payloads spec)"
    "unat ec = length (bs_entries spec)"
  using assms unfolding build_header_def outcome_simps header_fields_def put_all.simps
  by (elim exE conjE) simp

definition options_wf :: "ArtifactCompileOptions \<Rightarrow> bool" where
  "options_wf o' \<longleftrightarrow> bits o' AND NOT KNOWN_COMPILE_OPTIONS = 0 \<and>
     bits o' AND OPTION_DEBUG_MASK \<noteq> OPTION_DEBUG_MASK"

lemma from_bits_Ok_iff [outcome_simps]:
  "from_bits b = Ok o' \<longleftrightarrow> o' = ArtifactCompileOptions b \<and> options_wf o'"
  by (auto simp: from_bits_def options_wf_def)

text \<open>What the types of \<open>ArtifactBundleSpec\<close> guarantee: strings are UTF-8, options are options.\<close>

definition spec_wf :: "ArtifactBundleSpec \<Rightarrow> bool" where
  "spec_wf spec \<longleftrightarrow> valid_str (bs_name spec) \<and> valid_str (bs_target spec) \<and>
     options_wf (bs_compile_options spec) \<and>
     (\<forall>p \<in> set (bs_payloads spec). valid_str (ps_name p)) \<and>
     (\<forall>e \<in> set (bs_entries spec). valid_str (es_symbol e))"

definition bundle_of_spec :: "ArtifactBundleSpec \<Rightarrow> ArtifactBundle" where
  "bundle_of_spec spec =
     \<lparr>bu_name = bs_name spec, bu_target = bs_target spec,
      bu_compile_options = bs_compile_options spec,
      bu_payloads = map payload_of_spec (bs_payloads spec),
      bu_entries = map entry_of_spec (bs_entries spec)\<rparr>"

text \<open>What a blob of \<open>build_artifact_blob\<close> contains, field by field.\<close>

definition blob_of :: "ArtifactBundleSpec \<Rightarrow> byte list \<Rightarrow> bool" where
  "blob_of spec blob \<longleftrightarrow>
     (let ps = 32 + length (bs_name spec) + length (bs_target spec);
          es = ps + length (bs_payloads spec) * 24;
          lo = es + length (bs_entries spec) * 24 in
      32 \<le> length blob \<and> length blob < 2 ^ 32 \<and> lo \<le> length blob \<and>
      (\<exists>tot nl gl pc ec. (\<forall>(off, bs) \<in> set (header_fields spec tot nl gl pc ec). stored blob off bs) \<and>
         unat tot = length blob \<and> unat nl = length (bs_name spec) \<and>
         unat gl = length (bs_target spec) \<and> unat pc = length (bs_payloads spec) \<and>
         unat ec = length (bs_entries spec)) \<and>
      stored blob 32 (as_bytes (bs_name spec)) \<and>
      stored blob (32 + length (bs_name spec)) (as_bytes (bs_target spec)) \<and>
      (\<forall>k < length (bs_payloads spec). payload_stored blob lo (ps + k * 24) (bs_payloads spec ! k)) \<and>
      (\<forall>k < length (bs_entries spec). entry_stored blob lo (es + k * 24) (bs_entries spec ! k)))"

lemma stored_append1: "stored (xs @ bs @ ys) (length xs) bs"
  by (simp add: stored_def slice_def)

lemma build_artifact_blob_blob_of:
  assumes "build_artifact_blob spec = Ok blob"
  shows "blob_of spec blob"
proof -
  let ?n = "as_bytes (bs_name spec)" and ?t = "as_bytes (bs_target spec)"
  let ?np = "length (bs_payloads spec)" and ?ne = "length (bs_entries spec)"
  let ?ps = "32 + length (bs_name spec) + length (bs_target spec)"
  let ?es = "?ps + ?np * 24" and ?lo = "?ps + ?np * 24 + ?ne * 24"
  let ?base = "(((replicate 32 0 @ ?n) @ ?t) @ replicate (?np * 24) 0) @ replicate (?ne * 24) 0"
  from assms obtain x y where
      px: "build_payloads ?ps 0 (bs_payloads spec) ?base = Ok x"
    and ey: "build_entries ?es 0 (bs_entries spec) x = Ok y"
    and hdr: "build_header spec y = Ok blob"
    by (auto simp: build_artifact_blob_def outcome_simps Let_def push_bytes_def)
  from hdr obtain tot nl gl pc ec where
      blob: "blob = put_all y (header_fields spec tot nl gl pc ec)" and y32: "32 \<le> length y"
    and bound: "length y < 2 ^ 32" and sizes: "unat tot = length y" "unat nl = length (bs_name spec)"
      "unat gl = length (bs_target spec)" "unat pc = ?np" "unat ec = ?ne"
    by (rule build_header_Ok)
  have len: "length blob = length y" unfolding blob by (rule length_put_all [OF fields_header y32])
  have uh: "unchanged_outside 0 32 y blob" unfolding blob by (rule put_all_unchanged [OF fields_header y32])
  have base: "length ?base = ?lo" by simp
  have up: "unchanged_outside ?ps ?es ?base x"
    and sp: "\<forall>k < ?np. payload_stored x ?lo (?ps + k * 24) (bs_payloads spec ! k)"
    using build_payloads_effect [OF px, of ?lo] by (simp_all add: algebra_simps)
  have lx: "?lo \<le> length x" using unchanged_outside_length [OF up] base by simp
  have ue: "unchanged_outside ?es ?lo x y"
    and se: "\<forall>k < ?ne. entry_stored y ?lo (?es + k * 24) (bs_entries spec ! k)"
    using build_entries_effect [OF ey, of ?lo] lx by (simp_all add: algebra_simps)
  have ly: "?lo \<le> length y" using unchanged_outside_length [OF ue] lx by simp
  have keep: "stored blob off bs" if "stored ?base off bs" "32 \<le> off" "off + length bs \<le> ?ps" for off bs
    by (rule stored_unchanged [OF stored_unchanged [OF stored_unchanged [OF that(1) up] ue] uh])
       (use that in simp_all)
  have nm: "stored blob 32 ?n"
    by (rule keep) (use stored_append1 [of "replicate 32 0" ?n] in simp_all)
  have tg: "stored blob (32 + length (bs_name spec)) ?t"
    by (rule keep) (use stored_append1 [of "replicate 32 0 @ ?n" ?t] in simp_all)
  have pl: "payload_stored blob ?lo (?ps + k * 24) (bs_payloads spec ! k)" if "k < ?np" for k
  proof -
    have "?ps + k * 24 + 18 \<le> ?es" using that by simp
    then have "payload_stored y ?lo (?ps + k * 24) (bs_payloads spec ! k)"
      using payload_stored_unchanged [OF _ ue] sp that by simp
    then show ?thesis using payload_stored_unchanged [OF _ uh] by simp
  qed
  have en: "entry_stored blob ?lo (?es + k * 24) (bs_entries spec ! k)" if "k < ?ne" for k
    using entry_stored_unchanged [OF _ uh] se that by simp
  have hf: "\<forall>(off, bs) \<in> set (header_fields spec tot nl gl pc ec). stored blob off bs"
    unfolding blob using put_all_effect [OF fields_header y32] by blast
  have sizes': "\<exists>tot nl gl pc ec.
      (\<forall>(off, bs) \<in> set (header_fields spec tot nl gl pc ec). stored blob off bs) \<and>
      unat tot = length blob \<and> unat nl = length (bs_name spec) \<and> unat gl = length (bs_target spec) \<and>
      unat pc = ?np \<and> unat ec = ?ne"
    using hf sizes len by metis
  show ?thesis
    unfolding blob_of_def Let_def
    by (intro conjI sizes' nm tg) (use y32 bound ly pl en len in simp_all)
qed

lemma parse_artifact_body_blob_of:
  assumes "blob_of spec blob" and wf: "spec_wf spec"
  shows "parse_artifact_body blob (blob_version (bs_compile_options spec)) = Ok (bundle_of_spec spec)"
proof -
  let ?lo = "32 + length (bs_name spec) + length (bs_target spec) + length (bs_payloads spec) * 24 +
    length (bs_entries spec) * 24"
  from assms(1) obtain tot nl gl pc ec where
      hf: "\<forall>(off, bs) \<in> set (header_fields spec tot nl gl pc ec). stored blob off bs"
    and sizes: "unat nl = length (bs_name spec)" "unat gl = length (bs_target spec)"
      "unat pc = length (bs_payloads spec)" "unat ec = length (bs_entries spec)"
    and len: "length blob < 2 ^ 64" "?lo \<le> length blob"
    and nm: "stored blob 32 (as_bytes (bs_name spec))"
    and tg: "stored blob (32 + length (bs_name spec)) (as_bytes (bs_target spec))"
    and pl: "\<forall>k < length (bs_payloads spec). payload_stored blob ?lo
      (32 + length (bs_name spec) + length (bs_target spec) + (0 + k) * 24) (bs_payloads spec ! k)"
    and en: "\<forall>k < length (bs_entries spec). entry_stored blob ?lo (32 + length (bs_name spec) +
      length (bs_target spec) + length (bs_payloads spec) * 24 + (0 + k) * 24) (bs_entries spec ! k)"
    by (auto simp: blob_of_def Let_def)
  have reads: "read_u16 blob 16 = Ok nl" "read_u16 blob 18 = Ok gl" "read_u16 blob 20 = Ok pc"
    "read_u16 blob 22 = Ok ec" "read_u64 blob 24 = Ok (bits (bs_compile_options spec))"
    using hf len(1) by (auto simp: header_fields_def intro: stored_reads)
  have opts: "(if blob_version (bs_compile_options spec) = LEGACY_ARTIFACT_VERSION then Ok options_new
      else try_let (read_u64 blob 24) from_bits) = Ok (bs_compile_options spec)"
    using wf reads(5) by (simp add: blob_version_def LEGACY_ARTIFACT_VERSION_def ARTIFACT_VERSION_def
      spec_wf_def from_bits_Ok_iff)
  have strs: "read_str blob 32 (length (bs_name spec)) ''bundle name'' = Ok (bs_name spec)"
    "read_str blob (32 + length (bs_name spec)) (length (bs_target spec)) ''target'' = Ok (bs_target spec)"
    using nm tg len(1) wf by (simp_all add: spec_wf_def read_str_stored)
  note pp = parse_payloads_stored [OF pl len(1)] and pe = parse_entries_stored [OF en len(1)]
  show ?thesis
    unfolding parse_artifact_body_def reads(1-4) try_let.simps opts Let_def
    using strs pp pe len wf sizes
    by (simp add: usize_checked_add_def require_len_def spec_wf_def bundle_of_spec_def)
qed

lemma blob_header_reads:
  assumes "blob_of spec blob"
  shows "slice blob 0 8 = ARTIFACT_MAGIC" and "read_u16 blob 8 = Ok (blob_version (bs_compile_options spec))"
    and "read_u16 blob 10 = Ok 32" and "read_u32 blob 12 = Ok (word_of_nat (length blob))"
    and "32 \<le> length blob" and "unat (word_of_nat (length blob) :: 32 word) = length blob"
proof -
  from assms obtain tot nl gl pc ec where
      hf: "\<forall>(off, bs) \<in> set (header_fields spec tot nl gl pc ec). stored blob off bs"
    and len: "32 \<le> length blob" "length blob < 2 ^ 32" and tot: "unat tot = length blob"
    by (auto simp: blob_of_def Let_def)
  have "tot = word_of_nat (length blob)" by (simp flip: tot)
  then show "slice blob 0 8 = ARTIFACT_MAGIC" "read_u32 blob 12 = Ok (word_of_nat (length blob))"
    "read_u16 blob 8 = Ok (blob_version (bs_compile_options spec))" "read_u16 blob 10 = Ok 32"
    using hf len by (auto simp: header_fields_def stored_def [of _ 0] intro!: stored_reads)
  show "32 \<le> length blob" by fact
  show "unat (word_of_nat (length blob) :: 32 word) = length blob"
    using len(2) by (simp add: unat_of_nat)
qed

lemma parse_artifact_blob_blob_of:
  assumes "blob_of spec blob" and "spec_wf spec"
  shows "parse_artifact_blob blob = Ok (bundle_of_spec spec)"
  using blob_header_reads [OF assms(1)] parse_artifact_body_blob_of [OF assms]
  by (simp add: parse_artifact_blob_def require_len_def blob_version_def index_range_def slice_def)

lemma artifact_blob_total_len_blob_of:
  assumes "blob_of spec blob"
  shows "artifact_blob_total_len (blob @ rest) = Ok (length blob)"
proof -
  note hdr = blob_header_reads [OF assms]
  have "slice (blob @ rest) 0 8 = ARTIFACT_MAGIC"
    using hdr(1,5) by (simp add: slice_def)
  moreover have "read_u32 (blob @ rest) 12 = read_u32 blob 12"
    using hdr(5) by (simp add: read_u32_def read_slice_def slice_def)
  ultimately show ?thesis
    using hdr(4-6) by (simp add: artifact_blob_total_len_def require_len_def index_range_def)
qed

section \<open>Sections\<close>

lemma parse_artifact_section_zeros: "parse_artifact_section (replicate n 0) = Ok []"
  by (subst parse_artifact_section.simps) (simp add: list_all_iff)

lemma parse_artifact_section_step:
  assumes "blob_of spec blob" and "spec_wf spec"
  shows "parse_artifact_section (blob @ rest) =
    try_let (parse_artifact_section rest) (\<lambda>bs. Ok (bundle_of_spec spec # bs))"
proof -
  have magic: "slice blob 0 8 = ARTIFACT_MAGIC" and len: "32 \<le> length blob"
    using blob_header_reads [OF assms(1)] by auto
  have nonzero: "\<not> list_all (\<lambda>b. b = 0) (blob @ rest)"
  proof
    assume "list_all (\<lambda>b. b = 0) (blob @ rest)"
    then have "\<forall>b \<in> set (slice blob 0 8). b = 0" by (auto simp: list_all_iff slice_def dest: in_set_takeD)
    then show False by (simp add: magic ARTIFACT_MAGIC_def as_bytes_def)
  qed
  show ?thesis
    by (subst parse_artifact_section.simps)
       (use len nonzero in \<open>auto simp: artifact_blob_total_len_blob_of [OF assms(1)] split_at_def
          parse_artifact_blob_blob_of [OF assms]\<close>)
qed

section \<open>Absence of panics\<close>

lemma read_not_Panic [outcome_simps]:
  "read_slice b o' n f \<noteq> Panic" "read_str b o' n f \<noteq> Panic" "require_len b n f \<noteq> Panic"
  "read_u16 b o' \<noteq> Panic" "read_u32 b o' \<noteq> Panic" "read_u64 b o' \<noteq> Panic" "from_bits w \<noteq> Panic"
  by (auto simp: read_slice_def read_str_def require_len_def read_u16_def read_u32_def read_u64_def
      from_bits_def try_let_Panic_iff leading_bytes_def length_slice split: if_splits)

lemma parse_payloads_not_Panic [outcome_simps]: "parse_payloads b r i n \<noteq> Panic"
  by (induction n arbitrary: i) (auto simp: outcome_simps parse_payload_def)

lemma parse_entries_not_Panic [outcome_simps]: "parse_entries b r i n \<noteq> Panic"
  by (induction n arbitrary: i) (auto simp: outcome_simps parse_entry_def split: if_splits)

lemma parse_artifact_body_not_Panic [outcome_simps]: "parse_artifact_body b v \<noteq> Panic"
  by (auto simp: parse_artifact_body_def outcome_simps Let_def split: if_splits)

lemma write_Panic_iff [outcome_simps]:
  "write_at out off bs = Panic \<longleftrightarrow> length out < off + length bs"
  "write_u16 out off v = Panic \<longleftrightarrow> length out < off + 2"
  "write_u32 out off w = Panic \<longleftrightarrow> length out < off + 4"
  "write_u64 out off x = Panic \<longleftrightarrow> length out < off + 8"
  by (auto simp: write_at_def write_panics)

lemma build_payload_not_Panic:
  assumes "start + index * 24 + 18 \<le> length out"
  shows "build_payload start index p out \<noteq> Panic"
proof -
  let ?o1 = "align_vec (push_bytes out (as_bytes (ps_name p))) 8"
  have "start + index * 24 + 18 \<le> length (align_vec (push_bytes ?o1 (ps_bytes p)) 8)"
    using assms length_align_push [of out "as_bytes (ps_name p)" 8]
      length_align_push [of ?o1 "ps_bytes p" 8] by linarith
  then show ?thesis by (auto simp: build_payload_def Let_def outcome_simps)
qed

lemma build_payloads_not_Panic:
  "start + (index + length ps) * 24 \<le> length out \<Longrightarrow> build_payloads start index ps out \<noteq> Panic"
proof (induction ps arbitrary: index out)
  case (Cons p ps)
  have "build_payloads start (Suc index) ps x \<noteq> Panic" if "build_payload start index p out = Ok x" for x
    using unchanged_outside_length [OF build_payload_effect(1) [OF that refl _ le_refl]] Cons.prems
    by (intro Cons.IH) simp
  moreover have "build_payload start index p out \<noteq> Panic"
    using Cons.prems by (intro build_payload_not_Panic) simp
  ultimately show ?case by (auto simp: outcome_simps)
qed simp

lemma build_entry_not_Panic:
  assumes "start + index * 24 + 18 \<le> length out"
  shows "build_entry start index e out \<noteq> Panic"
proof -
  have "start + index * 24 + 18 \<le> length (align_vec (push_bytes out (as_bytes (es_symbol e))) 8)"
    using assms length_align_push [of out "as_bytes (es_symbol e)" 8] by linarith
  then show ?thesis by (auto simp: build_entry_def Let_def outcome_simps)
qed

lemma build_entries_not_Panic:
  "start + (index + length es) * 24 \<le> length out \<Longrightarrow> build_entries start index es out \<noteq> Panic"
proof (induction es arbitrary: index out)
  case (Cons e es)
  have "build_entries start (Suc index) es x \<noteq> Panic" if "build_entry start index e out = Ok x" for x
    using unchanged_outside_length [OF build_entry_effect(1) [OF that refl _ le_refl]] Cons.prems
    by (intro Cons.IH) simp
  moreover have "build_entry start index e out \<noteq> Panic"
    using Cons.prems by (intro build_entry_not_Panic) simp
  ultimately show ?case by (auto simp: outcome_simps)
qed simp

lemma build_header_not_Panic: "32 \<le> length out \<Longrightarrow> build_header spec out \<noteq> Panic"
  by (auto simp: build_header_def outcome_simps)

lemma validate_not_Panic [outcome_simps]: "validate_spec spec \<noteq> Panic"
proof -
  have "validate_payloads ps \<noteq> Panic" for ps by (induction ps) auto
  moreover have "validate_entries es \<noteq> Panic" for es by (induction es) auto
  ultimately show ?thesis by (auto simp: validate_spec_def outcome_simps)
qed

end
