(* ===== verification/Artifact_Properties.thy ===== *)
theory Artifact_Properties
  imports Artifact_Roundtrip
begin

text \<open>
  The properties of the artifact container: round trips of blobs, sections and sidecar
  texts, success of the writer within the size limits of the format, absence of panics in
  writer and readers, and the version rule that keeps old readers safe.
\<close>

section \<open>Compile options\<close>

lemma and_not_7_le:
  fixes b :: "64 word"
  assumes "b AND NOT 7 = 0"
  shows "b \<le> 7"
proof -
  have "b = (b AND 7) OR (b AND NOT 7)"
    by (simp flip: bit.conj_disj_distrib)
  then have "b = b AND 7" using assms by simp
  then show ?thesis by (metis word_and_le1)
qed

lemma word_le_7_cases: "(b :: 64 word) \<le> 7 \<Longrightarrow> b \<in> {0, 1, 2, 3, 4, 5, 6, 7}"
proof -
  assume "b \<le> 7"
  then have "unat b \<le> 7" by (simp add: word_le_nat_alt)
  then have "unat b \<in> {0, 1, 2, 3, 4, 5, 6, 7}" by auto
  then show ?thesis by (auto simp: word_unat_eq_iff)
qed

lemma options_wf_iff: "options_wf o' \<longleftrightarrow> bits o' \<in> {0, 1, 2, 3, 4, 5}"
proof
  assume wf: "options_wf o'"
  then have "bits o' AND NOT 7 = 0" by (simp add: options_wf_def option_bits)
  from word_le_7_cases [OF and_not_7_le [OF this]] wf show "bits o' \<in> {0, 1, 2, 3, 4, 5}"
    by (auto simp: options_wf_def option_bits)
next
  assume "bits o' \<in> {0, 1, 2, 3, 4, 5}"
  then show "options_wf o'" by (auto simp: options_wf_def option_bits)
qed

lemmas option_ops = sidecar_text_def fma_contraction_enabled_def debug_policy_def option_bits
  from_sidecar_text_def sidecar_texts options_new_def with_fma_contraction_def with_debug_policy_def

lemma options_wf_new: "options_wf options_new"
  by (simp add: options_wf_iff options_new_def)

lemma options_wf_with:
  assumes "options_wf o'"
  shows "options_wf (with_fma_contraction o' b)" and "options_wf (with_debug_policy o' d)"
  using assms by (cases o'; cases d; auto simp: options_wf_iff option_ops)+

section \<open>When the writer succeeds\<close>

text \<open>The exact size of the encoding: each stored string is padded to a multiple of eight.\<close>

definition aligned :: "nat \<Rightarrow> nat" where
  "aligned n = (if n mod 8 = 0 then n else n + (8 - n mod 8))"

definition payload_end :: "nat \<Rightarrow> ArtifactPayloadSpec \<Rightarrow> nat" where
  "payload_end off p = aligned (aligned (off + length (ps_name p)) + length (ps_bytes p))"

definition entry_end :: "nat \<Rightarrow> ArtifactEntrySpec \<Rightarrow> nat" where
  "entry_end off e = aligned (off + length (es_symbol e))"

lemma aligned_ge: "n \<le> aligned n"
  by (metis aligned_def le_add1 order_refl)

lemma payload_end_ge: "off \<le> payload_end off p" "aligned (off + length (ps_name p)) \<le> payload_end off p" "length (ps_bytes p) \<le> payload_end off p"
  using aligned_ge [of "off + length (ps_name p)"] aligned_ge [of "aligned (off + length (ps_name p)) + length (ps_bytes p)"]
  by (simp_all add: payload_end_def)

lemma entry_end_ge: "off \<le> entry_end off e"
  using aligned_ge [of "off + length (es_symbol e)"] by (simp add: entry_end_def)

lemma ends_ge: "off \<le> foldl payload_end off ps" "off \<le> foldl entry_end off es"
proof -
  show "off \<le> foldl payload_end off ps"
    by (induction ps arbitrary: off) (simp, metis foldl_Cons order.trans payload_end_ge(1))
  show "off \<le> foldl entry_end off es"
    by (induction es arbitrary: off) (simp, metis foldl_Cons order.trans entry_end_ge)
qed

lemma length_aligned: "length (align_vec (push_bytes out bs) 8) = aligned (length out + length bs)"
  by (simp add: align_vec_def push_bytes_def Let_def aligned_def add.assoc)

text \<open>One turn of a loop writes a record in range; it fails only when a length or an offset is too large.\<close>

lemma build_payload_iff:
  assumes "start + index * 24 + 18 \<le> length out"
  shows "payload_end (length out) p < 2 ^ 32 \<Longrightarrow> length (ps_name p) < 2 ^ 16 \<Longrightarrow> \<exists>out'. build_payload start index p out = Ok out'"
    and "build_payload start index p out = Ok out' \<Longrightarrow> length (ps_name p) < 2 ^ 16 \<and> length out' = payload_end (length out) p"
proof -
  have in_range: "start + index * 24 + 18 \<le> aligned (aligned (length out + length (ps_name p)) + length (ps_bytes p))"
    using assms payload_end_ge(1) [of "length out" p] by (simp add: payload_end_def)
  note defs = build_payload_def checked_u32_def checked_u16_def Let_def write_u16_def write_u32_def write_at_def length_aligned payload_end_def
  show "\<exists>out'. build_payload start index p out = Ok out'" if "payload_end (length out) p < 2 ^ 32" "length (ps_name p) < 2 ^ 16"
    using in_range payload_end_ge [where off = "length out" and p = p] that by (simp add: defs)
  show "length (ps_name p) < 2 ^ 16 \<and> length out' = payload_end (length out) p" if "build_payload start index p out = Ok out'"
    using in_range that by (auto simp: defs split: if_splits)
qed

lemma build_entry_iff:
  assumes "start + index * 24 + 18 \<le> length out"
  shows "entry_end (length out) e < 2 ^ 32 \<Longrightarrow> length (es_symbol e) < 2 ^ 16 \<Longrightarrow> \<exists>out'. build_entry start index e out = Ok out'"
    and "build_entry start index e out = Ok out' \<Longrightarrow> length (es_symbol e) < 2 ^ 16 \<and> length out' = entry_end (length out) e"
proof -
  have in_range: "start + index * 24 + 18 \<le> aligned (length out + length (es_symbol e))"
    using assms entry_end_ge [of "length out" e] by (simp add: entry_end_def)
  note defs = build_entry_def checked_u32_def checked_u16_def Let_def write_u16_def write_u32_def write_u64_def write_at_def length_aligned entry_end_def
  show "\<exists>out'. build_entry start index e out = Ok out'" if "entry_end (length out) e < 2 ^ 32" "length (es_symbol e) < 2 ^ 16"
    using in_range entry_end_ge [of "length out" e] that by (simp add: defs)
  show "length (es_symbol e) < 2 ^ 16 \<and> length out' = entry_end (length out) e" if "build_entry start index e out = Ok out'"
    using in_range that by (auto simp: defs split: if_splits)
qed

lemma build_payloads_iff:
  assumes "start + (index + length ps) * 24 \<le> length out"
  shows "foldl payload_end (length out) ps < 2 ^ 32 \<and> (\<forall>p \<in> set ps. length (ps_name p) < 2 ^ 16) \<longrightarrow>
      (\<exists>out'. build_payloads start index ps out = Ok out')"
    and "\<forall>out'. build_payloads start index ps out = Ok out' \<longrightarrow>
      (\<forall>p \<in> set ps. length (ps_name p) < 2 ^ 16) \<and> length out' = foldl payload_end (length out) ps"
  unfolding atomize_conj using assms
proof (induction ps arbitrary: index out)
  case (Cons p ps)
  have at: "start + index * 24 + 18 \<le> length out" "start + (Suc index + length ps) * 24 \<le> payload_end (length out) p"
    using Cons.prems payload_end_ge(1) [of "length out" p] by simp_all
  note one = build_payload_iff [OF at(1), of p]
  have step: "length x = payload_end (length out) p" if "build_payload start index p out = Ok x" for x using one(2) [OF that] by simp
  have IH: "(foldl payload_end (payload_end (length out) p) ps < 2 ^ 32 \<and> (\<forall>p \<in> set ps. length (ps_name p) < 2 ^ 16) \<longrightarrow>
        (\<exists>out'. build_payloads start (Suc index) ps x = Ok out')) \<and>
      (\<forall>out'. build_payloads start (Suc index) ps x = Ok out' \<longrightarrow>
        (\<forall>p \<in> set ps. length (ps_name p) < 2 ^ 16) \<and> length out' = foldl payload_end (payload_end (length out) p) ps)"
    if "build_payload start index p out = Ok x" for x
    using Cons.IH [of "Suc index" x] at(2) step [OF that] by simp
  have "payload_end (length out) p < 2 ^ 32" if "foldl payload_end (payload_end (length out) p) ps < 2 ^ 32"
    using that ends_ge(1) [of "payload_end (length out) p" ps] by simp
  then show ?case using one IH by (fastforce simp: outcome_simps)
qed simp

lemma build_entries_iff:
  assumes "start + (index + length es) * 24 \<le> length out"
  shows "foldl entry_end (length out) es < 2 ^ 32 \<and> (\<forall>e \<in> set es. length (es_symbol e) < 2 ^ 16) \<longrightarrow>
      (\<exists>out'. build_entries start index es out = Ok out')"
    and "\<forall>out'. build_entries start index es out = Ok out' \<longrightarrow>
      (\<forall>e \<in> set es. length (es_symbol e) < 2 ^ 16) \<and> length out' = foldl entry_end (length out) es"
  unfolding atomize_conj using assms
proof (induction es arbitrary: index out)
  case (Cons e es)
  have at: "start + index * 24 + 18 \<le> length out" "start + (Suc index + length es) * 24 \<le> entry_end (length out) e"
    using Cons.prems entry_end_ge [of "length out" e] by simp_all
  note one = build_entry_iff [OF at(1), of e]
  have step: "length x = entry_end (length out) e" if "build_entry start index e out = Ok x" for x using one(2) [OF that] by simp
  have IH: "(foldl entry_end (entry_end (length out) e) es < 2 ^ 32 \<and> (\<forall>e \<in> set es. length (es_symbol e) < 2 ^ 16) \<longrightarrow>
        (\<exists>out'. build_entries start (Suc index) es x = Ok out')) \<and>
      (\<forall>out'. build_entries start (Suc index) es x = Ok out' \<longrightarrow>
        (\<forall>e \<in> set es. length (es_symbol e) < 2 ^ 16) \<and> length out' = foldl entry_end (entry_end (length out) e) es)"
    if "build_entry start index e out = Ok x" for x
    using Cons.IH [of "Suc index" x] at(2) step [OF that] by simp
  have "entry_end (length out) e < 2 ^ 32" if "foldl entry_end (entry_end (length out) e) es < 2 ^ 32"
    using that ends_ge(2) [of "entry_end (length out) e" es] by simp
  then show ?case using one IH by (fastforce simp: outcome_simps)
qed simp

text \<open>The limits of the format: 16-bit counts and lengths, and a 32-bit total size.\<close>

definition spec_size :: "ArtifactBundleSpec \<Rightarrow> nat" where
  "spec_size spec =
     foldl entry_end (foldl payload_end
       (32 + length (bs_name spec) + length (bs_target spec) + 24 * (length (bs_payloads spec) + length (bs_entries spec)))
       (bs_payloads spec)) (bs_entries spec)"

definition spec_fits :: "ArtifactBundleSpec \<Rightarrow> bool" where
  "spec_fits spec \<longleftrightarrow>
     length (bs_name spec) < 2 ^ 16 \<and> length (bs_target spec) < 2 ^ 16 \<and>
     length (bs_payloads spec) < 2 ^ 16 \<and> length (bs_entries spec) < 2 ^ 16 \<and>
     (\<forall>p \<in> set (bs_payloads spec). length (ps_name p) < 2 ^ 16) \<and>
     (\<forall>e \<in> set (bs_entries spec). length (es_symbol e) < 2 ^ 16) \<and> spec_size spec < 2 ^ 32"

lemma build_header_iff:
  assumes "32 \<le> length out"
  shows "(\<exists>blob. build_header spec out = Ok blob) \<longleftrightarrow> length out < 2 ^ 32 \<and> length (bs_name spec) < 2 ^ 16 \<and>
      length (bs_target spec) < 2 ^ 16 \<and> length (bs_payloads spec) < 2 ^ 16 \<and> length (bs_entries spec) < 2 ^ 16"
    and "build_header spec out = Ok blob \<Longrightarrow> length blob = length out"
  using assms
  by (auto simp: build_header_def checked_u32_def checked_u16_def write_u16_def write_u32_def write_u64_def write_at_def ARTIFACT_MAGIC_def
      split: if_splits)

lemma build_artifact_blob_iff:
  assumes valid: "validate_spec spec = Ok ()"
  shows "spec_fits spec \<Longrightarrow> \<exists>blob. build_artifact_blob spec = Ok blob \<and> length blob = spec_size spec"
    and "build_artifact_blob spec = Ok blob \<Longrightarrow> spec_fits spec"
proof -
  let ?ps = "32 + length (bs_name spec) + length (bs_target spec)"
  let ?es = "?ps + length (bs_payloads spec) * 24"
  let ?base = "(((replicate 32 0 @ as_bytes (bs_name spec)) @ as_bytes (bs_target spec)) @
    replicate (length (bs_payloads spec) * 24) 0) @ replicate (length (bs_entries spec) * 24) 0"
  let ?len = "?ps + 24 * (length (bs_payloads spec) + length (bs_entries spec))"
  have len: "length ?base = ?len" "?ps + (0 + length (bs_payloads spec)) * 24 \<le> length ?base" by simp_all
  note P = build_payloads_iff [OF len(2)]
  have size: "spec_size spec = foldl entry_end (foldl payload_end ?len (bs_payloads spec)) (bs_entries spec)" by (simp add: spec_size_def)
  have eq: "build_artifact_blob spec = try_let (build_payloads ?ps 0 (bs_payloads spec) ?base) (\<lambda>x.
      try_let (build_entries ?es 0 (bs_entries spec) x) (build_header spec))"
    using valid by (simp add: build_artifact_blob_def Let_def push_bytes_def)
  have E: "?es + (0 + length (bs_entries spec)) * 24 \<le> length x" if "length x = foldl payload_end (length ?base) (bs_payloads spec)" for x :: "byte list"
    using that ends_ge(1) [of "length ?base" "bs_payloads spec"] len(1) by simp
  have Y: "32 \<le> length y" if "length x = foldl payload_end (length ?base) (bs_payloads spec)" "length y = foldl entry_end (length x) (bs_entries spec)"
    for x y :: "byte list"
    using that E [OF that(1)] ends_ge(2) [of "length x" "bs_entries spec"] by simp
  show "\<exists>blob. build_artifact_blob spec = Ok blob \<and> length blob = spec_size spec" if fits: "spec_fits spec"
  proof -
    have small: "foldl payload_end (length ?base) (bs_payloads spec) < 2 ^ 32"
      using fits ends_ge(2) [of "foldl payload_end ?len (bs_payloads spec)" "bs_entries spec"] unfolding len(1) spec_fits_def size by linarith
    have pn: "\<forall>p \<in> set (bs_payloads spec). length (ps_name p) < 2 ^ 16" "\<forall>e \<in> set (bs_entries spec). length (es_symbol e) < 2 ^ 16"
      using fits unfolding spec_fits_def by blast+
    obtain x where x: "build_payloads ?ps 0 (bs_payloads spec) ?base = Ok x" using P(1) small pn(1) by blast
    have lx: "length x = foldl payload_end (length ?base) (bs_payloads spec)" using P(2) x by blast
    note EE = build_entries_iff [OF E [OF lx]]
    have small': "foldl entry_end (length x) (bs_entries spec) < 2 ^ 32" using fits unfolding lx len(1) spec_fits_def size by blast
    obtain y where y: "build_entries ?es 0 (bs_entries spec) x = Ok y" using EE(1) small' pn(2) by blast
    have ly: "length y = foldl entry_end (length x) (bs_entries spec)" using EE(2) y by blast
    obtain blob where blob: "build_header spec y = Ok blob"
      using build_header_iff(1) [OF Y [OF lx ly], of spec] fits small' unfolding ly spec_fits_def by blast
    have "length blob = spec_size spec"
      using build_header_iff(2) [OF Y [OF lx ly] blob] unfolding size ly lx len(1) .
    then show ?thesis using eq x y blob by simp
  qed
  show "spec_fits spec" if ok: "build_artifact_blob spec = Ok blob"
  proof -
    obtain x y where x: "build_payloads ?ps 0 (bs_payloads spec) ?base = Ok x" and y: "build_entries ?es 0 (bs_entries spec) x = Ok y"
      and h: "build_header spec y = Ok blob" using ok unfolding eq by (auto simp: outcome_simps)
    have px: "\<forall>p \<in> set (bs_payloads spec). length (ps_name p) < 2 ^ 16" "length x = foldl payload_end (length ?base) (bs_payloads spec)"
      using P(2) x by blast+
    have ey: "\<forall>e \<in> set (bs_entries spec). length (es_symbol e) < 2 ^ 16" "length y = foldl entry_end (length x) (bs_entries spec)"
      using build_entries_iff(2) [OF E [OF px(2)]] y by blast+
    have "length y = spec_size spec" unfolding size ey(2) px(2) len(1) ..
    then show ?thesis using build_header_iff(1) [OF Y [OF px(2) ey(2)], of spec] h px(1) ey(1)
      unfolding spec_fits_def by metis
  qed
qed

section \<open>Properties\<close>

definition demo_spec :: ArtifactBundleSpec where
  "demo_spec =
     with_entry (with_payload (with_compile_options (bundle_spec_new ''demo'' ''sm_90'')
       (with_fma_contraction options_new False))
       \<lparr>ps_kind = Ptx, ps_name = ''demo.ptx'', ps_bytes = [112, 116, 120]\<rparr>)
       (with_metadata (entry_spec_new ''hello'' Kernel) 7)"

lemmas demo_defs = demo_spec_def with_entry_def with_payload_def with_compile_options_def
  bundle_spec_new_def with_metadata_def entry_spec_new_def

lemma demo_spec_ok: "spec_wf demo_spec" "validate_spec demo_spec = Ok ()" "spec_fits demo_spec"
  by (simp_all add: demo_defs spec_wf_def valid_str_def as_bytes_def options_wf_iff option_ops
      validate_spec_def spec_fits_def spec_size_def payload_end_def entry_end_def aligned_def)

text \<open>(C1) Round trip of one artifact blob: what \<open>build_artifact_blob\<close> writes,
  \<open>parse_artifact_blob\<close> reads back as the same bundle, for every well-formed specification
  (strings are UTF-8, option bits are options): names, target, compile options, every payload
  with its bytes and every entry with its metadata, in order.\<close>

theorem artifact_blob_roundtrip:
  assumes "spec_wf spec" and "build_artifact_blob spec = Ok blob"
  shows "parse_artifact_blob blob = Ok (bundle_of_spec spec)"
  using build_artifact_blob_blob_of [OF assms(2)] assms(1) by (rule parse_artifact_blob_blob_of)

theorem artifact_blob_roundtrip_witness:
  "\<exists>blob. build_artifact_blob demo_spec = Ok blob \<and>
     parse_artifact_blob blob = Ok (bundle_of_spec demo_spec)"
proof -
  obtain blob where "build_artifact_blob demo_spec = Ok blob"
    using build_artifact_blob_iff(1) demo_spec_ok by blast
  with artifact_blob_roundtrip [OF demo_spec_ok(1) this] show ?thesis by blast
qed

text \<open>Round trip of a section: the linker concatenates the blobs of several crates and may
  pad the \<open>.oxart\<close> section with zeros; \<open>parse_artifact_section\<close> returns exactly the bundles
  that were written, in order, and stops at the padding.\<close>

theorem artifact_section_roundtrip:
  assumes "list_all2 (\<lambda>spec blob. spec_wf spec \<and> build_artifact_blob spec = Ok blob) specs blobs"
  shows "parse_artifact_section (concat blobs @ replicate n 0) = Ok (map bundle_of_spec specs)"
  using assms
proof (induction rule: list_all2_induct)
  case Nil
  then show ?case by (simp add: parse_artifact_section_zeros)
next
  case (Cons spec specs blob blobs)
  then have "blob_of spec blob" "spec_wf spec" by (auto intro: build_artifact_blob_blob_of)
  then show ?case using Cons by (simp add: parse_artifact_section_step)
qed

theorem artifact_section_roundtrip_witness:
  "\<exists>blob. build_artifact_blob demo_spec = Ok blob \<and>
     parse_artifact_section (concat [blob, blob] @ replicate 24 0) =
       Ok (map bundle_of_spec [demo_spec, demo_spec])"
proof -
  obtain blob where "build_artifact_blob demo_spec = Ok blob"
    using build_artifact_blob_iff(1) demo_spec_ok by blast
  then have "list_all2 (\<lambda>spec blob. spec_wf spec \<and> build_artifact_blob spec = Ok blob)
      [demo_spec, demo_spec] [blob, blob]"
    using demo_spec_ok(1) by simp
  from artifact_section_roundtrip [OF this] \<open>build_artifact_blob demo_spec = Ok blob\<close>
  show ?thesis by blast
qed

text \<open>(C38) When the writer succeeds: a specification that passes \<open>validate_spec\<close> is encoded exactly when it
  respects the 16-bit counts and lengths of the format and its encoding, padding included, is smaller than \<open>2 ^ 32\<close> bytes;
  the blob then has exactly that size.\<close>

theorem build_artifact_blob_succeeds:
  assumes "validate_spec spec = Ok ()"
  shows "((\<exists>blob. build_artifact_blob spec = Ok blob) \<longleftrightarrow> spec_fits spec) \<and>
    (\<forall>blob. build_artifact_blob spec = Ok blob \<longrightarrow> length blob = spec_size spec)"
  using build_artifact_blob_iff [OF assms] by (metis outcome.inject(1))

theorem build_artifact_blob_succeeds_witness: "\<exists>blob. build_artifact_blob demo_spec = Ok blob \<and> length blob = 120"
proof -
  have "spec_size demo_spec = 120" by (simp add: demo_defs spec_size_def payload_end_def entry_end_def aligned_def)
  then show ?thesis using build_artifact_blob_succeeds [OF demo_spec_ok(2)] demo_spec_ok(3) by metis
qed

text \<open>The writer never panics: every in-place header and record write of
  \<open>build_artifact_blob\<close> stays inside the buffer, for every specification.\<close>

theorem build_artifact_blob_no_panic: "build_artifact_blob spec \<noteq> Panic"
proof
  let ?ps = "32 + length (bs_name spec) + length (bs_target spec)"
  let ?es = "?ps + length (bs_payloads spec) * 24"
  let ?base = "(((replicate 32 0 @ as_bytes (bs_name spec)) @ as_bytes (bs_target spec)) @
    replicate (length (bs_payloads spec) * 24) 0) @ replicate (length (bs_entries spec) * 24) 0"
  have grow: "length ?base \<le> length x" if "build_payloads ?ps 0 (bs_payloads spec) ?base = Ok x" for x
    using build_payloads_effect [OF that, of "length ?base"] by (auto dest: unchanged_outside_length)
  have grow2: "length ?base \<le> length y"
    if "build_payloads ?ps 0 (bs_payloads spec) ?base = Ok x" "build_entries ?es 0 (bs_entries spec) x = Ok y"
    for x y
    using build_entries_effect [OF that(2), of "length ?base"] grow [OF that(1)]
    by (auto dest: unchanged_outside_length)
  assume "build_artifact_blob spec = Panic"
  then consider "build_payloads ?ps 0 (bs_payloads spec) ?base = Panic"
    | x where "build_payloads ?ps 0 (bs_payloads spec) ?base = Ok x"
        "build_entries ?es 0 (bs_entries spec) x = Panic"
    | x y where "build_payloads ?ps 0 (bs_payloads spec) ?base = Ok x"
        "build_entries ?es 0 (bs_entries spec) x = Ok y" "build_header spec y = Panic"
    by (auto simp: build_artifact_blob_def outcome_simps Let_def push_bytes_def)
  then show False
  proof cases
    case 1
    then show False using build_payloads_not_Panic [of ?ps 0 "bs_payloads spec" ?base] by simp
  next
    case 2
    then show False using build_entries_not_Panic [of ?es 0 "bs_entries spec" x] grow by simp
  next
    case 3
    then show False using build_header_not_Panic [of y spec] grow2 by force
  qed
qed

text \<open>(C37) The reader never panics: on arbitrary bytes \<open>parse_artifact_section\<close> returns bundles
  or an error value; the slices \<open>bytes[0..8]\<close> and \<open>bytes[..total_len]\<close>, the byte indices of the integer readers and
  the \<open>split_at\<close> of each turn are always in range.\<close>

theorem parse_artifact_section_no_panic: "parse_artifact_section bytes \<noteq> Panic"
proof (induction bytes rule: parse_artifact_section.induct)
  case (1 bytes)
  have blob: "parse_artifact_blob b \<noteq> Panic" for b
    by (auto simp: parse_artifact_blob_def outcome_simps require_len_def index_range_def split: if_splits)
  have len: "artifact_blob_total_len bytes \<noteq> Panic"
    by (auto simp: artifact_blob_total_len_def outcome_simps require_len_def index_range_def split: if_splits)
  have split: "split_at bytes n \<noteq> Panic" if "artifact_blob_total_len bytes = Ok n" for n
    using artifact_blob_total_len_bounds(2) [OF that] by (simp add: split_at_def)
  show ?case
    by (subst parse_artifact_section.simps)
       (use 1 blob len split in \<open>auto simp: outcome_simps split: if_splits\<close>)
qed

text \<open>The sidecar text and the options it stands for determine each other: every policy
  that the setters can build is recovered from its \<open>.options\<close> text, and a text that is
  accepted is the canonical text of the policy it yields.\<close>

theorem sidecar_roundtrip:
  "(options_wf o' \<longrightarrow> from_sidecar_text (sidecar_text o') = Ok o') \<and>
   (from_sidecar_text t = Ok p \<longrightarrow> options_wf p \<and> sidecar_text p = t)"
proof
  show "options_wf o' \<longrightarrow> from_sidecar_text (sidecar_text o') = Ok o'"
    by (cases o') (auto simp: options_wf_iff option_ops)
  show "from_sidecar_text t = Ok p \<longrightarrow> options_wf p \<and> sidecar_text p = t"
  proof
    assume "from_sidecar_text t = Ok p"
    then have "p \<in> {options_new, with_fma_contraction options_new False,
        with_debug_policy options_new LineTables, with_debug_policy (with_fma_contraction options_new False) LineTables,
        with_debug_policy options_new FullDebug, with_debug_policy (with_fma_contraction options_new False) FullDebug}
      \<and> sidecar_text p = t"
      by (simp add: from_sidecar_text_def split: if_splits) (auto simp: option_ops)
    then show "options_wf p \<and> sidecar_text p = t"
      using options_wf_new options_wf_with by auto
  qed
qed

theorem sidecar_roundtrip_witness:
  "from_sidecar_text (sidecar_text (with_debug_policy options_new FullDebug)) =
     Ok (with_debug_policy options_new FullDebug)"
  using sidecar_roundtrip [of "with_debug_policy options_new FullDebug"] options_wf_with(2) [OF options_wf_new]
  by blast

text \<open>The option setters and getters are independent fields of the packed bits, and the
  setters keep the bits within the known options.\<close>

theorem options_accessors:
  assumes "options_wf o'"
  shows "fma_contraction_enabled (with_fma_contraction o' b) = b \<and>
    debug_policy (with_fma_contraction o' b) = debug_policy o' \<and>
    debug_policy (with_debug_policy o' d) = d \<and>
    fma_contraction_enabled (with_debug_policy o' d) = fma_contraction_enabled o' \<and>
    options_wf (with_fma_contraction o' b) \<and> options_wf (with_debug_policy o' d)"
  using assms by (cases o'; cases d; auto simp: options_wf_iff option_ops)

theorem options_accessors_witness:
  "debug_policy (with_fma_contraction (with_debug_policy options_new LineTables) False) = LineTables"
  using options_accessors [OF options_wf_with(2) [OF options_wf_new], of LineTables False]
    options_accessors [OF options_wf_new, of False LineTables] by simp

text \<open>The version rule: a blob carries the legacy version 1 exactly when its policy is the
  historical default, so a reader that knows only version 1 rejects every blob whose
  policy it would ignore; and a version-1 blob yields the default policy whatever its
  reserved bytes hold.\<close>

theorem blob_version_rule:
  assumes "build_artifact_blob spec = Ok blob"
  shows "read_u16 blob 8 = Ok (if bs_compile_options spec = options_new then 1 else 2) \<and>
    (\<forall>raw b. parse_artifact_blob raw = Ok b \<and> read_u16 raw 8 = Ok 1 \<longrightarrow> bu_compile_options b = options_new)"
proof (intro conjI allI impI)
  show "read_u16 blob 8 = Ok (if bs_compile_options spec = options_new then 1 else 2)"
    using blob_header_reads(2) [OF build_artifact_blob_blob_of [OF assms]]
    by (simp add: blob_version_def LEGACY_ARTIFACT_VERSION_def ARTIFACT_VERSION_def)
  fix raw b assume "parse_artifact_blob raw = Ok b \<and> read_u16 raw 8 = Ok 1"
  then show "bu_compile_options b = options_new"
    by (auto simp: parse_artifact_blob_def parse_artifact_body_def outcome_simps Let_def
        LEGACY_ARTIFACT_VERSION_def split: if_splits)
qed

theorem blob_version_rule_witness:
  "\<exists>blob. build_artifact_blob demo_spec = Ok blob \<and> read_u16 blob 8 = Ok 2"
proof -
  obtain blob where b: "build_artifact_blob demo_spec = Ok blob"
    using build_artifact_blob_iff(1) demo_spec_ok by blast
  have "bs_compile_options demo_spec \<noteq> options_new" by (simp add: demo_defs option_ops)
  with b blob_version_rule [OF b] show ?thesis by simp
qed

end
