(* ===== verification/Cute_Layout.thy ===== *)
theory Cute_Layout
  imports Oxide_Prelude
begin

text \<open>
  Nested integer tuples and \<open>shape:stride\<close> layouts of
  \<open>cuda-oxide/cute-rs-preview/cute-layout\<close> (\<open>tuple.rs\<close>, \<open>layout.rs\<close>): sizes,
  congruence, the unchecked evaluator \<open>crd2idx\<close>, its checked form, \<open>idx2crd\<close> and the
  constructors of layouts.

  The unchecked functions return \<open>None\<close> where a build with overflow checks and debug
  assertions panics; the checked functions return \<open>None\<close> where the code does, and their
  guards rule out every panic. Where the unchecked model returns a value, the build without
  checks returns the same value.
\<close>

section \<open>Tuples\<close>

datatype IntTuple = Leaf int | Tuple "IntTuple list"

primrec tuple_size :: "IntTuple \<Rightarrow> int option" where
  "tuple_size (Leaf v) = Some v"
| "tuple_size (Tuple ts) = i64_product_from 1 (map tuple_size ts)"

fun is_congruent :: "IntTuple \<Rightarrow> IntTuple \<Rightarrow> bool" where
  "is_congruent (Leaf _) (Leaf _) = True"
| "is_congruent (Tuple a) (Tuple b) =
     list_all2 (\<lambda>x y. is_congruent x y) a b"
| "is_congruent _ _ = False"

primrec tuple_flatten :: "IntTuple \<Rightarrow> int list" where
  "tuple_flatten (Leaf v) = [v]"
| "tuple_flatten (Tuple ts) = concat (map tuple_flatten ts)"

fun tuple_rank :: "IntTuple \<Rightarrow> nat" where
  "tuple_rank (Leaf _) = 1"
| "tuple_rank (Tuple ts) = length ts"

text \<open>
  \<open>restructure\<close> draws leaves from an iterator; the model returns the tree and the leaves left,
  \<open>None\<close> being the panic on an exhausted iterator.
\<close>

fun restructure :: "IntTuple \<Rightarrow> int list \<Rightarrow> (IntTuple \<times> int list) option"
  and restructure_list :: "IntTuple list \<Rightarrow> int list \<Rightarrow> (IntTuple list \<times> int list) option" where
  "restructure (Leaf _) leaves = (case leaves of [] \<Rightarrow> None | v # rest \<Rightarrow> Some (Leaf v, rest))"
| "restructure (Tuple ts) leaves =
     do { (us, rest) \<leftarrow> restructure_list ts leaves; Some (Tuple us, rest) }"
| "restructure_list [] leaves = Some ([], leaves)"
| "restructure_list (t # ts) leaves =
     do { (u, rest) \<leftarrow> restructure t leaves; (us, rest') \<leftarrow> restructure_list ts rest;
          Some (u # us, rest') }"

section \<open>Evaluation\<close>

fun crd2idx :: "IntTuple \<Rightarrow> IntTuple \<Rightarrow> IntTuple \<Rightarrow> int option"
  and crd2idx_modes :: "int \<Rightarrow> IntTuple list \<Rightarrow> IntTuple list \<Rightarrow> IntTuple list \<Rightarrow> int option"
  and crd2idx_flat :: "int \<Rightarrow> int \<Rightarrow> IntTuple list \<Rightarrow> IntTuple list \<Rightarrow> int option" where
  "crd2idx (Leaf c) (Leaf s) (Leaf d) = (if c < s then i64_mul c d else None)"
| "crd2idx (Tuple cs) (Tuple ss) (Tuple ds) =
     (if length cs = length ss \<and> length ss = length ds then crd2idx_modes 0 cs ss ds else None)"
| "crd2idx (Leaf c) (Tuple ss) (Tuple ds) =
     (if length ss = length ds then crd2idx_flat c 0 ss ds else None)"
| "crd2idx _ _ _ = None"
| "crd2idx_modes acc (c # cs) (s # ss) (d # ds) =
     do { v \<leftarrow> crd2idx c s d; acc' \<leftarrow> i64_add acc v; crd2idx_modes acc' cs ss ds }"
| "crd2idx_modes acc _ _ _ = Some acc"
| "crd2idx_flat rem idx (s # ss) (d # ds) =
     do { sz \<leftarrow> tuple_size s;
          c_i \<leftarrow> (if ss = [] then Some rem else i64_rem rem sz);
          v \<leftarrow> crd2idx (Leaf c_i) s d;
          idx' \<leftarrow> i64_add idx v;
          rem' \<leftarrow> i64_div rem sz;
          crd2idx_flat rem' idx' ss ds }"
| "crd2idx_flat rem idx _ _ = Some idx"

fun idx2crd :: "int \<Rightarrow> IntTuple \<Rightarrow> IntTuple option"
  and idx2crd_list :: "int \<Rightarrow> IntTuple list \<Rightarrow> IntTuple list option" where
  "idx2crd idx (Leaf _) = Some (Leaf idx)"
| "idx2crd idx (Tuple ss) = map_option Tuple (idx2crd_list idx ss)"
| "idx2crd_list rem [] = Some []"
| "idx2crd_list rem (s # ss) =
     do { sz \<leftarrow> tuple_size s;
          c_i \<leftarrow> (if ss = [] then Some rem else i64_rem rem sz);
          c \<leftarrow> idx2crd c_i s;
          rem' \<leftarrow> i64_div rem sz;
          cs \<leftarrow> idx2crd_list rem' ss;
          Some (c # cs) }"

primrec checked_tuple_size :: "IntTuple \<Rightarrow> int option" where
  "checked_tuple_size (Leaf v) = (if v > 0 then Some v else None)"
| "checked_tuple_size (Tuple items) = i64_product_from 1 (map checked_tuple_size items)"

text \<open>\<open>%\<close> and \<open>/\<close> follow the test \<open>size > 0\<close>, so they cannot panic here.\<close>

fun checked_crd2idx :: "IntTuple \<Rightarrow> IntTuple \<Rightarrow> IntTuple \<Rightarrow> int option"
  and checked_crd2idx_modes :: "int \<Rightarrow> IntTuple list \<Rightarrow> IntTuple list \<Rightarrow> IntTuple list \<Rightarrow> int option"
  and checked_crd2idx_flat :: "int \<Rightarrow> int \<Rightarrow> IntTuple list \<Rightarrow> IntTuple list \<Rightarrow> int option" where
  "checked_crd2idx (Leaf c) (Leaf s) (Leaf d) = (if 0 \<le> c \<and> c < s then i64_mul c d else None)"
| "checked_crd2idx (Tuple cs) (Tuple ss) (Tuple ds) =
     (if length cs = length ss \<and> length ss = length ds then checked_crd2idx_modes 0 cs ss ds else None)"
| "checked_crd2idx (Leaf c) (Tuple ss) (Tuple ds) =
     (if length ss = length ds \<and> c \<ge> 0
      then do { total_size \<leftarrow> checked_tuple_size (Tuple ss);
                if c < total_size then checked_crd2idx_flat c 0 ss ds else None }
      else None)"
| "checked_crd2idx _ _ _ = None"
| "checked_crd2idx_modes acc (c # cs) (s # ss) (d # ds) =
     do { v \<leftarrow> checked_crd2idx c s d; acc' \<leftarrow> i64_add acc v; checked_crd2idx_modes acc' cs ss ds }"
| "checked_crd2idx_modes acc _ _ _ = Some acc"
| "checked_crd2idx_flat rem idx (s # ss) (d # ds) =
     do { sz \<leftarrow> checked_tuple_size s;
          if sz > 0
          then do { v \<leftarrow> checked_crd2idx (Leaf (if ss = [] then rem else rem smod sz)) s d;
                    idx' \<leftarrow> i64_add idx v;
                    checked_crd2idx_flat (rem sdiv sz) idx' ss ds }
          else None }"
| "checked_crd2idx_flat rem idx _ _ = Some idx"

section \<open>Layouts\<close>

record Layout =
  shape :: IntTuple
  stride :: IntTuple

definition layout_new :: "IntTuple \<Rightarrow> IntTuple \<Rightarrow> Layout option" where
  "layout_new sh st = (if is_congruent sh st then Some \<lparr>shape = sh, stride = st\<rparr> else None)"

definition layout_size :: "Layout \<Rightarrow> int option" where
  "layout_size self = tuple_size (shape self)"

definition checked_size :: "Layout \<Rightarrow> int option" where
  "checked_size self = checked_tuple_size (shape self)"

definition call :: "Layout \<Rightarrow> IntTuple \<Rightarrow> int option" where
  "call self coord = crd2idx coord (shape self) (stride self)"

definition checked_call :: "Layout \<Rightarrow> IntTuple \<Rightarrow> int option" where
  "checked_call self coord = checked_crd2idx coord (shape self) (stride self)"

definition contiguous :: "int \<Rightarrow> Layout" where
  "contiguous n = \<lparr>shape = Leaf n, stride = Leaf 1\<rparr>"

definition is_identity_map :: "Layout \<Rightarrow> bool" where
  "is_identity_map self =
     (case checked_size self of
        None \<Rightarrow> False
      | Some n \<Rightarrow> list_all (\<lambda>i. checked_call self (Leaf (int i)) = Some (int i)) [0..<nat n])"

definition cosize :: "Layout \<Rightarrow> int option" where
  "cosize self =
     do { n \<leftarrow> layout_size self;
          if n = 0 then Some 0
          else do { m \<leftarrow> i64_sub n 1; v \<leftarrow> call self (Leaf m); i64_add v 1 } }"

text \<open>The stride loop of \<open>col_major_with\<close>: one stride per leaf, then one more product.\<close>

fun col_strides :: "int \<Rightarrow> int list \<Rightarrow> int list option" where
  "col_strides running [] = Some []"
| "col_strides running (s # leaves) =
     do { running' \<leftarrow> i64_mul running s; rest \<leftarrow> col_strides running' leaves; Some (running # rest) }"

definition col_major_with :: "IntTuple \<Rightarrow> int \<Rightarrow> Layout option" where
  "col_major_with sh init =
     do { strides \<leftarrow> col_strides init (tuple_flatten sh);
          (st, _) \<leftarrow> restructure sh strides;
          Some \<lparr>shape = sh, stride = st\<rparr> }"

definition col_major :: "IntTuple \<Rightarrow> Layout option" where
  "col_major sh = col_major_with sh 1"

definition row_major_with :: "IntTuple \<Rightarrow> int \<Rightarrow> Layout option" where
  "row_major_with sh init =
     do { strides \<leftarrow> col_strides init (rev (tuple_flatten sh));
          (st, _) \<leftarrow> restructure sh (rev strides);
          Some \<lparr>shape = sh, stride = st\<rparr> }"

definition row_major :: "IntTuple \<Rightarrow> Layout option" where
  "row_major sh = row_major_with sh 1"

fun layout_modes :: "Layout \<Rightarrow> Layout list" where
  "layout_modes self =
     (case (shape self, stride self) of
        (Tuple ss, Tuple ds) \<Rightarrow> map (\<lambda>(s, d). \<lparr>shape = s, stride = d\<rparr>) (zip ss ds)
      | _ \<Rightarrow> [self])"

definition layout_get :: "Layout \<Rightarrow> nat \<Rightarrow> Layout option" where
  "layout_get self mode =
     (case (shape self, stride self) of
        (Tuple ss, Tuple ds) \<Rightarrow>
          if mode < length ss \<and> mode < length ds then Some \<lparr>shape = ss ! mode, stride = ds ! mode\<rparr> else None
      | _ \<Rightarrow> if mode = 0 then Some self else None)"

definition layout_rank :: "Layout \<Rightarrow> nat" where
  "layout_rank self = tuple_rank (shape self)"

fun from_modes :: "Layout list \<Rightarrow> Layout" where
  "from_modes [] = \<lparr>shape = Leaf 1, stride = Leaf 0\<rparr>"
| "from_modes [m] = m"
| "from_modes ms = \<lparr>shape = Tuple (map shape ms), stride = Tuple (map stride ms)\<rparr>"

end
