(* ===== verification/Cute_Layout_Facts.thy ===== *)
theory Cute_Layout_Facts
  imports Cute_Layout
begin

text \<open>
  The reference meaning of a layout and the facts that tie the evaluators to it. A layout is a
  list of modes (extent, stride); a flat coordinate is a mixed-radix number whose leftmost digit
  varies fastest, and \<open>mode_offset\<close> adds digit times stride over the modes, on mathematical
  integers.
\<close>

section \<open>Reference semantics\<close>

fun mode_offset :: "(int \<times> int) list \<Rightarrow> int \<Rightarrow> int" where
  "mode_offset [] c = 0"
| "mode_offset ((s, d) # ms) c = (c mod s) * d + mode_offset ms (c div s)"

definition modes_size :: "(int \<times> int) list \<Rightarrow> int" where
  "modes_size ms = prod_list (map fst ms)"

definition pos_modes :: "(int \<times> int) list \<Rightarrow> bool" where
  "pos_modes ms \<longleftrightarrow> (\<forall>(s, d) \<in> set ms. 0 < s)"

definition tuple_modes :: "IntTuple \<Rightarrow> IntTuple \<Rightarrow> (int \<times> int) list" where
  "tuple_modes sh st = zip (tuple_flatten sh) (tuple_flatten st)"

definition pos_tuple :: "IntTuple \<Rightarrow> bool" where
  "pos_tuple t \<longleftrightarrow> (\<forall>v \<in> set (tuple_flatten t). 0 < v)"

definition modes_span :: "(int \<times> int) list \<Rightarrow> int" where
  "modes_span ms = (\<Sum>(s, d)\<leftarrow>ms. (s - 1) * \<bar>d\<bar>)"

lemma modes_size_simps [simp]:
  "modes_size [] = 1" "modes_size ((s, d) # ms) = s * modes_size ms"
  "modes_size (xs @ ys) = modes_size xs * modes_size ys"
  by (simp_all add: modes_size_def)

lemma pos_modes_simps [simp]:
  "pos_modes []" "pos_modes ((s, d) # ms) \<longleftrightarrow> 0 < s \<and> pos_modes ms"
  "pos_modes (xs @ ys) \<longleftrightarrow> pos_modes xs \<and> pos_modes ys"
  by (auto simp: pos_modes_def)

lemma modes_span_simps [simp]:
  "modes_span [] = 0" "modes_span ((s, d) # ms) = (s - 1) * \<bar>d\<bar> + modes_span ms"
  "modes_span (xs @ ys) = modes_span xs + modes_span ys"
  by (simp_all add: modes_span_def)

lemma modes_size_pos: "pos_modes ms \<Longrightarrow> 0 < modes_size ms"
  by (induction ms) auto

lemma modes_span_nonneg: "pos_modes ms \<Longrightarrow> 0 \<le> modes_span ms"
  by (induction ms) auto

lemma mode_offset_zero [simp]: "mode_offset ms 0 = 0"
  by (induction ms) auto

lemma mode_offset_append:
  "pos_modes xs \<Longrightarrow> mode_offset (xs @ ys) c = mode_offset xs c + mode_offset ys (c div modes_size xs)"
proof (induction xs arbitrary: c)
  case (Cons m xs)
  obtain s d where m: "m = (s, d)" by (cases m)
  have "0 < s" "pos_modes xs" using Cons.prems m by auto
  then show ?case
    using Cons.IH [of "c div s"] m zdiv_zmult2_eq [of "modes_size xs" c s] modes_size_pos [of xs] by simp
qed simp

lemma mode_offset_mod:
  "pos_modes xs \<Longrightarrow> mode_offset xs (c mod modes_size xs) = mode_offset xs c"
proof (induction xs arbitrary: c)
  case (Cons m xs)
  obtain s d where m: "m = (s, d)" by (cases m)
  have s: "0 < s" and xs: "pos_modes xs" using Cons.prems m by auto
  have q: "c mod (s * modes_size xs) = s * (c div s mod modes_size xs) + c mod s"
    using modes_size_pos [OF xs] by (simp add: zmod_zmult2_eq)
  have "(c mod (s * modes_size xs)) div s = c div s mod modes_size xs"
    "(c mod (s * modes_size xs)) mod s = c mod s"
    using s unfolding q by (simp_all add: mult.commute [of s])
  then show ?case using Cons.IH [OF xs] m by simp
qed simp

lemma mode_offset_bound: "pos_modes ms \<Longrightarrow> \<bar>mode_offset ms c\<bar> \<le> modes_span ms"
proof (induction ms arbitrary: c)
  case (Cons m ms)
  obtain s d where m: "m = (s, d)" by (cases m)
  have "0 < s" using Cons.prems m by simp
  then have "0 \<le> c mod s" "c mod s \<le> s - 1" by (simp_all add: zle_diff1_eq)
  then have "\<bar>(c mod s) * d\<bar> \<le> (s - 1) * \<bar>d\<bar>" by (simp add: abs_mult mult_right_mono)
  moreover have "\<bar>mode_offset ms (c div s)\<bar> \<le> modes_span ms"
    using Cons.IH Cons.prems m by simp
  ultimately show ?case using m by (simp add: abs_le_iff)
qed simp

section \<open>Sizes\<close>

lemma product_from_Some:
  assumes "i64_product_from acc (map f xs) = Some r"
    and "\<And>x v. x \<in> set xs \<Longrightarrow> f x = Some v \<Longrightarrow> v = g x"
  shows "r = acc * prod_list (map g xs)"
  using assms
proof (induction xs arbitrary: acc)
  case (Cons x xs)
  from Cons.prems(1) obtain v where
      v: "f x = Some v" and rest: "i64_product_from (acc * v) (map f xs) = Some r"
    by (auto simp: bind_eq_Some_conv i64_simps)
  have "r = acc * v * prod_list (map g xs)" using Cons.IH [OF rest] Cons.prems(2) by simp
  with Cons.prems(2) [OF _ v] show ?case by simp
qed simp

lemma int_div_less_mult:
  fixes a p q :: int
  assumes "0 < p" and "a < p * q"
  shows "a div p < q"
proof -
  have "p * (a div p) + a mod p = a" "0 \<le> a mod p" using assms(1) by simp_all
  then have "p * (a div p) < p * q" using assms(2) by linarith
  then show ?thesis using assms(1) by simp
qed

lemma prod_list_concat: "prod_list (concat xss) = prod_list (map prod_list xss)"
  for xss :: "int list list"
  by (induction xss) simp_all

lemma tuple_size_eq: "tuple_size t = Some n \<Longrightarrow> n = prod_list (tuple_flatten t)"
proof (induction t arbitrary: n)
  case (Tuple ts)
  have "n = 1 * prod_list (map (\<lambda>t. prod_list (tuple_flatten t)) ts)"
    by (rule product_from_Some [where f = tuple_size]) (use Tuple in simp_all)
  then show ?case by (simp add: prod_list_concat comp_def)
qed simp

lemma checked_product_from:
  assumes "i64_product_from acc (map f xs) = Some r" and "0 < acc" and "in_i64 acc"
    and "\<And>x v. x \<in> set xs \<Longrightarrow> f x = Some v \<Longrightarrow> h x = Some v \<and> 0 < v"
  shows "i64_product_from acc (map h xs) = Some r \<and> 0 < r \<and> in_i64 r \<and> (\<forall>x \<in> set xs. f x \<noteq> None)"
  using assms
proof (induction xs arbitrary: acc)
  case (Cons x xs)
  from Cons.prems(1) obtain v where
      v: "f x = Some v" and fit: "in_i64 (acc * v)"
    and rest: "i64_product_from (acc * v) (map f xs) = Some r"
    by (auto simp: bind_eq_Some_conv i64_simps)
  have hv: "h x = Some v" "0 < v" using Cons.prems(4) [OF _ v] by auto
  have "i64_product_from (acc * v) (map h xs) = Some r \<and> 0 < r \<and> in_i64 r \<and> (\<forall>x \<in> set xs. f x \<noteq> None)"
    by (rule Cons.IH [OF rest _ fit]) (use Cons.prems(2,4) hv(2) in auto)
  then show ?case using v hv fit by (auto simp: i64_mul_def i64_fit_def)
qed simp

lemma checked_tuple_size_Some:
  "checked_tuple_size t = Some n \<Longrightarrow>
     tuple_size t = Some n \<and> 0 < n \<and> pos_tuple t \<and> n = prod_list (tuple_flatten t)"
proof (induction t arbitrary: n)
  case (Leaf v)
  then show ?case by (auto simp: pos_tuple_def split: if_splits)
next
  case (Tuple ts)
  have prod: "i64_product_from 1 (map checked_tuple_size ts) = Some n" using Tuple.prems by simp
  have each: "tuple_size t = Some v \<and> 0 < v" if "t \<in> set ts" "checked_tuple_size t = Some v" for t v
    using Tuple.IH that by blast
  have "i64_product_from 1 (map tuple_size ts) = Some n \<and> 0 < n \<and> in_i64 n \<and>
      (\<forall>t \<in> set ts. checked_tuple_size t \<noteq> None)"
    by (rule checked_product_from [OF prod]) (use each in \<open>auto simp: in_i64_def\<close>)
  then have sz: "i64_product_from 1 (map tuple_size ts) = Some n" "0 < n"
    and all: "\<forall>t \<in> set ts. checked_tuple_size t \<noteq> None"
    by auto
  have "pos_tuple t" if "t \<in> set ts" for t using Tuple.IH that all by blast
  then have "pos_tuple (Tuple ts)" by (auto simp: pos_tuple_def)
  then show ?case using sz tuple_size_eq [of "Tuple ts" n] by simp
qed

lemma pos_tuple_simps [simp]:
  "pos_tuple (Leaf v) \<longleftrightarrow> 0 < v" "pos_tuple (Tuple ts) \<longleftrightarrow> (\<forall>t \<in> set ts. pos_tuple t)"
  by (auto simp: pos_tuple_def)

lemma prod_list_pos: "\<forall>v \<in> set vs. 0 < v \<Longrightarrow> 0 < prod_list vs" for vs :: "int list"
  by (induction vs) auto

lemma prod_pos_tuple: "pos_tuple t \<Longrightarrow> 0 < prod_list (tuple_flatten t)"
  by (simp add: pos_tuple_def prod_list_pos)

lemma congruent_length: "is_congruent a b \<Longrightarrow> length (tuple_flatten a) = length (tuple_flatten b)"
proof (induction a b rule: is_congruent.induct)
  case (2 a b)
  then have "list_all2 (\<lambda>x y. length (tuple_flatten x) = length (tuple_flatten y)) a b"
    by (auto simp: list_all2_conv_all_nth)
  then show ?case by (induction rule: list_all2_induct) auto
qed auto

lemma map_fst_tuple_modes: "is_congruent a b \<Longrightarrow> map fst (tuple_modes a b) = tuple_flatten a"
  by (simp add: tuple_modes_def congruent_length)

lemma modes_size_tuple: "is_congruent a b \<Longrightarrow> modes_size (tuple_modes a b) = prod_list (tuple_flatten a)"
  by (simp add: modes_size_def map_fst_tuple_modes)

lemma pos_tuple_modes: "pos_tuple a \<Longrightarrow> pos_modes (tuple_modes a b)"
  by (auto simp: pos_tuple_def pos_modes_def tuple_modes_def dest: set_zip_leftD)

lemma tuple_modes_simps [simp]:
  "tuple_modes (Leaf v) (Leaf w) = [(v, w)]"
  "tuple_modes (Tuple []) (Tuple []) = []"
  "is_congruent s d \<Longrightarrow>
     tuple_modes (Tuple (s # ss)) (Tuple (d # ds)) = tuple_modes s d @ tuple_modes (Tuple ss) (Tuple ds)"
  by (simp_all add: tuple_modes_def congruent_length)

section \<open>The unchecked evaluator computes the reference meaning\<close>

definition evaluates :: "IntTuple \<Rightarrow> IntTuple \<Rightarrow> bool" where
  "evaluates s d \<longleftrightarrow> (\<forall>c v. 0 \<le> c \<and> c < prod_list (tuple_flatten s) \<and> crd2idx (Leaf c) s d = Some v
     \<longrightarrow> v = mode_offset (tuple_modes s d) c)"

lemma crd2idx_flat_eval:
  assumes "list_all2 is_congruent ss ds" and "list_all2 evaluates ss ds"
    and "\<forall>s \<in> set ss. pos_tuple s" and "0 \<le> rem" and "rem < prod_list (tuple_flatten (Tuple ss))"
    and "crd2idx_flat rem idx ss ds = Some v"
  shows "v = idx + mode_offset (tuple_modes (Tuple ss) (Tuple ds)) rem"
  using assms
proof (induction ss ds arbitrary: rem idx rule: list_induct2')
  case (4 s ss d ds)
  let ?P = "prod_list (tuple_flatten s)"
  from 4(7) obtain sz ci u rem' where
      sz: "tuple_size s = Some sz" and ci: "(if ss = [] then Some rem else i64_rem rem sz) = Some ci"
    and u: "crd2idx (Leaf ci) s d = Some u" and rem': "i64_div rem sz = Some rem'"
    and rest: "crd2idx_flat rem' (idx + u) ss ds = Some v"
    by (auto simp: bind_eq_Some_conv i64_simps)
  have P: "sz = ?P" "0 < ?P" using tuple_size_eq [OF sz] 4(4) prod_pos_tuple by auto
  have r: "rem' = rem div ?P" using rem' 4(5) P by (simp add: i64_simps sdiv_nonneg)
  have c: "ci = rem mod ?P"
  proof (cases "ss = []")
    case True
    then show ?thesis using ci 4(5,6) by simp
  next
    case False
    then show ?thesis using ci 4(5) P by (simp add: i64_simps smod_nonneg)
  qed
  have cong: "is_congruent s d" using 4(2) by simp
  have "u = mode_offset (tuple_modes s d) ci"
    using 4(3) u P(2) c unfolding evaluates_def by simp
  then have u': "u = mode_offset (tuple_modes s d) rem"
    using c mode_offset_mod [of "tuple_modes s d" rem] 4(4) cong
    by (simp add: modes_size_tuple pos_tuple_modes)
  have "0 \<le> rem'" "rem' < prod_list (tuple_flatten (Tuple ss))"
    using r P(2) 4(5,6) by (simp_all add: pos_imp_zdiv_nonneg_iff int_div_less_mult)
  then have "v = idx + u + mode_offset (tuple_modes (Tuple ss) (Tuple ds)) rem'"
    using 4(1) [OF _ _ _ _ _ rest] 4(2-4) by simp
  then show ?case
    using u' r 4(4) cong by (simp add: mode_offset_append pos_tuple_modes modes_size_tuple)
qed auto

lemma crd2idx_eval:
  assumes "is_congruent sh st" and "pos_tuple sh"
  shows "evaluates sh st"
  using assms
proof (induction sh st rule: is_congruent.induct)
  case (1 s d)
  then show ?case by (auto simp: evaluates_def i64_simps)
next
  case (2 ss ds)
  have "list_all2 evaluates ss ds"
    using 2 by (auto simp: list_all2_conv_all_nth)
  moreover have "list_all2 is_congruent ss ds" "\<forall>s \<in> set ss. pos_tuple s" using 2(2,3) by auto
  ultimately show ?case
    using crd2idx_flat_eval [of ss ds _ 0]
    by (auto simp: evaluates_def split: if_splits simp del: tuple_flatten.simps)
qed auto

end
