(* ===== verification/Cute_Layout_Properties.thy ===== *)
theory Cute_Layout_Properties
  imports Cute_Layout_Facts
begin

text \<open>
  The checked evaluator refines the unchecked one and is total on layouts whose offsets fit,
  \<open>idx2crd\<close> inverts the flat decomposition, and compact layouts are what their names say.
\<close>

section \<open>Checked against unchecked\<close>

definition refines :: "IntTuple \<Rightarrow> bool" where
  "refines s \<longleftrightarrow> (\<forall>c d v. checked_crd2idx c s d = Some v \<longrightarrow> crd2idx c s d = Some v)"

lemma checked_modes_refines:
  assumes "\<forall>s \<in> set ss. refines s" and "checked_crd2idx_modes acc cs ss ds = Some v"
  shows "crd2idx_modes acc cs ss ds = Some v"
  using assms
proof (induction ss arbitrary: acc cs ds)
  case Nil
  then show ?case by (cases cs; cases ds) simp_all
next
  case (Cons s ss)
  show ?case
  proof (cases "cs = [] \<or> ds = []")
    case True
    then show ?thesis using Cons.prems(2) by (cases cs; cases ds) simp_all
  next
    case False
    then obtain c cs' d ds' where "cs = c # cs'" "ds = d # ds'" by (meson list.exhaust)
    then show ?thesis
      using Cons by (fastforce simp: bind_eq_Some_conv refines_def)
  qed
qed

lemma i64_div_nonneg: "0 \<le> a \<Longrightarrow> in_i64 a \<Longrightarrow> 0 < b \<Longrightarrow> i64_div a b = Some (a div b)"
  using zdiv_mono2 [of a 1 b] in_i64_mono [of a "a div b"]
  by (simp add: i64_simps sdiv_nonneg pos_imp_zdiv_nonneg_iff)

lemma checked_flat_refines:
  assumes "\<forall>s \<in> set ss. refines s" and "checked_crd2idx_flat rem idx ss ds = Some v"
    and "0 \<le> rem" and "in_i64 rem"
  shows "crd2idx_flat rem idx ss ds = Some v"
  using assms
proof (induction ss arbitrary: rem idx ds)
  case Nil
  then show ?case by (cases ds) simp_all
next
  case (Cons s ss)
  show ?case
  proof (cases ds)
    case Nil
    then show ?thesis using Cons.prems(2) by simp
  next
    case ds: (Cons d ds')
    let ?c = "\<lambda>sz. if ss = [] then rem else rem smod sz"
    from Cons.prems(2) ds obtain sz u where
        sz: "checked_tuple_size s = Some sz" and pos: "0 < sz"
      and u: "checked_crd2idx (Leaf (?c sz)) s d = Some u" and fit: "in_i64 (idx + u)"
      and rest: "checked_crd2idx_flat (rem sdiv sz) (idx + u) ss ds' = Some v"
      by (auto simp: bind_eq_Some_conv i64_simps split: if_splits)
    have q: "rem sdiv sz = rem div sz" and r: "rem smod sz = rem mod sz"
      using Cons.prems(3) pos by (simp_all add: sdiv_nonneg smod_nonneg)
    have d: "i64_div rem sz = Some (rem div sz)" by (rule i64_div_nonneg) (use Cons.prems pos in simp_all)
    then have dr: "0 \<le> rem div sz" "in_i64 (rem div sz)"
      using Cons.prems(3) pos by (auto simp: i64_simps q pos_imp_zdiv_nonneg_iff)
    have "crd2idx (Leaf (?c sz)) s d = Some u" using Cons.prems(1) u by (auto simp: refines_def)
    moreover have "crd2idx_flat (rem div sz) (idx + u) ss ds' = Some v"
      using Cons.IH rest Cons.prems(1) dr by (simp add: q)
    moreover have "tuple_size s = Some sz" using checked_tuple_size_Some [OF sz] by simp
    moreover have "(if ss = [] then Some rem else i64_rem rem sz) = Some (?c sz)"
      using pos by (simp add: i64_simps)
    ultimately show ?thesis using ds d fit by (simp add: i64_add_def i64_fit_def)
  qed
qed

lemma checked_crd2idx_refines: "refines s"
proof (induction s)
  case (Leaf s)
  show ?case unfolding refines_def
  proof (intro allI impI)
    fix c d v assume "checked_crd2idx c (Leaf s) d = Some v"
    then show "crd2idx c (Leaf s) d = Some v" by (cases c; cases d) (auto split: if_splits)
  qed
next
  case (Tuple ss)
  show ?case unfolding refines_def
  proof (intro allI impI)
    fix c d v assume *: "checked_crd2idx c (Tuple ss) d = Some v"
    then obtain ds where d: "d = Tuple ds" by (cases c; cases d) auto
    show "crd2idx c (Tuple ss) d = Some v"
    proof (cases c)
      case (Leaf i)
      with * d obtain n where n: "checked_tuple_size (Tuple ss) = Some n" "0 \<le> i" "i < n"
        "length ss = length ds" "checked_crd2idx_flat i 0 ss ds = Some v"
        by (auto simp: bind_eq_Some_conv split: if_splits)
      have "in_i64 n"
        using n(1) checked_product_from [of 1 checked_tuple_size ss n tuple_size]
          checked_tuple_size_Some by (auto simp: in_i64_def)
      then have "in_i64 i" using n(2,3) by (auto simp: in_i64_def)
      then show ?thesis using checked_flat_refines [of ss i 0 ds v] Tuple.IH n Leaf d by auto
    next
      case (Tuple cs)
      then show ?thesis using * d checked_modes_refines [of ss 0 cs ds v] Tuple.IH by (auto split: if_splits)
    qed
  qed
qed

section \<open>Totality of the checked evaluator\<close>

definition fits :: "IntTuple \<Rightarrow> IntTuple \<Rightarrow> bool" where
  "fits s d \<longleftrightarrow> (\<forall>c. 0 \<le> c \<and> c < prod_list (tuple_flatten s) \<longrightarrow>
     checked_crd2idx (Leaf c) s d = Some (mode_offset (tuple_modes s d) c))"

text \<open>Every prefix product of positive extents is bounded by the whole product.\<close>

lemma checked_product_total:
  assumes "\<forall>x \<in> set xs. f x = Some (g x) \<and> 0 < g x" and "0 < acc"
    and "in_i64 (acc * prod_list (map g xs))"
  shows "i64_product_from acc (map f xs) = Some (acc * prod_list (map g xs))"
  using assms
proof (induction xs arbitrary: acc)
  case (Cons x xs)
  have pos: "0 < g x" "0 < prod_list (map g xs)"
    using Cons.prems(1) prod_list_pos [of "map g xs"] by auto
  have "acc * g x \<le> acc * g x * prod_list (map g xs)" using pos Cons.prems(2) by simp
  then have "in_i64 (acc * g x)"
    using Cons.prems(2,3) pos by (auto intro: in_i64_mono simp: mult.assoc)
  then show ?case
    using Cons pos by (simp add: i64_mul_def i64_fit_def mult.assoc)
qed simp

lemma prod_le_concat:
  assumes "\<forall>t \<in> set ts. pos_tuple t" and "t \<in> set ts"
  shows "prod_list (tuple_flatten t) \<le> prod_list (tuple_flatten (Tuple ts))"
  using assms
proof (induction ts)
  case (Cons u ts)
  have pu: "0 < prod_list (tuple_flatten u)" using Cons.prems(1) by (simp add: prod_pos_tuple)
  have pt: "0 < prod_list (tuple_flatten (Tuple ts))"
    using Cons.prems(1) prod_pos_tuple [of "Tuple ts"] by simp
  show ?case
  proof (cases "t = u")
    case True
    then show ?thesis using pu pt by simp
  next
    case False
    then have "prod_list (tuple_flatten t) \<le> prod_list (tuple_flatten (Tuple ts))"
      using Cons by auto
    also have "\<dots> \<le> prod_list (tuple_flatten u) * prod_list (tuple_flatten (Tuple ts))"
      using pu pt by simp
    finally show ?thesis by simp
  qed
qed simp

lemma checked_tuple_size_total:
  "pos_tuple t \<Longrightarrow> in_i64 (prod_list (tuple_flatten t)) \<Longrightarrow>
     checked_tuple_size t = Some (prod_list (tuple_flatten t))"
proof (induction t)
  case (Leaf v)
  then show ?case by simp
next
  case (Tuple ts)
  have "checked_tuple_size t = Some (prod_list (tuple_flatten t)) \<and> 0 < prod_list (tuple_flatten t)"
    if "t \<in> set ts" for t
  proof -
    have "pos_tuple t" using Tuple.prems(1) that by simp
    moreover have "in_i64 (prod_list (tuple_flatten t))"
      using Tuple.prems prod_le_concat [OF _ that] prod_pos_tuple [OF \<open>pos_tuple t\<close>]
      by (auto intro: in_i64_mono)
    ultimately show ?thesis using Tuple.IH that prod_pos_tuple by blast
  qed
  then show ?case
    using checked_product_total [of ts checked_tuple_size "\<lambda>t. prod_list (tuple_flatten t)" 1] Tuple.prems
    by (simp add: prod_list_concat comp_def)
qed

lemma checked_flat_total:
  assumes "list_all2 is_congruent ss ds" and "list_all2 fits ss ds" and "\<forall>s \<in> set ss. pos_tuple s"
    and "in_i64 (prod_list (tuple_flatten (Tuple ss)))"
    and "0 \<le> rem" and "rem < prod_list (tuple_flatten (Tuple ss))"
    and "\<bar>idx\<bar> + modes_span (tuple_modes (Tuple ss) (Tuple ds)) \<le> i64_max"
  shows "checked_crd2idx_flat rem idx ss ds = Some (idx + mode_offset (tuple_modes (Tuple ss) (Tuple ds)) rem)"
  using assms
proof (induction ss ds arbitrary: rem idx rule: list_induct2')
  case (4 s ss d ds)
  let ?P = "prod_list (tuple_flatten s)" and ?ms = "tuple_modes s d"
  let ?rest = "tuple_modes (Tuple ss) (Tuple ds)"
  have cong: "is_congruent s d" and pos: "pos_tuple s" and P: "0 < ?P"
    using 4(2,4) prod_pos_tuple by auto
  have rest_pos: "\<forall>s \<in> set ss. pos_tuple s" using 4(4) by simp
  have Q: "0 < prod_list (tuple_flatten (Tuple ss))" using rest_pos prod_pos_tuple [of "Tuple ss"] by simp
  have fitP: "in_i64 ?P" "in_i64 (prod_list (tuple_flatten (Tuple ss)))"
    by (rule in_i64_mono [OF 4(5)]; use P Q in simp)+
  have sz: "checked_tuple_size s = Some ?P" by (rule checked_tuple_size_total [OF pos fitP(1)])
  have c: "(if ss = [] then rem else rem smod ?P) = rem mod ?P"
    using 4(6,7) P by (cases "ss = []") (simp_all add: smod_nonneg)
  have u: "checked_crd2idx (Leaf (rem mod ?P)) s d = Some (mode_offset ?ms rem)"
    using 4(3) P mode_offset_mod [of ?ms rem] pos cong
    by (simp add: fits_def modes_size_tuple pos_tuple_modes)
  have bound: "\<bar>mode_offset ?ms rem\<bar> \<le> modes_span ?ms" using mode_offset_bound pos_tuple_modes [OF pos] by blast
  have span: "\<bar>idx\<bar> + (modes_span ?ms + modes_span ?rest) \<le> i64_max" using 4(8) cong by simp
  have "0 \<le> modes_span ?rest" using rest_pos by (intro modes_span_nonneg pos_tuple_modes) simp
  then have "in_i64 (idx + mode_offset ?ms rem)"
    unfolding in_i64_def using bound span by linarith
  then have add: "i64_add idx (mode_offset ?ms rem) = Some (idx + mode_offset ?ms rem)"
    by (simp add: i64_add_def i64_fit_def)
  have "\<bar>idx + mode_offset ?ms rem\<bar> + modes_span ?rest \<le> i64_max" using bound span by linarith
  moreover have "rem sdiv ?P = rem div ?P" "0 \<le> rem div ?P" "rem div ?P < prod_list (tuple_flatten (Tuple ss))"
    using 4(6,7) P by (simp_all add: sdiv_nonneg pos_imp_zdiv_nonneg_iff int_div_less_mult)
  ultimately have "checked_crd2idx_flat (rem sdiv ?P) (idx + mode_offset ?ms rem) ss ds =
      Some (idx + mode_offset ?ms rem + mode_offset ?rest (rem div ?P))"
    using 4(1) 4(2,3) rest_pos fitP(2) by simp
  then show ?case
    using sz u add P c cong pos
    by (simp add: mode_offset_append pos_tuple_modes modes_size_tuple)
qed auto

lemma member_span_le:
  assumes "list_all2 is_congruent ss ds" and "\<forall>s \<in> set ss. pos_tuple s" and "k < length ss"
  shows "modes_span (tuple_modes (ss ! k) (ds ! k)) \<le> modes_span (tuple_modes (Tuple ss) (Tuple ds))"
  using assms
proof (induction ss ds arbitrary: k rule: list_induct2')
  case (4 s ss d ds)
  have nn: "0 \<le> modes_span (tuple_modes s d)" "0 \<le> modes_span (tuple_modes (Tuple ss) (Tuple ds))"
    using 4(3) by (simp_all add: modes_span_nonneg pos_tuple_modes)
  show ?case
  proof (cases k)
    case 0
    then show ?thesis using nn 4(2) by simp
  next
    case (Suc j)
    then have "modes_span (tuple_modes (ss ! j) (ds ! j)) \<le> modes_span (tuple_modes (Tuple ss) (Tuple ds))"
      using 4 by simp
    then show ?thesis using nn Suc 4(2) by simp
  qed
qed auto

lemma checked_crd2idx_total:
  assumes "is_congruent sh st" and "pos_tuple sh" and "in_i64 (prod_list (tuple_flatten sh))"
    and "modes_span (tuple_modes sh st) \<le> i64_max"
  shows "fits sh st"
  using assms
proof (induction sh st rule: is_congruent.induct)
  case (1 s d)
  show ?case unfolding fits_def
  proof (intro allI impI)
    fix c assume c: "0 \<le> c \<and> c < prod_list (tuple_flatten (Leaf s))"
    have "\<bar>c * d\<bar> \<le> (s - 1) * \<bar>d\<bar>" using c by (simp add: abs_mult mult_right_mono)
    then have "in_i64 (c * d)" using 1(4) by (simp add: in_i64_def abs_le_iff)
    then show "checked_crd2idx (Leaf c) (Leaf s) (Leaf d) =
        Some (mode_offset (tuple_modes (Leaf s) (Leaf d)) c)"
      using c by (simp add: i64_mul_def i64_fit_def)
  qed
next
  case (2 ss ds)
  have cong: "list_all2 is_congruent ss ds" and pos: "\<forall>s \<in> set ss. pos_tuple s" using 2(2,3) by auto
  have len: "length ss = length ds" using cong by (rule list_all2_lengthD)
  have "fits (ss ! k) (ds ! k)" if k: "k < length ss" for k
  proof (rule 2(1) [of "ss ! k" "ds ! k"])
    show "ss ! k \<in> set ss" "ds ! k \<in> set ds" "pos_tuple (ss ! k)" using k len pos by auto
    show "is_congruent (ss ! k) (ds ! k)" using cong k by (simp add: list_all2_nthD)
    show "in_i64 (prod_list (tuple_flatten (ss ! k)))"
      using in_i64_mono [OF 2(4)] prod_le_concat [of ss "ss ! k"] prod_pos_tuple [of "ss ! k"] pos k by force
    show "modes_span (tuple_modes (ss ! k) (ds ! k)) \<le> i64_max"
      using member_span_le [OF cong pos k] 2(5) by linarith
  qed
  then have sub: "list_all2 fits ss ds" using len by (simp add: list_all2_conv_all_nth)
  have sz: "checked_tuple_size (Tuple ss) = Some (prod_list (tuple_flatten (Tuple ss)))"
    using checked_tuple_size_total 2(3,4) by blast
  show ?case unfolding fits_def
  proof (intro allI impI)
    fix c assume c: "0 \<le> c \<and> c < prod_list (tuple_flatten (Tuple ss))"
    have "checked_crd2idx_flat c 0 ss ds = Some (0 + mode_offset (tuple_modes (Tuple ss) (Tuple ds)) c)"
      by (rule checked_flat_total [OF cong sub pos 2(4)]) (use c 2(5) in simp_all)
    then show "checked_crd2idx (Leaf c) (Tuple ss) (Tuple ds) =
        Some (mode_offset (tuple_modes (Tuple ss) (Tuple ds)) c)"
      using c sz len by simp
  qed
qed auto

section \<open>Coordinates and compact layouts\<close>

lemma idx2crd_list_flat:
  assumes "\<forall>s \<in> set ss. \<forall>c t d. idx2crd c s = Some t \<longrightarrow> crd2idx t s d = crd2idx (Leaf c) s d"
    and "idx2crd_list rem ss = Some cs"
  shows "crd2idx_modes acc cs ss ds = crd2idx_flat rem acc ss ds"
  using assms
proof (induction ss arbitrary: rem acc cs ds)
  case Nil
  then show ?case by (cases ds) simp_all
next
  case (Cons s ss)
  from Cons.prems(2) obtain sz ci t rem' cs' where
      sz: "tuple_size s = Some sz" and ci: "(if ss = [] then Some rem else i64_rem rem sz) = Some ci"
    and t: "idx2crd ci s = Some t" and rem': "i64_div rem sz = Some rem'"
    and cs': "idx2crd_list rem' ss = Some cs'" and cs: "cs = t # cs'"
    by (auto simp: bind_eq_Some_conv)
  show ?case
  proof (cases ds)
    case Nil
    then show ?thesis using cs by simp
  next
    case ds: (Cons d ds')
    have "crd2idx t s d = crd2idx (Leaf ci) s d" using Cons.prems(1) t by simp
    moreover have "crd2idx_modes a cs' ss ds' = crd2idx_flat rem' a ss ds'" for a
      using Cons.IH [OF _ cs'] Cons.prems(1) by simp
    ultimately show ?thesis
      using cs sz ci rem' ds by (cases "crd2idx (Leaf ci) s d") (simp_all split: option.splits)
  qed
qed

lemma idx2crd_list_length: "idx2crd_list rem ss = Some cs \<Longrightarrow> length cs = length ss"
  by (induction ss arbitrary: rem cs) (auto simp: bind_eq_Some_conv)

lemma crd2idx_idx2crd: "idx2crd c s = Some t \<Longrightarrow> crd2idx t s d = crd2idx (Leaf c) s d"
proof (induction s arbitrary: c t d)
  case (Leaf s)
  then show ?case by simp
next
  case (Tuple ss)
  from Tuple.prems obtain cs where cs: "idx2crd_list c ss = Some cs" "t = Tuple cs" by auto
  show ?case
  proof (cases d)
    case (Leaf v)
    then show ?thesis using cs by simp
  next
    case (Tuple ds)
    then show ?thesis
      using cs idx2crd_list_flat [OF _ cs(1), of 0 ds] Tuple.IH idx2crd_list_length [OF cs(1)] by auto
  qed
qed

lemma idx2crd_list_Some:
  assumes "\<forall>s \<in> set ss. \<forall>c. 0 \<le> c \<and> in_i64 c \<longrightarrow> idx2crd c s \<noteq> None"
    and "\<forall>s \<in> set ss. \<exists>n. checked_tuple_size s = Some n" and "0 \<le> rem" and "in_i64 rem"
  shows "idx2crd_list rem ss \<noteq> None"
  using assms
proof (induction ss arbitrary: rem)
  case (Cons s ss)
  from Cons.prems(2) obtain n where "checked_tuple_size s = Some n" by auto
  then have n: "tuple_size s = Some n" "0 < n" using checked_tuple_size_Some by auto
  have d: "i64_div rem n = Some (rem div n)" using i64_div_nonneg Cons.prems(3,4) n by blast
  then have d': "0 \<le> rem div n" "in_i64 (rem div n)"
    using Cons.prems(3) n(2) by (auto simp: i64_simps sdiv_nonneg pos_imp_zdiv_nonneg_iff)
  have r: "i64_rem rem n = Some (rem mod n)" "0 \<le> rem mod n" "in_i64 (rem mod n)"
    using Cons.prems(3,4) n(2) in_i64_mono [OF Cons.prems(4), of "rem mod n"]
    by (auto simp: i64_simps smod_nonneg zmod_le_nonneg_dividend)
  have "idx2crd rem s \<noteq> None" "idx2crd (rem mod n) s \<noteq> None" using Cons.prems r by auto
  moreover have "idx2crd_list (rem div n) ss \<noteq> None" using Cons d' by auto
  ultimately show ?case using n d r by (auto split: option.splits)
qed simp

lemma idx2crd_Some:
  "checked_tuple_size s = Some n \<Longrightarrow> 0 \<le> c \<Longrightarrow> in_i64 c \<Longrightarrow> idx2crd c s \<noteq> None"
proof (induction s arbitrary: n c)
  case (Tuple ss)
  have "\<forall>s \<in> set ss. checked_tuple_size s \<noteq> None"
    using i64_product_from_SomeD [of 1 checked_tuple_size ss n] Tuple.prems(1) by simp
  then have "idx2crd_list c ss \<noteq> None"
    using Tuple by (intro idx2crd_list_Some) auto
  then show ?case by simp
qed simp

lemma restructure_leaves:
  "length (tuple_flatten t) \<le> length vs \<Longrightarrow>
     \<exists>u. restructure t vs = Some (u, drop (length (tuple_flatten t)) vs) \<and>
         tuple_flatten u = take (length (tuple_flatten t)) vs \<and> is_congruent t u"
proof (induction t arbitrary: vs)
  case (Leaf v)
  then show ?case by (cases vs) simp_all
next
  case (Tuple ts)
  have "\<exists>us. restructure_list ts vs = Some (us, drop (length (concat (map tuple_flatten ts))) vs) \<and>
      concat (map tuple_flatten us) = take (length (concat (map tuple_flatten ts))) vs \<and>
      list_all2 is_congruent ts us"
    using Tuple
  proof (induction ts arbitrary: vs)
    case (Cons t ts)
    let ?k = "length (tuple_flatten t)"
    have "?k \<le> length vs" using Cons.prems(2) by simp
    from Cons.prems(1) [OF _ this] obtain u where
      u: "restructure t vs = Some (u, drop ?k vs)" "tuple_flatten u = take ?k vs" "is_congruent t u"
      by auto
    have "\<exists>us. restructure_list ts (drop ?k vs) =
          Some (us, drop (length (concat (map tuple_flatten ts))) (drop ?k vs)) \<and>
        concat (map tuple_flatten us) = take (length (concat (map tuple_flatten ts))) (drop ?k vs) \<and>
        list_all2 is_congruent ts us"
      by (rule Cons.IH) (use Cons.prems in \<open>auto simp: le_diff_conv2\<close>)
    then show ?case using u by (auto simp: take_add add.commute)
  qed simp
  then show ?case by auto
qed

lemma restructure_exact:
  "length (tuple_flatten t) = length vs \<Longrightarrow>
     \<exists>u. restructure t vs = Some (u, []) \<and> tuple_flatten u = vs \<and> is_congruent t u"
  using restructure_leaves [of t vs] by simp

lemma col_strides_length: "col_strides r ls = Some st \<Longrightarrow> length st = length ls"
  by (induction ls arbitrary: r st) (auto simp: bind_eq_Some_conv)

lemma col_strides_offset:
  "col_strides r ls = Some st \<Longrightarrow> \<forall>v \<in> set ls. 0 < v \<Longrightarrow> 0 \<le> c \<Longrightarrow> c < prod_list ls \<Longrightarrow>
     mode_offset (zip ls st) c = r * c"
proof (induction ls arbitrary: r st c)
  case (Cons l ls)
  from Cons.prems(1) obtain st' where
      st: "st = r # st'" and rest: "col_strides (r * l) ls = Some st'"
    by (auto simp: bind_eq_Some_conv i64_simps)
  have l: "0 < l" using Cons.prems(2) by simp
  have "mode_offset (zip ls st') (c div l) = r * l * (c div l)"
    using Cons.IH [OF rest] Cons.prems(2-4) l by (simp add: pos_imp_zdiv_nonneg_iff int_div_less_mult)
  then have "mode_offset (zip (l # ls) st) c = r * (c mod l) + r * (l * (c div l))"
    using st by (simp add: mult.commute mult.left_commute)
  also have "\<dots> = r * (c mod l + l * (c div l))" by (simp only: distrib_left)
  finally show ?case by simp
qed simp

lemma col_major_with_Some:
  assumes "col_major_with sh r = Some l"
  shows "shape l = sh" and "is_congruent sh (stride l)"
    and "col_strides r (tuple_flatten sh) = Some (tuple_flatten (stride l))"
proof -
  from assms obtain st u rest where
      st: "col_strides r (tuple_flatten sh) = Some st" and u: "restructure sh st = Some (u, rest)"
    and l: "l = \<lparr>shape = sh, stride = u\<rparr>"
    by (auto simp: col_major_with_def bind_eq_Some_conv)
  from restructure_exact [of sh st] col_strides_length [OF st] u
  have "tuple_flatten u = st" "is_congruent sh u" by auto
  then show "shape l = sh" "is_congruent sh (stride l)"
    "col_strides r (tuple_flatten sh) = Some (tuple_flatten (stride l))" using l st by auto
qed

lemma col_major_offset:
  assumes "col_major_with sh r = Some l" and "pos_tuple sh" and "0 \<le> c" and "c < prod_list (tuple_flatten sh)"
  shows "mode_offset (tuple_modes (shape l) (stride l)) c = r * c"
  using col_strides_offset [OF col_major_with_Some(3) [OF assms(1)]] assms(2-4) col_major_with_Some(1) [OF assms(1)]
  by (simp add: tuple_modes_def pos_tuple_def)

lemma col_strides_span:
  "col_strides r ls = Some st \<Longrightarrow> \<forall>v \<in> set ls. 0 < v \<Longrightarrow> 0 \<le> r \<Longrightarrow>
     modes_span (zip ls st) = r * (prod_list ls - 1)"
proof (induction ls arbitrary: r st)
  case (Cons l ls)
  from Cons.prems(1) obtain st' where
      st: "st = r # st'" and rest: "col_strides (r * l) ls = Some st'"
    by (auto simp: bind_eq_Some_conv i64_simps)
  have "modes_span (zip ls st') = r * l * (prod_list ls - 1)"
    using Cons.IH [OF rest] Cons.prems(2,3) by simp
  then show ?case using st Cons.prems(3) by (simp add: algebra_simps)
qed simp

section \<open>Properties\<close>

abbreviation layout_flat :: "Layout \<Rightarrow> (int \<times> int) list" where
  "layout_flat l \<equiv> tuple_modes (shape l) (stride l)"

definition row_major_2_3 :: Layout where
  "row_major_2_3 = \<lparr>shape = Tuple [Leaf 2, Leaf 3], stride = Tuple [Leaf 3, Leaf 1]\<rparr>"

lemma layout_total:
  assumes "is_congruent (shape l) (stride l)" and "checked_size l = Some n"
    and "modes_span (layout_flat l) \<le> i64_max" and "in_i64 n" and "0 \<le> c" and "c < n"
  shows "checked_call l (Leaf c) = Some (mode_offset (layout_flat l) c)"
  using checked_crd2idx_total [OF assms(1)] checked_tuple_size_Some [of "shape l" n] assms(2-6)
  by (auto simp: checked_call_def checked_size_def fits_def)

text \<open>(C10) The checked evaluator refines the unchecked one: wherever \<open>checked_call\<close> answers,
  \<open>call\<close> neither panics nor overflows and returns the same offset, for tuple and flat coordinates
  on any pair of tuples.\<close>

theorem checked_call_refines_call:
  assumes "checked_call l coord = Some v"
  shows "call l coord = Some v"
  using assms checked_crd2idx_refines by (simp add: call_def checked_call_def refines_def)

theorem checked_call_refines_call_witness: "call row_major_2_3 (Leaf 4) = Some 2"
  by (rule checked_call_refines_call) code_simp

text \<open>The checked evaluator is exact and total: on a congruent layout whose size is valid and
  whose offsets fit in 64 bits, every flat coordinate below the size gets the mixed-radix offset
  (leftmost mode fastest, digit times stride), and every other flat coordinate is refused.\<close>

theorem checked_call_exact:
  assumes "is_congruent (shape l) (stride l)" and "checked_size l = Some n" and "in_i64 n"
    and "modes_span (layout_flat l) \<le> i64_max"
  shows "checked_call l (Leaf c) =
    (if 0 \<le> c \<and> c < n then Some (mode_offset (layout_flat l) c) else None)"
proof (cases "0 \<le> c \<and> c < n")
  case True
  then show ?thesis using layout_total [OF assms(1,2,4,3)] by simp
next
  case False
  then show ?thesis
    using assms(1,2)
    by (cases "shape l"; cases "stride l")
       (auto simp: checked_call_def checked_size_def split: if_splits)
qed

theorem checked_call_exact_witness:
  "checked_call row_major_2_3 (Leaf 5) = Some 5 \<and> checked_call row_major_2_3 (Leaf 6) = None"
proof -
  have h: "is_congruent (shape row_major_2_3) (stride row_major_2_3)" "checked_size row_major_2_3 = Some 6"
    "in_i64 6" "modes_span (layout_flat row_major_2_3) \<le> i64_max"
    by (simp_all add: row_major_2_3_def checked_size_def i64_mul_def i64_fit_def in_i64_def)
  show ?thesis
    using checked_call_exact [OF h, of 5] checked_call_exact [OF h, of 6]
    by (simp add: row_major_2_3_def)
qed

text \<open>The unchecked evaluator has the same meaning: whenever \<open>call\<close> returns on an in-range flat
  coordinate of a congruent layout with positive extents, the value is the mixed-radix offset.\<close>

theorem call_reference:
  assumes "is_congruent (shape l) (stride l)" and "pos_tuple (shape l)"
    and "0 \<le> c" and "c < modes_size (layout_flat l)" and "call l (Leaf c) = Some v"
  shows "v = mode_offset (layout_flat l) c"
  using crd2idx_eval [OF assms(1,2)] assms(1,3-5) by (simp add: evaluates_def call_def modes_size_tuple)

theorem call_reference_witness: "mode_offset (layout_flat row_major_2_3) 4 = 2"
proof -
  have "(2 :: int) = mode_offset (layout_flat row_major_2_3) 4"
    by (rule call_reference)
       (simp_all add: row_major_2_3_def call_def i64_simps i64_mul_def i64_fit_def in_i64_def
          i64_rem_def i64_div_def i64_add_def sdiv_nonneg smod_nonneg)
  then show ?thesis by simp
qed

text \<open>\<open>idx2crd\<close> inverts the flat decomposition of \<open>crd2idx\<close>: it succeeds on every nonnegative
  coordinate of a valid shape, and evaluating the unpacked tuple is the same computation as
  evaluating the flat coordinate, whatever the strides.\<close>

theorem idx2crd_correct:
  assumes "checked_size l = Some n" and "0 \<le> c" and "in_i64 c"
  shows "\<exists>t. idx2crd c (shape l) = Some t \<and> call l t = call l (Leaf c)"
  using idx2crd_Some [of "shape l" n c] crd2idx_idx2crd assms by (auto simp: checked_size_def call_def)

theorem idx2crd_correct_witness:
  "\<exists>t. idx2crd 4 (shape row_major_2_3) = Some t \<and> call row_major_2_3 t = call row_major_2_3 (Leaf 4)"
  by (rule idx2crd_correct [of _ 6])
     (simp_all add: row_major_2_3_def checked_size_def i64_mul_def i64_fit_def in_i64_def)

text \<open>\<open>col_major\<close> builds the identity walk: when it returns a layout of a valid size, every flat
  coordinate maps to the same-numbered offset and \<open>is_identity_map\<close> says so.\<close>

theorem col_major_identity:
  assumes "col_major sh = Some l" and "checked_size l = Some n" and "in_i64 n"
  shows "is_congruent (shape l) (stride l) \<and> shape l = sh \<and> is_identity_map l"
proof -
  note l = col_major_with_Some [OF assms(1) [unfolded col_major_def]]
  note n = checked_tuple_size_Some [OF assms(2) [unfolded checked_size_def]]
  have pos: "pos_tuple sh" using n l(1) by simp
  have "modes_span (layout_flat l) = prod_list (tuple_flatten sh) - 1"
    using col_strides_span [OF l(3)] pos l(1) by (simp add: pos_tuple_def tuple_modes_def)
  then have span: "modes_span (layout_flat l) \<le> i64_max"
    using assms(3) n l(1) by (simp add: in_i64_def)
  have "checked_call l (Leaf c) = Some c" if "0 \<le> c" "c < n" for c
    using layout_total [of l n c] col_major_offset [OF assms(1) [unfolded col_major_def] pos that(1)]
      that assms(2,3) span l n by simp
  then show ?thesis
    using l n assms(2) by (auto simp: is_identity_map_def list_all_iff)
qed

theorem col_major_identity_witness:
  "\<exists>l. col_major (Tuple [Leaf 2, Tuple [Leaf 3, Leaf 4]]) = Some l \<and> is_identity_map l"
proof -
  let ?l = "\<lparr>shape = Tuple [Leaf 2, Tuple [Leaf 3, Leaf 4]], stride = Tuple [Leaf 1, Tuple [Leaf 2, Leaf 6]]\<rparr>"
  have h: "col_major (Tuple [Leaf 2, Tuple [Leaf 3, Leaf 4]]) = Some ?l" "checked_size ?l = Some 24" "in_i64 24"
    by (simp_all add: col_major_def col_major_with_def checked_size_def i64_mul_def i64_fit_def in_i64_def)
  then show ?thesis using col_major_identity [OF h] by blast
qed

end
