(* ===== verification/Cute_Algebra.thy ===== *)
theory Cute_Algebra
  imports Cute_Layout "HOL-Library.Product_Lexorder"
begin

text \<open>
  The layout algebra of \<open>cute-layout/src/algebra\<close>: simplification, composition, complement and
  inverses (\<open>mapping.rs\<close>), division and products (\<open>tiling.rs\<close>), thread/value maps
  (\<open>thread_value.rs\<close>) and static alignment (\<open>alignment.rs\<close>). \<open>Err\<close> carries the
  \<open>AlgebraError\<close> message; \<open>Panic\<close> is an overflow, a zero divisor or an index out of range.
\<close>

datatype AlgebraError = AlgebraError string

type_synonym 'a algebra_result = "('a, AlgebraError) outcome"

definition flat_modes :: "Layout \<Rightarrow> (int \<times> int) list" where
  "flat_modes l = zip (tuple_flatten (shape l)) (tuple_flatten (stride l))"

fun layout_from_flat :: "(int \<times> int) list \<Rightarrow> Layout" where
  "layout_from_flat [] = \<lparr>shape = Leaf 1, stride = Leaf 0\<rparr>"
| "layout_from_flat [(s, d)] = \<lparr>shape = Leaf s, stride = Leaf d\<rparr>"
| "layout_from_flat ms =
     \<lparr>shape = Tuple (map (\<lambda>(s, _). Leaf s) ms), stride = Tuple (map (\<lambda>(_, d). Leaf d) ms)\<rparr>"

section \<open>mapping.rs\<close>

definition flatten :: "Layout \<Rightarrow> Layout" where
  "flatten l = layout_from_flat (flat_modes l)"

text \<open>The loop of \<open>coalesce\<close>; \<open>out\<close> holds the pushed modes with the last one in front.\<close>

fun coalesce_loop :: "(int \<times> int) list \<Rightarrow> (int \<times> int) list \<Rightarrow> (int \<times> int) list option" where
  "coalesce_loop out [] = Some (rev out)"
| "coalesce_loop out ((s, d) # ms) =
     (if s = 1 then coalesce_loop out ms
      else case out of
        [] \<Rightarrow> coalesce_loop [(s, d)] ms
      | (s0, d0) # out' \<Rightarrow>
          do { next_d \<leftarrow> i64_mul s0 d0;
               if d = next_d
               then do { merged \<leftarrow> i64_mul s0 s; coalesce_loop ((merged, d0) # out') ms }
               else coalesce_loop ((s, d) # out) ms })"

definition coalesce :: "Layout \<Rightarrow> Layout option" where
  "coalesce l = map_option layout_from_flat (coalesce_loop [] (flat_modes l))"

definition filter_layout :: "Layout \<Rightarrow> Layout option" where
  "filter_layout l =
     coalesce (layout_from_flat (map (\<lambda>(s, d). if d = 0 then (1, 0) else (s, d)) (flat_modes l)))"

definition ceil_div :: "int \<Rightarrow> int \<Rightarrow> int option" where
  "ceil_div a b = do { x \<leftarrow> i64_add a b; y \<leftarrow> i64_sub x 1; i64_div y b }"

text \<open>The loop of \<open>compose_int\<close> over all but the last mode of the left operand.\<close>

fun compose_loop ::
    "(int \<times> int) list \<Rightarrow> (int \<times> int) list \<Rightarrow> int \<Rightarrow> int \<Rightarrow> ((int \<times> int) list \<times> int \<times> int) algebra_result" where
  "compose_loop [] result rest_shape rest_stride = Ok (result, rest_shape, rest_stride)"
| "compose_loop ((curr_shape, curr_stride) # ms) result rest_shape rest_stride =
     try_let (or_panic (i64_rem rest_stride curr_shape)) (\<lambda>r.
     try_let (if r \<noteq> 0 then or_panic (map_option (\<lambda>a. a \<ge> curr_shape) (i64_abs rest_stride)) else Ok False)
     (\<lambda>bad.
     if bad then Err (AlgebraError (''composition: stride '' @ show_int rest_stride @
         '' does not divide lhs mode of shape '' @ show_int curr_shape @
         '' (stride divisibility condition)''))
     else
     try_let (or_panic (i64_abs rest_stride)) (\<lambda>abs_rest_stride.
     let sgn_stride = (if rest_stride < 0 then - 1 else 1) in
     try_let (or_panic (ceil_div curr_shape abs_rest_stride)) (\<lambda>next_shape.
     try_let (or_panic (do { q \<leftarrow> ceil_div abs_rest_stride curr_shape; i64_mul q sgn_stride })) (\<lambda>next_stride.
     if next_shape = 1 \<or> rest_shape = 1 then compose_loop ms result rest_shape next_stride
     else
     let new_shape = min next_shape rest_shape in
     try_let (or_panic (i64_rem rest_shape new_shape)) (\<lambda>r.
     if r \<noteq> 0 then Err (AlgebraError (''composition: shape '' @ show_int rest_shape @
         '' is not divisible by '' @ show_int new_shape @ '' (shape divisibility condition)''))
     else
     try_let (or_panic (i64_mul rest_stride curr_stride)) (\<lambda>d.
     try_let (or_panic (i64_div rest_shape new_shape)) (\<lambda>rest_shape'.
     compose_loop ms (result @ [(new_shape, d)]) rest_shape' next_stride))))))))"

definition compose_int :: "Layout \<Rightarrow> int \<Rightarrow> int \<Rightarrow> Layout algebra_result" where
  "compose_int a b_shape b_stride =
     (if b_stride = 0 then Ok (layout_from_flat [(b_shape, 0)])
      else
      try_let (or_panic (coalesce a)) (\<lambda>ac.
      case flat_modes ac of
        [] \<Rightarrow> Panic
      | [(_, d0)] \<Rightarrow> try_let (or_panic (i64_mul b_stride d0)) (\<lambda>d. Ok (layout_from_flat [(b_shape, d)]))
      | modes \<Rightarrow>
          try_let (compose_loop (butlast modes) [] b_shape b_stride) (\<lambda>(result, rest_shape, rest_stride).
          let last_stride = snd (last modes) in
          if result = []
          then try_let (or_panic (i64_mul rest_stride last_stride)) (\<lambda>d.
                 Ok (layout_from_flat [(rest_shape, d)]))
          else
          try_let (if rest_shape \<noteq> 1
                   then or_panic (map_option (\<lambda>d. result @ [(rest_shape, d)]) (i64_mul rest_stride last_stride))
                   else Ok result) (\<lambda>result'.
          or_panic (coalesce (layout_from_flat result'))))))"

function composition_tuple :: "Layout \<Rightarrow> IntTuple \<Rightarrow> IntTuple \<Rightarrow> Layout algebra_result" where
  "composition_tuple a (Tuple bs) (Tuple bd) =
     try_let (collect_results (\<lambda>(s, d). composition_tuple a s d) (zip bs bd)) (\<lambda>modes.
     Ok \<lparr>shape = Tuple (map shape modes), stride = Tuple (map stride modes)\<rparr>)"
| "composition_tuple a (Leaf s) (Leaf d) = compose_int a s d"
| "composition_tuple a (Leaf s) (Tuple bd) =
     Err (AlgebraError ''composition: rhs shape/stride not congruent'')"
| "composition_tuple a (Tuple bs) (Leaf d) =
     Err (AlgebraError ''composition: rhs shape/stride not congruent'')"
  by pat_completeness auto
termination
proof (relation "measure (\<lambda>(a, s, d). size s)")
  fix a :: Layout and bs bd :: "IntTuple list" and sd and s d :: IntTuple
  assume "sd \<in> set (zip bs bd)" and "(s, d) = sd"
  then have "s \<in> set bs" by (auto dest: set_zip_leftD)
  then show "((a, s, d), a, Tuple bs, Tuple bd) \<in> measure (\<lambda>(a, s, d). size s)"
    by (simp add: less_Suc_eq_le size_list_estimation')
qed simp

definition composition :: "Layout \<Rightarrow> Layout \<Rightarrow> Layout algebra_result" where
  "composition a b = composition_tuple a (shape b) (stride b)"

text \<open>The loop of \<open>complement\<close>: shapes and strides of the gaps below each sorted mode.\<close>

fun complement_loop :: "(int \<times> int) list \<Rightarrow> int \<Rightarrow> ((int \<times> int) list \<times> int) algebra_result" where
  "complement_loop [] prev_stride = Ok ([], prev_stride)"
| "complement_loop ((curr_shape, curr_stride) # sd) prev_stride =
     try_let (or_panic (i64_rem curr_stride prev_stride)) (\<lambda>r.
     if r \<noteq> 0 then Err (AlgebraError (''complement: stride '' @ show_int curr_stride @
         '' not divisible by '' @ show_int prev_stride))
     else
     try_let (or_panic (i64_div curr_stride prev_stride)) (\<lambda>q.
     try_let (or_panic (i64_mul curr_shape curr_stride)) (\<lambda>next_stride.
     try_let (complement_loop sd next_stride) (\<lambda>(out, last_stride).
     Ok ((q, prev_stride) # out, last_stride)))))"

definition complement :: "Layout \<Rightarrow> int \<Rightarrow> Layout algebra_result" where
  "complement l cosize_hi =
     try_let (or_panic (filter_layout l)) (\<lambda>f.
     let modes = flat_modes f in
     if length modes = 1 \<and> (snd (hd modes) = 0 \<or> fst (hd modes) = 1)
     then or_panic (do { cm \<leftarrow> col_major (Leaf cosize_hi); coalesce cm })
     else
     let sd = sort_key snd modes in
     try_let (complement_loop (butlast sd) 1) (\<lambda>(out, prev_stride).
     let (last_shape, last_stride) = last sd in
     try_let (or_panic (i64_rem last_stride prev_stride)) (\<lambda>r.
     if r \<noteq> 0 then Err (AlgebraError (''complement: stride '' @ show_int last_stride @
         '' not divisible by '' @ show_int prev_stride))
     else
     try_let (or_panic (i64_div last_stride prev_stride)) (\<lambda>q.
     try_let (or_panic (i64_mul last_stride last_shape)) (\<lambda>new_stride.
     try_let (or_panic (ceil_div cosize_hi new_stride)) (\<lambda>rest_shape.
     or_panic (coalesce (layout_from_flat (out @ [(q, prev_stride), (rest_shape, new_stride)]))))))))) "

text \<open>Prefix products of the extents, with the panic of the last product kept.\<close>

fun prefix_products :: "int \<Rightarrow> (int \<times> int) list \<Rightarrow> (int \<times> int \<times> int) list option" where
  "prefix_products running [] = Some []"
| "prefix_products running ((s, d) # ms) =
     do { running' \<leftarrow> i64_mul running s; rest \<leftarrow> prefix_products running' ms;
          Some ((d, s, running) # rest) }"

fun inverse_loop :: "int \<Rightarrow> (int \<times> int \<times> int) list \<Rightarrow> (int \<times> int) list option" where
  "inverse_loop current [] = Some []"
| "inverse_loop current ((st, sh, rst) # dsa) =
     (if st = 0 then inverse_loop current dsa
      else if current \<noteq> st then Some []
      else do { current' \<leftarrow> i64_mul sh st; rest \<leftarrow> inverse_loop current' dsa; Some ((sh, rst) # rest) })"

definition right_inverse :: "Layout \<Rightarrow> Layout algebra_result" where
  "right_inverse a =
     or_panic (do { ac \<leftarrow> coalesce a;
       let modes = flat_modes ac in
       if length modes = 1 \<and> fst (hd modes) = 1 then Some (layout_from_flat [(1, 0)])
       else do { dsa \<leftarrow> prefix_products 1 modes;
                 out \<leftarrow> inverse_loop 1 (sort dsa);
                 coalesce (layout_from_flat (if out = [] then [(1, 0)] else out)) } })"

definition left_inverse :: "Layout \<Rightarrow> Layout algebra_result" where
  "left_inverse a =
     try_let (or_panic (cosize a)) (\<lambda>n.
     try_let (complement a n) (\<lambda>comp.
     right_inverse (from_modes [a, comp])))"

definition with_shape :: "Layout \<Rightarrow> IntTuple \<Rightarrow> Layout algebra_result" where
  "with_shape l sh = try_let (or_panic (col_major sh)) (\<lambda>cm. composition l cm)"

section \<open>tiling.rs\<close>

definition logical_divide :: "Layout \<Rightarrow> Layout \<Rightarrow> Layout algebra_result" where
  "logical_divide a b =
     try_let (or_panic (layout_size a)) (\<lambda>n.
     try_let (complement b n) (\<lambda>rest.
     composition a (from_modes [b, rest])))"

fun zipped_divide_loop :: "(Layout \<times> int) list \<Rightarrow> (Layout list \<times> Layout list) algebra_result" where
  "zipped_divide_loop [] = Ok ([], [])"
| "zipped_divide_loop ((mode, t) # ms) =
     try_let (logical_divide mode (contiguous t)) (\<lambda>divided.
     case layout_modes divided of
       [tile, rest] \<Rightarrow>
         try_let (zipped_divide_loop ms) (\<lambda>(tiles, rests). Ok (tile # tiles, rest # rests))
     | _ \<Rightarrow> Err (AlgebraError ''zipped_divide: mode divide was not rank-2''))"

definition zipped_divide :: "Layout \<Rightarrow> int list \<Rightarrow> Layout algebra_result" where
  "zipped_divide a tile_shape =
     (let modes = layout_modes a in
      if length modes \<noteq> length tile_shape
      then Err (AlgebraError (''zipped_divide: tiler rank '' @ show_nat (length tile_shape) @
             '' does not match layout rank '' @ show_nat (length modes)))
      else try_let (zipped_divide_loop (zip modes tile_shape)) (\<lambda>(tiles, rests).
           Ok (from_modes [from_modes tiles, from_modes rests])))"

definition logical_product :: "Layout \<Rightarrow> Layout \<Rightarrow> Layout algebra_result" where
  "logical_product a b =
     try_let (or_panic (do { n \<leftarrow> layout_size a; m \<leftarrow> cosize b; i64_mul n m })) (\<lambda>hi.
     try_let (complement a hi) (\<lambda>comp.
     try_let (composition comp b) (\<lambda>repeated.
     Ok (from_modes [a, repeated]))))"

definition pad_to_rank :: "Layout \<Rightarrow> nat \<Rightarrow> Layout" where
  "pad_to_rank l n =
     (let modes = layout_modes l in
      from_modes (modes @ replicate (n - length modes) \<lparr>shape = Leaf 1, stride = Leaf 0\<rparr>))"

definition zipped_product :: "Layout \<Rightarrow> Layout \<Rightarrow> bool \<Rightarrow> Layout algebra_result" where
  "zipped_product a b block_first =
     (let n = max (length (layout_modes a)) (length (layout_modes b));
          ap = pad_to_rank a n;
          bp = pad_to_rank b n in
      try_let (logical_product ap bp) (\<lambda>lp.
      case layout_modes lp of
        block # reps # _ \<Rightarrow>
          let block_modes = layout_modes block; rep_modes = layout_modes reps in
          if length block_modes \<noteq> n \<or> length rep_modes \<noteq> n
          then Err (AlgebraError ''product: unexpected mode structure'')
          else try_let (collect_results (\<lambda>(bm, rm). or_panic (coalesce
                 (if block_first then from_modes [bm, rm] else from_modes [rm, bm])))
                 (zip block_modes rep_modes)) (\<lambda>zipped. Ok (from_modes zipped))
      | _ \<Rightarrow> Panic))"

definition blocked_product :: "Layout \<Rightarrow> Layout \<Rightarrow> Layout algebra_result" where
  "blocked_product a b = zipped_product a b True"

definition raked_product :: "Layout \<Rightarrow> Layout \<Rightarrow> Layout algebra_result" where
  "raked_product a b = zipped_product a b False"

text \<open>The repetition counts and the strides of the repetition grid in \<open>tile_to_shape\<close>.\<close>

fun tile_reps :: "Layout list \<Rightarrow> int list \<Rightarrow> int list algebra_result" where
  "tile_reps (mode # modes) (target # targets) =
     try_let (ok_or (checked_size mode) (AlgebraError ''tile_to_shape: invalid atom mode size'')) (\<lambda>atom_extent.
     if target \<le> 0 \<or> target smod atom_extent \<noteq> 0
     then Err (AlgebraError (''tile_to_shape: target extent '' @ show_int target @
            '' is not a positive multiple of atom extent '' @ show_int atom_extent))
     else try_let (tile_reps modes targets) (\<lambda>reps. Ok (target sdiv atom_extent # reps)))"
| "tile_reps _ _ = Ok []"

fun tile_rep_strides :: "nat \<Rightarrow> int list \<Rightarrow> nat list \<Rightarrow> bool list \<Rightarrow> int list \<Rightarrow> int \<Rightarrow> int list algebra_result" where
  "tile_rep_strides n reps [] seen rep_strides running = Ok rep_strides"
| "tile_rep_strides n reps (axis # order) seen rep_strides running =
     (if axis \<ge> n \<or> seen ! axis
      then Err (AlgebraError ''tile_to_shape: order must be a permutation of 0..rank'')
      else try_let (ok_or (i64_mul running (reps ! axis))
             (AlgebraError ''tile_to_shape: repetition product overflow'')) (\<lambda>running'.
           tile_rep_strides n reps order (seen[axis := True]) (rep_strides[axis := running]) running'))"

definition tile_to_shape :: "Layout \<Rightarrow> int list \<Rightarrow> nat list \<Rightarrow> Layout algebra_result" where
  "tile_to_shape atom target_shape order =
     (let atom_modes = layout_modes atom; n = length atom_modes in
      if length target_shape \<noteq> n \<or> length order \<noteq> n
      then Err (AlgebraError (''tile_to_shape: atom rank '' @ show_nat n @ '', target_shape len '' @
             show_nat (length target_shape) @ '', order len '' @ show_nat (length order) @ '' must match''))
      else
      try_let (tile_reps atom_modes target_shape) (\<lambda>reps.
      try_let (tile_rep_strides n reps order (replicate n False) (replicate n 0) 1) (\<lambda>rep_strides.
      try_let (or_panic (layout_new (Tuple (map Leaf reps)) (Tuple (map Leaf rep_strides)))) (\<lambda>rep_layout.
      try_let (logical_product atom rep_layout) (\<lambda>lp.
      case layout_modes lp of
        block # reps # _ \<Rightarrow>
          Ok (from_modes (map (\<lambda>(bm, rm). from_modes [bm, rm]) (zip (layout_modes block) (layout_modes reps))))
      | _ \<Rightarrow> Panic)))))"

section \<open>thread\_value.rs and alignment.rs\<close>

definition make_layout_tv :: "Layout \<Rightarrow> Layout \<Rightarrow> (int list \<times> Layout) algebra_result" where
  "make_layout_tv thr val =
     try_let (raked_product thr val) (\<lambda>layout_mn.
     try_let (collect_results (\<lambda>m. or_panic (layout_size m)) (layout_modes layout_mn)) (\<lambda>tiler_mn.
     try_let (right_inverse layout_mn) (\<lambda>inv.
     try_let (or_panic (layout_size thr)) (\<lambda>thr_size.
     try_let (or_panic (layout_size val)) (\<lambda>val_size.
     try_let (with_shape inv (Tuple [Leaf thr_size, Leaf val_size])) (\<lambda>tv.
     Ok (tiler_mn, tv)))))))"

text \<open>
  Euclid's loop on \<open>u64\<close>. The result is cast back with \<open>as i64\<close>, which wraps the one value
  \<open>2 ^ 63\<close> (reached only when both inputs are \<open>i64::MIN\<close> or zero) to \<open>i64::MIN\<close>.
\<close>

fun euclid :: "nat \<Rightarrow> nat \<Rightarrow> nat" where
  "euclid a b = (if b = 0 then a else euclid b (a mod b))"

declare euclid.simps [simp del]

definition gcd_nonnegative :: "int \<Rightarrow> int \<Rightarrow> int" where
  "gcd_nonnegative a b = u64_as_i64 (euclid (nat \<bar>a\<bar>) (nat \<bar>b\<bar>))"

definition max_alignment :: "Layout \<Rightarrow> int algebra_result" where
  "max_alignment layout =
     (let shapes = tuple_flatten (shape layout); strides = tuple_flatten (stride layout) in
      if \<exists>s \<in> set shapes. s \<le> 0
      then Err (AlgebraError ''max_alignment: every shape extent must be positive'')
      else if \<exists>d \<in> set strides. d < 0 then Ok 1
      else
      try_let (or_panic (coalesce layout)) (\<lambda>flat.
      try_let (right_inverse flat) (\<lambda>inverse.
      try_let (logical_divide flat inverse) (\<lambda>permuted.
      case layout_modes permuted of
        [vec_mode, rest_mode] \<Rightarrow>
          try_let (or_panic (layout_size vec_mode)) (\<lambda>vector_size.
          let rest_stride_gcd = fold (\<lambda>d acc. gcd_nonnegative acc d) (tuple_flatten (stride rest_mode)) 0 in
          Ok (max (gcd_nonnegative vector_size rest_stride_gcd) 1))
      | _ \<Rightarrow> Err (AlgebraError ''max_alignment: expected vector and remainder modes'')))))"

end
