(* ===== verification/Cute_Algebra_Facts.thy ===== *)
theory Cute_Algebra_Facts
  imports Cute_Algebra Cute_Layout_Facts
begin

text \<open>
  What the flat-mode loops of the algebra do to the reference meaning: \<open>flat_modes\<close> and
  \<open>layout_from_flat\<close> are inverse up to the empty layout, the loop of \<open>coalesce\<close> keeps
  the offset of every flat coordinate, and its output is in normal form.
\<close>

section \<open>Flat modes\<close>

lemma flat_modes_tuple_modes: "flat_modes l = tuple_modes (shape l) (stride l)"
  by (simp add: flat_modes_def tuple_modes_def)

lemma flatten_leaves: "concat (map (\<lambda>x. tuple_flatten (case x of (s, _) \<Rightarrow> Leaf s)) ms) = map fst ms"
  "concat (map (\<lambda>x. tuple_flatten (case x of (_, d) \<Rightarrow> Leaf d)) ms) = map snd ms"
  by (induction ms) auto

lemma flat_modes_from_flat: "flat_modes (layout_from_flat ms) = (if ms = [] then [(1, 0)] else ms)"
  by (cases ms rule: layout_from_flat.cases)
     (auto simp: flat_modes_def comp_def flatten_leaves zip_map_fst_snd)

lemma congruent_from_flat:
  "is_congruent (shape (layout_from_flat ms)) (stride (layout_from_flat ms))"
  by (cases ms rule: layout_from_flat.cases)
     (auto simp: list_all2_map1 list_all2_map2 list_all2_same split: prod.split)

lemma mode_offset_from_flat [simp]:
  "mode_offset (flat_modes (layout_from_flat ms)) c = mode_offset ms c"
  "modes_size (flat_modes (layout_from_flat ms)) = modes_size ms"
  "pos_modes (flat_modes (layout_from_flat ms)) = pos_modes ms"
  by (simp_all add: flat_modes_from_flat)

lemma modes_rev [simp]: "modes_size (rev ms) = modes_size ms" "pos_modes (rev ms) = pos_modes ms"
  by (induction ms) (auto simp: pos_modes_def)

section \<open>The coalescing loop\<close>

lemma mode_offset_merge:
  assumes "0 < s0" and "0 < s"
  shows "mode_offset ((s0 * s, d0) # ms) c = mode_offset ((s0, d0) # (s, s0 * d0) # ms) c"
proof -
  have "c mod (s0 * s) = s0 * (c div s0 mod s) + c mod s0" using assms by (simp add: zmod_zmult2_eq)
  moreover have "c div (s0 * s) = c div s0 div s" using assms by (simp add: zdiv_zmult2_eq)
  ultimately show ?thesis by (simp add: algebra_simps)
qed

lemma mode_offset_cong_tail:
  assumes "\<And>c. mode_offset xs c = mode_offset ys c" and "pos_modes pre"
  shows "mode_offset (pre @ xs) c = mode_offset (pre @ ys) c"
  using assms by (simp add: mode_offset_append)

text \<open>A list of modes in normal form: no extent is 1 and no neighbours could be merged.\<close>

fun mergeable :: "int \<times> int \<Rightarrow> int \<times> int \<Rightarrow> bool" where
  "mergeable (s0, d0) (s1, d1) \<longleftrightarrow> d1 = s0 * d0"

fun normal_modes :: "(int \<times> int) list \<Rightarrow> bool" where
  "normal_modes [] \<longleftrightarrow> True"
| "normal_modes [m] \<longleftrightarrow> fst m \<noteq> 1"
| "normal_modes (m # m' # ms) \<longleftrightarrow> fst m \<noteq> 1 \<and> \<not> mergeable m m' \<and> normal_modes (m' # ms)"

lemma coalesce_loop_offset:
  assumes "coalesce_loop out ms = Some r" and "pos_modes out" and "pos_modes ms"
  shows "pos_modes r \<and> modes_size r = modes_size out * modes_size ms \<and>
    (\<forall>c. mode_offset r c = mode_offset (rev out @ ms) c)"
  using assms
proof (induction out ms rule: coalesce_loop.induct)
  case (1 out)
  then show ?case by auto
next
  case (2 out s d ms)
  have pos: "0 < s" "pos_modes ms" "pos_modes (rev out)" using 2(6,7) by (auto simp: pos_modes_def)
  show ?case
  proof (cases "s = 1")
    case True
    have "mode_offset (rev out @ ms) c = mode_offset (rev out @ (s, d) # ms) c" for c
      by (rule mode_offset_cong_tail) (use True pos in simp_all)
    then show ?thesis using 2 True by simp
  next
    case s: False
    show ?thesis
    proof (cases out)
      case Nil
      then show ?thesis using 2 s by simp
    next
      case (Cons m out')
      obtain s0 d0 where m: "m = (s0, d0)" by (cases m)
      have pos': "0 < s0" "pos_modes out'" "pos_modes (rev out')" using 2(6) Cons m by (auto simp: pos_modes_def)
      show ?thesis
      proof (cases "d = s0 * d0")
        case True
        have r: "coalesce_loop ((s0 * s, d0) # out') ms = Some r" "i64_mul s0 d0 = Some (s0 * d0)"
          "i64_mul s0 s = Some (s0 * s)"
          using 2(5) s Cons m True by (auto simp: bind_eq_Some_conv i64_simps split: if_splits)
        have "mode_offset (rev out' @ (s0 * s, d0) # ms) c = mode_offset (rev out @ (s, d) # ms) c" for c
          using mode_offset_cong_tail [OF mode_offset_merge, of s0 s "rev out'" d0 ms c] pos pos'
          by (simp add: Cons m True)
        then show ?thesis
          using 2(3) [OF s Cons m [symmetric] r(2) True r(3,1)] pos pos' Cons m by (simp add: mult.assoc)
      next
        case False
        have "coalesce_loop ((s, d) # out) ms = Some r" "i64_mul s0 d0 = Some (s0 * d0)"
          using 2(5) s Cons m False by (auto simp: bind_eq_Some_conv i64_simps split: if_splits)
        from 2(4) [OF s Cons m [symmetric] this(2) False this(1)] show ?thesis using pos 2(6) by (simp add: mult_ac)
      qed
    qed
  qed
qed


lemma normal_modes_append:
  "normal_modes (xs @ [a, b]) \<longleftrightarrow> normal_modes (xs @ [a]) \<and> \<not> mergeable a b \<and> fst b \<noteq> 1"
  by (induction xs rule: normal_modes.induct) auto

lemma normal_modes_scale_last:
  "normal_modes (xs @ [(s0, d0)]) \<Longrightarrow> s0 * s \<noteq> 1 \<Longrightarrow> normal_modes (xs @ [(s0 * s, d0)])"
proof (induction xs rule: normal_modes.induct)
  case (2 m)
  then show ?case by (cases m) auto
qed auto

lemma coalesce_loop_normal:
  assumes "coalesce_loop out ms = Some r" and "pos_modes out" and "pos_modes ms" and "normal_modes (rev out)"
  shows "normal_modes r"
  using assms
proof (induction out ms rule: coalesce_loop.induct)
  case (2 out s d ms)
  show ?case
  proof (cases "s = 1 \<or> out = []")
    case True
    then show ?thesis using 2 by (cases "s = 1") simp_all
  next
    case False
    then obtain s0 d0 out' where out: "out = (s0, d0) # out'" and s: "s \<noteq> 1" by (cases out) auto
    have mul: "i64_mul s0 d0 = Some (s0 * d0)"
      using 2(5) out s by (auto simp: bind_eq_Some_conv i64_simps)
    show ?thesis
    proof (cases "d = s0 * d0")
      case True
      have r: "coalesce_loop ((s0 * s, d0) # out') ms = Some r" "i64_mul s0 s = Some (s0 * s)"
        using 2(5) s out True by (auto simp: bind_eq_Some_conv i64_simps split: if_splits)
      have "s0 * s \<noteq> 1" using s 2(6,7) out pos_zmult_eq_1_iff [of s0 s] by simp
      then show ?thesis
        using 2(3) [OF s out refl mul True r(2,1)] 2(6-8) out normal_modes_scale_last by simp
    next
      case no_merge: False
      have "coalesce_loop ((s, d) # out) ms = Some r"
        using 2(5) s out no_merge mul by simp
      then show ?thesis
        using 2(4) [OF s out refl mul no_merge] 2(6-8) out s no_merge by (simp add: normal_modes_append)
    qed
  qed
qed simp

lemma coalesce_Some:
  assumes "coalesce l = Some r" and "pos_modes (flat_modes l)"
  obtains ms where "r = layout_from_flat ms" and "pos_modes ms" and "normal_modes ms"
    and "modes_size ms = modes_size (flat_modes l)"
    and "\<And>c. mode_offset ms c = mode_offset (flat_modes l) c"
  using assms coalesce_loop_offset [of "[]" "flat_modes l"] coalesce_loop_normal [of "[]" "flat_modes l"]
  by (auto simp: coalesce_def)

lemma coalesce_flat:
  assumes "coalesce l = Some r" and "pos_modes (flat_modes l)"
  shows "modes_size (flat_modes r) = modes_size (flat_modes l)"
    and "mode_offset (flat_modes r) c = mode_offset (flat_modes l) c"
  using coalesce_Some [OF assms] mode_offset_from_flat(1,2) by metis+

section \<open>The inverse loop\<close>

text \<open>
  A triple is (stride, extent, prefix product). Choosing one digit per triple, the prefix products
  weigh the digits into a flat coordinate whose offset weighs the same digits by the strides.
\<close>

definition digits_of :: "(int \<times> int \<times> int) list \<Rightarrow> (int \<times> int \<times> int \<Rightarrow> int) \<Rightarrow> bool" where
  "digits_of ts e \<longleftrightarrow> (\<forall>t \<in> set ts. 0 \<le> e t \<and> e t < fst (snd t))"

lemma prefix_products_digits:
  assumes "prefix_products p ms = Some dsa" and "pos_modes ms" and "digits_of dsa e"
  shows "\<exists>c. (\<Sum>t\<leftarrow>dsa. e t * snd (snd t)) = p * c \<and> 0 \<le> c \<and> c < modes_size ms \<and>
    mode_offset ms c = (\<Sum>t\<leftarrow>dsa. e t * fst t)"
  using assms
proof (induction ms arbitrary: p dsa)
  case (Cons m ms)
  obtain s d where m: "m = (s, d)" by (cases m)
  from Cons.prems(1) m obtain rest where
      dsa: "dsa = (d, s, p) # rest" and rest: "prefix_products (p * s) ms = Some rest"
    by (auto simp: bind_eq_Some_conv i64_simps)
  let ?e = "e (d, s, p)"
  have e: "0 \<le> ?e" "?e < s" "digits_of rest e" using Cons.prems(3) dsa by (auto simp: digits_of_def)
  obtain c where c: "(\<Sum>t\<leftarrow>rest. e t * snd (snd t)) = p * s * c" "0 \<le> c" "c < modes_size ms"
      "mode_offset ms c = (\<Sum>t\<leftarrow>rest. e t * fst t)"
    using Cons.IH [OF rest] Cons.prems(2) e m by auto
  have "s * (c + 1) \<le> s * modes_size ms" using c(3) e by (intro mult_left_mono) auto
  then have "?e + s * c < s * modes_size ms" using e by (simp add: algebra_simps)
  then show ?case using m dsa c e
    by (intro exI [of _ "?e + s * c"]) (simp add: algebra_simps)
qed (auto simp: digits_of_def)

lemma sum_list_update_outside: "t \<notin> set ts \<Longrightarrow> (\<Sum>u\<leftarrow>ts. (e(t := v)) u * f u) = (\<Sum>u\<leftarrow>ts. e u * f u)"
  for f :: "'a \<Rightarrow> int"
  by (induction ts) auto

lemma digits_of_update_outside: "t \<notin> set ts \<Longrightarrow> digits_of ts (e(t := v)) = digits_of ts e"
  by (auto simp: digits_of_def)

lemma inverse_loop_digits:
  assumes "inverse_loop cur ts = Some out" and "distinct ts" and "\<forall>t \<in> set ts. 0 < fst (snd t)"
    and "0 \<le> x" and "x < modes_size out"
  shows "\<exists>e. digits_of ts e \<and> mode_offset out x = (\<Sum>t\<leftarrow>ts. e t * snd (snd t)) \<and>
    (\<Sum>t\<leftarrow>ts. e t * fst t) = cur * x"
  using assms
proof (induction cur ts arbitrary: out x rule: inverse_loop.induct)
  case (1 cur)
  then show ?case by (auto simp: digits_of_def)
next
  case (2 cur st sh rst ts)
  let ?t = "(st, sh, rst)"
  have t: "?t \<notin> set ts" "0 < sh" using 2(4,5) by auto
  note outside = sum_list_update_outside [OF t(1)] digits_of_update_outside [OF t(1)]
  consider (skip) "st = 0" | (stop) "st \<noteq> 0" "cur \<noteq> st" | (take) "st \<noteq> 0" "cur = st" by blast
  then show ?case
  proof cases
    case skip
    then obtain e where "digits_of ts e" "mode_offset out x = (\<Sum>t\<leftarrow>ts. e t * snd (snd t))"
        "(\<Sum>t\<leftarrow>ts. e t * fst t) = cur * x"
      using 2(1) [OF skip, of out x] 2(3-7) skip by auto
    then show ?thesis
      using outside t(2) skip by (intro exI [of _ "e(?t := 0)"]) (auto simp: digits_of_def)
  next
    case stop
    then show ?thesis using 2(3-7)
      by (intro exI [of _ "\<lambda>_. 0"]) (auto simp: digits_of_def)
  next
    case take
    from 2(3) take obtain rest where out: "out = (sh, rst) # rest" and mul: "i64_mul sh st = Some (sh * st)"
      and rest: "inverse_loop (sh * st) ts = Some rest"
      by (auto simp: bind_eq_Some_conv i64_simps)
    have q: "0 \<le> x div sh" "x div sh < modes_size rest"
      using 2(6,7) t(2) out by (simp_all add: pos_imp_zdiv_nonneg_iff int_div_less_mult)
    obtain e where e: "digits_of ts e" "mode_offset rest (x div sh) = (\<Sum>t\<leftarrow>ts. e t * snd (snd t))"
        "(\<Sum>t\<leftarrow>ts. e t * fst t) = sh * st * (x div sh)"
      using 2(2) [OF _ _ mul rest _ _ q] take 2(4,5) by auto
    have "x = x mod sh + sh * (x div sh)" by simp
    then have "x mod sh * st + sh * st * (x div sh) = st * x" by (metis mult.commute mult.left_commute distrib_right)
    then show ?thesis
      using e outside t(2) take out
      by (intro exI [of _ "e(?t := x mod sh)"]) (auto simp: digits_of_def)
  qed
qed

section \<open>Rounding up\<close>

lemma ceil_div_Some:
  assumes "ceil_div a b = Some q" and "0 < a" and "0 < b"
  shows "q = (a + b - 1) div b" and "0 < q" and "a \<le> q * b"
proof -
  show q: "q = (a + b - 1) div b"
    using assms by (auto simp: ceil_div_def bind_eq_Some_conv i64_simps sdiv_nonneg)
  have "(a + b - 1) mod b < b" "b * q + (a + b - 1) mod b = a + b - 1" using assms(3) q by simp_all
  then show "a \<le> q * b" by (simp add: mult.commute)
  then show "0 < q" using assms(2,3) by (smt (verit) mult_nonpos_nonneg)
qed

end
