(* ===== verification/Cute_Offsets.thy ===== *)
theory Cute_Offsets
  imports Cute_Algebra_Facts "HOL-Library.Multiset"
begin

text \<open>
  The set of offsets a list of modes reaches. It does not depend on the order of the modes, a
  chain of modes (each stride is the product of the extents before it) reaches an interval, and
  a sorted list of modes that reaches an interval exactly once is a chain. These facts carry the
  proofs about \<open>complement\<close> and the two inverses.
\<close>

section \<open>Reached offsets\<close>

definition offs :: "(int \<times> int) list \<Rightarrow> int set" where
  "offs ms = mode_offset ms ` {0..<modes_size ms}"

definition shift_union :: "int \<times> int \<Rightarrow> int set \<Rightarrow> int set" where
  "shift_union m A = (\<Union>k \<in> {0..<fst m}. (\<lambda>x. k * snd m + x) ` A)"

lemma offs_Cons:
  assumes "0 < s" and "pos_modes ms"
  shows "offs ((s, d) # ms) = shift_union (s, d) (offs ms)"
proof (rule set_eqI, rule iffI)
  fix x
  assume "x \<in> offs ((s, d) # ms)"
  then obtain c where c: "0 \<le> c" "c < s * modes_size ms" "x = (c mod s) * d + mode_offset ms (c div s)"
    by (auto simp: offs_def)
  have "c div s \<in> {0..<modes_size ms}" "c mod s \<in> {0..<s}"
    using c assms by (auto simp: pos_imp_zdiv_nonneg_iff int_div_less_mult)
  then show "x \<in> shift_union (s, d) (offs ms)"
    unfolding shift_union_def offs_def c(3) fst_conv snd_conv
    by (intro UN_I [of "c mod s"] image_eqI [OF refl] imageI)
next
  fix x
  assume "x \<in> shift_union (s, d) (offs ms)"
  then obtain k q where k: "0 \<le> k" "k < s" and q: "0 \<le> q" "q < modes_size ms"
    and x: "x = k * d + mode_offset ms q"
    by (auto simp: shift_union_def offs_def)
  have "s * (q + 1) \<le> s * modes_size ms" using q(2) assms(1) by (intro mult_left_mono) auto
  then have "k + s * q \<in> {0..<s * modes_size ms}" using k q by (auto simp: algebra_simps)
  moreover have "mode_offset ((s, d) # ms) (k + s * q) = x" using k x by simp
  ultimately show "x \<in> offs ((s, d) # ms)" unfolding offs_def modes_size_simps by blast
qed

lemma offs_foldr: "pos_modes ms \<Longrightarrow> offs ms = foldr shift_union ms {0}"
proof (induction ms)
  case Nil
  then show ?case by (force simp: offs_def)
next
  case (Cons m ms)
  then show ?case by (cases m) (simp add: offs_Cons)
qed

lemma shift_union_commute: "shift_union a (shift_union b A) = shift_union b (shift_union a A)"
  by (force simp: shift_union_def image_UN)

lemma pos_modes_mset: "mset xs = mset ys \<Longrightarrow> pos_modes xs = pos_modes ys"
  using mset_eq_setD [of xs ys] by (simp add: pos_modes_def)

lemma modes_size_mset: "mset xs = mset ys \<Longrightarrow> modes_size xs = modes_size ys"
  unfolding modes_size_def by (metis mset_map prod_mset_prod_list)

lemma offs_mset:
  assumes "mset xs = mset ys" and "pos_modes xs"
  shows "offs xs = offs ys"
proof -
  have "fold shift_union (rev xs) = fold shift_union (rev ys)"
    by (rule fold_multiset_equiv) (auto simp: fun_eq_iff shift_union_commute assms(1))
  then show ?thesis
    using assms pos_modes_mset [OF assms(1)] by (simp add: offs_foldr foldr_conv_fold)
qed

lemma offs_append_cong:
  assumes "offs xs = offs xs'" and "offs ys = offs ys'"
    and "pos_modes xs" "pos_modes xs'" "pos_modes ys" "pos_modes ys'"
  shows "offs (xs @ ys) = offs (xs' @ ys')"
proof -
  have swap: "offs (as @ bs) = foldr shift_union as (offs bs)" if "pos_modes as" "pos_modes bs" for as bs
    using that by (simp add: offs_foldr)
  have "offs (xs @ ys) = offs (ys' @ xs)"
    using swap assms offs_mset [of "xs @ ys'" "ys' @ xs"] by simp
  also have "\<dots> = offs (xs' @ ys')"
    using swap assms offs_mset [of "ys' @ xs'" "xs' @ ys'"] by simp
  finally show ?thesis .
qed

section \<open>Chains\<close>

fun chain :: "int \<Rightarrow> (int \<times> int) list \<Rightarrow> bool" where
  "chain p [] \<longleftrightarrow> True"
| "chain p ((s, d) # ms) \<longleftrightarrow> d = p \<and> chain (p * s) ms"

lemma chain_append: "chain p (xs @ ys) \<longleftrightarrow> chain p xs \<and> chain (p * modes_size xs) ys"
  by (induction xs arbitrary: p) (auto simp: mult.assoc)

lemma chain_offset:
  "chain p ms \<Longrightarrow> pos_modes ms \<Longrightarrow> 0 \<le> c \<Longrightarrow> c < modes_size ms \<Longrightarrow> mode_offset ms c = p * c"
proof (induction ms arbitrary: p c)
  case (Cons m ms)
  obtain s where m: "m = (s, p)" and rest: "chain (p * s) ms" "0 < s" "pos_modes ms"
    using Cons.prems by (cases m) auto
  have "mode_offset ms (c div s) = p * s * (c div s)"
    using Cons.IH [OF rest(1,3), of "c div s"] Cons.prems(3,4) m rest(2)
    by (simp add: pos_imp_zdiv_nonneg_iff int_div_less_mult)
  moreover have "c mod s * p + p * s * (c div s) = p * (c mod s + s * (c div s))" by (simp only: distrib_left mult_ac)
  ultimately show ?case using m by (simp only: mode_offset.simps mod_mult_div_eq)
qed simp

lemma chain_offs: "chain 1 ms \<Longrightarrow> pos_modes ms \<Longrightarrow> offs ms = {0..<modes_size ms}"
  using chain_offset [of 1 ms] by (force simp: offs_def image_iff)

lemma interval_bij:
  assumes "offs ms = {0..<modes_size ms}"
  shows "bij_betw (mode_offset ms) {0..<modes_size ms} {0..<modes_size ms}"
  unfolding bij_betw_def
proof
  show im: "mode_offset ms ` {0..<modes_size ms} = {0..<modes_size ms}"
    using assms by (simp add: offs_def)
  show "inj_on (mode_offset ms) {0..<modes_size ms}"
    by (rule eq_card_imp_inj_on) (simp_all add: im)
qed

section \<open>Complement\<close>

definition pos_strides :: "(int \<times> int) list \<Rightarrow> bool" where
  "pos_strides ms \<longleftrightarrow> (\<forall>(s, d) \<in> set ms. s = 1 \<or> 0 < d)"

lemma pos_strides_simps [simp]:
  "pos_strides []" "pos_strides ((s, d) # ms) \<longleftrightarrow> (s = 1 \<or> 0 < d) \<and> pos_strides ms"
  "pos_strides (xs @ ys) \<longleftrightarrow> pos_strides xs \<and> pos_strides ys"
  by (auto simp: pos_strides_def)

lemma pos_strides_from_flat [simp]: "pos_strides (flat_modes (layout_from_flat ms)) = pos_strides ms"
  by (simp add: flat_modes_from_flat)

lemma coalesce_loop_strides:
  "coalesce_loop out ms = Some r \<Longrightarrow> pos_strides ms \<Longrightarrow> \<forall>m \<in> set out. 0 < snd m \<Longrightarrow> \<forall>m \<in> set r. 0 < snd m"
proof (induction ms arbitrary: out)
  case (Cons m ms)
  obtain s d where m: "m = (s, d)" by (cases m)
  show ?case
  proof (cases "s = 1 \<or> out = []")
    case True
    then show ?thesis using Cons.IH [of out] Cons.IH [of "[m]"] Cons.prems m by (cases "s = 1") auto
  next
    case False
    then obtain s0 d0 out' where out: "out = (s0, d0) # out'" by (cases out) auto
    then show ?thesis
      using Cons.IH [of "(s0 * s, d0) # out'"] Cons.IH [of "m # out"] Cons.prems m False
      by (auto simp: bind_eq_Some_conv i64_simps split: if_splits)
  qed
qed auto

lemma coalesce_from_flat:
  assumes "coalesce l = Some r" and "pos_modes (flat_modes l)" and "pos_strides (flat_modes l)"
  obtains ms where "r = layout_from_flat ms" and "pos_modes ms" and "normal_modes ms"
    and "\<forall>m \<in> set ms. 0 < snd m" and "modes_size ms = modes_size (flat_modes l)"
    and "\<And>c. mode_offset ms c = mode_offset (flat_modes l) c"
  using assms coalesce_loop_offset [of "[]" "flat_modes l"] coalesce_loop_normal [of "[]" "flat_modes l"]
    coalesce_loop_strides [of "[]" "flat_modes l"]
  by (auto simp: coalesce_def)

text \<open>One step: the gap below a mode and the mode itself extend the chain.\<close>

lemma gap_step:
  assumes "i64_rem d prev = Some 0" and "i64_div d prev = Some q" and "0 < prev" and "0 < d"
  shows "prev * q = d" and "0 < q"
proof -
  have "d mod prev = 0" "q = d div prev"
    using assms by (simp_all add: i64_simps smod_nonneg sdiv_nonneg)
  then show "prev * q = d" by auto
  then show "0 < q" using assms(3,4) by (metis zero_less_mult_pos)
qed

lemma complement_loop_chain:
  assumes "complement_loop sd prev = Ok (out, end)" and "pos_modes sd" and "\<forall>m \<in> set sd. 0 < snd m"
    and "0 < prev"
  shows "\<exists>ch. mset ch = mset sd + mset out \<and> chain prev ch \<and> prev * modes_size ch = end \<and> 0 < end \<and>
    pos_modes out \<and> (\<forall>m \<in> set out. 0 < snd m)"
  using assms
proof (induction sd prev arbitrary: out "end" rule: complement_loop.induct)
  case (1 prev)
  then show ?case by simp
next
  case (2 s d sd prev)
  have pos: "0 < s" "0 < d" "pos_modes sd" "\<forall>m \<in> set sd. 0 < snd m" using 2(3,4) by auto
  from 2(2) obtain q out' where
      q: "i64_rem d prev = Some 0" "i64_div d prev = Some q" and mul: "i64_mul s d = Some (s * d)"
    and rest: "complement_loop sd (s * d) = Ok (out', end)" and out: "out = (q, prev) # out'"
    by (auto simp: outcome_simps i64_simps split: if_splits)
  note g = gap_step [OF q 2(5) pos(2)]
  obtain ch where ch: "mset ch = mset sd + mset out'" "chain (s * d) ch" "s * d * modes_size ch = end"
      "0 < end" "pos_modes out'" "\<forall>m \<in> set out'. 0 < snd m"
    using 2(1) [of 0 q "s * d" out' "end"] rest pos mul q by auto
  show ?case
    using ch g pos out 2(5)
    by (intro exI [of _ "(q, prev) # (s, d) # ch"]) (auto simp: mult_ac)
qed


text \<open>The two shapes of a complement: the whole interval, or the gaps of the sorted modes.\<close>

definition covers :: "(int \<times> int) list \<Rightarrow> Layout \<Rightarrow> int \<Rightarrow> bool" where
  "covers ms r hi \<longleftrightarrow>
     (\<exists>ns. r = layout_from_flat ns \<and> pos_modes ns \<and> (\<forall>m \<in> set ns. 0 < snd m) \<and>
       hi \<le> modes_size ms * modes_size ns \<and> offs (ms @ ns) = {0..<modes_size ms * modes_size ns})"

lemma covers_chain:
  assumes "coalesce (layout_from_flat gaps) = Some r" and "pos_modes gaps" and "\<forall>m \<in> set gaps. 0 < snd m"
    and "mset ch = mset ms + mset gaps" and "chain 1 ch" and "pos_modes ms"
    and "hi \<le> modes_size ch"
  shows "covers ms r hi"
proof -
  have ps: "pos_strides (flat_modes (layout_from_flat gaps))"
    using assms(3) by (auto simp: flat_modes_from_flat pos_strides_def)
  obtain ns where r: "r = layout_from_flat ns" and ns: "pos_modes ns" "\<forall>m \<in> set ns. 0 < snd m"
      "modes_size ns = modes_size gaps" "\<And>c. mode_offset ns c = mode_offset gaps c"
    using coalesce_from_flat [OF assms(1) _ ps] assms(2) by auto
  have mg: "mset ch = mset (ms @ gaps)" using assms(4) by simp
  have ch: "pos_modes ch" "modes_size ch = modes_size ms * modes_size gaps"
    using pos_modes_mset [OF mg] modes_size_mset [OF mg] assms(2,6) by simp_all
  have "offs (ms @ ns) = offs (ms @ gaps)"
    by (rule offs_append_cong) (use ns assms(2,6) in \<open>simp_all add: offs_def\<close>)
  also have "\<dots> = offs ch" using offs_mset [OF mg ch(1)] by simp
  also have "\<dots> = {0..<modes_size ch}" by (rule chain_offs [OF assms(5) ch(1)])
  finally show ?thesis using r ns ch assms(7) by (auto simp: covers_def)
qed

lemma filter_layout_identity:
  assumes "pos_strides (flat_modes l)"
  shows "filter_layout l = coalesce (layout_from_flat (flat_modes l))"
proof -
  have "map (\<lambda>(s, d). if d = 0 then (1, 0) else (s, d)) (flat_modes l) = flat_modes l"
    using assms by (intro map_idI) (auto simp: pos_strides_def)
  then show ?thesis by (simp add: filter_layout_def)
qed

lemma complement_gaps:
  assumes "ms \<noteq> []" and "complement_loop (butlast ms) 1 = Ok (out, prev)" and "last ms = (s, d)"
    and "i64_rem d prev = Some 0" and "i64_div d prev = Some q" and "ceil_div hi (d * s) = Some n"
    and "pos_modes ms" and "\<forall>m \<in> set ms. 0 < snd m" and "0 < hi"
  shows "\<exists>ch. mset ch = mset ms + mset (out @ [(q, prev), (n, d * s)]) \<and> chain 1 ch \<and> hi \<le> modes_size ch \<and>
    pos_modes (out @ [(q, prev), (n, d * s)]) \<and> (\<forall>m \<in> set (out @ [(q, prev), (n, d * s)]). 0 < snd m)"
proof -
  have ms: "ms = butlast ms @ [(s, d)]" using assms(1,3) append_butlast_last_id by metis
  then have "pos_modes (butlast ms) \<and> 0 < s \<and> 0 < d \<and> (\<forall>m \<in> set (butlast ms). 0 < snd m)"
    using assms(7,8) by (metis pos_modes_simps(2,3) in_set_conv_decomp in_set_butlastD snd_conv)
  then have pos: "pos_modes (butlast ms)" "0 < s" "0 < d" "\<forall>m \<in> set (butlast ms). 0 < snd m" by auto
  obtain ch where ch: "mset ch = mset (butlast ms) + mset out" "chain 1 ch" "modes_size ch = prev" "0 < prev"
      "pos_modes out" "\<forall>m \<in> set out. 0 < snd m"
    using complement_loop_chain [OF assms(2) pos(1,4)] by auto
  note g = gap_step [OF assms(4,5) ch(4) pos(3)]
  have n: "0 < n" "hi \<le> n * (d * s)" using ceil_div_Some [OF assms(6,9)] pos(2,3) by auto
  have "mset ms = mset (butlast ms) + {#(s, d)#}" by (subst ms) simp
  then show ?thesis
    using ch g pos n
    by (intro exI [of _ "ch @ [(q, prev), (s, d), (n, d * s)]"]) (auto simp: chain_append mult_ac)
qed

lemma complement_covers:
  assumes "complement l hi = Ok r" and "pos_modes (flat_modes l)" and "pos_strides (flat_modes l)"
    and "0 < hi"
  shows "covers (flat_modes l) r hi"
proof -
  obtain f where f: "coalesce (layout_from_flat (flat_modes l)) = Some f"
    using assms(1) filter_layout_identity [OF assms(3)] by (auto simp: complement_def outcome_simps)
  obtain ms where ms: "f = layout_from_flat ms" "pos_modes ms" "normal_modes ms" "\<forall>m \<in> set ms. 0 < snd m"
      "modes_size ms = modes_size (flat_modes l)" "\<And>c. mode_offset ms c = mode_offset (flat_modes l) c"
    using coalesce_from_flat [OF f] assms(2,3) by auto
  have "covers ms r hi"
  proof (cases "ms = []")
    case True
    have r: "coalesce \<lparr>shape = Leaf hi, stride = Leaf 1\<rparr> = Some r"
      using assms(1) f ms(1) True
      by (auto simp: complement_def filter_layout_identity [OF assms(3)] flat_modes_def outcome_simps
          col_major_def col_major_with_def bind_eq_Some_conv)
    show ?thesis
      by (rule covers_chain [of "[(hi, 1)]" r "[(hi, 1)]"]) (use r True assms(4) in simp_all)
  next
    case False
    let ?sd = "sort_key snd ms"
    have fm: "flat_modes f = ms" using ms(1) False by (simp add: flat_modes_from_flat)
    have one: "\<not> (length ms = 1 \<and> (snd (hd ms) = 0 \<or> fst (hd ms) = 1))"
      using ms(3,4) by (cases ms rule: normal_modes.cases) auto
    obtain s d where last: "last ?sd = (s, d)" by (cases "last ?sd")
    from assms(1) one last obtain out prev q n where
        loop: "complement_loop (butlast ?sd) 1 = Ok (out, prev)"
      and q: "i64_rem d prev = Some 0" "i64_div d prev = Some q" and n: "ceil_div hi (d * s) = Some n"
      and r: "coalesce (layout_from_flat (out @ [(q, prev), (n, d * s)])) = Some r"
      by (auto simp: complement_def filter_layout_identity [OF assms(3)] f fm outcome_simps i64_mul_def
          i64_fit_def split: if_splits)
    have sd: "?sd \<noteq> []" "pos_modes ?sd" "\<forall>m \<in> set ?sd. 0 < snd m" "mset ?sd = mset ms"
      using False ms(2,4) pos_modes_mset [of ?sd ms] mset_sort [of snd ms] by (auto simp del: mset_sort)
    from complement_gaps [OF sd(1) loop last q n sd(2,3) assms(4)] sd(4)
    show ?thesis using covers_chain [OF r] ms(2) by auto
  qed
  moreover have "offs (ms @ ns) = offs (flat_modes l @ ns)" if "pos_modes ns" for ns
    by (rule offs_append_cong) (use that ms(2,5,6) assms(2) in \<open>simp_all add: offs_def\<close>)
  ultimately show ?thesis using ms(5) by (auto simp: covers_def)
qed


section \<open>A sorted list of modes that reaches an interval is a chain\<close>

lemma mode_offset_min:
  assumes "pos_modes ms" and "\<forall>m \<in> set ms. d \<le> snd m" and "0 < d" and "0 \<le> c"
  shows "mode_offset ms c = 0 \<or> d \<le> mode_offset ms c"
  using assms
proof (induction ms arbitrary: c)
  case (Cons m ms)
  obtain s e where m: "m = (s, e)" by (cases m)
  have pos: "0 < s" "d \<le> e" "0 \<le> c mod s" "0 \<le> c div s" using Cons.prems m by (auto simp: pos_imp_zdiv_nonneg_iff)
  have tl: "mode_offset ms (c div s) = 0 \<or> d \<le> mode_offset ms (c div s)"
    using Cons.IH Cons.prems m pos by simp
  show ?case
  proof (cases "c mod s = 0")
    case True
    then show ?thesis using tl m by simp
  next
    case False
    then have "1 \<le> c mod s" using pos(3) by linarith
    then have "1 * e \<le> c mod s * e" using pos Cons.prems(3) by (intro mult_right_mono) auto
    then show ?thesis unfolding m mode_offset.simps using tl pos(2) Cons.prems(3) by linarith
  qed
qed simp

lemma first_stride:
  assumes "offs ((s, d) # ms) = (\<lambda>k. cur * k) ` {0..<modes_size ((s, d) # ms)}" and "0 < cur"
    and "2 \<le> s" and "0 < d" and "pos_modes ms" and "\<forall>m \<in> set ms. d \<le> snd m"
  shows "d = cur"
proof -
  let ?ms = "(s, d) # ms"
  have size: "2 \<le> modes_size ?ms" using assms(3) modes_size_pos [OF assms(5)]
    by simp (metis assms(3) int_one_le_iff_zero_less mult_mono' mult.right_neutral zero_le_numeral zero_le_one)
  have "mode_offset ?ms 1 = d" using assms(3) by simp
  moreover have "mode_offset ?ms 1 \<in> offs ?ms" unfolding offs_def using size by (intro imageI) auto
  ultimately obtain k where k: "d = cur * k" using assms(1) by auto
  then have "0 < k" using assms(2,4) by (metis zero_less_mult_pos)
  then have "cur * 1 \<le> cur * k" using assms(2) by (intro mult_left_mono) auto
  then have le: "cur \<le> d" using k by simp
  have "cur * 1 \<in> offs ?ms" unfolding assms(1) using size by (intro imageI) auto
  then obtain c where c: "cur = mode_offset ?ms c" "0 \<le> c" by (auto simp: offs_def)
  have "mode_offset ?ms c = 0 \<or> d \<le> mode_offset ?ms c"
    by (rule mode_offset_min) (use assms(3-6) c in auto)
  then show ?thesis using le c assms(2) by auto
qed

lemma tail_tiles:
  assumes "offs ((s, cur) # ms) = (\<lambda>k. cur * k) ` {0..<s * modes_size ms}" and "0 < cur" and "0 < s"
    and "pos_modes ms"
  shows "offs ms = (\<lambda>k. cur * s * k) ` {0..<modes_size ms}"
proof -
  let ?f = "mode_offset ((s, cur) # ms)" and ?M = "modes_size ms"
  have "card (?f ` {0..<s * ?M}) = card {0..<s * ?M}"
    using assms(1) card_image [of "\<lambda>k. cur * k" "{0..<s * ?M}"] assms(2) by (auto simp: offs_def inj_on_def)
  then have inj: "inj_on ?f {0..<s * ?M}" by (intro eq_card_imp_inj_on) auto
  have uniq: "e = e'"
    if e: "0 \<le> e" "e < s" "0 \<le> e'" "e' < s" and q: "q \<in> {0..<?M}" "q' \<in> {0..<?M}"
      and eq: "e * cur + mode_offset ms q = e' * cur + mode_offset ms q'" for e e' q q'
  proof -
    have in_range: "a + s * b \<in> {0..<s * ?M}" if "0 \<le> a" "a < s" "b \<in> {0..<?M}" for a b
    proof -
      have "s * (b + 1) \<le> s * ?M" using that assms(3) by (intro mult_left_mono) auto
      then show ?thesis using that assms(3) by (auto simp: algebra_simps)
    qed
    have "?f (e + s * q) = ?f (e' + s * q')" using e eq by simp
    then have "e + s * q = e' + s * q'" using inj_onD [OF inj] in_range e q by blast
    then have "(e + s * q) mod s = (e' + s * q') mod s" by simp
    then show ?thesis using e by simp
  qed
  have hit: "cur * s * int j \<in> offs ms" if "int j < ?M" for j
    using that
  proof (induction j)
    case 0
    then show ?case unfolding offs_def by (auto intro!: image_eqI [of _ _ 0])
  next
    case (Suc j)
    have "s * (int j + 1) < s * ?M" using Suc.prems assms(3) by (intro mult_strict_left_mono) auto
    then have "cur * (s * (int j + 1)) \<in> offs ((s, cur) # ms)"
      unfolding assms(1) using assms(3) by (intro imageI) auto
    then obtain e q where e: "0 \<le> e" "e < s" and q: "q \<in> {0..<?M}"
      and v: "cur * (s * (int j + 1)) = e * cur + mode_offset ms q"
      unfolding offs_Cons [OF assms(3,4)] by (auto simp: shift_union_def offs_def)
    obtain q' where q': "q' \<in> {0..<?M}" "cur * s * int j = mode_offset ms q'"
      using Suc by (auto simp: offs_def)
    have "e = 0"
    proof (rule ccontr)
      assume "e \<noteq> 0"
      have "0 * cur + mode_offset ms q = (s - e) * cur + mode_offset ms q'"
        using v q'(2) by (simp add: algebra_simps)
      then have "0 = s - e" using uniq [of 0 "s - e" q q'] e \<open>e \<noteq> 0\<close> q q'(1) assms(3) by simp
      then show False using e by simp
    qed
    then show ?case using v q by (simp add: offs_def mult.assoc add.commute)
  qed
  have sub: "(\<lambda>k. cur * s * k) ` {0..<?M} \<subseteq> offs ms"
  proof
    fix x
    assume "x \<in> (\<lambda>k. cur * s * k) ` {0..<?M}"
    then obtain k where "0 \<le> k" "k < ?M" "x = cur * s * k" by auto
    then show "x \<in> offs ms" using hit [of "nat k"] by simp
  qed
  have "card (offs ms) \<le> card ((\<lambda>k. cur * s * k) ` {0..<?M})"
    using card_image_le [of "{0..<?M}" "mode_offset ms"] assms(2,3) 
    by (simp add: offs_def card_image inj_on_def)
  then show ?thesis using card_seteq [OF _ sub] by (simp add: offs_def)
qed

lemma inverse_loop_full:
  assumes "inverse_loop cur ts = Some out" and "sorted (map fst ts)" and "0 < cur"
    and "\<forall>t \<in> set ts. 2 \<le> fst (snd t) \<and> 0 < fst t"
    and "offs (map (\<lambda>(d, s, _). (s, d)) ts) = (\<lambda>k. cur * k) ` {0..<modes_size (map (\<lambda>(d, s, _). (s, d)) ts)}"
  shows "modes_size out = modes_size (map (\<lambda>(d, s, _). (s, d)) ts)"
  using assms
proof (induction cur ts arbitrary: out rule: inverse_loop.induct)
  case (1 cur)
  then show ?case by simp
next
  case (2 cur d s p ts)
  let ?ms = "map (\<lambda>(d, s, _). (s, d)) ts"
  have pos: "2 \<le> s" "0 < d" "pos_modes ?ms" "\<forall>m \<in> set ?ms. d \<le> snd m" "sorted (map fst ts)"
    "\<forall>t \<in> set ts. 2 \<le> fst (snd t) \<and> 0 < fst t"
    using 2(4,6) by (force simp: pos_modes_def)+
  have d: "d = cur" using first_stride [of s d ?ms cur] 2(5,7) pos by simp
  have tail: "offs ?ms = (\<lambda>k. s * d * k) ` {0..<modes_size ?ms}"
    using tail_tiles [of s cur ?ms] 2(5,7) pos d by (simp add: mult.commute)
  obtain rest where out: "out = (s, p) # rest" and mul: "i64_mul s d = Some (s * d)"
    and rest: "inverse_loop (s * d) ts = Some rest"
    using 2(3) pos(2) d by (auto simp: bind_eq_Some_conv i64_simps)
  have "modes_size rest = modes_size ?ms"
    using 2(2) [OF _ _ mul rest pos(5) _ pos(6) tail] d pos(1,2) by simp
  then show ?case using out by simp
qed

end
