(* ===== verification/Cute_Algebra_Properties.thy ===== *)
theory Cute_Algebra_Properties
  imports Cute_Offsets Cute_Layout_Properties
begin

text \<open>
  The laws the layout algebra promises, stated on the reference meaning of layouts: simplification
  keeps the walk, \<open>right_inverse\<close> and \<open>left_inverse\<close> invert, \<open>complement\<close> fills the gaps
  exactly, and \<open>composition\<close> with one mode composes the two maps.
\<close>

section \<open>Inverses\<close>

lemma prefix_products_modes:
  "prefix_products p ms = Some dsa \<Longrightarrow> map (\<lambda>(d, s, _). (s, d)) dsa = ms"
  by (induction ms arbitrary: p dsa) (auto simp: bind_eq_Some_conv)

lemma prefix_products_distinct:
  assumes "prefix_products p ms = Some dsa" and "0 < p" and "\<forall>m \<in> set ms. 2 \<le> fst m"
  shows "distinct dsa \<and> (\<forall>t \<in> set dsa. p \<le> snd (snd t))"
  using assms
proof (induction ms arbitrary: p dsa)
  case (Cons m ms)
  obtain s d where m: "m = (s, d)" by (cases m)
  obtain rest where dsa: "dsa = (d, s, p) # rest" and rest: "prefix_products (p * s) ms = Some rest"
    using Cons.prems(1) m by (auto simp: bind_eq_Some_conv i64_simps)
  have "p * 2 \<le> p * s" using Cons.prems m by (intro mult_left_mono) auto
  then have ps: "p < p * s" using Cons.prems(2) by simp
  then have "distinct rest \<and> (\<forall>t \<in> set rest. p * s \<le> snd (snd t))"
    using Cons.IH [OF rest] Cons.prems by simp
  then show ?case using dsa ps by force
qed simp

lemma normal_extents:
  "normal_modes ms \<Longrightarrow> pos_modes ms \<Longrightarrow> \<forall>m \<in> set ms. 2 \<le> fst m"
  by (induction ms rule: normal_modes.induct) (auto simp: pos_modes_def)

text \<open>What \<open>right_inverse\<close> computes once the layout is in normal form.\<close>

lemma right_inverse_Ok:
  assumes "right_inverse a = Ok r" and "pos_modes (flat_modes a)"
  obtains ms dsa out where "coalesce a = Some (layout_from_flat ms)" and "pos_modes ms" and "normal_modes ms"
    and "modes_size ms = modes_size (flat_modes a)" and "\<And>c. mode_offset ms c = mode_offset (flat_modes a) c"
    and "prefix_products 1 ms = Some dsa" and "inverse_loop 1 (sort dsa) = Some out"
    and "coalesce (layout_from_flat out) = Some r"
proof -
  obtain ac where ac: "coalesce a = Some ac"
    using assms(1) by (auto simp: right_inverse_def outcome_simps bind_eq_Some_conv)
  obtain ms where ms: "ac = layout_from_flat ms" "pos_modes ms" "normal_modes ms"
      "modes_size ms = modes_size (flat_modes a)" "\<And>c. mode_offset ms c = mode_offset (flat_modes a) c"
    using coalesce_Some [OF ac assms(2)] by auto
  show thesis
  proof (cases "ms = []")
    case True
    then have "r = layout_from_flat [(1, 0)]"
      using assms(1) ac ms(1) by (simp add: right_inverse_def outcome_simps flat_modes_def)
    moreover have "coalesce (layout_from_flat []) = Some (layout_from_flat [(1, 0)])"
      by (simp add: coalesce_def flat_modes_def)
    ultimately show thesis using that [of ms "[]" "[]"] ac ms True by simp
  next
    case False
    have "\<not> (length ms = 1 \<and> fst (hd ms) = 1)"
      using ms(3) by (cases ms rule: normal_modes.cases) auto
    then obtain dsa out where d: "prefix_products 1 ms = Some dsa" "inverse_loop 1 (sort dsa) = Some out"
        "coalesce (layout_from_flat (if out = [] then [(1, 0)] else out)) = Some r"
      using assms(1) ac ms(1) False
      by (auto simp: right_inverse_def outcome_simps flat_modes_from_flat bind_eq_Some_conv)
    have "coalesce (layout_from_flat [(1, 0)]) = Some (layout_from_flat [])"
      by (simp add: coalesce_def flat_modes_def)
    then have "coalesce (layout_from_flat out) = Some r"
      using d(3) by (auto simp: coalesce_def flat_modes_def split: if_splits)
    then show thesis using that [OF _ ms(2-5) d(1,2)] ac ms(1) by auto
  qed
qed


lemma right_inverse_digits:
  assumes "prefix_products 1 ms = Some dsa" and "inverse_loop 1 (sort dsa) = Some out"
    and "pos_modes ms" and "normal_modes ms" and "0 \<le> x" and "x < modes_size out"
  shows "0 \<le> mode_offset out x \<and> mode_offset out x < modes_size ms \<and> mode_offset ms (mode_offset out x) = x"
proof -
  have ext: "\<forall>t \<in> set dsa. 0 < fst (snd t)"
    using normal_extents [OF assms(4,3)] prefix_products_modes [OF assms(1)] by force
  have "distinct (sort dsa)"
    using prefix_products_distinct [OF assms(1)] normal_extents [OF assms(4,3)] by simp
  then obtain e where e: "digits_of (sort dsa) e" "mode_offset out x = (\<Sum>t\<leftarrow>sort dsa. e t * snd (snd t))"
      "(\<Sum>t\<leftarrow>sort dsa. e t * fst t) = 1 * x"
    using inverse_loop_digits [OF assms(2) _ _ assms(5,6)] ext by auto
  have sums: "(\<Sum>t\<leftarrow>sort dsa. e t * f t) = (\<Sum>t\<leftarrow>dsa. e t * f t)" for f
    by (simp flip: sum_mset_sum_list)
  have "digits_of dsa e" using e(1) by (simp add: digits_of_def)
  from prefix_products_digits [OF assms(1,3) this] show ?thesis using e(2,3) sums by auto
qed

lemma inverse_loop_pos:
  assumes "prefix_products 1 ms = Some dsa" and "inverse_loop 1 (sort dsa) = Some out" and "pos_modes ms"
  shows "pos_modes out"
proof -
  have "inverse_loop cur ts = Some out \<Longrightarrow> \<forall>t \<in> set ts. 0 < fst (snd t) \<Longrightarrow> pos_modes out" for cur ts out
    by (induction cur ts arbitrary: out rule: inverse_loop.induct)
       (auto simp: bind_eq_Some_conv split: if_splits)
  moreover have "\<forall>t \<in> set (sort dsa). 0 < fst (snd t)"
    using prefix_products_modes [OF assms(1)] assms(3) by (force simp: pos_modes_def)
  ultimately show ?thesis using assms(2) by blast
qed

lemma right_inverse_full:
  assumes "prefix_products 1 ms = Some dsa" and "inverse_loop 1 (sort dsa) = Some out"
    and "pos_modes ms" and "normal_modes ms" and "\<forall>m \<in> set ms. 0 < snd m" and "offs ms = {0..<modes_size ms}"
  shows "modes_size out = modes_size ms"
proof -
  let ?modes = "\<lambda>(d, s, _). (s, d) :: int \<times> int"
  have ms: "mset (map ?modes (sort dsa)) = mset ms"
    using prefix_products_modes [OF assms(1)] by (metis mset_map mset_sort)
  then have pos: "pos_modes (map ?modes (sort dsa))" using pos_modes_mset assms(3) by blast
  have ext: "\<forall>t \<in> set (sort dsa). 2 \<le> fst (snd t) \<and> 0 < fst t"
    using normal_extents [OF assms(4,3)] assms(5) prefix_products_modes [OF assms(1)] by force
  have "sorted_wrt (\<lambda>x y. fst x \<le> fst y) (sort dsa)"
    by (rule sorted_wrt_mono_rel [of _ "(\<le>)"]) (auto simp: less_eq_prod_def)
  then have "sorted (map fst (sort dsa))" by (simp add: sorted_map)
  then show ?thesis
    using inverse_loop_full [OF assms(2) _ _ ext] offs_mset [OF ms pos] modes_size_mset [OF ms] assms(6) by simp
qed

lemma left_inverse_padded:
  assumes "left_inverse a = Ok r" and "is_congruent (shape a) (stride a)"
    and "pos_modes (flat_modes a)" and "pos_strides (flat_modes a)" and "cosize a = Some n" and "0 < n"
  shows "\<exists>ns. pos_modes ns \<and> pos_strides ns \<and> offs (flat_modes a @ ns) = {0..<modes_size (flat_modes a @ ns)} \<and>
    (\<exists>pad. right_inverse pad = Ok r \<and> flat_modes pad = flat_modes a @ ns)"
proof -
  obtain comp where comp: "complement a n = Ok comp" and r: "right_inverse (from_modes [a, comp]) = Ok r"
    using assms(1,5) by (auto simp: left_inverse_def outcome_simps)
  obtain ns where ns: "comp = layout_from_flat ns" "pos_modes ns" "\<forall>m \<in> set ns. 0 < snd m"
      "offs (flat_modes a @ ns) = {0..<modes_size (flat_modes a) * modes_size ns}"
    using complement_covers [OF comp assms(3,4,6)] by (auto simp: covers_def)
  have fc: "flat_modes comp = (if ns = [] then [(1, 0)] else ns)" using ns(1) flat_modes_from_flat by simp
  have pad: "flat_modes (from_modes [a, comp]) = flat_modes a @ flat_modes comp"
    using assms(2) congruent_from_flat [of ns] ns(1) by (simp add: flat_modes_tuple_modes)
  show ?thesis
  proof (cases "ns = []")
    case True
    have "offs (flat_modes a @ [(1, 0)]) = offs (flat_modes a @ [])"
      by (rule offs_append_cong) (use assms(3) in \<open>simp_all add: offs_def\<close>)
    then show ?thesis using ns(4) True fc pad r by (intro exI [of _ "[(1, 0)]"]) auto
  next
    case False
    then show ?thesis using ns fc pad r by (intro exI [of _ ns]) (auto simp: pos_strides_def)
  qed
qed


text \<open>The modes behind a coalesced layout are determined by it when they are in normal form.\<close>

lemma normal_from_flat_inj:
  assumes "normal_modes xs" and "normal_modes ys" and "layout_from_flat xs = layout_from_flat ys"
  shows "xs = ys"
proof -
  have "(if xs = [] then [(1, 0)] else xs) = (if ys = [] then [(1, 0)] else ys)"
    using arg_cong [OF assms(3), of flat_modes] by (simp add: flat_modes_from_flat)
  then show ?thesis using assms(1,2) by (auto split: if_splits)
qed

lemma right_inverse_flat:
  assumes "right_inverse a = Ok r" and "pos_modes (flat_modes a)"
  shows "0 \<le> x \<Longrightarrow> x < modes_size (flat_modes r) \<Longrightarrow>
      0 \<le> mode_offset (flat_modes r) x \<and> mode_offset (flat_modes r) x < modes_size (flat_modes a) \<and>
      mode_offset (flat_modes a) (mode_offset (flat_modes r) x) = x"
    and "pos_strides (flat_modes a) \<Longrightarrow> offs (flat_modes a) = {0..<modes_size (flat_modes a)} \<Longrightarrow>
      modes_size (flat_modes r) = modes_size (flat_modes a)"
proof -
  obtain ms dsa out where a: "coalesce a = Some (layout_from_flat ms)" "pos_modes ms" "normal_modes ms"
      "modes_size ms = modes_size (flat_modes a)" "\<And>c. mode_offset ms c = mode_offset (flat_modes a) c"
      "prefix_products 1 ms = Some dsa" "inverse_loop 1 (sort dsa) = Some out"
      "coalesce (layout_from_flat out) = Some r"
    using right_inverse_Ok [OF assms] by metis
  obtain rs where rs: "r = layout_from_flat rs" "modes_size rs = modes_size out"
      "\<And>c. mode_offset rs c = mode_offset out c"
    using coalesce_Some [OF a(8)] inverse_loop_pos [OF a(6,7,2)] by auto
  show "0 \<le> mode_offset (flat_modes r) x \<and> mode_offset (flat_modes r) x < modes_size (flat_modes a) \<and>
      mode_offset (flat_modes a) (mode_offset (flat_modes r) x) = x"
    if "0 \<le> x" "x < modes_size (flat_modes r)"
    using right_inverse_digits [OF a(6,7,2,3) that(1)] that(2) a(4,5) rs by simp
  show "modes_size (flat_modes r) = modes_size (flat_modes a)"
    if "pos_strides (flat_modes a)" "offs (flat_modes a) = {0..<modes_size (flat_modes a)}"
  proof -
    have "\<forall>m \<in> set ms. 0 < snd m"
      using coalesce_from_flat [OF a(1) assms(2) that(1)] a(1,3) normal_from_flat_inj [OF a(3)]
      by metis
    moreover have "offs ms = {0..<modes_size ms}" using that(2) a(4,5) by (simp add: offs_def)
    ultimately show ?thesis using right_inverse_full [OF a(6,7,2,3)] a(4) rs by simp
  qed
qed

lemma mode_offset_nonneg:
  "pos_modes ms \<Longrightarrow> pos_strides ms \<Longrightarrow> 0 \<le> mode_offset ms c"
  by (induction ms arbitrary: c) (force simp: pos_modes_def)+

lemma cosize_pos:
  assumes "cosize l = Some n" and "is_congruent (shape l) (stride l)" and "pos_tuple (shape l)"
    and "pos_strides (flat_modes l)"
  shows "0 < n"
proof -
  let ?N = "prod_list (tuple_flatten (shape l))"
  have N: "0 < ?N" by (rule prod_pos_tuple [OF assms(3)])
  obtain m where m: "layout_size l = Some m" using assms(1) by (auto simp: cosize_def bind_eq_Some_conv)
  then have "m = ?N" using tuple_size_eq by (simp add: layout_size_def)
  then obtain v where v: "call l (Leaf (?N - 1)) = Some v" "n = v + 1"
    using assms(1) m N by (auto simp: cosize_def bind_eq_Some_conv i64_simps split: if_splits)
  then have "v = mode_offset (flat_modes l) (?N - 1)"
    using crd2idx_eval [OF assms(2,3)] N by (simp add: evaluates_def call_def flat_modes_tuple_modes)
  then show ?thesis
    using v mode_offset_nonneg [OF _ assms(4)] pos_tuple_modes [OF assms(3)] by (simp add: flat_modes_tuple_modes)
qed

section \<open>Properties\<close>

definition owners_3_2 :: Layout where
  "owners_3_2 = \<lparr>shape = Tuple [Leaf 3, Leaf 2], stride = Tuple [Leaf 2, Leaf 1]\<rparr>"

text \<open>(C26) \<open>coalesce\<close> keeps the walk: the result is a congruent layout of the same size in which
  every flat coordinate has the same offset as before, and it is in normal form (no mode of extent
  1, no two neighbours that could still be merged) unless it is the one-cell layout.\<close>

theorem coalesce_preserves_walk:
  assumes "coalesce l = Some r" and "is_congruent (shape l) (stride l)" and "pos_tuple (shape l)"
  shows "is_congruent (shape r) (stride r) \<and> modes_size (layout_flat r) = modes_size (layout_flat l) \<and>
    (\<forall>c. mode_offset (layout_flat r) c = mode_offset (layout_flat l) c) \<and>
    (r = \<lparr>shape = Leaf 1, stride = Leaf 0\<rparr> \<or> normal_modes (layout_flat r))"
proof -
  obtain ms where ms: "r = layout_from_flat ms" "normal_modes ms"
      "modes_size ms = modes_size (flat_modes l)" "\<And>c. mode_offset ms c = mode_offset (flat_modes l) c"
    using coalesce_Some [OF assms(1)] pos_tuple_modes [OF assms(3)] by (auto simp: flat_modes_tuple_modes)
  have "r = \<lparr>shape = Leaf 1, stride = Leaf 0\<rparr> \<or> normal_modes (flat_modes r)"
    using ms(1,2) by (auto simp: flat_modes_from_flat)
  then show ?thesis using ms(1,3,4) congruent_from_flat [of ms] by (simp flip: flat_modes_tuple_modes)
qed

theorem coalesce_preserves_walk_witness:
  "\<forall>c. mode_offset (layout_flat \<lparr>shape = Leaf 8, stride = Leaf 3\<rparr>) c =
     mode_offset (layout_flat \<lparr>shape = Tuple [Leaf 2, Leaf 1, Leaf 4], stride = Tuple [Leaf 3, Leaf 99, Leaf 6]\<rparr>) c"
proof -
  let ?l = "\<lparr>shape = Tuple [Leaf 2, Leaf 1, Leaf 4], stride = Tuple [Leaf 3, Leaf 99, Leaf 6]\<rparr>"
  have h: "coalesce ?l = Some \<lparr>shape = Leaf 8, stride = Leaf 3\<rparr>" "is_congruent (shape ?l) (stride ?l)"
    "pos_tuple (shape ?l)"
    by (simp_all add: coalesce_def flat_modes_def i64_mul_def i64_fit_def in_i64_def)
  show ?thesis using coalesce_preserves_walk [OF h] by blast
qed

text \<open>(C24) The law of \<open>right_inverse\<close>: for every value \<open>x\<close> that the result \<open>r\<close> covers, \<open>r(x)\<close> is
  a coordinate of \<open>a\<close> and \<open>a(r(x)) = x\<close>.\<close>

theorem right_inverse_law:
  assumes "right_inverse a = Ok r" and "pos_tuple (shape a)"
    and "0 \<le> x" and "x < modes_size (layout_flat r)"
  shows "0 \<le> mode_offset (layout_flat r) x \<and>
    mode_offset (layout_flat r) x < modes_size (layout_flat a) \<and>
    mode_offset (layout_flat a) (mode_offset (layout_flat r) x) = x"
proof -
  have "pos_modes (flat_modes a)" using pos_tuple_modes [OF assms(2)] by (simp add: flat_modes_tuple_modes)
  from right_inverse_flat(1) [OF assms(1) this assms(3)] assms(4)
  show ?thesis by (simp add: flat_modes_tuple_modes)
qed

theorem right_inverse_law_witness:
  "mode_offset (layout_flat owners_3_2) (mode_offset (layout_flat
     \<lparr>shape = Tuple [Leaf 2, Leaf 3], stride = Tuple [Leaf 3, Leaf 1]\<rparr>) 4) = 4"
proof -
  have h: "right_inverse owners_3_2 = Ok \<lparr>shape = Tuple [Leaf 2, Leaf 3], stride = Tuple [Leaf 3, Leaf 1]\<rparr>"
    by code_simp
  show ?thesis
    using right_inverse_law [OF h, of 4] by (simp add: owners_3_2_def)
qed

text \<open>(C23) The law of \<open>complement\<close>, for a layout with congruent shape and stride and positive extents in which every mode
  of an extent other than 1 has a positive stride (no broadcast mode), and a positive endpoint: when \<open>complement\<close>
  succeeds, joining the layout with its complement reaches every offset below the joint size exactly once, and the joint
  size is at least the requested endpoint.\<close>

theorem complement_fills_gaps:
  assumes "complement l hi = Ok r" and "is_congruent (shape l) (stride l)" and "pos_tuple (shape l)"
    and "\<forall>(s, d) \<in> set (layout_flat l). s = 1 \<or> 0 < d" and "0 < hi"
  shows "hi \<le> modes_size (layout_flat (from_modes [l, r])) \<and>
    bij_betw (mode_offset (layout_flat (from_modes [l, r])))
      {0..<modes_size (layout_flat (from_modes [l, r]))} {0..<modes_size (layout_flat (from_modes [l, r]))}"
proof -
  have pos: "pos_modes (flat_modes l)" "pos_strides (flat_modes l)"
    using pos_tuple_modes [OF assms(3)] assms(4) by (simp_all add: flat_modes_tuple_modes pos_strides_def)
  obtain ns where ns: "r = layout_from_flat ns" "pos_modes ns" "hi \<le> modes_size (flat_modes l @ ns)"
      "offs (flat_modes l @ ns) = {0..<modes_size (flat_modes l @ ns)}"
    using complement_covers [OF assms(1) pos assms(5)] by (auto simp: covers_def)
  have join: "layout_flat (from_modes [l, r]) = flat_modes l @ flat_modes r"
    using assms(2) congruent_from_flat [of ns] ns(1) by (simp add: flat_modes_tuple_modes)
  have "offs (flat_modes l @ flat_modes r) = offs (flat_modes l @ ns)"
    by (rule offs_append_cong) (use pos ns(1,2) in \<open>simp_all add: offs_def\<close>)
  then have "offs (flat_modes l @ flat_modes r) = {0..<modes_size (flat_modes l @ flat_modes r)}"
    using ns(1,4) by simp
  from interval_bij [OF this] show ?thesis using join ns(1,3) by simp
qed

theorem complement_fills_gaps_witness:
  "bij_betw (mode_offset (layout_flat \<lparr>shape = Tuple [Leaf 4, Leaf 2], stride = Tuple [Leaf 2, Leaf 1]\<rparr>))
     {0..<8} {0..<8}"
proof -
  let ?l = "\<lparr>shape = Leaf 4, stride = Leaf 2\<rparr>"
  have h: "complement ?l 8 = Ok \<lparr>shape = Leaf 2, stride = Leaf 1\<rparr>" by code_simp
  show ?thesis using complement_fills_gaps [OF h] by simp
qed


text \<open>(C25) The law of \<open>left_inverse\<close>: on a layout with positive strides, a successful call returns
  a layout \<open>r\<close> with \<open>r(a(i)) = i\<close> for every coordinate \<open>i\<close> of \<open>a\<close>.\<close>

theorem left_inverse_law:
  assumes "left_inverse a = Ok r" and "is_congruent (shape a) (stride a)" and "pos_tuple (shape a)"
    and "\<forall>(s, d) \<in> set (layout_flat a). s = 1 \<or> 0 < d"
    and "0 \<le> i" and "i < modes_size (layout_flat a)"
  shows "mode_offset (layout_flat r) (mode_offset (layout_flat a) i) = i"
proof -
  have pos: "pos_modes (flat_modes a)" "pos_strides (flat_modes a)"
    using pos_tuple_modes [OF assms(3)] assms(4) by (simp_all add: flat_modes_tuple_modes pos_strides_def)
  obtain n where n: "cosize a = Some n" using assms(1) by (auto simp: left_inverse_def outcome_simps)
  obtain ns pad where ns: "pos_modes ns" "pos_strides ns"
      "offs (flat_modes a @ ns) = {0..<modes_size (flat_modes a @ ns)}"
      and pad: "right_inverse pad = Ok r" "flat_modes pad = flat_modes a @ ns"
    using left_inverse_padded [OF assms(1,2) pos n] cosize_pos [OF n assms(2,3) pos(2)] by blast
  let ?N = "modes_size (flat_modes pad)" and ?pad = "mode_offset (flat_modes pad)"
  have N: "?N = modes_size (flat_modes a) * modes_size ns" "0 < modes_size ns" using pad(2) ns(1) modes_size_pos by auto
  have bij: "bij_betw ?pad {0..<?N} {0..<?N}" using interval_bij [OF ns(3)] pad(2) by simp
  have size: "modes_size (flat_modes r) = ?N"
    by (rule right_inverse_flat(2) [OF pad(1)]) (use pad(2) pos ns in simp_all)
  have "modes_size (flat_modes a) * 1 \<le> ?N"
    unfolding N(1) using N(2) modes_size_pos [OF pos(1)] by (intro mult_left_mono) auto
  then have i: "i \<in> {0..<?N}" using assms(5,6) by (simp flip: flat_modes_tuple_modes)
  have "?pad i = mode_offset (flat_modes a) i"
    using pos(1) pad(2) assms(5,6) by (simp add: mode_offset_append flip: flat_modes_tuple_modes)
  moreover have "?pad i \<in> {0..<?N}" using bij i by (auto simp: bij_betw_def)
  ultimately have x: "mode_offset (flat_modes a) i \<in> {0..<?N}" "?pad i = mode_offset (flat_modes a) i" by auto
  let ?j = "mode_offset (flat_modes r) (mode_offset (flat_modes a) i)"
  have "?j \<in> {0..<?N}" "?pad ?j = ?pad i"
    using right_inverse_flat(1) [OF pad(1), of "mode_offset (flat_modes a) i"] pad(2) pos(1) ns(1) x size by auto
  then have "?j = i" using bij i by (auto simp: bij_betw_def dest: inj_onD)
  then show ?thesis by (simp add: flat_modes_tuple_modes)
qed

theorem left_inverse_law_witness:
  "mode_offset (layout_flat \<lparr>shape = Tuple [Leaf 2, Leaf 3], stride = Tuple [Leaf 3, Leaf 1]\<rparr>)
     (mode_offset (layout_flat \<lparr>shape = Leaf 3, stride = Leaf 2\<rparr>) 2) = 2"
proof -
  let ?a = "\<lparr>shape = Leaf 3, stride = Leaf 2\<rparr>"
  have h: "left_inverse ?a = Ok \<lparr>shape = Tuple [Leaf 2, Leaf 3], stride = Tuple [Leaf 3, Leaf 1]\<rparr>" by code_simp
  show ?thesis by (rule left_inverse_law [OF h]) simp_all
qed

end
