(* ===== verification/Cute_Composition.thy ===== *)
theory Cute_Composition
  imports Cute_Algebra_Facts Cute_Layout_Properties
begin

text \<open>
  Composition with one right-hand mode \<open>n:t\<close>. Where at every mode boundary of the left layout the
  number of cells below it divides \<open>t\<close> or is divided by it, the loop of \<open>compose_int\<close> splits
  \<open>c * t\<close> into digits exactly and the result maps \<open>c\<close> to \<open>a(c * t)\<close>. Without that condition
  the loop also accepts strides that do not fit, and every such stride gives a wrong result on a layout of two modes; with
  several right-hand modes the digits may carry.
\<close>

section \<open>Alignment of a stride with the mode boundaries\<close>

abbreviation comparable :: "int \<Rightarrow> int \<Rightarrow> bool" where
  "comparable a b \<equiv> a dvd b \<or> b dvd a"

fun aligned_from :: "int \<Rightarrow> int \<Rightarrow> (int \<times> int) list \<Rightarrow> bool" where
  "aligned_from t p [] \<longleftrightarrow> True"
| "aligned_from t p ((s, d) # ms) \<longleftrightarrow> comparable t (p * s) \<and> aligned_from t (p * s) ms"

lemma aligned_from_append:
  "aligned_from t p (xs @ ys) \<longleftrightarrow> aligned_from t p xs \<and> aligned_from t (p * modes_size xs) ys"
  by (induction xs arbitrary: p) (auto simp: mult.assoc)

lemma aligned_from_cancel:
  "0 < s \<Longrightarrow> aligned_from (s * t) (s * p) ms \<longleftrightarrow> aligned_from t p ms"
  by (induction ms arbitrary: p) (auto simp: mult.assoc)

lemma aligned_from_one: "aligned_from 1 p ms"
  by (induction ms arbitrary: p) auto

lemma coalesce_loop_aligned:
  "coalesce_loop out ms = Some r \<Longrightarrow> aligned_from t p (rev out @ ms) \<Longrightarrow> aligned_from t p r"
proof (induction ms arbitrary: out)
  case (Cons m ms)
  obtain s d where m: "m = (s, d)" by (cases m)
  show ?case
  proof (cases "s = 1 \<or> out = []")
    case True
    then show ?thesis using Cons.IH [of out] Cons.IH [of "[m]"] Cons.prems m
      by (cases "s = 1") (auto simp: aligned_from_append)
  next
    case False
    then obtain s0 d0 out' where out: "out = (s0, d0) # out'" by (cases out) auto
    then show ?thesis
      using Cons.IH [of "(s0 * s, d0) # out'"] Cons.IH [of "m # out"] Cons.prems m False
      by (auto simp: bind_eq_Some_conv i64_simps aligned_from_append mult.assoc split: if_splits)
  qed
qed auto

section \<open>The loop\<close>

lemma ceil_div_dvd:
  assumes "ceil_div (b * k) b = Some q" and "0 < b" and "0 < k"
  shows "q = k"
proof -
  have "q = (b - 1 + b * k) div b" using ceil_div_Some(1) [OF assms(1)] assms(2,3) by (simp add: algebra_simps)
  also have "\<dots> = k" using assms(2) by (subst div_mult_self2) auto
  finally show ?thesis .
qed

lemma ceil_div_small:
  assumes "ceil_div a b = Some q" and "0 < a" and "a \<le> b"
  shows "q = 1"
proof -
  have "q = (a - 1 + b * 1) div b" using ceil_div_Some(1) [OF assms(1)] assms(2,3) by (simp add: algebra_simps)
  also have "\<dots> = 1" using assms(2,3) by (subst div_mult_self2) auto
  finally show ?thesis .
qed

definition splits :: "(int \<times> int) list \<Rightarrow> int \<Rightarrow> int \<Rightarrow> (int \<times> int) list \<Rightarrow> int \<Rightarrow> int \<Rightarrow> bool" where
  "splits ms n t new n' t' \<longleftrightarrow> pos_modes new \<and> 0 < n' \<and> 0 < t' \<and> modes_size new * n' = n \<and>
     (\<forall>c. 0 \<le> c \<and> c < n \<longrightarrow> mode_offset ms (c * t) = mode_offset new c \<and>
        (c * t) div modes_size ms = (c div modes_size new) * t')"

lemma splits_skip:
  assumes "splits ms n t1 new n' t'" and "0 < s"
  shows "splits ((s, d) # ms) n (s * t1) new n' t'"
proof -
  have "c * (s * t1) mod s = 0" "c * (s * t1) div s = c * t1" for c
    using assms(2) by (simp_all add: mult.left_commute [of c])
  moreover have "c * (s * t1) div (s * M) = c * t1 div M" for c M
    using assms(2) by (simp add: mult.left_commute [of c])
  ultimately show ?thesis using assms(1) by (simp add: splits_def)
qed

lemma splits_single:
  assumes "splits ms 1 1 new n' t'"
  shows "splits ((s, d) # ms) 1 t new n' t'"
proof -
  have "(\<forall>c :: int. 0 \<le> c \<and> c < 1 \<longrightarrow> P c) \<longleftrightarrow> P 0" for P
    by (auto simp: zless_iff_Suc_zadd dest: order_antisym)
  then show ?thesis using assms unfolding splits_def by simp
qed

lemma splits_take:
  assumes "splits ms n1 1 new n' t'" and "0 < p" and "0 < t" and "pos_modes ms"
  shows "splits ((t * p, d) # ms) (p * n1) t ((p, t * d) # new) n' t'"
proof -
  have "mode_offset ((t * p, d) # ms) (c * t) = mode_offset ((p, t * d) # new) c \<and>
      c * t div (t * p * modes_size ms) = c div (p * modes_size new) * t'"
    if c: "0 \<le> c" "c < p * n1" for c
  proof -
    have m: "c * t mod (t * p) = t * (c mod p)" and q: "c * t div (t * p) = c div p"
      using assms(3) by (simp_all add: mult.commute [of c])
    have "0 \<le> c div p" "c div p < n1" using c assms(2) by (simp_all add: pos_imp_zdiv_nonneg_iff int_div_less_mult)
    then have ih: "mode_offset ms (c div p) = mode_offset new (c div p)"
        "c div p div modes_size ms = (c div p div modes_size new) * t'"
      using assms(1) by (auto simp: splits_def)
    have "c * t div (t * p * modes_size ms) = c * t div (t * p) div modes_size ms"
      using modes_size_pos [OF assms(4)] by (simp add: zdiv_zmult2_eq)
    moreover have "0 < modes_size new" using assms(1) modes_size_pos by (auto simp: splits_def)
    ultimately show ?thesis using ih m q by (simp add: zdiv_zmult2_eq mult_ac)
  qed
  then show ?thesis using assms(1,2) by (auto simp: splits_def mult.assoc)
qed

lemma splits_inside:
  assumes "splits ms 1 1 new n' t'" and "0 < n" and "n \<le> p" and "0 < t" and "pos_modes ms"
  shows "splits ((t * p, d) # ms) n t ((n, t * d) # new) n' t'"
proof -
  have "mode_offset ((t * p, d) # ms) (c * t) = mode_offset ((n, t * d) # new) c \<and>
      c * t div (t * p * modes_size ms) = c div (n * modes_size new) * t'"
    if c: "0 \<le> c" "c < n" for c
  proof -
    have "c * t < p * t" using c assms(3,4) by (intro mult_strict_right_mono) auto
    then have b: "0 \<le> c * t" "c * t < t * p" using c assms(4) by (simp_all add: mult.commute)
    then have "c * t div (t * p * modes_size ms) = 0"
      using modes_size_pos [OF assms(5)] by (simp add: zdiv_zmult2_eq)
    moreover have "c div (n * modes_size new) = 0"
      using c assms(1) modes_size_pos [of new] by (simp add: splits_def zdiv_zmult2_eq)
    ultimately show ?thesis using b c by simp
  qed
  then show ?thesis using assms(1,2) by (auto simp: splits_def mult.assoc)
qed


lemma compose_loop_splits:
  assumes "compose_loop ms acc n t = Ok (res, n', t')" and "pos_modes ms" and "0 < n" and "0 < t"
    and "aligned_from t 1 ms"
  shows "\<exists>new. res = acc @ new \<and> splits ms n t new n' t'"
  using assms
proof (induction ms arbitrary: acc n t)
  case Nil
  then show ?case by (auto simp: splits_def)
next
  case (Cons m ms)
  obtain s d where m: "m = (s, d)" by (cases m)
  have pos: "0 < s" "pos_modes ms" "0 < n" "0 < t" using Cons.prems m by auto
  have al: "comparable t s" "aligned_from t s ms" using Cons.prems(5) m by auto
  from Cons.prems(1) m obtain next_shape next_stride where
      shp: "ceil_div s t = Some next_shape" and str: "ceil_div t s = Some next_stride"
    and rest: "if next_shape = 1 \<or> n = 1 then compose_loop ms acc n next_stride = Ok (res, n', t')
      else n smod min next_shape n = 0 \<and>
        compose_loop ms (acc @ [(min next_shape n, t * d)]) (n sdiv min next_shape n) next_stride = Ok (res, n', t')"
    using pos by (auto simp: outcome_simps Let_def i64_simps bind_eq_Some_conv split: if_splits)
  show ?case
  proof (cases "s dvd t")
    case True
    then obtain t1 where t: "t = s * t1" by blast
    then have t1: "0 < t1" using pos(1,4) by (simp add: zero_less_mult_iff)
    have "next_shape = 1" "next_stride = t1"
      using ceil_div_small [OF shp pos(1)] zdvd_imp_le [OF True pos(4)] ceil_div_dvd [of s t1] str pos(1) t t1 by auto
    then have "compose_loop ms acc n t1 = Ok (res, n', t')" using rest by simp
    moreover have "aligned_from t1 1 ms" using al(2) aligned_from_cancel [OF pos(1), of t1 1] t by simp
    ultimately obtain new where "res = acc @ new" "splits ms n t1 new n' t'"
      using Cons.IH [of acc n t1] pos t1 by auto
    then show ?thesis using splits_skip [OF _ pos(1)] t m by auto
  next
    case False
    then obtain p where s: "s = t * p" using al(1) by auto
    then have p: "0 < p" using pos(1,4) by (simp add: zero_less_mult_iff)
    then have "t * 1 \<le> t * p" using pos(4) by (intro mult_left_mono) auto
    then have st: "next_stride = 1" "next_shape = p"
      using ceil_div_small [OF str pos(4)] ceil_div_dvd [of t p] shp pos(4) s p by auto
    have "p \<noteq> 1" using False s by auto
    note ih = Cons.IH [OF _ pos(2) _ zero_less_one aligned_from_one]
    consider "n = 1" | "n \<noteq> 1" "p \<le> n" | "n \<noteq> 1" "n < p" by linarith
    then show ?thesis
    proof cases
      case 1
      then show ?thesis using ih [of acc n] rest st m splits_single by auto
    next
      case 2
      have mod: "n = p * (n div p)" and n1: "0 < n div p"
        using rest st \<open>p \<noteq> 1\<close> 2 p pos(3)
        by (auto simp: smod_nonneg min_def pos_imp_zdiv_pos_iff split: if_splits)
      have "compose_loop ms (acc @ [(p, t * d)]) (n div p) 1 = Ok (res, n', t')"
        using rest st \<open>p \<noteq> 1\<close> 2 pos(3) p by (simp add: min_def sdiv_nonneg)
      from ih [OF this n1] obtain new where new: "res = acc @ (p, t * d) # new" "splits ms (n div p) 1 new n' t'" by auto
      then have "splits (m # ms) n t ((p, t * d) # new) n' t'"
        using splits_take [OF new(2) p pos(4,2), of d] m s mod by simp
      then show ?thesis using new(1) by blast
    next
      case 3
      have "compose_loop ms (acc @ [(n, t * d)]) 1 1 = Ok (res, n', t')"
        using rest st \<open>p \<noteq> 1\<close> 3 pos(3) by (simp add: min_def sdiv_nonneg)
      from ih [OF this] obtain new where new: "res = acc @ (n, t * d) # new" "splits ms 1 1 new n' t'" by auto
      then have "splits (m # ms) n t ((n, t * d) # new) n' t'"
        using splits_inside [OF new(2) pos(3) _ pos(4,2), of p d] 3 m s by simp
      then show ?thesis using new(1) by blast
    qed
  qed
qed

section \<open>The whole operation\<close>

lemma splits_append_last:
  assumes "splits ms n t new n' t'" and "pos_modes ms" and "0 < t" and "0 \<le> c" and "c < n"
    and "(n - 1) * t < modes_size ms * sl"
  shows "mode_offset (ms @ [(sl, dl)]) (c * t) = mode_offset (new @ [(n', t' * dl)]) c"
proof -
  have new: "pos_modes new" "0 < modes_size new" "n = modes_size new * n'"
    and off: "mode_offset ms (c * t) = mode_offset new c"
    and q: "c * t div modes_size ms = c div modes_size new * t'"
    using assms(1,4,5) modes_size_pos by (auto simp: splits_def)
  have "c * t \<le> (n - 1) * t" using assms(3,5) by (intro mult_right_mono) auto
  then have "c * t div modes_size ms < sl"
    using assms(6) modes_size_pos [OF assms(2)] by (intro int_div_less_mult) auto
  moreover have "0 \<le> c * t div modes_size ms"
    using assms(3,4) modes_size_pos [OF assms(2)] by (simp add: pos_imp_zdiv_nonneg_iff)
  moreover have "0 \<le> c div modes_size new" "c div modes_size new < n'"
    using assms(4,5) new by (simp_all add: pos_imp_zdiv_nonneg_iff int_div_less_mult)
  ultimately show ?thesis
    using off q assms(2) new(1) by (simp add: mode_offset_append mult.assoc)
qed

lemma compose_int_modes:
  assumes "compose_int a n t = Ok r" and "t \<noteq> 0" and "coalesce a = Some ac" and "flat_modes ac = m1 # m2 # ms"
  obtains new n' t' dl where "compose_loop (butlast (m1 # m2 # ms)) [] n t = Ok (new, n', t')"
    and "dl = snd (last (m1 # m2 # ms))"
    and "r = layout_from_flat (new @ [(n', t' * dl)]) \<and> new = [] \<or>
        coalesce (layout_from_flat (new @ [(n', t' * dl)])) = Some r \<and> new \<noteq> [] \<and> n' \<noteq> 1 \<or>
        coalesce (layout_from_flat new) = Some r \<and> new \<noteq> [] \<and> n' = 1"
proof -
  define modes where "modes = m1 # m2 # ms"
  have "compose_int a n t = try_let (compose_loop (butlast modes) [] n t) (\<lambda>(result, rest_shape, rest_stride).
      let last_stride = snd (last modes) in
      if result = []
      then try_let (or_panic (i64_mul rest_stride last_stride)) (\<lambda>d. Ok (layout_from_flat [(rest_shape, d)]))
      else try_let (if rest_shape \<noteq> 1
                    then or_panic (map_option (\<lambda>d. result @ [(rest_shape, d)]) (i64_mul rest_stride last_stride))
                    else Ok result) (\<lambda>result'. or_panic (coalesce (layout_from_flat result'))))"
    unfolding compose_int_def modes_def using assms(2-4) by (cases m1) (simp del: compose_loop.simps butlast.simps)
  from assms(1) [unfolded this] show thesis
    using that unfolding modes_def [symmetric]
    by (auto simp: outcome_simps i64_simps Let_def split: if_splits)
qed

lemma compose_int_correct:
  assumes "compose_int a n t = Ok r" and "pos_modes (flat_modes a)" and "0 < n" and "0 \<le> t"
    and "(n - 1) * t < modes_size (flat_modes a)" and "aligned_from t 1 (flat_modes a)"
  shows "modes_size (flat_modes r) = n \<and>
    (\<forall>c. 0 \<le> c \<and> c < n \<longrightarrow> mode_offset (flat_modes r) c = mode_offset (flat_modes a) (c * t))"
proof (cases "t = 0")
  case True
  then show ?thesis using assms(1) by (auto simp: compose_int_def flat_modes_def)
next
  case False
  then have t: "0 < t" using assms(4) by simp
  obtain ac where ac: "coalesce a = Some ac" using assms(1) False by (auto simp: compose_int_def outcome_simps)
  obtain ms where ms: "ac = layout_from_flat ms" "pos_modes ms" "modes_size ms = modes_size (flat_modes a)"
      "\<And>c. mode_offset ms c = mode_offset (flat_modes a) c" and al: "aligned_from t 1 ms"
    using ac assms(2,6) coalesce_loop_offset [of "[]" "flat_modes a"]
      coalesce_loop_aligned [of "[]" "flat_modes a" _ t 1] by (auto simp: coalesce_def)
  have range: "0 \<le> c * t" "c * t \<le> (n - 1) * t" if "0 \<le> c" "c < n" for c
    using that t by (simp_all add: mult_right_mono)
  show ?thesis
  proof (cases ms rule: layout_from_flat.cases)
    case 1
    then show ?thesis using assms(1) False ac ms
      by (auto simp: compose_int_def flat_modes_def outcome_simps i64_simps simp flip: ms(4))
  next
    case (2 s d)
    have "c * t mod s = c * t" if "0 \<le> c" "c < n" for c
      using range [OF that] assms(5) ms(3) 2 by simp
    moreover have "r = layout_from_flat [(n, t * d)]"
      using assms(1) False ac ms(1) 2
      by (auto simp: compose_int_def flat_modes_def outcome_simps i64_simps)
    ultimately show ?thesis using 2
      by (simp add: flat_modes_from_flat mult.assoc del: layout_from_flat.simps flip: ms(4))
  next
    case (3 m1 m2 ms')
    define sl dl init where "sl = fst (last ms)" and "dl = snd (last ms)" and "init = butlast ms"
    have split: "ms = init @ [(sl, dl)]"
      unfolding sl_def dl_def init_def using 3 by (metis append_butlast_last_id list.distinct(1) prod.collapse)
    have fm: "flat_modes ac = ms" unfolding ms(1) flat_modes_from_flat using 3 by simp
    have init: "pos_modes init" "aligned_from t 1 init" "0 < sl"
      using ms(2) al split by (auto simp: aligned_from_append)
    obtain new n' t' where loop: "compose_loop init [] n t = Ok (new, n', t')"
      and r: "r = layout_from_flat (new @ [(n', t' * dl)]) \<and> new = [] \<or>
        coalesce (layout_from_flat (new @ [(n', t' * dl)])) = Some r \<and> new \<noteq> [] \<and> n' \<noteq> 1 \<or>
        coalesce (layout_from_flat new) = Some r \<and> new \<noteq> [] \<and> n' = 1"
      using compose_int_modes [OF assms(1) False ac fm [unfolded 3]] unfolding init_def dl_def 3 by metis
    have sp: "splits init n t new n' t'" using compose_loop_splits [OF loop init(1) assms(3) t init(2)] by auto
    let ?full = "new @ [(n', t' * dl)]"
    have new: "pos_modes new" "0 < n'" "modes_size new * n' = n" "0 < modes_size new"
      using sp modes_size_pos by (auto simp: splits_def)
    have last_one: "mode_offset ?full c = mode_offset new c" if "n' = 1" for c
      using that new by (simp add: mode_offset_append)
    have "modes_size (flat_modes r) = n \<and>
        (\<forall>c. mode_offset (flat_modes r) c = mode_offset ?full c)"
      using r
    proof (elim disjE conjE)
      assume "coalesce (layout_from_flat ?full) = Some r"
      from coalesce_flat [OF this] show ?thesis using new by simp
    next
      assume "coalesce (layout_from_flat new) = Some r" "n' = 1"
      from coalesce_flat [OF this(1)] show ?thesis using new last_one \<open>n' = 1\<close> by simp
    qed (use new in \<open>simp add: flat_modes_def\<close>)
    moreover have "mode_offset (flat_modes a) (c * t) = mode_offset ?full c" if "0 \<le> c" "c < n" for c
      using splits_append_last [OF sp init(1) t that, of sl dl] assms(5) ms(3,4) split by simp
    ultimately show ?thesis by simp
  qed
qed


section \<open>Properties\<close>

definition tile_4_8 :: Layout where
  "tile_4_8 = \<lparr>shape = Tuple [Leaf 4, Leaf 8], stride = Tuple [Leaf 8, Leaf 1]\<rparr>"

text \<open>(C21) The law of \<open>composition\<close> for one right-hand mode \<open>n:t\<close> whose image lies in the domain
  of \<open>a\<close> and whose stride is aligned with the mode boundaries of \<open>a\<close> (at every boundary the number
  of cells below it divides \<open>t\<close> or is divided by it, as for extents and strides that are powers of
  two): the result has \<open>n\<close> coordinates and maps \<open>c\<close> to \<open>a(b(c)) = a(c * t)\<close>.\<close>

theorem composition_law:
  assumes "composition a \<lparr>shape = Leaf n, stride = Leaf t\<rparr> = Ok r" and "pos_tuple (shape a)"
    and "0 < n" and "0 \<le> t" and "(n - 1) * t < modes_size (layout_flat a)"
    and "aligned_from t 1 (layout_flat a)" and "0 \<le> c" and "c < n"
  shows "modes_size (layout_flat r) = n \<and> mode_offset (layout_flat r) c = mode_offset (layout_flat a) (c * t)"
  using compose_int_correct [of a n t r] assms pos_tuple_modes [OF assms(2)]
  by (simp add: composition_def flat_modes_tuple_modes)

theorem composition_law_witness:
  "mode_offset (layout_flat \<lparr>shape = Tuple [Leaf 2, Leaf 4], stride = Tuple [Leaf 16, Leaf 1]\<rparr>) 5 =
     mode_offset (layout_flat tile_4_8) 10"
proof -
  have h: "composition tile_4_8 \<lparr>shape = Leaf 8, stride = Leaf 2\<rparr> =
      Ok \<lparr>shape = Tuple [Leaf 2, Leaf 4], stride = Tuple [Leaf 16, Leaf 1]\<rparr>" by code_simp
  show ?thesis using composition_law [OF h, of 5] by (simp add: tile_4_8_def)
qed

lemma ceil_div_eq:
  assumes "0 < b" "0 < a" "a + b \<le> i64_max"
  shows "ceil_div a b = Some ((a + b - 1) div b)"
proof -
  have "(a + b - 1) div b \<le> (a + b - 1) div 1" using assms by (intro zdiv_mono2) auto
  moreover have "0 \<le> (a + b - 1) div b" using assms by (simp add: pos_imp_zdiv_nonneg_iff)
  ultimately have "in_i64 (a + b)" "in_i64 (a + b - 1)" "in_i64 ((a + b - 1) div b)" using assms by (simp_all add: in_i64_def)
  then show ?thesis using assms by (simp add: ceil_div_def i64_simps i64_fit_def i64_div_def sdiv_nonneg)
qed

text \<open>(C40) Without that alignment the law fails, for every stride that splits the first mode unevenly: where \<open>1 < t < s\<close> and
  \<open>t\<close> does not divide \<open>s\<close>, \<open>3 \<le> m\<close>, \<open>d\<close> is an \<open>i64\<close> other than \<open>s\<close> (so the two modes do not coalesce) and \<open>s + t\<close> does not
  overflow, composing \<open>a = (s,m):(1,d)\<close> with \<open>b = 2p:t\<close>, \<open>p\<close> the quotient \<open>s / t\<close> rounded up, succeeds. The image of \<open>b\<close>
  lies in the domain of \<open>a\<close>, so the missing alignment is all that is wrong; at \<open>c = p\<close> the result is \<open>d\<close>, but \<open>a(b(p))\<close> is
  larger by the positive distance from \<open>s\<close> to the next multiple of \<open>t\<close>.\<close>

theorem composition_misaligned_wrong:
  assumes "1 < t" and "t < s" and "\<not> t dvd s" and "3 \<le> m" and "d \<noteq> s" and "in_i64 d" and "s + t \<le> i64_max"
  defines "a \<equiv> \<lparr>shape = Tuple [Leaf s, Leaf m], stride = Tuple [Leaf 1, Leaf d]\<rparr>" and "p \<equiv> (s + t - 1) div t"
  shows "\<exists>r. composition a \<lparr>shape = Leaf (2 * p), stride = Leaf t\<rparr> = Ok r \<and> (2 * p - 1) * t < modes_size (layout_flat a) \<and>
    mode_offset (layout_flat r) p = d \<and> mode_offset (layout_flat a) (p * t) = d + (p * t - s) \<and> 0 < p * t - s"
proof -
  have flat: "layout_flat a = [(s, 1), (m, d)]" "flat_modes a = [(s, 1), (m, d)]" by (simp_all add: a_def flat_modes_def)
  have pt: "s < p * t" "p * t < s + t"
  proof -
    have "t * p + (s + t - 1) mod t = s + t - 1" unfolding p_def by simp
    moreover have "0 \<le> (s + t - 1) mod t" "(s + t - 1) mod t < t" using assms(1) by simp_all
    moreover have "t * p \<noteq> s" using assms(3) by auto
    ultimately show "s < p * t" "p * t < s + t" by (simp_all add: mult.commute)
  qed
  have "p * t \<le> 1 * t" if "p \<le> 1" using that assms(1) by (intro mult_right_mono) auto
  then have p2: "2 \<le> p" using pt(1) assms(2) by fastforce
  have ppt: "2 * p \<le> p * t" using assms(1) p2 by (simp add: mult.commute [of p])
  have "2 * p \<le> i64_max" using ppt pt(2) assms(7) by linarith
  then have small: "in_i64 s" "in_i64 t" "in_i64 (p * t)" "in_i64 p" "in_i64 (2 * p)" "in_i64 2"
    using assms(1,2,7) pt p2 by (simp_all add: in_i64_def)
  have ca: "coalesce a = Some (layout_from_flat [(s, 1), (m, d)])"
    using assms(1,2,4,5) small(1) by (simp add: coalesce_def flat i64_simps i64_fit_def)
  have c1: "ceil_div s t = Some p" using ceil_div_eq [of t s] assms(1,2,7) by (simp add: p_def)
  have "(t + s - 1) div s = 1" using assms(1,2) by (simp add: div_eq_dividend_iff int_div_pos_eq)
  then have c2: "ceil_div t s = Some 1" using ceil_div_eq [of s t] assms(1,2,7) by (simp add: add.commute)
  have loop: "compose_loop [(s, 1)] [] (2 * p) t = Ok ([(p, t)], 2, 1)"
    using assms(1,2) small p2 c1 c2
    by (simp add: i64_simps i64_fit_def i64_rem_def i64_div_def smod_nonneg sdiv_nonneg in_i64_def min_def)
  have two: "flat_modes (layout_from_flat [(p, t), (2, d)]) = [(p, t), (2, d)]" by (simp add: flat_modes_def)
  have "\<exists>ms. coalesce_loop [] [(p, t), (2, d)] = Some ms"
    using small p2 by (cases "d = p * t") (simp_all add: i64_simps i64_fit_def mult.commute)
  then obtain r where r: "coalesce (layout_from_flat [(p, t), (2, d)]) = Some r" unfolding coalesce_def two by auto
  have one: "flat_modes (layout_from_flat [(s, 1), (m, d)]) = [(s, 1), (m, d)]" by (simp add: flat_modes_def)
  have "composition a \<lparr>shape = Leaf (2 * p), stride = Leaf t\<rparr> = Ok r"
    using assms(1,6) ca loop r one
    by (simp add: composition_def compose_int_def i64_simps i64_fit_def del: compose_loop.simps layout_from_flat.simps)
  moreover have "mode_offset (layout_flat r) p = d"
    using coalesce_flat(2) [OF r, of p] p2 unfolding two by (simp add: flat_modes_tuple_modes)
  moreover have "mode_offset (layout_flat a) (p * t) = d + (p * t - s)"
  proof -
    have "p * t div s = 1" "p * t mod s = p * t - s"
      using pt assms(1,2) int_div_pos_eq [of "p * t" s 1 "p * t - s"] int_mod_pos_eq [of "p * t" s 1 "p * t - s"] by auto
    then show ?thesis using assms(4) unfolding flat by simp
  qed
  moreover have "(2 * p - 1) * t < modes_size (layout_flat a)"
  proof -
    have "(2 * p - 1) * t = p * t + p * t - t" by (simp add: algebra_simps)
    moreover have "s * 3 \<le> s * m" using assms(1,2,4) by (intro mult_left_mono) auto
    ultimately show ?thesis using pt(2) assms(2) unfolding flat by simp
  qed
  ultimately show ?thesis using pt(1) by auto
qed

theorem composition_misaligned_wrong_witness:
  "\<exists>r. composition \<lparr>shape = Tuple [Leaf 6, Leaf 4], stride = Tuple [Leaf 1, Leaf 10]\<rparr> \<lparr>shape = Leaf 4, stride = Leaf 4\<rparr> = Ok r \<and>
     mode_offset (layout_flat r) 2 = 10 \<and>
     mode_offset (layout_flat \<lparr>shape = Tuple [Leaf 6, Leaf 4], stride = Tuple [Leaf 1, Leaf 10]\<rparr>) 8 = 12"
  using composition_misaligned_wrong [of 4 6 4 10] by (auto simp: in_i64_def)

text \<open>With several right-hand modes the documented \<open>result(c) = a(b(c))\<close> fails when the modes of
  \<open>b\<close> carry into each other inside \<open>a\<close>: composing \<open>(2,2):(1,10)\<close> with \<open>(2,2):(1,1)\<close> succeeds, and at
  coordinate (1,1) the result is 2 where \<open>a(b(1,1)) = a(2) = 10\<close>.\<close>

theorem composition_modes_do_not_carry:
  "\<exists>r. composition \<lparr>shape = Tuple [Leaf 2, Leaf 2], stride = Tuple [Leaf 1, Leaf 10]\<rparr>
         \<lparr>shape = Tuple [Leaf 2, Leaf 2], stride = Tuple [Leaf 1, Leaf 1]\<rparr> = Ok r \<and>
     call r (Tuple [Leaf 1, Leaf 1]) = Some 2 \<and>
     call \<lparr>shape = Tuple [Leaf 2, Leaf 2], stride = Tuple [Leaf 1, Leaf 1]\<rparr> (Tuple [Leaf 1, Leaf 1]) = Some 2 \<and>
     call \<lparr>shape = Tuple [Leaf 2, Leaf 2], stride = Tuple [Leaf 1, Leaf 10]\<rparr> (Leaf 2) = Some 10"
proof -
  let ?r = "\<lparr>shape = Tuple [Leaf 2, Leaf 2], stride = Tuple [Leaf 1, Leaf 1]\<rparr>"
  have "composition \<lparr>shape = Tuple [Leaf 2, Leaf 2], stride = Tuple [Leaf 1, Leaf 10]\<rparr> ?r = Ok ?r" by code_simp
  moreover have "call ?r (Tuple [Leaf 1, Leaf 1]) = Some 2" by code_simp
  moreover have "call \<lparr>shape = Tuple [Leaf 2, Leaf 2], stride = Tuple [Leaf 1, Leaf 10]\<rparr> (Leaf 2) = Some 10"
    by code_simp
  ultimately show ?thesis by blast
qed

end
