(* ===== verification/Cute_Swizzle.thy ===== *)
theory Cute_Swizzle
  imports Oxide_Prelude
begin

unbundle bit_operations_syntax

text \<open>
  The bit swizzle \<open>S<B,M,S>\<close> of \<open>cute-layout/src/swizzle.rs\<close>. The \<open>u32\<close> parameters are
  naturals, the \<open>i32\<close> shift and the \<open>i64\<close> offsets are integers with the bitwise operations of
  two's complement. A method whose \<open>debug_assert!\<close> on validity fails returns \<open>None\<close>; on a valid
  swizzle no shift amount reaches 64 and no intermediate value leaves \<open>i64\<close>.
\<close>

section \<open>The type and its operations\<close>

record Swizzle =
  num_bits :: nat
  num_base :: nat
  num_shift :: int

definition u32_checked_add :: "nat \<Rightarrow> nat \<Rightarrow> nat option" where
  "u32_checked_add a b = (if a + b < 2 ^ 32 then Some (a + b) else None)"

lemma u32_checked_add_code [code]:
  "u32_checked_add a b = (if int a + int b < 4294967296 then Some (a + b) else None)"
  by (simp add: u32_checked_add_def)

definition BIT_WIDTH :: nat where
  "BIT_WIDTH = 32"

definition parameters_are_valid :: "nat \<Rightarrow> nat \<Rightarrow> int \<Rightarrow> bool" where
  "parameters_are_valid bits base shift =
     (let distance = nat \<bar>shift\<bar> in
      if distance < bits then False
      else case u32_checked_add base bits of
        None \<Rightarrow> False
      | Some base_and_bits \<Rightarrow>
          (case u32_checked_add base_and_bits distance of
             None \<Rightarrow> False
           | Some used_bits \<Rightarrow> used_bits \<le> BIT_WIDTH))"

definition try_new :: "nat \<Rightarrow> nat \<Rightarrow> int \<Rightarrow> Swizzle option" where
  "try_new bits base shift =
     (if parameters_are_valid bits base shift
      then Some \<lparr>num_bits = bits, num_base = base, num_shift = shift\<rparr> else None)"

text \<open>\<open>Swizzle::new\<close> asserts validity; \<open>None\<close> is the panic.\<close>

definition swizzle_new :: "nat \<Rightarrow> nat \<Rightarrow> int \<Rightarrow> Swizzle option" where
  "swizzle_new bits base shift =
     (if parameters_are_valid bits base shift
      then Some \<lparr>num_bits = bits, num_base = base, num_shift = shift\<rparr> else None)"

definition is_valid :: "Swizzle \<Rightarrow> bool" where
  "is_valid self = parameters_are_valid (num_bits self) (num_base self) (num_shift self)"

definition IDENTITY :: Swizzle where
  "IDENTITY = \<lparr>num_bits = 0, num_base = 4, num_shift = 3\<rparr>"

definition y_mask :: "Swizzle \<Rightarrow> int option" where
  "y_mask self =
     (if is_valid self
      then let mask = push_bit (num_bits self) 1 - 1;
               shift = (if num_shift self > 0 then num_shift self else 0) in
           Some (push_bit (nat (int (num_base self) + shift)) mask)
      else None)"

definition z_mask :: "Swizzle \<Rightarrow> int option" where
  "z_mask self =
     (if is_valid self
      then let mask = push_bit (num_bits self) 1 - 1;
               neg_shift = - num_shift self;
               shift = (if neg_shift > 0 then neg_shift else 0) in
           Some (push_bit (nat (int (num_base self) + shift)) mask)
      else None)"

definition apply_swizzle :: "Swizzle \<Rightarrow> int \<Rightarrow> int option" where
  "apply_swizzle self x =
     (if \<not> is_valid self then None
      else if num_bits self = 0 then Some x
      else do { y \<leftarrow> y_mask self;
                let masked = x AND y;
                    moved = (if num_shift self \<ge> 0 then drop_bit (nat (num_shift self)) masked
                             else push_bit (nat (- num_shift self)) masked) in
                Some (x XOR moved) })"

definition is_involution :: "Swizzle \<Rightarrow> bool option" where
  "is_involution self =
     do { y \<leftarrow> y_mask self;
          let z = (if num_shift self \<ge> 0 then drop_bit (nat (num_shift self)) y
                   else push_bit (nat (- num_shift self)) y) in
          Some (y AND z = 0) }"

definition swizzle_max_alignment :: "Swizzle \<Rightarrow> int option" where
  "swizzle_max_alignment self = (if is_valid self then Some (push_bit (num_base self) 1) else None)"

definition cuda_device_absolute_source_bit :: "Swizzle \<Rightarrow> nat option" where
  "cuda_device_absolute_source_bit self =
     (if \<not> is_valid self \<or> num_shift self < 0 then None
      else u32_checked_add (num_base self) (nat (num_shift self)))"

section \<open>The fields of a valid swizzle\<close>

text \<open>First bit of the source field and of the target field.\<close>

definition source_bit :: "Swizzle \<Rightarrow> nat" where
  "source_bit sw = num_base sw + nat (num_shift sw)"

definition target_bit :: "Swizzle \<Rightarrow> nat" where
  "target_bit sw = num_base sw + nat (- num_shift sw)"

lemma parameters_are_valid_iff:
  "parameters_are_valid bits base shift \<longleftrightarrow> bits \<le> nat \<bar>shift\<bar> \<and> base + bits + nat \<bar>shift\<bar> \<le> 32"
  by (auto simp: parameters_are_valid_def u32_checked_add_def BIT_WIDTH_def Let_def)

lemma is_valid_iff:
  "is_valid sw \<longleftrightarrow>
     num_bits sw \<le> nat \<bar>num_shift sw\<bar> \<and> num_base sw + num_bits sw + nat \<bar>num_shift sw\<bar> \<le> 32"
  by (simp add: is_valid_def parameters_are_valid_iff)

lemma low_ones: "bit (2 ^ n - 1 :: int) i \<longleftrightarrow> i < n"
  by (simp add: bit_mask_iff flip: mask_eq_exp_minus_1)

lemma y_mask_bit:
  assumes "y_mask sw = Some y"
  shows "bit y i \<longleftrightarrow> source_bit sw \<le> i \<and> i < source_bit sw + num_bits sw"
proof -
  have "y = push_bit (source_bit sw) (push_bit (num_bits sw) 1 - 1)"
    using assms by (auto simp: y_mask_def Let_def source_bit_def nat_add_distrib split: if_splits)
  then show ?thesis by (auto simp: bit_push_bit_iff low_ones)
qed

lemma z_mask_bit:
  assumes "z_mask sw = Some z"
  shows "bit z i \<longleftrightarrow> target_bit sw \<le> i \<and> i < target_bit sw + num_bits sw"
proof -
  have "z = push_bit (target_bit sw) (push_bit (num_bits sw) 1 - 1)"
    using assms by (auto simp: z_mask_def Let_def target_bit_def nat_add_distrib split: if_splits)
  then show ?thesis by (auto simp: bit_push_bit_iff low_ones)
qed

text \<open>The bits of the output: the target field is xored with the source field, all else is kept.\<close>

lemma apply_swizzle_bit:
  assumes "apply_swizzle sw x = Some v"
  shows "bit v i \<longleftrightarrow>
    bit x i \<noteq> (target_bit sw \<le> i \<and> i < target_bit sw + num_bits sw \<and> bit x (source_bit sw + (i - target_bit sw)))"
proof (cases "num_bits sw = 0")
  case True
  then show ?thesis using assms by (auto simp: apply_swizzle_def split: if_splits)
next
  case False
  then obtain y where y: "y_mask sw = Some y"
    and v: "v = x XOR (if num_shift sw \<ge> 0 then drop_bit (nat (num_shift sw)) (x AND y)
                else push_bit (nat (- num_shift sw)) (x AND y))"
    using assms by (auto simp: apply_swizzle_def Let_def bind_eq_Some_conv split: if_splits)
  show ?thesis
  proof (cases "num_shift sw \<ge> 0")
    case True
    then have "target_bit sw = num_base sw" "source_bit sw = num_base sw + nat (num_shift sw)"
      by (simp_all add: target_bit_def source_bit_def)
    then show ?thesis using v True y_mask_bit [OF y]
      by (auto simp: bit_xor_iff bit_and_iff bit_drop_bit_eq add_ac)
  next
    case False
    then have "target_bit sw = num_base sw + nat (- num_shift sw)" "source_bit sw = num_base sw"
      by (simp_all add: target_bit_def source_bit_def)
    note fields = this
    define n where "n = nat (- num_shift sw)"
    have v_bit: "bit v i \<longleftrightarrow> bit x i \<noteq> (n \<le> i \<and> bit x (i - n) \<and> bit y (i - n))"
      using v False by (simp add: bit_xor_iff bit_and_iff bit_push_bit_iff n_def) blast
    show ?thesis
    proof (cases "target_bit sw \<le> i")
      case True
      then obtain j where "i = num_base sw + n + j" using fields le_Suc_ex n_def by metis
      then show ?thesis unfolding v_bit y_mask_bit [OF y] fields n_def [symmetric] by simp blast
    next
      case below: False
      then have "\<not> (n \<le> i \<and> bit y (i - n))"
        unfolding y_mask_bit [OF y] fields n_def [symmetric] by auto
      then show ?thesis unfolding v_bit using below by blast
    qed
  qed
qed

lemma apply_swizzle_total: "is_valid sw \<Longrightarrow> \<exists>v. apply_swizzle sw x = Some v"
  by (auto simp: apply_swizzle_def y_mask_def Let_def)


lemma fields_disjoint:
  assumes "is_valid sw" and "k < num_bits sw"
  shows "\<not> (target_bit sw \<le> source_bit sw + k \<and> source_bit sw + k < target_bit sw + num_bits sw)"
  using assms by (auto simp: is_valid_iff source_bit_def target_bit_def)

lemma fields_window:
  assumes "is_valid sw"
  shows "num_base sw \<le> target_bit sw" and "target_bit sw + num_bits sw \<le> 32" and "source_bit sw + num_bits sw \<le> 32"
    and "num_base sw \<le> source_bit sw"
  using assms by (auto simp: is_valid_iff source_bit_def target_bit_def)

lemma apply_swizzle_twice:
  assumes "apply_swizzle sw x = Some v" and "apply_swizzle sw v = Some w"
  shows "w = x"
proof (rule bit_eqI)
  fix i
  have valid: "is_valid sw" using assms(1) by (simp add: apply_swizzle_def split: if_splits)
  show "bit w i \<longleftrightarrow> bit x i"
  proof (cases "target_bit sw \<le> i \<and> i < target_bit sw + num_bits sw")
    case True
    then have "i - target_bit sw < num_bits sw" by auto
    then have "bit v (source_bit sw + (i - target_bit sw)) \<longleftrightarrow> bit x (source_bit sw + (i - target_bit sw))"
      using fields_disjoint [OF valid] by (simp only: apply_swizzle_bit [OF assms(1)]) blast
    then show ?thesis using True by (simp only: apply_swizzle_bit [OF assms(2)] apply_swizzle_bit [OF assms(1)]) blast
  next
    case False
    then show ?thesis by (simp only: apply_swizzle_bit [OF assms(2)] apply_swizzle_bit [OF assms(1)]) blast
  qed
qed

lemma apply_swizzle_high:
  assumes "apply_swizzle sw x = Some v" and "target_bit sw + num_bits sw \<le> n"
  shows "drop_bit n v = drop_bit n x"
  by (rule bit_eqI) (use assms(2) in \<open>simp add: bit_drop_bit_eq apply_swizzle_bit [OF assms(1)]\<close>)

lemma apply_swizzle_low:
  assumes "apply_swizzle sw x = Some v"
  shows "take_bit (num_base sw) v = take_bit (num_base sw) x"
proof (rule bit_eqI)
  have "is_valid sw" using assms by (simp add: apply_swizzle_def split: if_splits)
  then have "num_base sw \<le> target_bit sw" by (rule fields_window)
  then show "bit (take_bit (num_base sw) v) i \<longleftrightarrow> bit (take_bit (num_base sw) x) i" for i
    by (auto simp: bit_take_bit_iff apply_swizzle_bit [OF assms])
qed

text \<open>Shifting the offset and the base together shifts the result.\<close>

lemma apply_swizzle_scale:
  assumes "apply_swizzle sw x = Some v" and "is_valid (sw\<lparr>num_base := num_base sw + k\<rparr>)"
  shows "apply_swizzle (sw\<lparr>num_base := num_base sw + k\<rparr>) (push_bit k x) = Some (push_bit k v)"
proof -
  let ?sw = "sw\<lparr>num_base := num_base sw + k\<rparr>"
  obtain w where w: "apply_swizzle ?sw (push_bit k x) = Some w" using apply_swizzle_total [OF assms(2)] by blast
  have f: "target_bit ?sw = target_bit sw + k" "source_bit ?sw = source_bit sw + k" "num_bits ?sw = num_bits sw"
    by (simp_all add: target_bit_def source_bit_def)
  have "w = push_bit k v"
  proof (rule bit_eqI)
    fix i
    show "bit w i \<longleftrightarrow> bit (push_bit k v) i"
    proof (cases "k \<le> i")
      case True
      then obtain j where i: "i = k + j" using le_Suc_ex by blast
      have "target_bit sw \<le> j \<Longrightarrow> source_bit sw + k + (k + j - (target_bit sw + k)) - k = source_bit sw + (j - target_bit sw)"
        by simp
      then show ?thesis unfolding i apply_swizzle_bit [OF w] f
        by (auto simp: bit_push_bit_iff apply_swizzle_bit [OF assms(1)])
    next
      case False
      then show ?thesis unfolding apply_swizzle_bit [OF w] f by (simp add: bit_push_bit_iff)
    qed
  qed
  then show ?thesis using w by simp
qed

lemma push_take_disjoint: "push_bit n q AND take_bit n j = (0 :: int)"
  by (rule bit_eqI) (simp add: bit_and_iff bit_push_bit_iff bit_take_bit_iff)

section \<open>Properties\<close>

definition s343 :: Swizzle where
  "s343 = \<lparr>num_bits = 3, num_base = 4, num_shift = 3\<rparr>"

text \<open>(C34) A valid swizzle is a permutation of offsets that undoes itself: applying it twice gives
  the offset back, \<open>is_involution\<close> reports so, and the result stays in the aligned block of \<open>2 ^ 32\<close>
  offsets the input lies in.\<close>

theorem swizzle_involution:
  assumes "is_valid sw"
  shows "\<exists>v. apply_swizzle sw x = Some v \<and> apply_swizzle sw v = Some x \<and> is_involution sw = Some True \<and>
    v div 2 ^ 32 = x div 2 ^ 32"
proof -
  obtain v where v: "apply_swizzle sw x = Some v" using apply_swizzle_total [OF assms] by blast
  obtain w where w: "apply_swizzle sw v = Some w" using apply_swizzle_total [OF assms] by blast
  obtain y where y: "y_mask sw = Some y" using assms by (auto simp: y_mask_def Let_def)
  define z where "z = (if num_shift sw \<ge> 0 then drop_bit (nat (num_shift sw)) y else push_bit (nat (- num_shift sw)) y)"
  have "y AND z = 0"
  proof (rule bit_eqI)
    fix i
    show "bit (y AND z) i \<longleftrightarrow> bit 0 i"
      using assms by (auto simp: bit_and_iff z_def bit_drop_bit_eq bit_push_bit_iff y_mask_bit [OF y] is_valid_iff
          source_bit_def)
  qed
  then have inv: "is_involution sw = Some True" using y by (simp add: is_involution_def z_def Let_def)
  have "drop_bit 32 v = drop_bit 32 x" by (rule apply_swizzle_high [OF v fields_window(2) [OF assms]])
  then show ?thesis using v w apply_swizzle_twice [OF v w] inv by (simp add: drop_bit_eq_div)
qed

theorem swizzle_involution_witness:
  "apply_swizzle s343 1184 = Some 1200 \<and> apply_swizzle s343 1200 = Some 1184"
proof -
  have valid: "is_valid s343" by (simp add: is_valid_iff s343_def)
  have v: "apply_swizzle s343 1184 = Some 1200"
    using valid by (simp add: apply_swizzle_def y_mask_def s343_def drop_bit_eq_div push_bit_eq_mult)
  show ?thesis using swizzle_involution [OF valid, of 1184] v by simp
qed

text \<open>Chunks of \<open>2 ^ M\<close> offsets stay whole: a valid swizzle maps an offset inside an aligned chunk
  to the same place of the image of the chunk's first offset, which is again aligned. This is what
  \<open>max_alignment\<close> promises to a vector access.\<close>

theorem swizzle_keeps_chunks:
  assumes "is_valid sw" and "swizzle_max_alignment sw = Some a" and "a dvd x" and "0 \<le> j" and "j < a"
  shows "\<exists>v. apply_swizzle sw x = Some v \<and> a dvd v \<and> apply_swizzle sw (x + j) = Some (v + j)"
proof -
  let ?M = "num_base sw"
  have a: "a = 2 ^ ?M" using assms(1,2) by (simp add: swizzle_max_alignment_def push_bit_eq_mult)
  obtain v where v: "apply_swizzle sw x = Some v" using apply_swizzle_total [OF assms(1)] by blast
  obtain w where w: "apply_swizzle sw (x + j) = Some w" using apply_swizzle_total [OF assms(1)] by blast
  obtain q where x: "x = push_bit ?M q" using assms(3) a by (metis dvdE mult.commute push_bit_eq_mult)
  have j: "take_bit ?M j = j" using assms(4,5) a by (simp add: take_bit_int_eq_self_iff)
  have "x AND j = 0" using push_take_disjoint [of ?M q j] x j by simp
  then have xj: "x + j = x OR j" by (simp add: disjunctive_add_eq_or)
  have "take_bit ?M v = 0" using apply_swizzle_low [OF v] x by (simp add: take_bit_push_bit)
  then have va: "2 ^ ?M dvd v" by (simp add: take_bit_eq_0_iff)
  then obtain u where u: "v = push_bit ?M u" by (metis dvdE mult.commute push_bit_eq_mult)
  have "v AND j = 0" using push_take_disjoint [of ?M u j] u j by simp
  then have vj: "v + j = v OR j" by (simp add: disjunctive_add_eq_or)
  have "w = v OR j"
  proof (rule bit_eqI)
    fix i
    have base: "?M \<le> target_bit sw" "?M \<le> source_bit sw" using fields_window [OF assms(1)] by auto
    have jb: "\<not> bit j n" if "?M \<le> n" for n using j that by (metis bit_take_bit_iff linorder_not_less)
    show "bit w i \<longleftrightarrow> bit (v OR j) i"
    proof (cases "?M \<le> i")
      case True
      then show ?thesis
        using jb [OF True] jb [of "source_bit sw + (i - target_bit sw)"] base
        by (simp add: apply_swizzle_bit [OF w] xj bit_or_iff apply_swizzle_bit [OF v])
    next
      case False
      then show ?thesis using base
        by (simp add: apply_swizzle_bit [OF w] xj bit_or_iff apply_swizzle_bit [OF v])
    qed
  qed
  then show ?thesis using v w va vj a by auto
qed

theorem swizzle_keeps_chunks_witness:
  "\<exists>v. apply_swizzle s343 1184 = Some v \<and> 16 dvd v \<and> apply_swizzle s343 (1184 + 5) = Some (v + 5)"
  by (rule swizzle_keeps_chunks) (simp_all add: is_valid_iff s343_def swizzle_max_alignment_def)

end
