(* ===== verification/Cute_Device.thy ===== *)
theory Cute_Device
  imports Cute_Swizzle Cute_Layout_Facts
begin

text \<open>
  The allocation-free maps device code calls: coordinate helpers and the SM100 shared-memory maps
  of \<open>layout.rs\<close>, and the static markers of \<open>static_layout.rs\<close> and \<open>markers.rs\<close>. \<open>u32\<close> and
  \<open>usize\<close> values are naturals; an operation that would leave the type, or a compile-time
  assertion that fails, gives \<open>None\<close>.
\<close>

section \<open>Machine naturals\<close>

definition u32_fit :: "nat \<Rightarrow> nat option" where
  "u32_fit n = (if n < 2 ^ 32 then Some n else None)"

definition usize_fit :: "nat \<Rightarrow> nat option" where
  "usize_fit n = (if n < 2 ^ 64 then Some n else None)"

lemma fit_Some_iff [simp]:
  "u32_fit n = Some m \<longleftrightarrow> n < 2 ^ 32 \<and> m = n" "usize_fit n = Some m \<longleftrightarrow> n < 2 ^ 64 \<and> m = n"
  by (auto simp: u32_fit_def usize_fit_def)

section \<open>Coordinate helpers\<close>

definition idx2crd_col_major_2d :: "nat \<Rightarrow> nat \<Rightarrow> nat \<times> nat" where
  "idx2crd_col_major_2d idx rows = (if rows = 0 then (0, 0) else (idx mod rows, idx div rows))"

definition idx2crd_row_major_2d :: "nat \<Rightarrow> nat \<Rightarrow> nat \<times> nat" where
  "idx2crd_row_major_2d idx cols = (if cols = 0 then (0, 0) else (idx div cols, idx mod cols))"

definition idx2crd_grouped_2d :: "nat \<Rightarrow> nat \<Rightarrow> nat \<Rightarrow> nat \<Rightarrow> (nat \<times> nat) option" where
  "idx2crd_grouped_2d GROUP_M tile m_tiles n_tiles =
     (if GROUP_M = 0 then None
      else
      let group_m = (if m_tiles \<ge> GROUP_M then GROUP_M else m_tiles) in
      do { group_tiles \<leftarrow> u32_fit (group_m * n_tiles);
           let (in_group, group_id) = idx2crd_col_major_2d tile group_tiles in
           do { first_m \<leftarrow> u32_fit (group_id * group_m);
                rem_m \<leftarrow> (if first_m \<le> m_tiles then Some (m_tiles - first_m) else None);
                let actual_m = (if rem_m \<ge> group_m then group_m else rem_m);
                    (m_in_group, n_tile) = idx2crd_col_major_2d in_group actual_m in
                do { m_tile \<leftarrow> u32_fit (first_m + m_in_group); Some (m_tile, n_tile) } } })"

definition crd2idx_col_major_2d :: "nat \<Rightarrow> nat \<Rightarrow> nat \<Rightarrow> nat option" where
  "crd2idx_col_major_2d row col rows = do { a \<leftarrow> u32_fit (col * rows); u32_fit (row + a) }"

definition crd2idx_col_major_3d :: "nat \<Rightarrow> nat \<Rightarrow> nat \<Rightarrow> nat \<Rightarrow> nat \<Rightarrow> nat option" where
  "crd2idx_col_major_3d i0 i1 i2 d0 d1 =
     do { a \<leftarrow> u32_fit (i2 * d1); b \<leftarrow> u32_fit (i1 + a); c \<leftarrow> u32_fit (b * d0); u32_fit (i0 + c) }"

definition crd2idx_row_major_2d :: "nat \<Rightarrow> nat \<Rightarrow> nat \<Rightarrow> nat option" where
  "crd2idx_row_major_2d row col cols = do { a \<leftarrow> usize_fit (row * cols); usize_fit (a + col) }"

definition crd2idx_row_major_3d :: "nat \<Rightarrow> nat \<Rightarrow> nat \<Rightarrow> nat \<Rightarrow> nat \<Rightarrow> nat option" where
  "crd2idx_row_major_3d i0 i1 i2 d1 d2 =
     do { a \<leftarrow> usize_fit (i0 * d1); b \<leftarrow> usize_fit (a + i1); c \<leftarrow> usize_fit (b * d2); usize_fit (c + i2) }"

section \<open>SM100 shared memory\<close>

text \<open>The unswizzled element offset, in \<open>u32\<close> arithmetic, and the XOR that follows it.\<close>

definition sm100_plain :: "nat \<Rightarrow> nat \<Rightarrow> nat \<Rightarrow> nat \<Rightarrow> nat option" where
  "sm100_plain span outer_extent inn out =
     (let (inner_in_span, span_idx) = (if span = 32 then (inn AND 31, drop_bit 5 inn) else (inn AND 63, drop_bit 6 inn)) in
      do { so \<leftarrow> u32_fit (span * outer_extent);
           a \<leftarrow> u32_fit (span_idx * so);
           b \<leftarrow> u32_fit (out * span);
           c \<leftarrow> u32_fit (a + b);
           u32_fit (c + inner_in_span) })"

definition sm100_xor :: "nat \<Rightarrow> nat \<Rightarrow> nat" where
  "sm100_xor y plain = plain XOR drop_bit 3 (plain AND y)"

definition sm100_smem_crd2idx_with_extents :: "nat \<Rightarrow> nat \<Rightarrow> nat \<Rightarrow> nat \<Rightarrow> bool \<Rightarrow> nat option" where
  "sm100_smem_crd2idx_with_extents row col rows cols mn_major =
     (let contig = (if mn_major then rows else cols);
          outer_extent = (if mn_major then cols else rows);
          span = (if contig = 32 then 32 else 64);
          y = (if span = 32 then push_bit 6 3 else push_bit 6 7);
          (inn, out) = (if mn_major then (row, col) else (col, row)) in
      map_option (sm100_xor y) (sm100_plain span outer_extent inn out))"

definition sm100_smem_crd2idx :: "nat \<Rightarrow> nat \<Rightarrow> bool \<Rightarrow> nat \<Rightarrow> nat \<Rightarrow> nat option" where
  "sm100_smem_crd2idx ROWS COLS MN_MAJOR row col =
     (let contig = (if MN_MAJOR then ROWS else COLS);
          outer_extent = (if MN_MAJOR then COLS else ROWS) in
      if \<not> (contig \<ge> 32 \<and> contig mod 32 = 0) \<or> \<not> (outer_extent > 0 \<and> outer_extent mod 8 = 0) \<or>
         \<not> (contig = 32 \<or> contig mod 64 = 0)
      then None
      else
      let span = (if contig = 32 then 32 else 64);
          swizzle_bits = (if span = 32 then 2 else 3) in
      do { sw \<leftarrow> swizzle_new swizzle_bits 3 3;
           y \<leftarrow> y_mask sw;
           let (inn, out) = (if MN_MAJOR then (row, col) else (col, row)) in
           map_option (sm100_xor (nat y)) (sm100_plain span outer_extent inn out) })"

definition shared_layout_valid :: "nat \<Rightarrow> nat \<Rightarrow> bool \<Rightarrow> bool" where
  "shared_layout_valid R C MN =
     (let contig = (if MN then R else C); out_extent = (if MN then C else R) in
      contig \<ge> 32 \<and> contig mod 32 = 0 \<and> out_extent > 0 \<and> out_extent mod 8 = 0 \<and>
      (contig = 32 \<or> contig mod 64 = 0))"

definition shared_layout_bytes :: "nat \<Rightarrow> nat \<Rightarrow> bool \<Rightarrow> nat option" where
  "shared_layout_bytes R C MN =
     (if shared_layout_valid R C MN then do { a \<leftarrow> usize_fit (R * C); usize_fit (a * 2) } else None)"

definition shared_layout_crd2idx :: "nat \<Rightarrow> nat \<Rightarrow> bool \<Rightarrow> nat \<Rightarrow> nat \<Rightarrow> nat option" where
  "shared_layout_crd2idx R C MN row col =
     (if shared_layout_valid R C MN then sm100_smem_crd2idx R C MN row col else None)"

definition shared_layout_span :: "nat \<Rightarrow> nat \<Rightarrow> bool \<Rightarrow> nat" where
  "shared_layout_span R C MN = (if (if MN then R else C) = 32 then 32 else 64)"

text \<open>The same map on the composed markers \<open>ComposedLayout<Swizzle<B,3,3>,0,RowMajor<R,C>>\<close> (K-major)
  and \<open>\<dots>ColMajor<R,C>>\<close> (MN-major); the extents are \<open>i64\<close> constants there.\<close>

definition smem_kmajor_valid :: "nat \<Rightarrow> int \<Rightarrow> int \<Rightarrow> bool" where
  "smem_kmajor_valid B R C =
     (R > 0 \<and> R \<le> 2 ^ 32 - 1 \<and> C > 0 \<and> C \<le> 2 ^ 32 - 1 \<and>
      (let r = nat R; c = nat C in
       c \<ge> 32 \<and> c mod 32 = 0 \<and> r mod 8 = 0 \<and> (c = 32 \<or> c mod 64 = 0) \<and> B = (if c = 32 then 2 else 3)))"

definition smem_kmajor_crd2idx :: "nat \<Rightarrow> int \<Rightarrow> int \<Rightarrow> nat \<Rightarrow> nat \<Rightarrow> nat option" where
  "smem_kmajor_crd2idx B R C row col =
     (if \<not> smem_kmajor_valid B R C then None
      else
      let span = (if nat C = 32 then 32 else 64) in
      do { sw \<leftarrow> swizzle_new B 3 3;
           y \<leftarrow> y_mask sw;
           map_option (sm100_xor (nat y)) (sm100_plain span (nat R) col row) })"

definition smem_mnmajor_valid :: "nat \<Rightarrow> int \<Rightarrow> int \<Rightarrow> bool" where
  "smem_mnmajor_valid B R C =
     (R > 0 \<and> R \<le> 2 ^ 32 - 1 \<and> C > 0 \<and> C \<le> 2 ^ 32 - 1 \<and>
      (let r = nat R; c = nat C in
       r \<ge> 32 \<and> r mod 32 = 0 \<and> c mod 8 = 0 \<and> (r = 32 \<or> r mod 64 = 0) \<and> B = (if r = 32 then 2 else 3)))"

definition smem_mnmajor_crd2idx :: "nat \<Rightarrow> int \<Rightarrow> int \<Rightarrow> nat \<Rightarrow> nat \<Rightarrow> nat option" where
  "smem_mnmajor_crd2idx B R C row col =
     (if \<not> smem_mnmajor_valid B R C then None
      else
      let span = (if nat R = 32 then 32 else 64) in
      do { sw \<leftarrow> swizzle_new B 3 3;
           y \<leftarrow> y_mask sw;
           map_option (sm100_xor (nat y)) (sm100_plain span (nat C) row col) })"

section \<open>Blackwell scale layouts\<close>

definition sm1xx_scale_atom_word_offset :: "nat \<Rightarrow> nat option" where
  "sm1xx_scale_atom_word_offset row =
     (let (r_in_32, quarter) = idx2crd_col_major_2d (row mod 128) 32 in crd2idx_row_major_2d r_in_32 quarter 4)"

definition sm1xx_block_scale_crd2idx :: "nat \<Rightarrow> nat \<Rightarrow> nat \<Rightarrow> nat \<Rightarrow> nat \<Rightarrow> nat option" where
  "sm1xx_block_scale_crd2idx batch row grp rest_m rest_k =
     (let (row_in_atom, m_block) = idx2crd_col_major_2d (row mod 2 ^ 32) 128;
          (group_in_atom, k_block) = idx2crd_col_major_2d (grp mod 2 ^ 32) 4 in
      do { atom_idx \<leftarrow> crd2idx_row_major_3d batch m_block k_block rest_m rest_k;
           word_in_atom \<leftarrow> sm1xx_scale_atom_word_offset row_in_atom;
           byte_in_atom \<leftarrow> crd2idx_row_major_2d word_in_atom group_in_atom 4;
           crd2idx_row_major_2d atom_idx byte_in_atom 512 })"

definition sm100_noswizzle_burst_u64_crd2idx :: "nat \<Rightarrow> nat \<Rightarrow> nat \<Rightarrow> nat \<Rightarrow> nat \<Rightarrow> nat option" where
  "sm100_noswizzle_burst_u64_crd2idx ROWS group_batch row_in_tile scale_group k_bursts =
     (let (grp_in_burst, burst) = idx2crd_col_major_2d (scale_group mod 2 ^ 32) 32;
          (u64_in_16b, half_and_step) = idx2crd_col_major_2d grp_in_burst 2;
          (half_k64, step_k64) = idx2crd_col_major_2d half_and_step 2 in
      do { burst_idx \<leftarrow> crd2idx_row_major_2d group_batch burst k_bursts;
           r4 \<leftarrow> usize_fit (ROWS * 4);
           a \<leftarrow> usize_fit (step_k64 * r4);
           r2 \<leftarrow> usize_fit (ROWS * 2);
           b \<leftarrow> usize_fit (half_k64 * r2);
           ab \<leftarrow> usize_fit (a + b);
           c \<leftarrow> usize_fit (row_in_tile * 2);
           abc \<leftarrow> usize_fit (ab + c);
           sub_u64 \<leftarrow> usize_fit (abc + u64_in_16b);
           r32 \<leftarrow> usize_fit (ROWS * 32);
           crd2idx_row_major_2d burst_idx sub_u64 r32 })"

section \<open>Static markers\<close>

text \<open>\<open>Layout<C<N>, C<S>>\<close> and pairs of such layouts, the two compact orders, and one composed
  swizzle on top.\<close>

datatype AffineMarker = C_mode int int | Pair_mode AffineMarker AffineMarker

datatype StaticMarker =
  Affine AffineMarker
| RowMajor int int
| ColMajor int int
| Composed nat nat int int StaticMarker

definition parameter :: "int \<Rightarrow> nat option" where
  "parameter v = (if v \<ge> 0 \<and> v \<le> 2 ^ 64 - 1 then Some (nat v) else None)"

definition checked_offset_add :: "nat \<Rightarrow> nat \<Rightarrow> nat option" where
  "checked_offset_add a b = do { r \<leftarrow> usize_fit (a + b); if int r \<le> i64_max then Some r else None }"

definition checked_offset_mul :: "nat \<Rightarrow> nat \<Rightarrow> nat option" where
  "checked_offset_mul a b = do { r \<leftarrow> usize_fit (a * b); if int r \<le> i64_max then Some r else None }"

definition swizzled_bound :: "nat \<Rightarrow> nat \<Rightarrow> nat \<Rightarrow> int \<Rightarrow> nat option" where
  "swizzled_bound maximum bits base shift =
     do { _ \<leftarrow> swizzle_new bits base shift;
          if bits = 0 then Some maximum
          else let target_end = base + bits + (if shift < 0 then nat (- shift) else 0);
                   lower_mask = push_bit target_end 1 - 1;
                   r = maximum OR lower_mask in
               if int r \<le> 2 ^ 64 - 1 \<and> int r \<le> i64_max then Some r else None }"

fun affine_max_offset :: "AffineMarker \<Rightarrow> nat option" where
  "affine_max_offset (C_mode n s) =
     (if n > 0 \<and> s \<ge> 0
      then do { a \<leftarrow> parameter (n - 1); b \<leftarrow> parameter s; checked_offset_mul a b } else None)"
| "affine_max_offset (Pair_mode a b) =
     do { x \<leftarrow> affine_max_offset a; y \<leftarrow> affine_max_offset b; checked_offset_add x y }"

fun affine_size :: "AffineMarker \<Rightarrow> nat option" where
  "affine_size (C_mode n s) = do { _ \<leftarrow> affine_max_offset (C_mode n s); parameter n }"
| "affine_size (Pair_mode a b) =
     do { _ \<leftarrow> affine_max_offset (Pair_mode a b); x \<leftarrow> affine_size a; y \<leftarrow> affine_size b; usize_fit (x * y) }"

fun affine_crd2idx :: "AffineMarker \<Rightarrow> nat \<Rightarrow> nat option" where
  "affine_crd2idx (C_mode n s) flat = do { _ \<leftarrow> affine_size (C_mode n s); usize_fit (flat * nat s) }"
| "affine_crd2idx (Pair_mode a b) flat =
     do { _ \<leftarrow> affine_size (Pair_mode a b);
          sa \<leftarrow> affine_size a;
          x \<leftarrow> affine_crd2idx a (flat mod sa);
          y \<leftarrow> affine_crd2idx b (flat div sa);
          usize_fit (x + y) }"

definition row_major_marker :: "int \<Rightarrow> int \<Rightarrow> AffineMarker" where
  "row_major_marker r k = Pair_mode (C_mode r k) (C_mode k 1)"

definition col_major_marker :: "int \<Rightarrow> int \<Rightarrow> AffineMarker" where
  "col_major_marker r k = Pair_mode (C_mode r 1) (C_mode k r)"

fun static_max_offset :: "StaticMarker \<Rightarrow> nat option" where
  "static_max_offset (Affine a) = affine_max_offset a"
| "static_max_offset (RowMajor r k) = affine_max_offset (row_major_marker r k)"
| "static_max_offset (ColMajor r k) = affine_max_offset (col_major_marker r k)"
| "static_max_offset (Composed b m s off out) =
     do { x \<leftarrow> static_max_offset out; p \<leftarrow> parameter off; y \<leftarrow> checked_offset_add x p; swizzled_bound y b m s }"

fun static_size :: "StaticMarker \<Rightarrow> nat option" where
  "static_size (Affine a) = affine_size a"
| "static_size (RowMajor r k) = affine_size (row_major_marker r k)"
| "static_size (ColMajor r k) = affine_size (col_major_marker r k)"
| "static_size (Composed b m s off out) = do { _ \<leftarrow> static_max_offset (Composed b m s off out); static_size out }"

fun static_crd2idx :: "StaticMarker \<Rightarrow> nat \<Rightarrow> nat option" where
  "static_crd2idx (Affine a) flat = affine_crd2idx a flat"
| "static_crd2idx (RowMajor r k) flat = affine_crd2idx (row_major_marker r k) flat"
| "static_crd2idx (ColMajor r k) flat = affine_crd2idx (col_major_marker r k) flat"
| "static_crd2idx (Composed b m s off out) flat =
     do { _ \<leftarrow> static_size (Composed b m s off out);
          sw \<leftarrow> swizzle_new b m s;
          x \<leftarrow> static_crd2idx out flat;
          y \<leftarrow> usize_fit (x + nat off);
          map_option (\<lambda>v. nat (v mod 2 ^ 64)) (apply_swizzle sw (u64_as_i64 y)) }"

section \<open>Two-dimensional markers\<close>

record Smem2D =
  SHAPE :: "int \<times> int"
  STRIDE :: "int \<times> int"
  OFFSET :: int
  NUM_BITS :: nat
  NUM_BASE :: nat
  NUM_SHIFT :: int

fun reify_2d :: "StaticMarker \<Rightarrow> Smem2D option" where
  "reify_2d (Affine (Pair_mode (C_mode r sr) (C_mode c sc))) =
     Some \<lparr>SHAPE = (r, c), STRIDE = (sr, sc), OFFSET = 0, NUM_BITS = 0, NUM_BASE = 4, NUM_SHIFT = 3\<rparr>"
| "reify_2d (Affine _) = None"
| "reify_2d (RowMajor r c) =
     Some \<lparr>SHAPE = (r, c), STRIDE = (c, 1), OFFSET = 0, NUM_BITS = 0, NUM_BASE = 4, NUM_SHIFT = 3\<rparr>"
| "reify_2d (ColMajor r c) =
     Some \<lparr>SHAPE = (r, c), STRIDE = (1, r), OFFSET = 0, NUM_BITS = 0, NUM_BASE = 4, NUM_SHIFT = 3\<rparr>"
| "reify_2d (Composed b m s off out) =
     map_option (\<lambda>l. l\<lparr>OFFSET := off, NUM_BITS := b, NUM_BASE := m, NUM_SHIFT := s\<rparr>) (reify_2d out)"

definition max_offset_2d :: "Smem2D \<Rightarrow> nat option" where
  "max_offset_2d L =
     (if fst (SHAPE L) > 0 \<and> snd (SHAPE L) > 0 \<and> fst (STRIDE L) \<ge> 0 \<and> snd (STRIDE L) \<ge> 0 \<and> OFFSET L \<ge> 0
      then do { r \<leftarrow> parameter (fst (SHAPE L) - 1); sr \<leftarrow> parameter (fst (STRIDE L));
                row_max \<leftarrow> checked_offset_mul r sr;
                c \<leftarrow> parameter (snd (SHAPE L) - 1); sc \<leftarrow> parameter (snd (STRIDE L));
                column_max \<leftarrow> checked_offset_mul c sc;
                a \<leftarrow> checked_offset_add row_max column_max;
                off \<leftarrow> parameter (OFFSET L);
                maximum \<leftarrow> checked_offset_add a off;
                swizzled_bound maximum (NUM_BITS L) (NUM_BASE L) (NUM_SHIFT L) }
      else None)"

definition crd2idx_2d :: "Smem2D \<Rightarrow> nat \<Rightarrow> nat \<Rightarrow> nat option" where
  "crd2idx_2d L row column =
     do { _ \<leftarrow> max_offset_2d L;
          sw \<leftarrow> swizzle_new (NUM_BITS L) (NUM_BASE L) (NUM_SHIFT L);
          y \<leftarrow> y_mask sw;
          a \<leftarrow> usize_fit (row * nat (fst (STRIDE L)));
          b \<leftarrow> usize_fit (column * nat (snd (STRIDE L)));
          ab \<leftarrow> usize_fit (a + b);
          plain \<leftarrow> usize_fit (ab + nat (OFFSET L));
          Some (if NUM_BITS L = 0 then plain
                else if NUM_SHIFT L \<ge> 0 then plain XOR drop_bit (nat (NUM_SHIFT L)) (plain AND nat y)
                else plain XOR push_bit (nat (- NUM_SHIFT L)) (plain AND nat y)) }"

definition idx2crd_2d :: "Smem2D \<Rightarrow> nat \<Rightarrow> (nat \<times> nat) option" where
  "idx2crd_2d L flat =
     (if \<not> (fst (SHAPE L) > 0 \<and> snd (SHAPE L) > 0) \<or>
         \<not> ((fst (STRIDE L) = 1 \<and> snd (STRIDE L) = fst (SHAPE L)) \<or>
            (fst (STRIDE L) = snd (SHAPE L) \<and> snd (STRIDE L) = 1))
      then None
      else if fst (STRIDE L) = 1
      then Some (idx2crd_col_major_2d (flat mod 2 ^ 32) (nat (fst (SHAPE L) mod 2 ^ 32)))
      else Some (idx2crd_row_major_2d (flat mod 2 ^ 32) (nat (snd (SHAPE L) mod 2 ^ 32))))"

end
