(* ===== verification/Cute_Composed.thy ===== *)
theory Cute_Composed
  imports Cute_Swizzle Cute_Algebra_Facts
begin

text \<open>
  Swizzled layouts (\<open>cute-layout/src/composed.rs\<close>) and the canonical SM100 shared-memory layout of
  \<open>algebra/tiling.rs\<close>: the map \<open>inner(offset + outer(c))\<close>, its checked form, the change of
  units from elements to bytes and the alignment of the whole.
\<close>

section \<open>The type and its operations\<close>

datatype OffsetUnit = Elements | Bytes

datatype ComposedLayoutError =
  InvalidSwizzle
| InvalidElementBytes int
| ArithmeticOverflow

record ComposedLayout =
  inner :: Swizzle
  offset :: int
  outer :: Layout
  offset_unit :: OffsetUnit

type_synonym 'a composed_result = "('a, ComposedLayoutError) outcome"

definition composed_new :: "Swizzle \<Rightarrow> int \<Rightarrow> Layout \<Rightarrow> OffsetUnit \<Rightarrow> ComposedLayout composed_result" where
  "composed_new sw off out_layout unit =
     (if \<not> is_valid sw then Err InvalidSwizzle
      else Ok \<lparr>inner = sw, offset = off, outer = out_layout, offset_unit = unit\<rparr>)"

definition from_layout :: "Layout \<Rightarrow> OffsetUnit \<Rightarrow> ComposedLayout" where
  "from_layout out_layout unit = \<lparr>inner = IDENTITY, offset = 0, outer = out_layout, offset_unit = unit\<rparr>"

definition composed_size :: "ComposedLayout \<Rightarrow> int option" where
  "composed_size self = layout_size (outer self)"

definition call_with_outer_delta :: "ComposedLayout \<Rightarrow> IntTuple \<Rightarrow> int \<Rightarrow> int option" where
  "call_with_outer_delta self coord delta =
     do { v \<leftarrow> call (outer self) coord;
          a \<leftarrow> i64_add (offset self) v;
          b \<leftarrow> i64_add a delta;
          apply_swizzle (inner self) b }"

definition checked_call_with_outer_delta :: "ComposedLayout \<Rightarrow> IntTuple \<Rightarrow> int \<Rightarrow> int option" where
  "checked_call_with_outer_delta self coord delta =
     do { v \<leftarrow> checked_call (outer self) coord;
          a \<leftarrow> i64_add (offset self) v;
          b \<leftarrow> i64_add a delta;
          apply_swizzle (inner self) b }"

definition composed_call :: "ComposedLayout \<Rightarrow> IntTuple \<Rightarrow> int option" where
  "composed_call self coord = call_with_outer_delta self coord 0"

definition composed_checked_call :: "ComposedLayout \<Rightarrow> IntTuple \<Rightarrow> int option" where
  "composed_checked_call self coord = checked_call_with_outer_delta self coord 0"

primrec checked_scale_tuple :: "int \<Rightarrow> IntTuple \<Rightarrow> IntTuple option" where
  "checked_scale_tuple scale (Leaf v) = map_option Leaf (i64_mul v scale)"
| "checked_scale_tuple scale (Tuple items) = map_option Tuple (those (map (checked_scale_tuple scale) items))"

text \<open>\<open>count_ones\<close> and \<open>trailing_zeros\<close> of a nonnegative machine integer.\<close>

fun count_ones :: "nat \<Rightarrow> nat" where
  "count_ones n = (if n = 0 then 0 else n mod 2 + count_ones (n div 2))"

fun trailing_zeros :: "nat \<Rightarrow> nat" where
  "trailing_zeros n = (if n = 0 then 64 else if n mod 2 = 1 then 0 else Suc (trailing_zeros (n div 2)))"

declare count_ones.simps [simp del] trailing_zeros.simps [simp del]

definition is_power_of_two :: "nat \<Rightarrow> bool" where
  "is_power_of_two n = (count_ones n = 1)"

definition to_byte_offsets :: "ComposedLayout \<Rightarrow> int \<Rightarrow> ComposedLayout composed_result" where
  "to_byte_offsets self element_bytes =
     (if offset_unit self = Bytes then Ok self
      else if element_bytes \<le> 0 \<or> \<not> is_power_of_two (nat element_bytes)
      then Err (InvalidElementBytes element_bytes)
      else
      let added_bits = trailing_zeros (nat element_bytes) in
      try_let (ok_or (u32_checked_add (num_base (inner self)) added_bits) ArithmeticOverflow) (\<lambda>new_base.
      try_let (ok_or (try_new (num_bits (inner self)) new_base (num_shift (inner self))) InvalidSwizzle) (\<lambda>sw.
      try_let (ok_or (i64_mul (offset self) element_bytes) ArithmeticOverflow) (\<lambda>off.
      try_let (ok_or (checked_scale_tuple element_bytes (stride (outer self))) ArithmeticOverflow) (\<lambda>st.
      try_let (or_panic (layout_new (shape (outer self)) st)) (\<lambda>out_layout.
      Ok \<lparr>inner = sw, offset = off, outer = out_layout, offset_unit = Bytes\<rparr>))))))"

definition unsigned_to_i64 :: "nat \<Rightarrow> int" where
  "unsigned_to_i64 value = (if int value \<le> i64_max then int value else 1)"

definition composed_gcd :: "int \<Rightarrow> int \<Rightarrow> int" where
  "composed_gcd a b = unsigned_to_i64 (euclid (nat \<bar>a\<bar>) (nat \<bar>b\<bar>))"

definition composed_max_alignment :: "ComposedLayout \<Rightarrow> int algebra_result" where
  "composed_max_alignment self =
     try_let (max_alignment (outer self)) (\<lambda>outer_alignment.
     let with_offset = composed_gcd outer_alignment (unsigned_to_i64 (nat \<bar>offset self\<bar>)) in
     if num_bits (inner self) = 0 then Ok (max with_offset 1)
     else try_let (or_panic (swizzle_max_alignment (inner self))) (\<lambda>a.
          Ok (max (composed_gcd with_offset a) 1)))"

section \<open>The canonical SM100 layout\<close>

definition sm100_smem_layout :: "nat \<Rightarrow> nat \<Rightarrow> bool \<Rightarrow> (ComposedLayout, string) outcome" where
  "sm100_smem_layout rows cols mn =
     (let (contig, out_extent) = (if mn then (rows, cols) else (cols, rows)) in
      if contig < 32 \<or> (contig \<noteq> 32 \<and> contig mod 64 \<noteq> 0) \<or> out_extent = 0 \<or> out_extent mod 8 \<noteq> 0
      then Err ''SM100 shared layout needs contiguous 32 or a multiple of 64 and outer multiple of 8''
      else
      let span = int (min contig 64) in
      try_let (or_panic (if mn then col_major (Tuple [Leaf span, Leaf 8])
                         else row_major (Tuple [Leaf 8, Leaf span]))) (\<lambda>atom.
      try_let (map_err (\<lambda>e. case e of AlgebraError msg \<Rightarrow> ''layout algebra error: '' @ msg)
                 (tile_to_shape atom [int rows, int cols] (if mn then [1, 0] else [0, 1]))) (\<lambda>outer_layout.
      try_let (or_panic (swizzle_new (if span = 32 then 2 else 3) 3 3)) (\<lambda>sw.
      map_err (\<lambda>_. ''composed layout has an invalid CuTe swizzle'')
        (composed_new sw 0 outer_layout Elements)))))"

section \<open>Facts\<close>

lemma count_ones_zero: "count_ones m = 0 \<Longrightarrow> m = 0"
proof (induction m rule: less_induct)
  case (less m)
  show ?case
  proof (rule ccontr)
    assume m: "m \<noteq> 0"
    then have "m mod 2 = 0" "count_ones (m div 2) = 0"
      using less.prems by (auto simp: count_ones.simps [of m])
    then have "m div 2 = 0" using less.IH m by simp
    then show False using m \<open>m mod 2 = 0\<close> by auto
  qed
qed

lemma power_of_two_trailing: "count_ones n = 1 \<Longrightarrow> n = 2 ^ trailing_zeros n"
proof (induction n rule: less_induct)
  case (less n)
  show ?case
  proof (cases "n mod 2 = 1")
    case True
    then have "n \<noteq> 0" by auto
    then have "count_ones (n div 2) = 0" using less.prems True by (subst (asm) count_ones.simps) simp
    then have "n div 2 = 0" by (rule count_ones_zero)
    then have "n = 1" using True by linarith
    then show ?thesis by (simp add: trailing_zeros.simps)
  next
    case False
    have n: "n \<noteq> 0" using less.prems by (cases "n = 0") (simp_all add: count_ones.simps [of 0])
    then have "count_ones (n div 2) = 1" using less.prems False by (subst (asm) count_ones.simps) auto
    then have "n div 2 = 2 ^ trailing_zeros (n div 2)" using less.IH n by simp
    then have "n = 2 ^ Suc (trailing_zeros (n div 2))" using False by (metis mult.commute even_iff_mod_2_eq_zero dvd_mult_div_cancel not_mod_2_eq_1_eq_0 power_Suc)
    then show ?thesis using n False trailing_zeros.simps [of n] by simp
  qed
qed


text \<open>Scaling every stride scales the offset; the unscaled evaluation cannot overflow where the
  scaled one does not.\<close>

lemma in_i64_scaled: "in_i64 (v * k) \<Longrightarrow> 0 < k \<Longrightarrow> in_i64 v"
proof -
  assume h: "in_i64 (v * k)" "0 < k"
  have "v < 0 \<Longrightarrow> v * k \<le> v * 1" using h(2) by (intro mult_left_mono_neg) auto
  moreover have "0 \<le> v \<Longrightarrow> v * 1 \<le> v * k" using h(2) by (intro mult_left_mono) auto
  ultimately show ?thesis
    using h(1) unfolding in_i64_def by (cases "v < 0") linarith+
qed

definition scales :: "int \<Rightarrow> IntTuple \<Rightarrow> IntTuple \<Rightarrow> bool" where
  "scales k d d' \<longleftrightarrow> (\<forall>c s w. checked_crd2idx c s d' = Some w \<longrightarrow>
     (\<exists>v. checked_crd2idx c s d = Some v \<and> w = v * k))"

lemma scalesD: "scales k d d' \<Longrightarrow> checked_crd2idx c s d' = Some w \<Longrightarrow> \<exists>v. checked_crd2idx c s d = Some v \<and> w = v * k"
  by (simp add: scales_def)

lemma scaled_modes:
  assumes "list_all2 (scales k) ds ds'" and "checked_crd2idx_modes (acc * k) cs ss ds' = Some w" and "0 < k"
  shows "\<exists>v. checked_crd2idx_modes acc cs ss ds = Some v \<and> w = v * k"
  using assms
proof (induction ds arbitrary: acc cs ss ds' w)
  case (Cons d ds)
  obtain d' ds'' where ds': "ds' = d' # ds''" "scales k d d'" "list_all2 (scales k) ds ds''"
    using Cons.prems(1) by (cases ds') auto
  show ?case
  proof (cases "cs = [] \<or> ss = []")
    case True
    then show ?thesis using Cons.prems(2) by (cases cs; cases ss) auto
  next
    case False
    then obtain c cs' s ss' where cs: "cs = c # cs'" "ss = s # ss'" by (auto simp: neq_Nil_conv)
    obtain u where u: "checked_crd2idx c s d' = Some u" "in_i64 (acc * k + u)"
        "checked_crd2idx_modes (acc * k + u) cs' ss' ds'' = Some w"
      using Cons.prems(2) cs ds' by (auto simp: bind_eq_Some_conv i64_simps)
    then obtain v where v: "checked_crd2idx c s d = Some v" "u = v * k" using scalesD [OF ds'(2)] by blast
    have fit: "in_i64 (acc + v)" "acc * k + u = (acc + v) * k"
      using in_i64_scaled [of "acc + v" k] u(2) v(2) Cons.prems(3) by (simp_all add: distrib_right)
    show ?thesis
      using Cons.IH [OF ds'(3), of "acc + v" cs' ss' w] u(3) fit v cs Cons.prems(3)
      by (simp add: i64_add_def i64_fit_def)
  qed
qed auto

lemma scaled_flat:
  assumes "list_all2 (scales k) ds ds'" and "checked_crd2idx_flat rem (acc * k) ss ds' = Some w" and "0 < k"
  shows "\<exists>v. checked_crd2idx_flat rem acc ss ds = Some v \<and> w = v * k"
  using assms
proof (induction ds arbitrary: rem acc ss ds' w)
  case (Cons d ds)
  obtain d' ds'' where ds': "ds' = d' # ds''" "scales k d d'" "list_all2 (scales k) ds ds''"
    using Cons.prems(1) by (cases ds') auto
  show ?case
  proof (cases ss)
    case Nil
    then show ?thesis using Cons.prems(2) by auto
  next
    case (Cons s ss')
    let ?c = "\<lambda>sz. Leaf (if ss' = [] then rem else rem smod sz)"
    obtain sz u where u: "checked_tuple_size s = Some sz" "sz > 0" "checked_crd2idx (?c sz) s d' = Some u"
        "in_i64 (acc * k + u)" "checked_crd2idx_flat (rem sdiv sz) (acc * k + u) ss' ds'' = Some w"
      using Cons.prems(2) Cons ds' by (auto simp: bind_eq_Some_conv i64_simps split: if_splits)
    then obtain v where v: "checked_crd2idx (?c sz) s d = Some v" "u = v * k" using scalesD [OF ds'(2)] by blast
    have fit: "in_i64 (acc + v)" "acc * k + u = (acc + v) * k"
      using in_i64_scaled [of "acc + v" k] u(4) v(2) Cons.prems(3) by (simp_all add: distrib_right)
    show ?thesis
      using Cons.IH [OF ds'(3), of "rem sdiv sz" "acc + v" ss' w] u fit v Cons Cons.prems(3)
      by (auto simp: i64_add_def i64_fit_def)
  qed
qed auto

lemma those_Some_iff: "those (map f xs) = Some ys \<longleftrightarrow> list_all2 (\<lambda>x y. f x = Some y) xs ys"
  by (induction xs arbitrary: ys) (auto split: option.splits simp: list_all2_Cons1)

lemma checked_scale_tuple_scales:
  "checked_scale_tuple k d = Some d' \<Longrightarrow> 0 < k \<Longrightarrow> scales k d d'"
proof (induction d arbitrary: d')
  case (Leaf v)
  have "scales k (Leaf v) (Leaf (v * k))"
  proof -
    have "\<exists>u. checked_crd2idx c s (Leaf v) = Some u \<and> w = u * k"
      if "checked_crd2idx c s (Leaf (v * k)) = Some w" for c s w
      using that in_i64_scaled [of _ k] Leaf.prems(2)
      by (cases c; cases s) (auto simp: i64_mul_def i64_fit_def mult.assoc split: if_splits)
    then show ?thesis by (auto simp: scales_def)
  qed
  then show ?case using Leaf.prems by (auto simp: i64_simps)
next
  case (Tuple ds)
  then obtain ds' where d': "d' = Tuple ds'" and all: "list_all2 (\<lambda>x y. checked_scale_tuple k x = Some y) ds ds'"
    by (auto simp: those_Some_iff)
  have sc: "list_all2 (scales k) ds ds'"
    using all Tuple by (auto simp: list_all2_conv_all_nth)
  note len = list_all2_lengthD [OF all]
  have "\<exists>v. checked_crd2idx c s (Tuple ds) = Some v \<and> w = v * k"
    if "checked_crd2idx c s (Tuple ds') = Some w" for c s w
    using that scaled_modes [OF sc, of 0] scaled_flat [OF sc, of _ 0] Tuple.prems(2) len
    by (cases c; cases s) (auto split: if_splits option.splits bind_splits)
  then show ?case using d' by (auto simp: scales_def)
qed

section \<open>Properties\<close>

text \<open>The change of units of \<open>to_byte_offsets\<close> is exact: where the byte layout maps a
  coordinate (plus a scaled displacement) to a byte offset, the element layout maps it to an element
  offset and the byte offset is that element offset times the element size.\<close>

theorem to_byte_offsets_exact:
  assumes "to_byte_offsets cl element_bytes = Ok bl" and "offset_unit cl = Elements" and "is_valid (inner cl)"
    and "checked_call_with_outer_delta bl coord (delta * element_bytes) = Some w"
  shows "\<exists>v. checked_call_with_outer_delta cl coord delta = Some v \<and> w = v * element_bytes"
proof -
  let ?k = "trailing_zeros (nat element_bytes)"
  obtain st where eb: "0 < element_bytes" "is_power_of_two (nat element_bytes)"
    and sw: "try_new (num_bits (inner cl)) (num_base (inner cl) + ?k) (num_shift (inner cl)) = Some (inner bl)"
    and off: "offset bl = offset cl * element_bytes"
    and st: "checked_scale_tuple element_bytes (stride (outer cl)) = Some st"
    and out: "outer bl = \<lparr>shape = shape (outer cl), stride = st\<rparr>"
    using assms(1,2)
    by (auto simp: to_byte_offsets_def outcome_simps Let_def u32_checked_add_def i64_simps layout_new_def split: if_splits)
  have pow: "element_bytes = 2 ^ ?k"
    using power_of_two_trailing eb by (simp add: is_power_of_two_def) (metis int_nat_eq of_nat_numeral of_nat_power less_imp_le)
  obtain v' where v': "checked_call (outer bl) coord = Some v'"
      "in_i64 (offset bl + v')" "in_i64 (offset bl + v' + delta * element_bytes)"
      "apply_swizzle (inner bl) (offset bl + v' + delta * element_bytes) = Some w"
    using assms(4) by (auto simp: checked_call_with_outer_delta_def bind_eq_Some_conv i64_simps)
  obtain v where v: "checked_call (outer cl) coord = Some v" "v' = v * element_bytes"
    using scalesD [OF checked_scale_tuple_scales [OF st eb(1)], of coord "shape (outer cl)" v'] v'(1) out
    by (auto simp: checked_call_def)
  let ?x = "offset cl + v + delta"
  have x: "offset bl + v' + delta * element_bytes = ?x * element_bytes" "offset bl + v' = (offset cl + v) * element_bytes"
    using off v(2) by (simp_all add: distrib_right)
  have fit: "in_i64 (offset cl + v)" "in_i64 ?x" using v'(2,3) x in_i64_scaled eb(1) by metis+
  obtain u where u: "apply_swizzle (inner cl) ?x = Some u" using apply_swizzle_total [OF assms(3)] by blast
  have inner: "inner bl = (inner cl)\<lparr>num_base := num_base (inner cl) + ?k\<rparr>" "is_valid (inner bl)"
    using sw by (auto simp: try_new_def is_valid_def split: if_splits dest!: sym [of _ "inner bl"])
  have "apply_swizzle (inner bl) (push_bit ?k ?x) = Some (push_bit ?k u)"
    using apply_swizzle_scale [OF u] inner by simp
  moreover have "push_bit ?k z = z * element_bytes" for z using pow by (simp add: push_bit_eq_mult)
  ultimately have "w = u * element_bytes" using v'(4) x(1) by simp
  moreover have "checked_call_with_outer_delta cl coord delta = Some u"
    using v(1) fit u by (simp add: checked_call_with_outer_delta_def i64_add_def i64_fit_def)
  ultimately show ?thesis by blast
qed


definition f32_tile :: ComposedLayout where
  "f32_tile = \<lparr>inner = \<lparr>num_bits = 2, num_base = 2, num_shift = 3\<rparr>, offset = 0,
     outer = \<lparr>shape = Tuple [Leaf 8, Leaf 16], stride = Tuple [Leaf 16, Leaf 1]\<rparr>, offset_unit = Elements\<rparr>"

theorem to_byte_offsets_exact_witness:
  "\<exists>v. checked_call_with_outer_delta f32_tile (Tuple [Leaf 5, Leaf 6]) 1 = Some v \<and> 380 = v * 4"
proof -
  let ?b = "\<lparr>inner = \<lparr>num_bits = 2, num_base = 4, num_shift = 3\<rparr>, offset = 0,
     outer = \<lparr>shape = Tuple [Leaf 8, Leaf 16], stride = Tuple [Leaf 64, Leaf 4]\<rparr>, offset_unit = Bytes\<rparr>"
  have h: "to_byte_offsets f32_tile 4 = Ok ?b"
    by (simp add: to_byte_offsets_def f32_tile_def is_power_of_two_def count_ones.simps trailing_zeros.simps
        u32_checked_add_def try_new_def parameters_are_valid_iff i64_mul_def i64_fit_def in_i64_def layout_new_def)
  have v: "is_valid (inner f32_tile)" by (simp add: f32_tile_def is_valid_iff)
  have w: "checked_call_with_outer_delta ?b (Tuple [Leaf 5, Leaf 6]) (1 * 4) = Some 380"
    by (simp add: checked_call_with_outer_delta_def checked_call_def i64_mul_def i64_add_def i64_fit_def in_i64_def
        apply_swizzle_def y_mask_def is_valid_iff drop_bit_eq_div push_bit_eq_mult)
  show ?thesis by (rule to_byte_offsets_exact [OF h _ v w]) (simp add: f32_tile_def)
qed

end
