(* ===== verification/Cute_Device_Properties.thy ===== *)
theory Cute_Device_Properties
  imports Cute_Device Cute_Composed Cute_Layout_Properties
begin

text \<open>
  What device code relies on: the grouped tile order visits every tile once, the SM100
  shared-memory map places every element of a tile in its own cell of the tile's footprint, and
  the static markers stay below their declared maximum and agree with the layout algebra.
\<close>

section \<open>Grouped tile order\<close>

lemma grouped_Some:
  assumes "0 < GROUP_M" and "0 < n" and "m * n < 2 ^ 32" and "t < m * n"
  defines "g \<equiv> min GROUP_M m"
  defines "q \<equiv> t div (g * n)"
  defines "a \<equiv> min g (m - q * g)"
  shows "idx2crd_grouped_2d GROUP_M t m n = Some (q * g + (t mod (g * n)) mod a, (t mod (g * n)) div a)"
    and "0 < a" and "0 < g" and "q * g + a \<le> m" and "t mod (g * n) < a * n"
proof -
  have m: "0 < m" using assms(4) by (cases m) auto
  then show g: "0 < g" using assms(1) by (simp add: g_def)
  have gm: "g \<le> m" by (simp add: g_def)
  have "q * g * n \<le> t" by (metis q_def div_times_less_eq_dividend mult.assoc)
  then have "q * g * n < m * n" using assms(4) by linarith
  then have qg: "q * g < m" by simp
  then show a: "0 < a" and am: "q * g + a \<le> m" using g by (auto simp: a_def)
  have t: "t = q * g * n + t mod (g * n)" unfolding q_def by (metis div_mult_mod_eq mult.assoc)
  show r: "t mod (g * n) < a * n"
  proof (cases "g \<le> m - q * g")
    case True
    then show ?thesis using g assms(2) by (simp add: a_def)
  next
    case False
    then have "q * g + a = m" using qg by (auto simp: a_def)
    then have "m * n = q * g * n + a * n" by (metis distrib_right)
    then show ?thesis using t assms(4) by linarith
  qed
  have "g * n \<le> m * n" using gm by simp
  then have fit1: "g * n < 2 ^ 32" using assms(3) by linarith
  have "m * 1 \<le> m * n" using assms(2) by (intro mult_left_mono) auto
  then have m32: "m < 2 ^ 32" using assms(3) by linarith
  have "t mod (g * n) mod a < a" using a by simp
  then have fit3: "q * g + t mod (g * n) mod a < 2 ^ 32" using am m32 by linarith
  have min: "(if GROUP_M \<le> m then GROUP_M else m) = g" by (simp add: g_def)
  have min': "(if g \<le> m - q * g then g else m - q * g) = a" by (simp add: a_def)
  have qg32: "q * g < 2 ^ 32" using qg m32 by linarith
  show "idx2crd_grouped_2d GROUP_M t m n = Some (q * g + (t mod (g * n)) mod a, (t mod (g * n)) div a)"
    unfolding idx2crd_grouped_2d_def min Let_def
    using assms(1,2) g fit1 fit3 qg qg32 a
    by (simp add: u32_fit_def idx2crd_col_major_2d_def min' flip: q_def)
qed

definition grouped_index :: "nat \<Rightarrow> nat \<Rightarrow> nat \<Rightarrow> nat \<times> nat \<Rightarrow> nat" where
  "grouped_index GROUP_M m n = (\<lambda>(i, j).
     let g = min GROUP_M m; q = i div g; a = min g (m - q * g) in q * g * n + (i mod g + j * a))"

lemma grouped_round:
  assumes "0 < GROUP_M" and "0 < n" and "m * n < 2 ^ 32" and "t < m * n"
  shows "\<exists>i j. idx2crd_grouped_2d GROUP_M t m n = Some (i, j) \<and> i < m \<and> j < n \<and> grouped_index GROUP_M m n (i, j) = t"
proof -
  let ?g = "min GROUP_M m"
  let ?q = "t div (?g * n)"
  let ?a = "min ?g (m - ?q * ?g)"
  let ?r = "t mod (?g * n)"
  note G = grouped_Some [OF assms]
  have ra: "?r mod ?a < ?a" by (rule mod_less_divisor [OF G(2)])
  then have rg: "?r mod ?a < ?g" by linarith
  have i: "(?q * ?g + ?r mod ?a) div ?g = ?q" "(?q * ?g + ?r mod ?a) mod ?g = ?r mod ?a"
    using rg G(3) by simp_all
  have "grouped_index GROUP_M m n (?q * ?g + ?r mod ?a, ?r div ?a) = ?q * ?g * n + (?r mod ?a + ?r div ?a * ?a)"
    unfolding grouped_index_def Let_def prod.case i by simp
  also have "\<dots> = t" by (metis add.commute div_mult_mod_eq mult.assoc)
  finally have "grouped_index GROUP_M m n (?q * ?g + ?r mod ?a, ?r div ?a) = t" .
  moreover have "?q * ?g + ?r mod ?a < m" using ra G(4) by linarith
  moreover have "?r div ?a < n" using G(2,5) by (simp add: div_less_iff_less_mult mult.commute)
  ultimately show ?thesis using G(1) by blast
qed

lemma grouped_onto:
  assumes "0 < GROUP_M" and "0 < n" and "m * n < 2 ^ 32" and "i < m" and "j < n"
  shows "grouped_index GROUP_M m n (i, j) < m * n"
    and "idx2crd_grouped_2d GROUP_M (grouped_index GROUP_M m n (i, j)) m n = Some (i, j)"
proof -
  define g where "g = min GROUP_M m"
  define q where "q = i div g"
  define a where "a = min g (m - q * g)"
  define t where "t = grouped_index GROUP_M m n (i, j)"
  have g: "0 < g" using assms(1,4) by (simp add: g_def)
  have i: "i = q * g + i mod g" unfolding q_def by simp
  then have "i mod g < m - q * g" using assms(4) by linarith
  then have ia: "i mod g < a" using g by (simp add: a_def)
  have t_eq: "t = q * g * n + (i mod g + j * a)"
    by (simp add: t_def grouped_index_def Let_def g_def q_def a_def)
  have "(j + 1) * a \<le> n * a" using assms(5) by (intro mult_le_mono1) simp
  then have r: "i mod g + j * a < a * n" using ia by (simp add: algebra_simps)
  have "q * g \<le> m" using i assms(4) by linarith
  then have "q * g + a \<le> m" by (simp add: a_def)
  then have "(q * g + a) * n \<le> m * n" by (rule mult_le_mono1)
  then show bound: "grouped_index GROUP_M m n (i, j) < m * n"
    using r t_eq t_def by (simp add: distrib_right)
  have "a * n \<le> g * n" by (simp add: a_def)
  then have rg: "i mod g + j * a < g * n" using r by linarith
  have tq: "t div (g * n) = q" "t mod (g * n) = i mod g + j * a"
    unfolding t_eq mult.assoc [of q g n] using rg by (simp_all add: div_nat_eqI)
  have "idx2crd_grouped_2d GROUP_M t m n = Some (q * g + (i mod g + j * a) mod a, (i mod g + j * a) div a)"
    using grouped_Some(1) [OF assms(1-3), of t] bound tq unfolding t_def [symmetric] g_def [symmetric] a_def by simp
  then show "idx2crd_grouped_2d GROUP_M (grouped_index GROUP_M m n (i, j)) m n = Some (i, j)"
    using ia i unfolding t_def [symmetric] by simp
qed

text \<open>The grouped tile order is a permutation of the tile grid: on a grid of fewer than \<open>2 ^ 32\<close>
  tiles every tile index is mapped without overflow, and the map is a bijection onto the
  coordinates, so persistent blocks visit each tile exactly once, also in the last partial group.\<close>

theorem grouped_order_bijective:
  assumes "0 < GROUP_M" and "0 < n" and "m * n < 2 ^ 32"
  shows "bij_betw (\<lambda>t. idx2crd_grouped_2d GROUP_M t m n) {0..<m * n} (Some ` ({0..<m} \<times> {0..<n}))"
proof (rule bij_betw_byWitness [where f' = "\<lambda>x. grouped_index GROUP_M m n (the x)"])
  show "\<forall>t \<in> {0..<m * n}. grouped_index GROUP_M m n (the (idx2crd_grouped_2d GROUP_M t m n)) = t"
    using grouped_round [OF assms] by fastforce
  show "\<forall>x \<in> Some ` ({0..<m} \<times> {0..<n}). idx2crd_grouped_2d GROUP_M (grouped_index GROUP_M m n (the x)) m n = x"
    using grouped_onto(2) [OF assms] by auto
  show "(\<lambda>t. idx2crd_grouped_2d GROUP_M t m n) ` {0..<m * n} \<subseteq> Some ` ({0..<m} \<times> {0..<n})"
    using grouped_round [OF assms] by fastforce
  show "(\<lambda>x. grouped_index GROUP_M m n (the x)) ` Some ` ({0..<m} \<times> {0..<n}) \<subseteq> {0..<m * n}"
    using grouped_onto(1) [OF assms] by auto
qed

theorem grouped_order_bijective_witness:
  "bij_betw (\<lambda>t. idx2crd_grouped_2d 8 t 13 5) {0..<13 * 5} (Some ` ({0..<13} \<times> {0..<5}))"
  by (rule grouped_order_bijective) simp_all


section \<open>The SM100 shared-memory map\<close>

lemma and_low_bits: "n AND 31 = n mod 32" "n AND 63 = n mod 64" for n :: nat
  using take_bit_eq_mask [of 5 n] take_bit_eq_mask [of 6 n]
  by (simp_all add: take_bit_eq_mod mask_eq_exp_minus_1)

definition plain_offset :: "nat \<Rightarrow> nat \<Rightarrow> nat \<times> nat \<Rightarrow> nat" where
  "plain_offset span ext = (\<lambda>(inn, out). inn div span * (span * ext) + out * span + inn mod span)"

lemma plain_offset_bound:
  assumes "0 < span" and "inn < span * k" and "out < ext"
  shows "plain_offset span ext (inn, out) < span * k * ext"
proof -
  have q: "inn div span < k" using assms(1,2) by (simp add: div_less_iff_less_mult mult.commute)
  have "(out + 1) * span \<le> ext * span" using assms(3) by (intro mult_le_mono1) simp
  then have a: "out * span + inn mod span < span * ext"
    using mod_less_divisor [OF assms(1), of inn] by (simp add: algebra_simps)
  have "(inn div span + 1) * (span * ext) \<le> k * (span * ext)" using q by (intro mult_le_mono1) simp
  then show ?thesis using a by (simp add: plain_offset_def algebra_simps)
qed

lemma sm100_plain_eval:
  assumes "span = 32 \<or> span = 64" and "inn < span * k" and "out < ext" and "span * k * ext < 2 ^ 32"
  shows "sm100_plain span ext inn out = Some (plain_offset span ext (inn, out))"
proof -
  have pos: "0 < span" using assms(1) by auto
  have parts: "(if span = 32 then (inn AND 31, drop_bit 5 inn) else (inn AND 63, drop_bit 6 inn)) = (inn mod span, inn div span)"
    using assms(1) by (auto simp: and_low_bits drop_bit_eq_div)
  have bound: "plain_offset span ext (inn, out) < 2 ^ 32"
    using plain_offset_bound [OF pos assms(2,3)] assms(4) by linarith
  have "0 < k" using assms(2) by (cases k) auto
  then have "span * ext * 1 \<le> span * ext * k" by (intro mult_le_mono2) simp
  moreover have "span * ext * k = span * k * ext" by (simp only: mult_ac)
  ultimately have so: "span * ext < 2 ^ 32" using assms(4) by linarith
  show ?thesis
    unfolding sm100_plain_def parts Let_def using so bound by (simp add: u32_fit_def plain_offset_def)
qed

lemma plain_offset_bij:
  assumes "0 < span" and "0 < ext"
  shows "bij_betw (plain_offset span ext) ({0..<span * k} \<times> {0..<ext}) {0..<span * k * ext}"
proof (rule bij_betw_byWitness
    [where f' = "\<lambda>p. (span * (p div (span * ext)) + p mod (span * ext) mod span, p mod (span * ext) div span)"])
  let ?pre = "\<lambda>p. (span * (p div (span * ext)) + p mod (span * ext) mod span, p mod (span * ext) div span)"
  have so: "0 < span * ext" using assms by simp
  show "\<forall>x \<in> {0..<span * k} \<times> {0..<ext}. ?pre (plain_offset span ext x) = x"
  proof (rule ballI, clarsimp)
    fix inn out
    assume h: "inn < span * k" "out < ext"
    have "(out + 1) * span \<le> ext * span" using h(2) by (intro mult_le_mono1) simp
    then have a: "out * span + inn mod span < span * ext"
      using mod_less_divisor [OF assms(1), of inn] by (simp add: algebra_simps)
    then have "plain_offset span ext (inn, out) div (span * ext) = inn div span"
      "plain_offset span ext (inn, out) mod (span * ext) = out * span + inn mod span"
      unfolding plain_offset_def prod.case add.assoc by (simp_all add: div_nat_eqI)
    then show "span * (plain_offset span ext (inn, out) div (span * ext)) +
          plain_offset span ext (inn, out) mod (span * ext) mod span = inn \<and>
        plain_offset span ext (inn, out) mod (span * ext) div span = out" using assms(1) by simp
  qed
  show "\<forall>p \<in> {0..<span * k * ext}. plain_offset span ext (?pre p) = p"
  proof
    fix p
    have "plain_offset span ext (?pre p) =
        p div (span * ext) * (span * ext) + (p mod (span * ext) div span * span + p mod (span * ext) mod span)"
      using assms(1) by (simp add: plain_offset_def)
    also have "\<dots> = p" by (simp only: div_mult_mod_eq)
    finally show "plain_offset span ext (?pre p) = p" .
  qed
  show "plain_offset span ext ` ({0..<span * k} \<times> {0..<ext}) \<subseteq> {0..<span * k * ext}"
    using plain_offset_bound [OF assms(1)] by auto
  show "?pre ` {0..<span * k * ext} \<subseteq> {0..<span * k} \<times> {0..<ext}"
  proof (rule image_subsetI)
    fix p
    assume "p \<in> {0..<span * k * ext}"
    then have "p div (span * ext) < k" using so by (simp add: div_less_iff_less_mult mult_ac)
    then have "span * (p div (span * ext) + 1) \<le> span * k" by (intro mult_le_mono2) simp
    then have "span * (p div (span * ext)) + p mod (span * ext) mod span < span * k"
      using mod_less_divisor [OF assms(1), of "p mod (span * ext)"] by (simp add: algebra_simps)
    moreover have "p mod (span * ext) div span < ext"
      using mod_less_divisor [OF so, of p] assms(1) by (simp add: div_less_iff_less_mult mult.commute)
    ultimately show "?pre p \<in> {0..<span * k} \<times> {0..<ext}" by simp
  qed
qed

lemma y_mask_nonneg: "y_mask sw = Some y \<Longrightarrow> 0 \<le> y"
  by (auto simp: y_mask_def Let_def push_bit_eq_mult split: if_splits)

lemma sm100_xor_swizzle:
  assumes "sw = \<lparr>num_bits = b, num_base = 3, num_shift = 3\<rparr>" and "b = 2 \<or> b = 3" and "y_mask sw = Some y"
  shows "apply_swizzle sw (int p) = Some (int (sm100_xor (nat y) p))"
proof -
  have "is_valid sw" using assms(1,2) by (auto simp: is_valid_iff)
  then have "apply_swizzle sw (int p) = Some (int p XOR drop_bit 3 (int p AND y))"
    using assms by (auto simp: apply_swizzle_def Let_def)
  also have "int p XOR drop_bit 3 (int p AND y) = int (sm100_xor (nat y) p)"
    using y_mask_nonneg [OF assms(3)] by (simp add: sm100_xor_def of_nat_xor_eq of_nat_and_eq of_nat_drop_bit)
  finally show ?thesis .
qed

lemma sm100_xor_bij:
  assumes "sw = \<lparr>num_bits = b, num_base = 3, num_shift = 3\<rparr>" and "b = 2 \<or> b = 3" and "y_mask sw = Some y"
    and "64 dvd N"
  shows "bij_betw (sm100_xor (nat y)) {0..<N} {0..<N}"
proof (rule bij_betw_byWitness [where f' = "sm100_xor (nat y)"])
  note ap = sm100_xor_swizzle [OF assms(1-3)]
  have "sm100_xor (nat y) (sm100_xor (nat y) p) = p" for p
    using apply_swizzle_twice [OF ap [of p] ap] by simp
  then show "\<forall>p \<in> {0..<N}. sm100_xor (nat y) (sm100_xor (nat y) p) = p"
    and "\<forall>p \<in> {0..<N}. sm100_xor (nat y) (sm100_xor (nat y) p) = p" by auto
  have "drop_bit 6 (int (sm100_xor (nat y) p)) = drop_bit 6 (int p)" for p
    by (rule apply_swizzle_high [OF ap]) (use assms(1,2) in \<open>auto simp: target_bit_def\<close>)
  then have "int (sm100_xor (nat y) p div 64) = int (p div 64)" for p
    by (simp add: drop_bit_eq_div zdiv_int)
  then have blk: "sm100_xor (nat y) p div 64 = p div 64" for p by simp
  obtain L where N: "N = 64 * L" using assms(4) by blast
  have "sm100_xor (nat y) p < N" if "p < N" for p
    using blk [of p] that unfolding N by (metis div_less_iff_less_mult mult.commute zero_less_numeral)
  then show "sm100_xor (nat y) ` {0..<N} \<subseteq> {0..<N}" and "sm100_xor (nat y) ` {0..<N} \<subseteq> {0..<N}" by auto
qed


text \<open>One map behind the three entry points: the contiguous extent, the outer extent, the width.\<close>

definition smem_map :: "nat \<Rightarrow> nat \<Rightarrow> bool \<Rightarrow> nat \<times> nat \<Rightarrow> nat" where
  "smem_map R C MN = (\<lambda>(r, c).
     let contig = (if MN then R else C); ext = (if MN then C else R); span = (if contig = 32 then 32 else 64) in
     sm100_xor (if contig = 32 then 192 else 448) (plain_offset span ext (if MN then (r, c) else (c, r))))"

lemma y_mask_values:
  "y_mask \<lparr>num_bits = 2, num_base = 3, num_shift = 3\<rparr> = Some 192"
  "y_mask \<lparr>num_bits = 3, num_base = 3, num_shift = 3\<rparr> = Some 448"
  by (simp_all add: y_mask_def is_valid_iff)

lemma shared_valid_span:
  assumes "shared_layout_valid R C MN"
  obtains k where "(if MN then R else C) = shared_layout_span R C MN * k" and "0 < k"
    and "0 < (if MN then C else R)" and "64 dvd R * C"
proof -
  let ?c = "if MN then R else C" and ?o = "if MN then C else R" and ?s = "shared_layout_span R C MN"
  have h: "?c \<ge> 32" "?o > 0" "8 dvd ?o" "?c = 32 \<or> 64 dvd ?c"
    using assms by (auto simp: shared_layout_valid_def Let_def)
  have "?s dvd ?c" using h(4) by (auto simp: shared_layout_span_def)
  then obtain k where k: "?c = ?s * k" by blast
  have "64 dvd ?c * ?o"
  proof (cases "?c = 32")
    case True
    have "(8 * 8 :: nat) dvd ?c * ?o" using h(3) True by (intro mult_dvd_mono) auto
    then show ?thesis by simp
  next
    case False
    then show ?thesis using h(4) by (metis dvd_mult2)
  qed
  then have "64 dvd R * C" by (cases MN) (simp_all add: mult.commute)
  then show thesis using that [OF k] k h(1,2) by (cases k) auto
qed

lemma shared_map_eval:
  assumes "shared_layout_valid R C MN" and "R * C < 2 ^ 32" and "r < R" and "c < C"
  shows "sm100_plain (shared_layout_span R C MN) (if MN then C else R) (if MN then r else c) (if MN then c else r) =
    Some (plain_offset (shared_layout_span R C MN) (if MN then C else R) (if MN then (r, c) else (c, r)))"
proof -
  obtain k where k: "(if MN then R else C) = shared_layout_span R C MN * k"
    using shared_valid_span [OF assms(1)] by metis
  have span: "shared_layout_span R C MN = 32 \<or> shared_layout_span R C MN = 64" by (simp add: shared_layout_span_def)
  have inn: "(if MN then r else c) < shared_layout_span R C MN * k" using k assms(3,4) by (cases MN) auto
  have out: "(if MN then c else r) < (if MN then C else R)" using assms(3,4) by simp
  have "shared_layout_span R C MN * k * (if MN then C else R) < 2 ^ 32"
    using k assms(2) by (cases MN) (simp_all add: mult.commute)
  from sm100_plain_eval [OF span inn out this] show ?thesis by (cases MN) simp_all
qed

lemma shared_layout_crd2idx_map:
  assumes "shared_layout_valid R C MN" and "R * C < 2 ^ 32" and "r < R" and "c < C"
  shows "shared_layout_crd2idx R C MN r c = Some (smem_map R C MN (r, c))"
    and "sm100_smem_crd2idx_with_extents r c R C MN = Some (smem_map R C MN (r, c))"
    and "(if MN then smem_mnmajor_crd2idx (if R = 32 then 2 else 3) (int R) (int C) r c
      else smem_kmajor_crd2idx (if C = 32 then 2 else 3) (int R) (int C) r c) =
      Some (smem_map R C MN (r, c))"
proof -
  note ev = shared_map_eval [OF assms, unfolded shared_layout_span_def]
  have valid: "(if MN then R else C) \<ge> 32 \<and> (if MN then R else C) mod 32 = 0" "(if MN then C else R) > 0 \<and> (if MN then C else R) mod 8 = 0"
    "(if MN then R else C) = 32 \<or> (if MN then R else C) mod 64 = 0"
    using assms(1) by (auto simp: shared_layout_valid_def Let_def)
  have sw: "swizzle_new 2 3 3 = Some \<lparr>num_bits = 2, num_base = 3, num_shift = 3\<rparr>"
    "swizzle_new 3 3 3 = Some \<lparr>num_bits = 3, num_base = 3, num_shift = 3\<rparr>"
    by (simp_all add: swizzle_new_def parameters_are_valid_iff)
  show "shared_layout_crd2idx R C MN r c = Some (smem_map R C MN (r, c))"
    unfolding shared_layout_crd2idx_def sm100_smem_crd2idx_def Let_def
    using valid assms(1) ev
    by (cases MN) (auto simp: sw y_mask_values smem_map_def)
  show "sm100_smem_crd2idx_with_extents r c R C MN = Some (smem_map R C MN (r, c))"
    unfolding sm100_smem_crd2idx_with_extents_def Let_def
    using ev by (cases MN) (auto simp: smem_map_def push_bit_eq_mult)
  have "R * 1 \<le> R * C" "1 * C \<le> R * C" using assms(3,4) by (auto intro: mult_le_mono)
  then have "R < 2 ^ 32" "C < 2 ^ 32" using assms(2) by linarith+
  then have "if MN then smem_mnmajor_valid (if R = 32 then 2 else 3) (int R) (int C)
      else smem_kmajor_valid (if C = 32 then 2 else 3) (int R) (int C)"
    using valid assms(3,4) by (cases MN) (auto simp: smem_mnmajor_valid_def smem_kmajor_valid_def Let_def)
  then show "(if MN then smem_mnmajor_crd2idx (if R = 32 then 2 else 3) (int R) (int C) r c
      else smem_kmajor_crd2idx (if C = 32 then 2 else 3) (int R) (int C) r c) =
      Some (smem_map R C MN (r, c))"
    unfolding smem_mnmajor_crd2idx_def smem_kmajor_crd2idx_def Let_def
    using ev by (cases MN) (auto simp: sw y_mask_values smem_map_def)
qed

lemma smem_map_bij:
  assumes "shared_layout_valid R C MN" and "R * C < 2 ^ 32"
  shows "bij_betw (smem_map R C MN) ({0..<R} \<times> {0..<C}) {0..<R * C}"
proof -
  obtain k where k: "(if MN then R else C) = shared_layout_span R C MN * k" "0 < k"
      "0 < (if MN then C else R)" "64 dvd R * C"
    using shared_valid_span [OF assms(1)] by metis
  let ?s = "shared_layout_span R C MN" and ?o = "if MN then C else R"
  let ?y = "if (if MN then R else C) = 32 then 192 else 448 :: nat"
  let ?swap = "\<lambda>(r, c). if MN then (r, c) else (c, r)"
  have total: "?s * k * ?o = R * C" using k(1) by (cases MN) (simp_all add: mult.commute)
  have 1: "bij_betw ?swap ({0..<R} \<times> {0..<C}) ({0..<?s * k} \<times> {0..<?o})"
    unfolding k(1) [symmetric]
    by (rule bij_betw_byWitness [where f' = ?swap]) auto
  have 2: "bij_betw (plain_offset ?s ?o) ({0..<?s * k} \<times> {0..<?o}) {0..<R * C}"
    using plain_offset_bij [of ?s ?o k] k(3) total by (simp add: shared_layout_span_def)
  have 3: "bij_betw (sm100_xor ?y) {0..<R * C} {0..<R * C}"
    using sm100_xor_bij [OF refl _ y_mask_values(1) k(4)] sm100_xor_bij [OF refl _ y_mask_values(2) k(4)] by simp
  have "smem_map R C MN = sm100_xor ?y \<circ> (plain_offset ?s ?o \<circ> ?swap)"
    by (auto simp: smem_map_def shared_layout_span_def fun_eq_iff Let_def)
  then show ?thesis using bij_betw_trans [OF bij_betw_trans [OF 1 2] 3] by simp
qed

text \<open>The SM100 shared-memory map of a valid \<open>SharedLayout<R, C, MN>\<close> places every element of
  the tile in a cell of its own and fills the footprint: \<open>crd2idx\<close> is a bijection from the \<open>R\<close> by
  \<open>C\<close> coordinates to the offsets below \<open>R * C\<close>, which \<open>BYTES\<close> reserves at two bytes each.\<close>

theorem shared_layout_bijective:
  assumes "shared_layout_valid R C MN" and "R * C < 2 ^ 32"
  shows "bij_betw (\<lambda>(r, c). shared_layout_crd2idx R C MN r c) ({0..<R} \<times> {0..<C}) (Some ` {0..<R * C}) \<and>
    shared_layout_bytes R C MN = Some (2 * (R * C))"
proof
  have "bij_betw (Some \<circ> smem_map R C MN) ({0..<R} \<times> {0..<C}) (Some ` {0..<R * C})"
    by (rule bij_betw_trans [OF smem_map_bij [OF assms]]) (simp add: bij_betw_def)
  then show "bij_betw (\<lambda>(r, c). shared_layout_crd2idx R C MN r c) ({0..<R} \<times> {0..<C}) (Some ` {0..<R * C})"
    by (rule bij_betw_cong [THEN iffD1, rotated]) (auto simp: shared_layout_crd2idx_map [OF assms])
  show "shared_layout_bytes R C MN = Some (2 * (R * C))"
    using assms by (simp add: shared_layout_bytes_def usize_fit_def)
qed

theorem shared_layout_bijective_witness:
  "bij_betw (\<lambda>(r, c). shared_layout_crd2idx 16 64 False r c) ({0..<16} \<times> {0..<64}) (Some ` {0..<16 * 64})"
  using shared_layout_bijective [of 16 64 False] by (simp add: shared_layout_valid_def)

text \<open>The three implementations of the map agree: on every coordinate of a valid tile the
  \<open>SharedLayout\<close> method, the runtime-extent function and the method on the composed marker with the
  expected swizzle return the same offset.\<close>

theorem sm100_maps_agree:
  assumes "shared_layout_valid R C MN" and "R * C < 2 ^ 32" and "r < R" and "c < C"
  shows "shared_layout_crd2idx R C MN r c = sm100_smem_crd2idx_with_extents r c R C MN \<and>
    (if MN then smem_mnmajor_crd2idx (if R = 32 then 2 else 3) (int R) (int C) r c
      else smem_kmajor_crd2idx (if C = 32 then 2 else 3) (int R) (int C) r c) =
      shared_layout_crd2idx R C MN r c \<and> shared_layout_crd2idx R C MN r c \<noteq> None"
  by (simp only: shared_layout_crd2idx_map [OF assms]) simp

theorem sm100_maps_agree_witness:
  "shared_layout_crd2idx 64 16 True 9 4 = sm100_smem_crd2idx_with_extents 9 4 64 16 True \<and>
   shared_layout_crd2idx 64 16 True 9 4 \<noteq> None"
proof -
  have h: "shared_layout_valid 64 16 True" "(64 :: nat) * 16 < 2 ^ 32" "(9 :: nat) < 64" "(4 :: nat) < 16"
    by (simp_all add: shared_layout_valid_def)
  show ?thesis using sm100_maps_agree [OF h] by blast
qed

section \<open>Static markers\<close>

abbreviation offset_max :: nat where
  "offset_max \<equiv> 9223372036854775807"

lemma offset_arith_Some [simp]:
  "checked_offset_add a b = Some r \<longleftrightarrow> a + b \<le> offset_max \<and> r = a + b"
  "checked_offset_mul a b = Some r \<longleftrightarrow> a * b \<le> offset_max \<and> r = a * b"
  "parameter v = Some n \<longleftrightarrow> 0 \<le> v \<and> v \<le> 2 ^ 64 - 1 \<and> n = nat v"
  by (auto simp: checked_offset_add_def checked_offset_mul_def parameter_def bind_eq_Some_conv
      simp del: of_nat_mult of_nat_add split: if_splits)

lemma affine_bounded:
  "affine_size m = Some n \<Longrightarrow> affine_max_offset m = Some M \<Longrightarrow>
     0 < n \<and> M \<le> offset_max \<and> (\<forall>flat < n. \<exists>v \<le> M. affine_crd2idx m flat = Some v)"
proof (induction m arbitrary: n M)
  case (C_mode k s)
  then have k: "0 < k" "0 \<le> s" "n = nat k" "M = nat (k - 1) * nat s" "M \<le> offset_max"
    by (auto simp: bind_eq_Some_conv split: if_splits)
  have "affine_crd2idx (C_mode k s) flat = Some (flat * nat s) \<and> flat * nat s \<le> M" if "flat < n" for flat
  proof -
    have "flat * nat s \<le> M" unfolding k(4) by (rule mult_le_mono1) (use that k(1,3) in linarith)
    then show ?thesis using C_mode(1) k(5) by (simp add: usize_fit_def del: affine_size.simps)
  qed
  then show ?case using k by auto
next
  case (Pair_mode a b)
  obtain x y where xy: "affine_max_offset a = Some x" "affine_max_offset b = Some y" "M = x + y" "M \<le> offset_max"
    using Pair_mode.prems(2) by (auto simp: bind_eq_Some_conv)
  obtain na nb where n: "affine_size a = Some na" "affine_size b = Some nb" "n = na * nb"
    using Pair_mode.prems(1) by (auto simp: bind_eq_Some_conv)
  note A = Pair_mode.IH(1) [OF n(1) xy(1)] and B = Pair_mode.IH(2) [OF n(2) xy(2)]
  have "\<exists>v \<le> M. affine_crd2idx (Pair_mode a b) flat = Some v" if "flat < n" for flat
  proof -
    have "flat mod na < na" "flat div na < nb"
      using A that n(3) by (auto simp: div_less_iff_less_mult mult.commute)
    then obtain u v where uv: "affine_crd2idx a (flat mod na) = Some u" "affine_crd2idx b (flat div na) = Some v"
        "u \<le> x" "v \<le> y" using A B by blast
    then have "u + v \<le> M" "u + v < 2 ^ 64" using xy(3,4) by auto
    then show ?thesis using Pair_mode.prems(1) n uv by (auto simp: usize_fit_def)
  qed
  then show ?case using A B n xy(4) by auto
qed

lemma or_low_mask: "m OR (2 ^ t - 1) = m div 2 ^ t * 2 ^ t + (2 ^ t - 1)" for m :: nat
proof -
  have "m OR mask t = push_bit t (drop_bit t m) OR mask t"
    by (rule bit_eqI) (auto simp: bit_or_iff bit_push_bit_iff bit_drop_bit_eq bit_mask_iff)
  also have "\<dots> = push_bit t (drop_bit t m) + mask t"
    by (rule disjunctive_add_eq_or [symmetric], rule bit_eqI)
       (auto simp: bit_and_iff bit_push_bit_iff bit_mask_iff)
  finally show ?thesis by (simp add: mask_eq_exp_minus_1 push_bit_eq_mult drop_bit_eq_div)
qed

lemma swizzle_below_bound:
  assumes "swizzled_bound maximum b m s = Some M" and "x \<le> maximum" and "maximum \<le> offset_max"
  shows "\<exists>sw v. swizzle_new b m s = Some sw \<and> is_valid sw \<and> apply_swizzle sw (int x) = Some (int v) \<and> v \<le> M \<and>
    M \<le> offset_max"
proof -
  let ?sw = "\<lparr>num_bits = b, num_base = m, num_shift = s\<rparr>"
  have new: "swizzle_new b m s = Some ?sw" and valid: "is_valid ?sw"
    using assms(1) by (auto simp: swizzled_bound_def swizzle_new_def is_valid_def bind_eq_Some_conv split: if_splits)
  obtain w where w: "apply_swizzle ?sw (int x) = Some w" using apply_swizzle_total [OF valid] by blast
  show ?thesis
  proof (cases "b = 0")
    case True
    then have "w = int x" "M = maximum"
      using w valid assms(1) new by (auto simp: apply_swizzle_def swizzled_bound_def)
    then show ?thesis using new valid w assms(2,3) by auto
  next
    case False
    define t where "t = target_bit ?sw + b"
    have te: "m + b + (if s < 0 then nat (- s) else 0) = t" by (simp add: t_def target_bit_def)
    have M: "M = maximum OR (2 ^ t - 1)" "M \<le> offset_max"
      using assms(1) new False unfolding swizzled_bound_def te by (auto simp: Let_def split: if_splits)
    have high: "w div 2 ^ t = int x div 2 ^ t"
      using apply_swizzle_high [OF w, of t] by (simp add: t_def drop_bit_eq_div)
    then have "0 \<le> w div 2 ^ t" by (simp add: pos_imp_zdiv_nonneg_iff)
    then have w0: "0 \<le> w" by (simp add: pos_imp_zdiv_nonneg_iff)
    define v where "v = nat w"
    have v: "w = int v" using w0 by (simp add: v_def)
    have "int (v div 2 ^ t) = int (x div 2 ^ t)" using high v by (simp add: zdiv_int)
    then have vd: "v div 2 ^ t = x div 2 ^ t" by simp
    have "v = v div 2 ^ t * 2 ^ t + v mod 2 ^ t" by (simp only: div_mult_mod_eq)
    also have "\<dots> \<le> maximum div 2 ^ t * 2 ^ t + (2 ^ t - 1)"
    proof (rule add_mono)
      show "v div 2 ^ t * 2 ^ t \<le> maximum div 2 ^ t * 2 ^ t"
        unfolding vd using div_le_mono [OF assms(2)] by (rule mult_le_mono1)
      have "v mod 2 ^ t < 2 ^ t" by simp
      then show "v mod 2 ^ t \<le> 2 ^ t - 1" by linarith
    qed
    finally have "v \<le> M" unfolding M(1) or_low_mask .
    then show ?thesis using new valid w v M(2) by auto
  qed
qed

lemma static_bounded:
  "static_size m = Some n \<Longrightarrow> static_max_offset m = Some M \<Longrightarrow>
     M \<le> offset_max \<and> (\<forall>flat < n. \<exists>v \<le> M. static_crd2idx m flat = Some v)"
proof (induction m arbitrary: n M)
  case (Composed b k s off out)
  obtain x where x: "static_max_offset out = Some x" "0 \<le> off" "x + nat off \<le> offset_max"
      "swizzled_bound (x + nat off) b k s = Some M"
    using Composed.prems(2) by (auto simp: bind_eq_Some_conv)
  have n: "static_size out = Some n" using Composed.prems(1) by (auto simp: bind_eq_Some_conv)
  note ih = Composed.IH [OF n x(1)]
  have "\<exists>v \<le> M. static_crd2idx (Composed b k s off out) flat = Some v" if flat: "flat < n" for flat
  proof -
    obtain u where u: "static_crd2idx out flat = Some u" "u \<le> x" using ih flat by blast
    then have "u + nat off \<le> x + nat off" by simp
    from swizzle_below_bound [OF x(4) this x(3)] obtain sw v where
        v: "swizzle_new b k s = Some sw" "apply_swizzle sw (int (u + nat off)) = Some (int v)" "v \<le> M" "M \<le> offset_max"
      by blast
    have fit: "u + nat off \<le> offset_max" using u(2) x(3) by simp
    then have "u + nat off < 2 ^ 64" "u64_as_i64 (u + nat off) = int (u + nat off)"
      by (auto simp: u64_as_i64_def)
    moreover have "nat (int v mod 2 ^ 64) = v" using v(3,4) by simp
    ultimately show ?thesis using Composed.prems(1) u(1) v by (auto simp: usize_fit_def)
  qed
  then show ?case using swizzle_below_bound [OF x(4) order_refl x(3)] by blast
qed (use affine_bounded in auto)

text \<open>(C35) A static marker that passes its compile-time checks is safe to evaluate: for every flat
  coordinate below \<open>SIZE\<close>, \<open>crd2idx\<close> neither overflows nor panics and its offset is at most
  \<open>MAX_OFFSET\<close>, which fits in \<open>i64\<close>.\<close>

theorem static_layout_bounded:
  assumes "static_size m = Some n" and "static_max_offset m = Some M" and "flat < n"
  shows "int M \<le> i64_max \<and> (\<exists>v. static_crd2idx m flat = Some v \<and> v \<le> M)"
  using static_bounded [OF assms(1,2)] assms(3) by auto

theorem static_layout_bounded_witness:
  "\<exists>v. static_crd2idx (Composed 2 2 3 0 (RowMajor 8 16)) 77 = Some v \<and> v \<le> 127"
proof -
  let ?m = "Composed 2 2 3 0 (RowMajor 8 16)"
  have new: "swizzle_new 2 2 3 = Some \<lparr>num_bits = 2, num_base = 2, num_shift = 3\<rparr>"
    by (simp add: swizzle_new_def parameters_are_valid_iff)
  have M: "static_max_offset ?m = Some 127"
    by (simp add: row_major_marker_def swizzled_bound_def new checked_offset_mul_def checked_offset_add_def
        parameter_def usize_fit_def)
  have n: "static_size ?m = Some 128"
    using M by (simp add: row_major_marker_def checked_offset_mul_def checked_offset_add_def parameter_def usize_fit_def)
  show ?thesis using static_layout_bounded [OF n M, of 77] by simp
qed


section \<open>Two-dimensional markers\<close>

definition composed_of_2d :: "Smem2D \<Rightarrow> ComposedLayout" where
  "composed_of_2d L =
     \<lparr>inner = \<lparr>num_bits = NUM_BITS L, num_base = NUM_BASE L, num_shift = NUM_SHIFT L\<rparr>, offset = OFFSET L,
      outer = \<lparr>shape = Tuple [Leaf (fst (SHAPE L)), Leaf (snd (SHAPE L))],
               stride = Tuple [Leaf (fst (STRIDE L)), Leaf (snd (STRIDE L))]\<rparr>,
      offset_unit = Elements\<rparr>"

lemma nat_swizzle:
  assumes "is_valid sw" and "y_mask sw = Some y"
  shows "apply_swizzle sw (int p) = Some (int
    (if num_bits sw = 0 then p
     else if num_shift sw \<ge> 0 then p XOR drop_bit (nat (num_shift sw)) (p AND nat y)
     else p XOR push_bit (nat (- num_shift sw)) (p AND nat y)))"
  using assms y_mask_nonneg [OF assms(2)]
  by (simp add: apply_swizzle_def Let_def of_nat_xor_eq of_nat_and_eq of_nat_drop_bit of_nat_push_bit)

lemma max_offset_2d_Some:
  assumes "max_offset_2d L = Some M"
  obtains "0 < fst (SHAPE L)" "0 < snd (SHAPE L)" "0 \<le> fst (STRIDE L)" "0 \<le> snd (STRIDE L)" "0 \<le> OFFSET L"
    "nat (fst (SHAPE L) - 1) * nat (fst (STRIDE L)) + nat (snd (SHAPE L) - 1) * nat (snd (STRIDE L)) + nat (OFFSET L) \<le> offset_max"
    "swizzled_bound (nat (fst (SHAPE L) - 1) * nat (fst (STRIDE L)) + nat (snd (SHAPE L) - 1) * nat (snd (STRIDE L)) +
       nat (OFFSET L)) (NUM_BITS L) (NUM_BASE L) (NUM_SHIFT L) = Some M"
  using assms that by (simp add: max_offset_2d_def bind_eq_Some_conv split: if_splits)

text \<open>The static two-dimensional evaluator agrees with the layout algebra: for a marker that
  passes its compile-time check and a coordinate inside its shape, \<open>crd2idx_2d\<close> returns the offset
  that the corresponding \<open>ComposedLayout\<close> computes with every step checked, and that offset is at
  most \<open>max_offset_2d\<close>.\<close>

theorem crd2idx_2d_agrees:
  assumes "max_offset_2d L = Some M" and "int r < fst (SHAPE L)" and "int c < snd (SHAPE L)"
  shows "\<exists>v. crd2idx_2d L r c = Some v \<and> v \<le> M \<and>
    composed_checked_call (composed_of_2d L) (Tuple [Leaf (int r), Leaf (int c)]) = Some (int v)"
proof -
  let ?sw = "\<lparr>num_bits = NUM_BITS L, num_base = NUM_BASE L, num_shift = NUM_SHIFT L\<rparr>"
  let ?R = "nat (fst (SHAPE L) - 1)" and ?C = "nat (snd (SHAPE L) - 1)"
  let ?sr = "nat (fst (STRIDE L))" and ?sc = "nat (snd (STRIDE L))" and ?o = "nat (OFFSET L)"
  obtain st: "0 \<le> fst (STRIDE L)" "0 \<le> snd (STRIDE L)" "0 \<le> OFFSET L"
      and max: "?R * ?sr + ?C * ?sc + ?o \<le> offset_max"
      and bound: "swizzled_bound (?R * ?sr + ?C * ?sc + ?o) (NUM_BITS L) (NUM_BASE L) (NUM_SHIFT L) = Some M"
    using max_offset_2d_Some [OF assms(1)] by metis
  define p where "p = r * ?sr + c * ?sc + ?o"
  have "r * ?sr \<le> ?R * ?sr" "c * ?sc \<le> ?C * ?sc" using assms(2,3) by (intro mult_le_mono1; linarith)+
  then have le: "p \<le> ?R * ?sr + ?C * ?sc + ?o" unfolding p_def by linarith
  obtain v where v: "swizzle_new (NUM_BITS L) (NUM_BASE L) (NUM_SHIFT L) = Some ?sw" "is_valid ?sw"
      "apply_swizzle ?sw (int p) = Some (int v)" "v \<le> M"
    using swizzle_below_bound [OF bound le max] by (auto simp: swizzle_new_def split: if_splits)
  obtain y where y: "y_mask ?sw = Some y" using v(2) by (auto simp: y_mask_def Let_def)
  have pmax: "p \<le> offset_max" using le max by linarith
  then have "crd2idx_2d L r c = Some v"
    using assms(1) v(1,3) y nat_swizzle [OF v(2) y, of p]
    by (simp add: crd2idx_2d_def usize_fit_def p_def split: if_splits)
  moreover have parts: "int (r * ?sr) = int r * fst (STRIDE L)" "int (c * ?sc) = int c * snd (STRIDE L)" "int ?o = OFFSET L"
    using st by simp_all
  have "composed_checked_call (composed_of_2d L) (Tuple [Leaf (int r), Leaf (int c)]) = Some (int v)"
  proof -
    have sum: "int p = OFFSET L + (int r * fst (STRIDE L) + int c * snd (STRIDE L))"
      unfolding p_def of_nat_add parts by simp
    have fit: "in_i64 (int r * fst (STRIDE L))" "in_i64 (int c * snd (STRIDE L))"
        "in_i64 (int r * fst (STRIDE L) + int c * snd (STRIDE L))" "in_i64 (int p)"
      unfolding parts [symmetric] using pmax by (auto simp: in_i64_def p_def simp del: of_nat_mult simp flip: of_nat_add)
    show ?thesis
      using assms(2,3) fit v(3)
      by (simp add: composed_checked_call_def checked_call_with_outer_delta_def composed_of_2d_def checked_call_def
          i64_mul_def i64_add_def i64_fit_def flip: sum)
  qed
  ultimately show ?thesis using v(4) by blast
qed

theorem crd2idx_2d_agrees_witness:
  "\<exists>L v. reify_2d (Composed 2 2 3 0 (RowMajor 8 16)) = Some L \<and> crd2idx_2d L 4 13 = Some v \<and> v \<le> 127"
proof -
  let ?L = "\<lparr>SHAPE = (8, 16), STRIDE = (16, 1), OFFSET = 0, NUM_BITS = 2, NUM_BASE = 2, NUM_SHIFT = 3\<rparr>"
  have new: "swizzle_new 2 2 3 = Some \<lparr>num_bits = 2, num_base = 2, num_shift = 3\<rparr>"
    by (simp add: swizzle_new_def parameters_are_valid_iff)
  have M: "max_offset_2d ?L = Some 127"
    by (simp add: max_offset_2d_def swizzled_bound_def new checked_offset_mul_def checked_offset_add_def
        parameter_def usize_fit_def)
  have "reify_2d (Composed 2 2 3 0 (RowMajor 8 16)) = Some ?L" by simp
  then show ?thesis using crd2idx_2d_agrees [OF M, of 4 13] by auto
qed

end
