(* ===== verification/Cute_Predication.thy ===== *)
theory Cute_Predication
  imports Oxide_Prelude
begin

text \<open>
  The planner of \<open>cute-layout/src/predication.rs\<close> for the source operand of one \<open>cp.async\<close>
  transaction at the edge of a matrix. \<open>u64\<close> and \<open>u32\<close> fields are naturals; a
  checked product or sum that leaves \<open>u64\<close> returns the code's error.
\<close>

record GmemMatrixBounds =
  rows :: nat
  columns :: nat
  leading_dim :: nat
  base_alignment_bytes :: nat

record AtomCoord =
  atom_row :: nat
  atom_column :: nat

datatype SafeSourceOffset = InBounds nat | AlignedFallback nat

fun element_offset :: "SafeSourceOffset \<Rightarrow> nat" where
  "element_offset (InBounds off) = off"
| "element_offset (AlignedFallback off) = off"

record PredicatedSource =
  source_bytes :: nat
  source_offset :: SafeSourceOffset

datatype PredicationError =
  UnsupportedAtomBytes nat
| ZeroElementBytes
| AtomSplitsElement nat nat
| LeadingDimensionTooSmall nat nat
| InsufficientBaseAlignment nat nat
| ElementOffsetOverflow
| ByteOffsetOverflow nat nat
| MisalignedAtomStart nat nat

definition u64_checked :: "nat \<Rightarrow> nat option" where
  "u64_checked n = (if n < 2 ^ 64 then Some n else None)"

definition plan_uniform_cp_async_source ::
    "GmemMatrixBounds \<Rightarrow> AtomCoord \<Rightarrow> nat \<Rightarrow> nat \<Rightarrow> (PredicatedSource, PredicationError) outcome" where
  "plan_uniform_cp_async_source matrix atom atom_bytes element_bytes =
     (if \<not> (atom_bytes = 4 \<or> atom_bytes = 8 \<or> atom_bytes = 16) then Err (UnsupportedAtomBytes atom_bytes)
      else if element_bytes = 0 then Err ZeroElementBytes
      else if atom_bytes mod element_bytes \<noteq> 0 then Err (AtomSplitsElement atom_bytes element_bytes)
      else if leading_dim matrix < columns matrix
      then Err (LeadingDimensionTooSmall (columns matrix) (leading_dim matrix))
      else if base_alignment_bytes matrix = 0 \<or> base_alignment_bytes matrix mod atom_bytes \<noteq> 0
      then Err (InsufficientBaseAlignment atom_bytes (base_alignment_bytes matrix))
      else if atom_row atom \<ge> rows matrix \<or> atom_column atom \<ge> columns matrix
      then Ok \<lparr>source_bytes = 0, source_offset = AlignedFallback 0\<rparr>
      else
      try_let (ok_or (do { row_start \<leftarrow> u64_checked (atom_row atom * leading_dim matrix);
                           u64_checked (row_start + atom_column atom) }) ElementOffsetOverflow) (\<lambda>element_off.
      try_let (ok_or (u64_checked (element_off * element_bytes)) (ByteOffsetOverflow element_off element_bytes))
        (\<lambda>byte_offset.
      if byte_offset mod atom_bytes \<noteq> 0 then Err (MisalignedAtomStart byte_offset atom_bytes)
      else
      let atom_elements = atom_bytes div element_bytes;
          available_elements = columns matrix - atom_column atom;
          copied_elements = min available_elements atom_elements in
      try_let (or_panic (u64_checked (copied_elements * element_bytes))) (\<lambda>n.
      if n < 2 ^ 32 then Ok \<lparr>source_bytes = n, source_offset = InBounds element_off\<rparr> else Panic))))"

text \<open>A matrix described by its bounds occupies \<open>rows\<close> rows of \<open>leading_dim\<close> elements; byte \<open>b\<close> of it
  is a logical byte when it lies in the first \<open>columns\<close> elements of one of its rows.\<close>

definition logical_byte :: "GmemMatrixBounds \<Rightarrow> nat \<Rightarrow> nat \<Rightarrow> bool" where
  "logical_byte matrix element_bytes b \<longleftrightarrow>
     (\<exists>r c k. r < rows matrix \<and> c < columns matrix \<and> k < element_bytes \<and>
        b = (r * leading_dim matrix + c) * element_bytes + k)"

lemma atom_multiple: "e \<noteq> 0 \<Longrightarrow> a mod e = 0 \<Longrightarrow> a div e * e = a" for a e :: nat
  by auto

lemma plan_Ok_inside:
  assumes "plan_uniform_cp_async_source matrix atom atom_bytes element_bytes = Ok src"
    and "atom_row atom < rows matrix" and "atom_column atom < columns matrix"
  defines "off \<equiv> atom_row atom * leading_dim matrix + atom_column atom"
  defines "n \<equiv> min (columns matrix - atom_column atom) (atom_bytes div element_bytes)"
  shows "source_offset src = InBounds off" and "source_bytes src = n * element_bytes"
    and "off * element_bytes mod atom_bytes = 0" and "0 < n" and "n * element_bytes \<le> atom_bytes"
    and "element_bytes dvd atom_bytes"
proof -
  note h = assms(1) [unfolded plan_uniform_cp_async_source_def]
  show "source_offset src = InBounds off" "source_bytes src = n * element_bytes"
    "off * element_bytes mod atom_bytes = 0" and dvd: "element_bytes dvd atom_bytes"
    using h assms(2,3) by (auto simp: outcome_simps Let_def u64_checked_def bind_eq_Some_conv off_def n_def split: if_splits)
  have e: "0 < element_bytes" "0 < atom_bytes" using h by (auto split: if_splits)
  then have "0 < atom_bytes div element_bytes" using dvd by (auto elim: dvdE)
  then show "0 < n" using assms(3) by (simp add: n_def)
  have "n * element_bytes \<le> atom_bytes div element_bytes * element_bytes" by (simp add: n_def)
  also have "\<dots> = atom_bytes" using dvd by simp
  finally show "n * element_bytes \<le> atom_bytes" .
qed

text \<open>(C11) The planner is memory safe: every byte it tells \<open>cp.async\<close> to read lies in the logical
  matrix (never in row padding, another row or past the end), the count is a whole number of
  elements and at most the atom width, and the source address is aligned to the atom.\<close>

theorem predicated_source_safe:
  assumes "plan_uniform_cp_async_source matrix atom atom_bytes element_bytes = Ok src"
  shows "source_bytes src \<le> atom_bytes \<and> source_bytes src mod element_bytes = 0 \<and>
    element_offset (source_offset src) * element_bytes mod atom_bytes = 0 \<and>
    (\<forall>b < source_bytes src. logical_byte matrix element_bytes (element_offset (source_offset src) * element_bytes + b))"
proof (cases "atom_row atom < rows matrix \<and> atom_column atom < columns matrix")
  case False
  then have "src = \<lparr>source_bytes = 0, source_offset = AlignedFallback 0\<rparr>"
    using assms by (auto simp: plan_uniform_cp_async_source_def split: if_splits)
  then show ?thesis by simp
next
  case True
  note P = plan_Ok_inside [OF assms conjunct1 [OF True] conjunct2 [OF True]]
  let ?n = "min (columns matrix - atom_column atom) (atom_bytes div element_bytes)"
  have "logical_byte matrix element_bytes
      ((atom_row atom * leading_dim matrix + atom_column atom) * element_bytes + b)"
    if b: "b < ?n * element_bytes" for b
  proof -
    have e: "0 < element_bytes" using b by (cases element_bytes) auto
    have "b div element_bytes < ?n" using b div_less_iff_less_mult [OF e] by blast
    then have "atom_column atom + b div element_bytes < columns matrix" by linarith
    moreover have "(atom_row atom * leading_dim matrix + atom_column atom) * element_bytes + b =
        (atom_row atom * leading_dim matrix + (atom_column atom + b div element_bytes)) * element_bytes + b mod element_bytes"
      using div_mult_mod_eq [of b element_bytes] by (simp add: algebra_simps)
    ultimately show ?thesis
      unfolding logical_byte_def using True mod_less_divisor [OF e, of b] by blast
  qed
  then show ?thesis using P by simp
qed

definition padded_matrix :: GmemMatrixBounds where
  "padded_matrix = \<lparr>rows = 3, columns = 10, leading_dim = 12, base_alignment_bytes = 16\<rparr>"

theorem predicated_source_safe_witness:
  "plan_uniform_cp_async_source padded_matrix \<lparr>atom_row = 1, atom_column = 8\<rparr> 16 4 =
     Ok \<lparr>source_bytes = 8, source_offset = InBounds 20\<rparr> \<and>
   logical_byte padded_matrix 4 80 \<and> logical_byte padded_matrix 4 87"
proof -
  have h: "plan_uniform_cp_async_source padded_matrix \<lparr>atom_row = 1, atom_column = 8\<rparr> 16 4 =
      Ok \<lparr>source_bytes = 8, source_offset = InBounds 20\<rparr>"
    by (simp add: plan_uniform_cp_async_source_def padded_matrix_def u64_checked_def)
  have "\<forall>b < 8. logical_byte padded_matrix 4 (80 + b)" using predicated_source_safe [OF h] by simp
  from spec [OF this, of 0] spec [OF this, of 7] h show ?thesis by simp
qed

text \<open>The planner reads exactly the part of the atom that is inside: for an atom that starts in the
  matrix, byte \<open>b\<close> of the atom is read iff its element is a logical column of that row; an atom that
  starts outside reads nothing from the aligned base.\<close>

theorem predicated_source_exact:
  assumes "plan_uniform_cp_async_source matrix atom atom_bytes element_bytes = Ok src" and "b < atom_bytes"
  shows "b < source_bytes src \<longleftrightarrow>
    atom_row atom < rows matrix \<and> atom_column atom + b div element_bytes < columns matrix"
proof (cases "atom_row atom < rows matrix \<and> atom_column atom < columns matrix")
  case False
  then have "src = \<lparr>source_bytes = 0, source_offset = AlignedFallback 0\<rparr>"
    using assms by (auto simp: plan_uniform_cp_async_source_def split: if_splits)
  then show ?thesis using False by auto
next
  case True
  note P = plan_Ok_inside [OF assms(1) conjunct1 [OF True] conjunct2 [OF True]]
  have e: "0 < element_bytes" using P(6) assms(2) by (cases element_bytes) auto
  have "b div element_bytes < atom_bytes div element_bytes"
    using assms(2) P(6) e by (auto simp: div_less_iff_less_mult elim!: dvdE)
  then have "b < source_bytes src \<longleftrightarrow> b div element_bytes < columns matrix - atom_column atom"
    using P(2) e by (simp add: div_less_iff_less_mult [symmetric])
  then show ?thesis using True by auto
qed

theorem predicated_source_exact_witness:
  "\<not> (9 < source_bytes \<lparr>source_bytes = 8, source_offset = InBounds 20\<rparr>)"
proof -
  have h: "plan_uniform_cp_async_source padded_matrix \<lparr>atom_row = 1, atom_column = 8\<rparr> 16 4 =
      Ok \<lparr>source_bytes = 8, source_offset = InBounds 20\<rparr>"
    by (simp add: plan_uniform_cp_async_source_def padded_matrix_def u64_checked_def)
  show ?thesis using predicated_source_exact [OF h, of 9] by (simp add: padded_matrix_def)
qed

end
