(* ===== verification/Cute_Validation.thy ===== *)
theory Cute_Validation
  imports Cute_Composed
begin

text \<open>
  The static checks of \<open>cute-layout/src/validation\<close>: thread ownership and exact coverage
  (\<open>thread_value.rs\<close>), TMA encodability (\<open>tma.rs\<close>), \<open>ldmatrix\<close> sources (\<open>ldmatrix.rs\<close>) and their
  errors (\<open>error.rs\<close>). Loops are \<open>for_each\<close> over the integers they run through; an \<open>i64\<close>
  operation the code leaves unchecked panics on overflow.
\<close>

section \<open>Errors and counts\<close>

datatype ValidationError =
  InvalidCount string int
| CountTooLarge string int
| ThreadOutOfRange int int int
| DuplicateThread int int int
| TvRank nat
| TvModeSize string int int
| TvCardinality int int
| TvOutOfRange int int int int
| DuplicateCell int "int \<times> int" "int \<times> int"
| MissingCell int
| AtomDoesNotDivide string int int
| AtomSize int int
| AtomNeedsByteLayout
| BaseAlignment int int
| AtomStartMisaligned int int int int
| AtomNotContiguous int int int int int
| ValidationOverflow string

type_synonym 'a validation_result = "('a, ValidationError) outcome"

fun show_pair :: "int \<times> int \<Rightarrow> string" where
  "show_pair (a, b) = ''('' @ show_int a @ '','' @ show_int b @ '')''"

fun show_validation_error :: "ValidationError \<Rightarrow> string" where
  "show_validation_error (InvalidCount name v) = name @ '' must be positive, got '' @ show_int v"
| "show_validation_error (CountTooLarge name v) =
     name @ ''='' @ show_int v @ '' cannot be enumerated on this host''"
| "show_validation_error (ThreadOutOfRange coordinate thread thread_count) =
     ''thread layout coordinate '' @ show_int coordinate @ '' maps to thread '' @ show_int thread @
     '', outside 0..'' @ show_int thread_count"
| "show_validation_error (DuplicateThread thread c1 c2) =
     ''thread '' @ show_int thread @ '' is produced twice, by coordinates '' @ show_int c1 @ '' and '' @ show_int c2"
| "show_validation_error (TvRank actual) =
     ''TV layout must have (thread,value) modes, got rank '' @ show_nat actual"
| "show_validation_error (TvModeSize mode expected actual) =
     ''TV '' @ mode @ '' mode has size '' @ show_int actual @ '', expected '' @ show_int expected"
| "show_validation_error (TvCardinality assignments tile_elements) =
     ''TV layout has '' @ show_int assignments @ '' assignments for a '' @ show_int tile_elements @ ''-element tile''"
| "show_validation_error (TvOutOfRange thread v cell tile_elements) =
     ''TV '' @ show_pair (thread, v) @ '' maps to cell '' @ show_int cell @ '', outside 0..'' @ show_int tile_elements"
| "show_validation_error (DuplicateCell cell o1 o2) =
     ''tile cell '' @ show_int cell @ '' has two owners: TV '' @ show_pair o1 @ '' and TV '' @ show_pair o2"
| "show_validation_error (MissingCell cell) = ''tile cell '' @ show_int cell @ '' has no TV owner''"
| "show_validation_error (AtomDoesNotDivide axis copy_count atom_count) =
     ''copy '' @ axis @ '' count '' @ show_int copy_count @ '' is not divisible by atom '' @ axis @ '' count '' @
     show_int atom_count"
| "show_validation_error (AtomSize atom_bytes element_bytes) =
     ''a '' @ show_int atom_bytes @ ''-byte atom cannot be split into '' @ show_int element_bytes @ ''-byte elements''"
| "show_validation_error AtomNeedsByteLayout = ''atom contiguity must be checked with a byte-offset layout''"
| "show_validation_error (BaseAlignment required guaranteed) =
     ''atom needs '' @ show_int required @ ''-byte base alignment, but only '' @ show_int guaranteed @
     '' bytes are guaranteed''"
| "show_validation_error (AtomStartMisaligned thread v off atom_bytes) =
     ''TV '' @ show_pair (thread, v) @ '' starts at byte '' @ show_int off @ '', not a '' @ show_int atom_bytes @
     ''-byte boundary''"
| "show_validation_error (AtomNotContiguous thread v byte_in_atom expected actual) =
     ''TV atom '' @ show_pair (thread, v) @ '' breaks at byte '' @ show_int byte_in_atom @ '': expected '' @
     show_int expected @ '', got '' @ show_int actual"
| "show_validation_error (ValidationOverflow ctxt) = ''integer overflow while checking '' @ ctxt"

definition MAX_STATIC_VALIDATION_ELEMENTS :: int where "MAX_STATIC_VALIDATION_ELEMENTS = 1048576"
definition MAX_STATIC_VALIDATION_BYTES :: int where "MAX_STATIC_VALIDATION_BYTES = 1048576"
definition MAX_COOPERATIVE_THREADS :: int where "MAX_COOPERATIVE_THREADS = 1024"
definition MAX_STATIC_LAYOUT_OFFSET_MAGNITUDE :: int where "MAX_STATIC_LAYOUT_OFFSET_MAGNITUDE = 1048576"

definition tv_coord :: "int \<Rightarrow> int \<Rightarrow> IntTuple" where
  "tv_coord thread v = Tuple [Leaf thread, Leaf v]"

definition positive_count :: "string \<Rightarrow> int \<Rightarrow> int validation_result" where
  "positive_count name v = (if v \<le> 0 then Err (InvalidCount name v) else Ok v)"

definition host_count :: "string \<Rightarrow> int \<Rightarrow> nat validation_result" where
  "host_count name v =
     (if v > MAX_STATIC_VALIDATION_ELEMENTS then Err (CountTooLarge name v)
      else if v < 0 then Err (CountTooLarge name v) else Ok (nat v))"

section \<open>Ownership scans\<close>

text \<open>
  The loop both ownership checks run: compute the slot of each owner, reject a slot outside the
  table and a slot that is taken, record the owner. The table is the vector \<open>owners\<close>.
\<close>

fun owner_scan ::
    "('c \<Rightarrow> int validation_result) \<Rightarrow> ('c \<Rightarrow> int \<Rightarrow> ValidationError) \<Rightarrow> (int \<Rightarrow> 'c \<Rightarrow> 'c \<Rightarrow> ValidationError) \<Rightarrow>
     int \<Rightarrow> 'c list \<Rightarrow> 'c option list \<Rightarrow> 'c option list validation_result" where
  "owner_scan slot_of out_of_range duplicate n [] owners = Ok owners"
| "owner_scan slot_of out_of_range duplicate n (c # cs) owners =
     try_let (slot_of c) (\<lambda>k.
     if \<not> (0 \<le> k \<and> k < n) then Err (out_of_range c k)
     else case owners ! nat k of
            Some first \<Rightarrow> Err (duplicate k first c)
          | None \<Rightarrow> owner_scan slot_of out_of_range duplicate n cs (owners[nat k := Some c]))"

definition thread_slot :: "Layout \<Rightarrow> int \<Rightarrow> int validation_result" where
  "thread_slot l coordinate =
     ok_or (checked_call l (Leaf coordinate)) (ValidationOverflow ''thread-layout address'')"

definition validate_compact_thread_layout :: "Layout \<Rightarrow> unit validation_result" where
  "validate_compact_thread_layout thread_layout =
     try_let (ok_or (checked_size thread_layout) (ValidationOverflow ''thread layout size'')) (\<lambda>thread_count.
     try_let (host_count ''thread count'' thread_count) (\<lambda>thread_count_usize.
     try_let (owner_scan (thread_slot thread_layout)
                (\<lambda>coordinate thread. ThreadOutOfRange coordinate thread thread_count)
                (\<lambda>thread first second. DuplicateThread thread first second)
                thread_count [0..thread_count - 1] (replicate thread_count_usize None)) (\<lambda>_.
     Ok ())))"

definition tv_slot :: "Layout \<Rightarrow> int \<times> int \<Rightarrow> int validation_result" where
  "tv_slot tv = (\<lambda>(thread, v).
     ok_or (checked_call tv (tv_coord thread v)) (ValidationOverflow ''TV-layout address''))"

definition validate_tv_exact_coverage :: "Layout \<Rightarrow> int \<Rightarrow> int \<Rightarrow> int \<Rightarrow> unit validation_result" where
  "validate_tv_exact_coverage tv thread_count values_per_thread tile_elements =
     try_let (positive_count ''thread count'' thread_count) (\<lambda>thread_count.
     try_let (positive_count ''values per thread'' values_per_thread) (\<lambda>values_per_thread.
     try_let (positive_count ''tile elements'' tile_elements) (\<lambda>tile_elements.
     let modes = layout_modes tv in
     if length modes \<noteq> 2 then Err (TvRank (length modes))
     else
     try_let (ok_or (checked_size (modes ! 0)) (ValidationOverflow ''TV thread-mode size'')) (\<lambda>thread_mode_size.
     if thread_mode_size \<noteq> thread_count then Err (TvModeSize ''thread'' thread_count thread_mode_size)
     else
     try_let (ok_or (checked_size (modes ! 1)) (ValidationOverflow ''TV value-mode size'')) (\<lambda>value_mode_size.
     if value_mode_size \<noteq> values_per_thread then Err (TvModeSize ''value'' values_per_thread value_mode_size)
     else
     try_let (ok_or (i64_mul thread_count values_per_thread) (ValidationOverflow ''TV assignment count'')) (\<lambda>assignments.
     if assignments \<noteq> tile_elements then Err (TvCardinality assignments tile_elements)
     else
     try_let (host_count ''tile elements'' tile_elements) (\<lambda>n.
     try_let (owner_scan (tv_slot tv)
                (\<lambda>(thread, v) cell. TvOutOfRange thread v cell tile_elements)
                (\<lambda>cell first second. DuplicateCell cell first second)
                tile_elements (List.product [0..thread_count - 1] [0..values_per_thread - 1])
                (replicate n None)) (\<lambda>owners.
     case find (\<lambda>i. owners ! i = None) [0..<length owners] of
       Some cell \<Rightarrow> Err (MissingCell (int cell))
     | None \<Rightarrow> Ok ()))))))))"

fun tiler_elements :: "int \<Rightarrow> int list \<Rightarrow> int validation_result" where
  "tiler_elements acc [] = Ok acc"
| "tiler_elements acc (extent # es) =
     try_let (positive_count ''tiler extent'' extent) (\<lambda>extent.
     try_let (ok_or (i64_mul acc extent) (ValidationOverflow ''tiler element count'')) (\<lambda>acc'.
     tiler_elements acc' es))"

definition validate_tv_layout :: "Layout \<Rightarrow> Layout \<Rightarrow> int list \<Rightarrow> Layout \<Rightarrow> unit validation_result" where
  "validate_tv_layout thread_layout value_layout tiler_shape tv =
     try_let (validate_compact_thread_layout thread_layout) (\<lambda>_.
     try_let (tiler_elements 1 tiler_shape) (\<lambda>tile_elements.
     try_let (ok_or (checked_size thread_layout) (ValidationOverflow ''thread layout size'')) (\<lambda>thread_count.
     try_let (ok_or (checked_size value_layout) (ValidationOverflow ''value layout size'')) (\<lambda>values_per_thread.
     validate_tv_exact_coverage tv thread_count values_per_thread tile_elements))))"

section \<open>Copy atoms\<close>

definition validate_atom_compatibility :: "int \<Rightarrow> int \<Rightarrow> int \<Rightarrow> int \<Rightarrow> unit validation_result" where
  "validate_atom_compatibility copy_threads copy_values_per_thread atom_threads atom_values_per_thread =
     try_let (positive_count ''copy thread count'' copy_threads) (\<lambda>copy_threads.
     try_let (positive_count ''copy values per thread'' copy_values_per_thread) (\<lambda>copy_values_per_thread.
     try_let (positive_count ''atom thread count'' atom_threads) (\<lambda>atom_threads.
     try_let (positive_count ''atom values per thread'' atom_values_per_thread) (\<lambda>atom_values_per_thread.
     if copy_threads smod atom_threads \<noteq> 0 then Err (AtomDoesNotDivide ''thread'' copy_threads atom_threads)
     else if copy_values_per_thread smod atom_values_per_thread \<noteq> 0
     then Err (AtomDoesNotDivide ''value'' copy_values_per_thread atom_values_per_thread)
     else Ok ()))))"

text \<open>The first local value of every atom of a thread: \<open>(0..n).step_by(k)\<close>.\<close>

definition step_by :: "int \<Rightarrow> int \<Rightarrow> int list" where
  "step_by n k = filter (\<lambda>v. v mod k = 0) [0..n - 1]"

definition check_atom_byte ::
    "Layout \<Rightarrow> int \<Rightarrow> ComposedLayout \<Rightarrow> int \<Rightarrow> int \<Rightarrow> int \<Rightarrow> int \<Rightarrow> unit validation_result" where
  "check_atom_byte tv element_bytes memory thread first_value first_offset byte_in_atom =
     (let value_delta = byte_in_atom sdiv element_bytes;
          byte_in_element = byte_in_atom smod element_bytes in
      try_let (ok_or (i64_add first_value value_delta) (ValidationOverflow ''TV atom value'')) (\<lambda>v.
      try_let (ok_or (checked_call tv (tv_coord thread v)) (ValidationOverflow ''TV atom address'')) (\<lambda>cell.
      try_let (ok_or (checked_call_with_outer_delta memory (Leaf cell) byte_in_element)
                 (ValidationOverflow ''memory atom address'')) (\<lambda>actual.
      try_let (ok_or (i64_add first_offset byte_in_atom) (ValidationOverflow ''expected atom byte address'')) (\<lambda>expected.
      if actual \<noteq> expected then Err (AtomNotContiguous thread first_value byte_in_atom expected actual)
      else Ok ())))))"

definition check_atom ::
    "Layout \<Rightarrow> int \<Rightarrow> int \<Rightarrow> ComposedLayout \<Rightarrow> int \<times> int \<Rightarrow> unit validation_result" where
  "check_atom tv atom_bytes element_bytes memory = (\<lambda>(thread, first_value).
     try_let (ok_or (checked_call tv (tv_coord thread first_value)) (ValidationOverflow ''TV atom start'')) (\<lambda>first_cell.
     try_let (ok_or (composed_checked_call memory (Leaf first_cell)) (ValidationOverflow ''memory atom start''))
       (\<lambda>first_offset.
     if first_offset mod atom_bytes \<noteq> 0
     then Err (AtomStartMisaligned thread first_value first_offset atom_bytes)
     else for_each (check_atom_byte tv element_bytes memory thread first_value first_offset) [0..atom_bytes - 1])))"

definition validate_per_thread_atom_contiguity ::
    "Layout \<Rightarrow> int \<Rightarrow> int \<Rightarrow> int \<Rightarrow> int \<Rightarrow> ComposedLayout \<Rightarrow> int \<Rightarrow> unit validation_result" where
  "validate_per_thread_atom_contiguity tv thread_count values_per_thread atom_bytes element_bytes memory
     base_alignment_bytes =
     try_let (positive_count ''atom bytes'' atom_bytes) (\<lambda>atom_bytes.
     try_let (positive_count ''element bytes'' element_bytes) (\<lambda>element_bytes.
     if atom_bytes smod element_bytes \<noteq> 0 then Err (AtomSize atom_bytes element_bytes)
     else if offset_unit memory \<noteq> Bytes then Err AtomNeedsByteLayout
     else
     try_let (ok_or (checked_size (outer memory)) (ValidationOverflow ''memory layout size'')) (\<lambda>memory_size.
     try_let (validate_tv_exact_coverage tv thread_count values_per_thread memory_size) (\<lambda>_.
     let values_per_atom = atom_bytes sdiv element_bytes in
     try_let (host_count ''atom values per thread'' values_per_atom) (\<lambda>_.
     try_let (validate_atom_compatibility thread_count values_per_thread 1 values_per_atom) (\<lambda>_.
     try_let (positive_count ''base alignment'' base_alignment_bytes) (\<lambda>base_alignment_bytes.
     if base_alignment_bytes smod atom_bytes \<noteq> 0 then Err (BaseAlignment atom_bytes base_alignment_bytes)
     else for_each (check_atom tv atom_bytes element_bytes memory)
            (List.product [0..thread_count - 1] (step_by values_per_thread values_per_atom)))))))))"

section \<open>TMA\<close>

definition validate_tma_encodable :: "ComposedLayout \<Rightarrow> int \<Rightarrow> unit validation_result" where
  "validate_tma_encodable smem_layout element_bytes =
     try_let (positive_count ''TMA element bytes'' element_bytes) (\<lambda>_.
     if element_bytes AND (element_bytes - 1) \<noteq> 0
     then Err (InvalidCount ''TMA element byte width must be a power of two'' element_bytes)
     else if offset_unit smem_layout \<noteq> Elements
     then Err (InvalidCount ''TMA shared layout offsets must count elements'' 0)
     else
     let modes = layout_modes (outer smem_layout) in
     if length modes \<noteq> 2 then Err (TvRank (length modes))
     else
     try_let (ok_or (checked_size (modes ! 0)) (ValidationOverflow ''TMA tile rows'')) (\<lambda>rows.
     try_let (ok_or (checked_size (modes ! 1)) (ValidationOverflow ''TMA tile columns'')) (\<lambda>columns.
     try_let (positive_count ''TMA tile rows'' rows) (\<lambda>_.
     try_let (positive_count ''TMA tile columns'' columns) (\<lambda>_.
     if tuple_flatten (stride (modes ! 0)) \<noteq> [columns] \<or> tuple_flatten (stride (modes ! 1)) \<noteq> [1]
     then try_let (or_panic (i64_mul rows columns)) (\<lambda>v.
       Err (InvalidCount ''TMA tile must be row-major (row stride = columns, column stride = 1)'' v))
     else if offset smem_layout \<noteq> 0
     then Err (InvalidCount ''TMA cannot express a composed offset'' (offset smem_layout))
     else
     let swizzle = inner smem_layout in
     if num_bits swizzle = 0 then Ok ()
     else
     let m_bytes = int (num_base swizzle) + int (trailing_zeros (nat element_bytes)) in
     if num_bits swizzle > 3 \<or> m_bytes \<noteq> 4 \<or> num_shift swizzle \<noteq> 3
     then Err (InvalidCount ''swizzle is not one of TMA's encodable byte-unit S<B,4,3> modes'' (int (num_bits swizzle)))
     else
     try_let (or_panic (i64_mul columns element_bytes)) (\<lambda>pitch_bytes.
     if pitch_bytes \<noteq> push_bit (num_bits swizzle) 16
     then Err (InvalidCount ''swizzled TMA tile pitch must equal the swizzle span'' pitch_bytes)
     else Ok ()))))))"

definition tma_phase_alignment_bytes :: "ComposedLayout \<Rightarrow> int \<Rightarrow> int validation_result" where
  "tma_phase_alignment_bytes smem_layout element_bytes =
     try_let (validate_tma_encodable smem_layout element_bytes) (\<lambda>_.
     let swizzle = inner smem_layout in
     if num_bits swizzle = 0 then Ok 16
     else
     try_let (ok_or (do { bits \<leftarrow> u32_checked_add 4 (num_bits swizzle); u32_checked_add bits 3 })
                (ValidationOverflow ''TMA swizzle phase alignment exponent'')) (\<lambda>phase_bits.
     if phase_bits < 64 then Ok (signed_take_bit 63 (push_bit phase_bits 1))
     else Err (ValidationOverflow ''TMA swizzle phase alignment'')))"

section \<open>ldmatrix\<close>

definition check_ldmatrix_element ::
    "ComposedLayout \<Rightarrow> int \<Rightarrow> int \<Rightarrow> int \<Rightarrow> int \<Rightarrow> int \<Rightarrow> unit validation_result" where
  "check_ldmatrix_element smem rows row block base element =
     (let cell = row + rows * (block * 8 + element) in
      try_let (ok_or (composed_checked_call smem (Leaf cell))
                 (InvalidCount ''ldmatrix segment element is unmappable'' cell)) (\<lambda>byte.
      try_let (or_panic (i64_add base (element * 2))) (\<lambda>expected.
      if byte \<noteq> expected then Err (AtomNotContiguous row block (element * 2) expected byte) else Ok ())))"

definition check_ldmatrix_segment ::
    "ComposedLayout \<Rightarrow> int \<Rightarrow> int \<times> int \<Rightarrow> unit validation_result" where
  "check_ldmatrix_segment smem rows = (\<lambda>(row, block).
     let first_cell = row + rows * (block * 8) in
     try_let (ok_or (composed_checked_call smem (Leaf first_cell))
                (InvalidCount ''ldmatrix segment base is unmappable'' first_cell)) (\<lambda>base.
     if base smod 16 \<noteq> 0 then Err (AtomStartMisaligned row block base 16)
     else for_each (check_ldmatrix_element smem rows row block base) [1..7]))"

definition validate_ldmatrix_source :: "ComposedLayout \<Rightarrow> int \<Rightarrow> int \<Rightarrow> unit validation_result" where
  "validate_ldmatrix_source smem rows columns =
     try_let (positive_count ''ldmatrix rows'' rows) (\<lambda>rows.
     try_let (positive_count ''ldmatrix columns'' columns) (\<lambda>columns.
     if rows smod 8 \<noteq> 0 \<or> columns smod 8 \<noteq> 0
     then try_let (or_panic (i64_mul rows columns)) (\<lambda>v.
       Err (InvalidCount ''ldmatrix tile extents must be multiples of 8'' v))
     else
     try_let (ok_or (i64_mul rows columns) (CountTooLarge ''ldmatrix tile elements'' i64_max)) (\<lambda>tile_size.
     try_let (host_count ''ldmatrix tile elements'' tile_size) (\<lambda>_.
     for_each (check_ldmatrix_segment smem rows) (List.product [0..rows - 1] [0..columns sdiv 8 - 1])))))"

end
