(* ===== verification/Cute_Validation_Properties.thy ===== *)
theory Cute_Validation_Properties
  imports Cute_Validation Cute_Layout_Properties
begin

text \<open>
  What a successful check proves. The scan shared by the ownership checks is specified once, in the
  locale \<open>owner_table\<close>: it succeeds exactly when the owners get pairwise different slots in range.
  The locale is interpreted on the thread scan and on the thread/value scan.
\<close>

section \<open>The ownership scan\<close>

locale owner_table =
  fixes slot_of :: "'c \<Rightarrow> int validation_result"
    and slot :: "'c \<Rightarrow> int option"
  assumes slot_of_Ok: "slot_of c = Ok k \<longleftrightarrow> slot c = Some k"
    and slot_of_no_panic: "slot_of c \<noteq> Panic"
begin

definition claims :: "int \<Rightarrow> 'c list \<Rightarrow> 'c option list \<Rightarrow> bool" where
  "claims n cs owners \<longleftrightarrow>
     (\<forall>c \<in> set cs. \<exists>k. slot c = Some k \<and> 0 \<le> k \<and> k < n \<and> owners ! nat k = None) \<and>
     inj_on slot (set cs) \<and> distinct cs"

lemma claims_Cons:
  assumes "slot c = Some k" and "0 \<le> k" and "k < n" and "owners ! nat k = None" and "length owners = nat n"
  shows "claims n (c # cs) owners \<longleftrightarrow> claims n cs (owners[nat k := Some c])"
proof -
  have upd: "owners[nat k := Some c] ! nat j = None \<longleftrightarrow> owners ! nat j = None \<and> j \<noteq> k"
    if "0 \<le> j" "j < n" for j
    using that assms(2,3,5) by (auto simp: nth_list_update nat_eq_iff)
  show ?thesis
  proof
    assume L: "claims n (c # cs) owners"
    have "slot c' \<noteq> Some k" if "c' \<in> set cs" for c'
      using L that assms(1) unfolding claims_def by (metis distinct.simps(2) inj_onD list.set_intros)
    then show "claims n cs (owners[nat k := Some c])"
      using L upd unfolding claims_def by (metis distinct.simps(2) inj_on_subset list.set_intros(2) set_subset_Cons)
  next
    assume R: "claims n cs (owners[nat k := Some c])"
    have ne: "slot c' \<noteq> Some k" if "c' \<in> set cs" for c' using R that upd unfolding claims_def by fastforce
    moreover have "c \<notin> set cs" using ne assms(1) by blast
    ultimately show "claims n (c # cs) owners"
      using R upd assms(1-4) unfolding claims_def by (auto simp: inj_on_def)
  qed
qed

lemma scan_Ok_iff:
  assumes "length owners = nat n"
  shows "(\<exists>owners'. owner_scan slot_of e1 e2 n cs owners = Ok owners') \<longleftrightarrow> claims n cs owners"
  using assms
proof (induction cs arbitrary: owners)
  case Nil
  then show ?case by (simp add: claims_def)
next
  case (Cons c cs)
  show ?case
  proof (cases "\<exists>k. slot c = Some k \<and> 0 \<le> k \<and> k < n \<and> owners ! nat k = None")
    case True
    then obtain k where k: "slot c = Some k" "0 \<le> k" "k < n" "owners ! nat k = None" by blast
    then have "owner_scan slot_of e1 e2 n (c # cs) owners = owner_scan slot_of e1 e2 n cs (owners[nat k := Some c])"
      using slot_of_Ok [of c k] by simp
    then show ?thesis using Cons.IH [of "owners[nat k := Some c]"] Cons.prems claims_Cons [OF k Cons.prems] by simp
  next
    case False
    then have "\<not> claims n (c # cs) owners" by (auto simp: claims_def)
    moreover have "owner_scan slot_of e1 e2 n (c # cs) owners \<noteq> Ok owners'" for owners'
      using False slot_of_Ok [of c] by (auto simp: outcome_simps split: option.splits)
    ultimately show ?thesis by simp
  qed
qed

text \<open>What the table holds afterwards: an old entry, or the owner of the slot.\<close>

lemma scan_table:
  assumes "owner_scan slot_of e1 e2 n cs owners = Ok owners'" and "length owners = nat n"
  shows "length owners' = nat n \<and>
    (\<forall>i < nat n. owners' ! i = None \<longleftrightarrow> owners ! i = None \<and> (\<forall>c \<in> set cs. slot c \<noteq> Some (int i)))"
  using assms
proof (induction cs arbitrary: owners)
  case (Cons c cs)
  from Cons.prems(1) obtain k where k: "slot c = Some k" "0 \<le> k" "k < n" "owners ! nat k = None"
      "owner_scan slot_of e1 e2 n cs (owners[nat k := Some c]) = Ok owners'"
    using slot_of_Ok [of c] by (auto simp: outcome_simps split: if_splits option.splits)
  have "length (owners[nat k := Some c]) = nat n" using Cons.prems(2) by simp
  note ih = Cons.IH [OF k(5) this]
  have upd: "owners[nat k := Some c] ! i = None \<longleftrightarrow> owners ! i = None \<and> int i \<noteq> k" if "i < nat n" for i
    using that k(2,3) Cons.prems(2) by (auto simp: nth_list_update)
  show ?case using ih upd k(1) by (simp only: set_ConsD list.set ball_simps) auto
qed simp

lemma scan_no_panic: "owner_scan slot_of e1 e2 n cs owners \<noteq> Panic"
  by (induction cs arbitrary: owners) (auto simp: outcome_simps slot_of_no_panic split: option.splits)

text \<open>On an empty table, success is a bijection onto the slots once there are as many owners.\<close>

lemma claims_bij:
  assumes "distinct cs" and "int (length cs) = n"
  shows "claims n cs (replicate (nat n) None) \<longleftrightarrow> bij_betw slot (set cs) (Some ` {0..<n})"
proof
  assume C: "claims n cs (replicate (nat n) None)"
  then have sub: "slot ` set cs \<subseteq> Some ` {0..<n}" by (force simp: claims_def)
  have inj: "inj_on slot (set cs)" using C by (simp add: claims_def)
  have "card (slot ` set cs) = card (Some ` {0..<n})"
    using assms(2) distinct_card [OF assms(1)] card_image [OF inj] by (simp add: card_image)
  then have "slot ` set cs = Some ` {0..<n}" using card_subset_eq [OF _ sub] by simp
  then show "bij_betw slot (set cs) (Some ` {0..<n})" using inj by (simp add: bij_betw_def)
next
  assume B: "bij_betw slot (set cs) (Some ` {0..<n})"
  have "\<exists>k. slot c = Some k \<and> 0 \<le> k \<and> k < n \<and> (replicate (nat n) None :: 'c option list) ! nat k = None"
    if "c \<in> set cs" for c
  proof -
    have "slot c \<in> Some ` {0..<n}" using B that by (auto simp: bij_betw_def)
    then show ?thesis by auto
  qed
  then show "claims n cs (replicate (nat n) None)"
    unfolding claims_def using B assms(1) by (simp add: bij_betw_def)
qed

end

interpretation thread_table: owner_table "thread_slot l" "\<lambda>c. checked_call l (Leaf c)" for l
  by unfold_locales (auto simp: thread_slot_def outcome_simps)

interpretation tv_table: owner_table "tv_slot tv" "\<lambda>(t, v). checked_call tv (tv_coord t v)" for tv
  by unfold_locales (auto simp: tv_slot_def outcome_simps split: prod.splits)


section \<open>Thread and thread/value layouts\<close>

lemma upto_range: "set [0..n - 1] = {0..<n}" "length [0..n - 1] = nat n" for n :: int
  by auto

lemma product_range:
  "set (List.product [0..t - 1] [0..v - 1]) = {0..<t} \<times> {0..<v}"
  "distinct (List.product [0..t - 1] [0..v - 1])"
  "0 < t \<Longrightarrow> 0 < v \<Longrightarrow> int (length (List.product [0..t - 1] [0..v - 1])) = t * v"
  by (auto simp: distinct_product)

text \<open>\<open>validate_compact_thread_layout\<close> decides compactness: it succeeds exactly on the layouts
  of a valid size within the enumeration limit whose coordinates map one to one onto the thread
  numbers below that size.\<close>

theorem compact_thread_layout_iff:
  "validate_compact_thread_layout l = Ok () \<longleftrightarrow>
     (\<exists>n. checked_size l = Some n \<and> n \<le> MAX_STATIC_VALIDATION_ELEMENTS \<and>
        bij_betw (\<lambda>c. checked_call l (Leaf c)) {0..<n} (Some ` {0..<n}))"
proof (cases "checked_size l")
  case None
  then show ?thesis by (simp add: validate_compact_thread_layout_def)
next
  case (Some n)
  then have n: "0 < n" using checked_tuple_size_Some by (simp add: checked_size_def)
  have "(\<exists>x. owner_scan (thread_slot l) e1 e2 n [0..n - 1] (replicate (nat n) None) = Ok x) \<longleftrightarrow>
      bij_betw (\<lambda>c. checked_call l (Leaf c)) {0..<n} (Some ` {0..<n})" for e1 e2
    using thread_table.scan_Ok_iff [of "replicate (nat n) None" n l e1 e2 "[0..n - 1]"]
      thread_table.claims_bij [of "[0..n - 1]" n l, unfolded upto_range(1)] n by simp
  then show ?thesis
    using Some n by (auto simp: validate_compact_thread_layout_def outcome_simps host_count_def)
qed

lemma tv_coverage_decided:
  "validate_tv_exact_coverage tv t v n = Ok () \<longleftrightarrow>
     0 < t \<and> 0 < v \<and> n = t * v \<and> n \<le> MAX_STATIC_VALIDATION_ELEMENTS \<and>
     (\<exists>m0 m1. layout_modes tv = [m0, m1] \<and> checked_size m0 = Some t \<and> checked_size m1 = Some v) \<and>
     bij_betw (\<lambda>(thread, local). checked_call tv (tv_coord thread local)) ({0..<t} \<times> {0..<v}) (Some ` {0..<n})"
proof -
  let ?f = "\<lambda>(thread, local). checked_call tv (tv_coord thread local)"
  let ?cs = "List.product [0..t - 1] [0..v - 1]"
  let ?start = "\<lambda>n. replicate (nat n) None :: (int \<times> int) option list"
  have scan: "(\<exists>x. owner_scan (tv_slot tv) e1 e2 n ?cs (?start n) = Ok x) \<longleftrightarrow>
      bij_betw ?f ({0..<t} \<times> {0..<v}) (Some ` {0..<n})" if "0 < t" "0 < v" "n = t * v" for e1 e2
    using tv_table.scan_Ok_iff [of "?start n" n tv e1 e2 ?cs] tv_table.claims_bij [OF product_range(2), of t v n tv]
      product_range(1) [of t v] product_range(3) [OF that(1,2)] that by simp
  have full: "find (\<lambda>i. owners ! i = None) [0..<length owners] = None"
    if h: "owner_scan (tv_slot tv) e1 e2 n ?cs (?start n) = Ok owners" "0 < t" "0 < v" "n = t * v" for e1 e2 owners
  proof -
    note T = tv_table.scan_table [OF h(1)]
    have "bij_betw ?f ({0..<t} \<times> {0..<v}) (Some ` {0..<n})" using scan [OF h(2-4)] h(1) by blast
    then have img: "?f ` set ?cs = Some ` {0..<n}" unfolding product_range(1) by (rule bij_betw_imp_surj_on)
    have "owners ! i \<noteq> None" if "i < nat n" for i
    proof -
      have "Some (int i) \<in> ?f ` set ?cs" unfolding img using that by auto
      then obtain c where "c \<in> set ?cs" "?f c = Some (int i)" by force
      then show ?thesis using T that by (simp del: set_product) blast
    qed
    then have "\<forall>i \<in> set [0..<length owners]. owners ! i \<noteq> None" using T by auto
    then show ?thesis by (simp add: find_None_iff)
  qed
  have modes: "length ms = 2 \<longleftrightarrow> (\<exists>m0 m1. ms = [m0, m1])" for ms :: "Layout list"
    by (auto simp: numeral_2_eq_2 length_Suc_conv)
  show ?thesis (is "?L \<longleftrightarrow> ?R")
  proof
    assume ?L
    then have pos: "0 < t" "0 < v" and lim: "n \<le> MAX_STATIC_VALIDATION_ELEMENTS" and n: "n = t * v"
      and two: "length (layout_modes tv) = 2" and sz: "checked_size (layout_modes tv ! 0) = Some t"
        "checked_size (layout_modes tv ! 1) = Some v"
      and sc: "\<exists>x. owner_scan (tv_slot tv) (\<lambda>(thread, v) cell. TvOutOfRange thread v cell n)
          (\<lambda>cell first second. DuplicateCell cell first second) n ?cs (?start n) = Ok x"
      unfolding validate_tv_exact_coverage_def
      by (auto simp: outcome_simps positive_count_def host_count_def i64_simps Let_def
          simp del: layout_modes.simps split: if_splits)
    then show ?R using scan [OF pos n] modes by auto
  next
    assume R: ?R
    then obtain m0 m1 where m: "layout_modes tv = [m0, m1]" "checked_size m0 = Some t" "checked_size m1 = Some v" by blast
    have pos: "0 < t" "0 < v" "n = t * v" "n \<le> MAX_STATIC_VALIDATION_ELEMENTS" "0 < n" using R by auto
    then have "in_i64 n" unfolding in_i64_def MAX_STATIC_VALIDATION_ELEMENTS_def by linarith
    then have fit: "i64_mul t v = Some n" by (simp add: i64_mul_def i64_fit_def flip: pos(3))
    obtain x where x: "owner_scan (tv_slot tv) (\<lambda>(thread, v) cell. TvOutOfRange thread v cell n)
          (\<lambda>cell first second. DuplicateCell cell first second) n ?cs (?start n) = Ok x"
      using scan [OF pos(1-3)] R by blast
    show ?L
      unfolding validate_tv_exact_coverage_def
      using m pos(1,2,4,5) x full [OF x pos(1-3)] fit
      by (simp add: positive_count_def host_count_def del: layout_modes.simps)
  qed
qed

text \<open>(C27) \<open>validate_tv_exact_coverage\<close> decides exact coverage: it succeeds exactly when the layout has
  a thread mode and a value mode of the given sizes, there are as many pairs as cells (within the
  enumeration limit), and every cell below \<open>tile_elements\<close> is owned by exactly one pair.\<close>

theorem tv_exact_coverage_iff:
  "validate_tv_exact_coverage tv t v n = Ok () \<longleftrightarrow>
     0 < t \<and> 0 < v \<and> n = t * v \<and> n \<le> MAX_STATIC_VALIDATION_ELEMENTS \<and>
     (\<exists>m0 m1. layout_modes tv = [m0, m1] \<and> checked_size m0 = Some t \<and> checked_size m1 = Some v) \<and>
     bij_betw (\<lambda>(thread, local). checked_call tv (tv_coord thread local)) ({0..<t} \<times> {0..<v}) (Some ` {0..<n})"
  by (rule tv_coverage_decided)


section \<open>Copy atoms\<close>

lemma step_by_set: "0 < k \<Longrightarrow> set (step_by n k) = {v. 0 \<le> v \<and> v < n \<and> k dvd v}"
  by (auto simp: step_by_def dvd_eq_mod_eq_0)

lemma atom_bytes_consecutive:
  assumes "validate_per_thread_atom_contiguity tv t v atom_bytes element_bytes memory align = Ok ()"
    and "0 \<le> thread" and "thread < t" and "0 \<le> first" and "first < v"
    and "(atom_bytes div element_bytes) dvd first"
  shows "\<exists>start. atom_bytes dvd start \<and>
    (\<forall>b. 0 \<le> b \<and> b < atom_bytes \<longrightarrow>
      (\<exists>cell. checked_call tv (tv_coord thread (first + b div element_bytes)) = Some cell \<and>
        checked_call_with_outer_delta memory (Leaf cell) (b mod element_bytes) = Some (start + b)))"
proof -
  have pos: "0 < atom_bytes" "0 < element_bytes" "atom_bytes mod element_bytes = 0"
    and loop: "for_each (check_atom tv atom_bytes element_bytes memory)
      (List.product [0..t - 1] (step_by v (atom_bytes sdiv element_bytes))) = Ok ()"
    using assms(1)
    by (auto simp: validate_per_thread_atom_contiguity_def outcome_simps positive_count_def Let_def smod_nonneg
        split: if_splits)
  have k: "atom_bytes sdiv element_bytes = atom_bytes div element_bytes" using pos by (simp add: sdiv_nonneg)
  have "0 < atom_bytes div element_bytes"
    using pos zdvd_imp_le [of element_bytes atom_bytes] by (simp add: pos_imp_zdiv_pos_iff dvd_eq_mod_eq_0)
  then have "(thread, first) \<in> set (List.product [0..t - 1] (step_by v (atom_bytes sdiv element_bytes)))"
    using assms(2-6) k by (simp add: step_by_set)
  then have "check_atom tv atom_bytes element_bytes memory (thread, first) = Ok ()"
    using loop unfolding for_each_Ok_iff by blast
  then obtain start where start: "atom_bytes dvd start"
    and bytes: "\<forall>b \<in> {0..atom_bytes - 1}. check_atom_byte tv element_bytes memory thread first start b = Ok ()"
    by (auto simp: check_atom_def outcome_simps dvd_eq_mod_eq_0 [symmetric] split: if_splits)
  have "\<exists>cell. checked_call tv (tv_coord thread (first + b div element_bytes)) = Some cell \<and>
        checked_call_with_outer_delta memory (Leaf cell) (b mod element_bytes) = Some (start + b)"
    if b: "0 \<le> b" "b < atom_bytes" for b
  proof -
    have "check_atom_byte tv element_bytes memory thread first start b = Ok ()" using bytes b by simp
    then show ?thesis
      using b(1) pos(2) by (auto simp: check_atom_byte_def outcome_simps Let_def i64_simps sdiv_nonneg smod_nonneg split: if_splits)
  qed
  then show ?thesis using start by blast
qed

text \<open>A successful contiguity check proves what one vector transaction needs: every atom of every
  thread starts at a byte that is a multiple of the atom width, and byte \<open>b\<close> of the atom, which is
  byte \<open>b mod element_bytes\<close> of local value \<open>first + b div element_bytes\<close>, is mapped to that start
  plus \<open>b\<close>.\<close>

theorem atom_contiguity_sound:
  assumes "validate_per_thread_atom_contiguity tv t v atom_bytes element_bytes memory align = Ok ()"
    and "0 \<le> thread" and "thread < t" and "0 \<le> first" and "first < v"
    and "(atom_bytes div element_bytes) dvd first"
  shows "\<exists>start. atom_bytes dvd start \<and>
    (\<forall>b. 0 \<le> b \<and> b < atom_bytes \<longrightarrow>
      (\<exists>cell. checked_call tv (tv_coord thread (first + b div element_bytes)) = Some cell \<and>
        checked_call_with_outer_delta memory (Leaf cell) (b mod element_bytes) = Some (start + b)))"
  using assms by (rule atom_bytes_consecutive)

text \<open>The four-cell example of the documentation: two threads, two \<open>f32\<close> values each.\<close>

definition f32_tv :: Layout where
  "f32_tv = \<lparr>shape = Tuple [Leaf 2, Leaf 2], stride = Tuple [Leaf 1, Leaf 2]\<rparr>"

definition f32_bytes :: ComposedLayout where
  "f32_bytes = \<lparr>inner = \<lparr>num_bits = 0, num_base = 6, num_shift = 3\<rparr>, offset = 0,
     outer = \<lparr>shape = Tuple [Leaf 2, Leaf 2], stride = Tuple [Leaf 8, Leaf 4]\<rparr>, offset_unit = Bytes\<rparr>"

theorem atom_contiguity_sound_witness:
  "\<exists>start. 8 dvd start \<and>
    (\<forall>b. 0 \<le> b \<and> b < 8 \<longrightarrow>
      (\<exists>cell. checked_call f32_tv (tv_coord 1 (0 + b div 4)) = Some cell \<and>
        checked_call_with_outer_delta f32_bytes (Leaf cell) (b mod 4) = Some (start + b)))"
proof -
  have "validate_per_thread_atom_contiguity f32_tv 2 2 8 4 f32_bytes 8 = Ok ()" by code_simp
  then show ?thesis by (rule atom_contiguity_sound) simp_all
qed

text \<open>A successful \<open>validate_ldmatrix_source\<close> proves that each of the eight-element row segments of
  the tile is sixteen consecutive bytes from a sixteen-byte boundary, for every row and every block
  of eight columns.\<close>

theorem ldmatrix_source_sound:
  assumes "validate_ldmatrix_source smem rows columns = Ok ()"
    and "0 \<le> row" and "row < rows" and "0 \<le> block" and "block * 8 < columns" and "0 \<le> e" and "e < 8"
  shows "\<exists>base. 16 dvd base \<and> composed_checked_call smem (Leaf (row + rows * (block * 8))) = Some base \<and>
    composed_checked_call smem (Leaf (row + rows * (block * 8 + e))) = Some (base + 2 * e)"
proof -
  have pos: "0 < rows" "0 < columns" "columns mod 8 = 0"
    and loop: "for_each (check_ldmatrix_segment smem rows) (List.product [0..rows - 1] [0..columns sdiv 8 - 1]) = Ok ()"
    using assms(1)
    by (auto simp: validate_ldmatrix_source_def outcome_simps positive_count_def smod_nonneg split: if_splits)
  have "block < columns div 8" using pos(3) assms(5) by auto
  then have "(row, block) \<in> set (List.product [0..rows - 1] [0..columns sdiv 8 - 1])"
    using assms(2-4) pos(2) by (simp add: sdiv_nonneg)
  then have "check_ldmatrix_segment smem rows (row, block) = Ok ()"
    using loop unfolding for_each_Ok_iff by blast
  then obtain base where base: "composed_checked_call smem (Leaf (row + rows * (block * 8))) = Some base" "base smod 16 = 0"
    and els: "\<forall>e \<in> {1..7}. check_ldmatrix_element smem rows row block base e = Ok ()"
    by (auto simp: check_ldmatrix_segment_def outcome_simps Let_def split: if_splits)
  have "16 dvd base" using mult_sdiv_smod_eq [of 16 base] base(2) by (metis add.right_neutral dvd_triv_left)
  moreover have "composed_checked_call smem (Leaf (row + rows * (block * 8 + e))) = Some (base + 2 * e)"
  proof (cases "e = 0")
    case True
    then show ?thesis using base(1) by simp
  next
    case False
    then have "check_ldmatrix_element smem rows row block base e = Ok ()" using els assms(6,7) by simp
    then show ?thesis by (auto simp: check_ldmatrix_element_def outcome_simps Let_def i64_simps mult.commute split: if_splits)
  qed
  ultimately show ?thesis using base(1) by blast
qed

definition f16_tile :: ComposedLayout where
  "f16_tile = \<lparr>inner = \<lparr>num_bits = 0, num_base = 5, num_shift = 3\<rparr>, offset = 0,
     outer = \<lparr>shape = Tuple [Leaf 8, Leaf 16], stride = Tuple [Leaf 32, Leaf 2]\<rparr>, offset_unit = Bytes\<rparr>"

theorem ldmatrix_source_sound_witness:
  "\<exists>base. 16 dvd base \<and> composed_checked_call f16_tile (Leaf (3 + 8 * (1 * 8))) = Some base \<and>
    composed_checked_call f16_tile (Leaf (3 + 8 * (1 * 8 + 5))) = Some (base + 2 * 5)"
proof -
  have "validate_ldmatrix_source f16_tile 8 16 = Ok ()" by code_simp
  then show ?thesis by (rule ldmatrix_source_sound) simp_all
qed

end
