(* ===== verification/Cute_Cooperative.thy ===== *)
theory Cute_Cooperative
  imports Cute_Validation_Properties
begin

text \<open>
  The validator of a whole block-wide global-to-shared copy
  (\<open>cute-layout/src/validation/cooperative.rs\<close>) and what an accepted plan guarantees. The ordered
  map of byte owners is a partial function; every message of the code is kept.
\<close>

section \<open>The plan\<close>

record CooperativeCopyPlan =
  tiler_shape :: "int list"
  tv_layout :: Layout
  gmem_byte_layout :: ComposedLayout
  smem_byte_layout :: ComposedLayout
  thread_count :: int
  values_per_thread :: int
  tile_elements :: int
  minimum_smem_capacity :: int

datatype CooperativePlanError = CooperativePlanError string

type_synonym 'a plan_result = "('a, CooperativePlanError) outcome"

definition checked_plan_layout_size :: "Layout \<Rightarrow> string \<Rightarrow> int plan_result" where
  "checked_plan_layout_size layout role =
     try_let (ok_or (checked_size layout)
                (CooperativePlanError (role @ '' layout size is invalid or overflows i64''))) (\<lambda>size.
     if size > MAX_STATIC_VALIDATION_ELEMENTS
     then Err (CooperativePlanError (role @ '' layout has '' @ show_int size @
            '' elements; static validation limit is '' @ show_int MAX_STATIC_VALIDATION_ELEMENTS))
     else Ok size)"

definition validate_plan_layout_arithmetic :: "Layout \<Rightarrow> string \<Rightarrow> unit plan_result" where
  "validate_plan_layout_arithmetic layout role =
     try_let (for_each (\<lambda>st.
         if \<bar>st\<bar> > MAX_STATIC_LAYOUT_OFFSET_MAGNITUDE
         then Err (CooperativePlanError (role @ '' layout stride '' @ show_int st @
                '' exceeds static magnitude limit '' @ show_int MAX_STATIC_LAYOUT_OFFSET_MAGNITUDE))
         else Ok ()) (tuple_flatten (stride layout))) (\<lambda>_.
     try_let (checked_plan_layout_size layout role) (\<lambda>size.
     for_each (\<lambda>coordinate.
         try_let (ok_or (checked_call layout (Leaf coordinate))
                    (CooperativePlanError (role @ '' layout coordinate '' @ show_int coordinate @ '' overflows i64''))) (\<lambda>off.
         if \<bar>off\<bar> > MAX_STATIC_LAYOUT_OFFSET_MAGNITUDE
         then Err (CooperativePlanError (role @ '' layout coordinate '' @ show_int coordinate @ '' maps to '' @
                show_int off @ ''; static magnitude limit is '' @ show_int MAX_STATIC_LAYOUT_OFFSET_MAGNITUDE))
         else Ok ())) [0..size - 1]))"

definition validate_canonical_row_major_tile_layout :: "Layout \<Rightarrow> int \<Rightarrow> int \<Rightarrow> unit plan_result" where
  "validate_canonical_row_major_tile_layout tile_layout rows columns =
     try_let (checked_plan_layout_size tile_layout ''tile'') (\<lambda>size.
     for_each (\<lambda>cell.
         try_let (or_panic (i64_rem cell rows)) (\<lambda>row.
         try_let (or_panic (i64_div cell rows)) (\<lambda>column.
         try_let (ok_or (do { off \<leftarrow> i64_mul row columns; i64_add off column })
                    (CooperativePlanError ''canonical row-major tile offset overflows i64'')) (\<lambda>expected.
         try_let (ok_or (checked_call tile_layout (Leaf cell))
                    (CooperativePlanError (''tile coordinate '' @ show_int cell @ '' overflows i64''))) (\<lambda>actual.
         if actual \<noteq> expected
         then Err (CooperativePlanError (''tile layout is not canonical row-major: logical cell '' @ show_int cell @
                '' must map to '' @ show_int expected @ '', got '' @ show_int actual))
         else Ok ()))))) [0..size - 1])"

text \<open>The values of one atom, with the row of the values seen so far. \<open>step_by(0)\<close> panics, as does
  \<open>rem_euclid\<close> by zero.\<close>

definition i64_rem_euclid :: "int \<Rightarrow> int \<Rightarrow> int option" where
  "i64_rem_euclid a b = (if b = 0 \<or> (a = - (2 ^ 63) \<and> b = - 1) then None else Some (a mod \<bar>b\<bar>))"

fun atom_rows_loop :: "Layout \<Rightarrow> int \<Rightarrow> int \<Rightarrow> int \<Rightarrow> int option \<Rightarrow> int list \<Rightarrow> unit plan_result" where
  "atom_rows_loop tv tile_rows thread first_value atom_row [] = Ok ()"
| "atom_rows_loop tv tile_rows thread first_value atom_row (v # vs) =
     try_let (ok_or (checked_call tv (tv_coord thread v))
                (CooperativePlanError (''TV '' @ show_pair (thread, v) @ '' overflows i64''))) (\<lambda>cell.
     try_let (or_panic (i64_rem_euclid cell tile_rows)) (\<lambda>row.
     if atom_row \<noteq> None \<and> atom_row \<noteq> Some row
     then Err (CooperativePlanError (''thread '' @ show_int thread @ [CHR 0x27] @ ''s atom at value '' @ show_int first_value @
            '' crosses from row '' @ show_int (the atom_row) @ '' to row '' @ show_int row))
     else atom_rows_loop tv tile_rows thread first_value (Some row) vs))"

definition validate_source_atom_rows :: "Layout \<Rightarrow> int \<Rightarrow> int \<Rightarrow> int \<Rightarrow> int \<Rightarrow> unit plan_result" where
  "validate_source_atom_rows tv threads per_thread values_per_atom tile_rows =
     (if values_per_atom < 0 then Err (CooperativePlanError ''copy atom value count does not fit this host'')
      else if values_per_atom = 0 \<and> 0 < threads then Panic
      else for_each (\<lambda>(thread, first_value).
             try_let (ok_or (i64_add first_value values_per_atom)
                        (CooperativePlanError ''copy atom value range overflows i64'')) (\<lambda>atom_end.
             atom_rows_loop tv tile_rows thread first_value None [first_value..atom_end - 1]))
             (List.product [0..threads - 1] (step_by per_thread values_per_atom)))"

text \<open>The owner of every shared byte, and the last byte used.\<close>

definition show_byte_owner :: "int \<times> int \<times> int \<Rightarrow> string" where
  "show_byte_owner = (\<lambda>(thread, v, byte). ''TV '' @ show_pair (thread, v) @ '' byte '' @ show_int byte)"

definition byte_offset :: "Layout \<Rightarrow> ComposedLayout \<Rightarrow> int \<times> int \<times> int \<Rightarrow> int plan_result" where
  "byte_offset tv smem_bytes = (\<lambda>(thread, v, byte).
     try_let (ok_or (checked_call tv (tv_coord thread v))
                (CooperativePlanError (''TV '' @ show_pair (thread, v) @ '' overflows i64''))) (\<lambda>cell.
     ok_or (checked_call_with_outer_delta smem_bytes (Leaf cell) byte)
       (CooperativePlanError (show_byte_owner (thread, v, byte) @ '' overflows its smem offset''))))"

fun smem_scan ::
    "Layout \<Rightarrow> ComposedLayout \<Rightarrow> (int \<times> int \<times> int) list \<Rightarrow> (int \<rightharpoonup> int \<times> int \<times> int) \<Rightarrow> int \<Rightarrow> int plan_result" where
  "smem_scan tv smem_bytes [] owners last_byte = Ok last_byte"
| "smem_scan tv smem_bytes ((thread, v, byte) # work) owners last_byte =
     try_let (byte_offset tv smem_bytes (thread, v, byte)) (\<lambda>off.
     if off < 0
     then Err (CooperativePlanError (''TV '' @ show_pair (thread, v) @ '' maps byte '' @ show_int byte @
            '' to negative smem offset '' @ show_int off))
     else if off \<ge> MAX_STATIC_VALIDATION_BYTES
     then Err (CooperativePlanError (''smem byte offset '' @ show_int off @ '' exceeds static physical limit '' @
            show_int MAX_STATIC_VALIDATION_BYTES))
     else case owners off of
            Some first \<Rightarrow> Err (CooperativePlanError (''smem byte '' @ show_int off @ '' has two owners: '' @
              show_byte_owner first @ '' and '' @ show_byte_owner (thread, v, byte)))
          | None \<Rightarrow> smem_scan tv smem_bytes work (owners(off \<mapsto> (thread, v, byte))) (max last_byte off))"

definition byte_work :: "int \<Rightarrow> int \<Rightarrow> int \<Rightarrow> (int \<times> int \<times> int) list" where
  "byte_work threads per_thread element_bytes =
     List.product [0..threads - 1] (List.product [0..per_thread - 1] [0..element_bytes - 1])"

definition validate_physical_smem_map :: "Layout \<Rightarrow> int \<Rightarrow> int \<Rightarrow> int \<Rightarrow> ComposedLayout \<Rightarrow> int plan_result" where
  "validate_physical_smem_map tv threads per_thread element_bytes smem_bytes =
     try_let (smem_scan tv smem_bytes (byte_work threads per_thread element_bytes) Map.empty (- 1)) (\<lambda>last_byte.
     try_let (ok_or (i64_add last_byte 1) (CooperativePlanError ''required smem byte range overflows i64''))
       (\<lambda>required_bytes.
     try_let (or_panic (i64_sub element_bytes 1)) (\<lambda>slack.
     try_let (ok_or (i64_add required_bytes slack)
                (CooperativePlanError ''required smem capacity overflows i64'')) (\<lambda>rounded.
     or_panic (i64_div rounded element_bytes)))))"

section \<open>The validator\<close>

text \<open>The two helpers of the messages: the display of a composed-layout error, and \<open>{:?}\<close> of a vector.\<close>

fun show_composed_error :: "ComposedLayoutError \<Rightarrow> string" where
  "show_composed_error InvalidSwizzle = ''composed layout has an invalid CuTe swizzle''"
| "show_composed_error (InvalidElementBytes n) =
     ''element size must be a positive power of two, got '' @ show_int n @ '' bytes''"
| "show_composed_error ArithmeticOverflow = ''composed-layout unit conversion overflowed''"

fun show_ints :: "int list \<Rightarrow> string" where
  "show_ints [] = ''''"
| "show_ints [x] = show_int x"
| "show_ints (x # y # xs) = show_int x @ '', '' @ show_ints (y # xs)"

definition with_context :: "string \<Rightarrow> CooperativePlanError \<Rightarrow> CooperativePlanError" where
  "with_context ctxt e = (case e of CooperativePlanError msg \<Rightarrow> CooperativePlanError (ctxt @ msg))"

definition of_validation :: "string \<Rightarrow> ValidationError \<Rightarrow> CooperativePlanError" where
  "of_validation ctxt e = CooperativePlanError (ctxt @ show_validation_error e)"

definition of_composed :: "string \<Rightarrow> ComposedLayoutError \<Rightarrow> CooperativePlanError" where
  "of_composed ctxt e = CooperativePlanError (ctxt @ show_composed_error e)"

definition of_algebra :: "string \<Rightarrow> AlgebraError \<Rightarrow> CooperativePlanError" where
  "of_algebra ctxt e =
     (case e of AlgebraError msg \<Rightarrow> CooperativePlanError (ctxt @ ''layout algebra error: '' @ msg))"

text \<open>The checks on counts and magnitudes that come before any algebra.\<close>

definition check_plan_counts ::
    "int \<Rightarrow> Layout \<Rightarrow> Layout \<Rightarrow> Layout \<Rightarrow> ComposedLayout \<Rightarrow> int \<Rightarrow> (int \<times> int \<times> int \<times> int) plan_result" where
  "check_plan_counts atom_bytes thread_layout value_layout tile_layout smem_layout element_bytes =
     (if \<not> (atom_bytes = 4 \<or> atom_bytes = 8 \<or> atom_bytes = 16)
      then Err (CooperativePlanError (''copy atom must be 4, 8, or 16 bytes, got '' @ show_int atom_bytes))
      else if element_bytes \<le> 0 \<or> \<not> is_power_of_two (nat element_bytes)
      then Err (CooperativePlanError (''element size must be a positive power of two, got '' @ show_int element_bytes @ '' bytes''))
      else if atom_bytes smod element_bytes \<noteq> 0
      then Err (CooperativePlanError ''copy atom does not contain a whole number of elements'')
      else
      try_let (checked_plan_layout_size thread_layout ''thread'') (\<lambda>threads.
      try_let (checked_plan_layout_size value_layout ''value'') (\<lambda>per_thread.
      try_let (checked_plan_layout_size tile_layout ''tile'') (\<lambda>tile_size.
      try_let (checked_plan_layout_size (outer smem_layout) ''shared-memory layout'') (\<lambda>smem_elements.
      try_let (ok_or (i64_mul threads per_thread) (CooperativePlanError ''TV assignment count overflows i64'')) (\<lambda>assignments.
      if assignments \<noteq> tile_size
      then Err (CooperativePlanError (''TV layout has '' @ show_int assignments @ '' assignments for a '' @
             show_int tile_size @ ''-element tile''))
      else
      try_let (ok_or (i64_mul tile_size element_bytes) (CooperativePlanError ''copy tile byte count overflows i64'')) (\<lambda>tile_bytes.
      if tile_bytes > MAX_STATIC_VALIDATION_BYTES
      then Err (CooperativePlanError (''copy tile has '' @ show_int tile_bytes @ '' bytes; static byte-map limit is '' @
             show_int MAX_STATIC_VALIDATION_BYTES))
      else if \<bar>offset smem_layout\<bar> > MAX_STATIC_LAYOUT_OFFSET_MAGNITUDE
      then Err (CooperativePlanError (''shared-memory composed offset '' @ show_int (offset smem_layout) @
             '' exceeds static magnitude limit '' @ show_int MAX_STATIC_LAYOUT_OFFSET_MAGNITUDE))
      else
      try_let (for_each (\<lambda>(name, layout). validate_plan_layout_arithmetic layout name)
                 [(''thread'', thread_layout), (''value'', value_layout), (''tile'', tile_layout),
                  (''shared-memory layout'', outer smem_layout)]) (\<lambda>_.
      Ok (threads, per_thread, tile_size, smem_elements)))))))))"

definition validate_cooperative_copy_plan ::
    "int \<Rightarrow> Layout \<Rightarrow> Layout \<Rightarrow> Layout \<Rightarrow> ComposedLayout \<Rightarrow> int \<Rightarrow> CooperativeCopyPlan plan_result" where
  "validate_cooperative_copy_plan atom_bytes thread_layout value_layout tile_layout smem_layout element_bytes =
     try_let (check_plan_counts atom_bytes thread_layout value_layout tile_layout smem_layout element_bytes)
       (\<lambda>(threads, per_thread, tile_size, smem_elements).
     try_let (map_err (of_validation ''invalid thread layout: '') (validate_compact_thread_layout thread_layout)) (\<lambda>_.
     if threads > MAX_COOPERATIVE_THREADS
     then Err (CooperativePlanError (''thread count '' @ show_int threads @ '' exceeds CUDA block limit '' @
            show_int MAX_COOPERATIVE_THREADS))
     else
     try_let (map_err (of_algebra ''invalid TV algebra: '') (make_layout_tv thread_layout value_layout)) (\<lambda>(tiler, tv).
     try_let (map_err (of_validation ''invalid TV layout: '') (validate_tv_layout thread_layout value_layout tiler tv)) (\<lambda>_.
     try_let (collect_results (\<lambda>mode. ok_or (checked_size mode)
                (CooperativePlanError ''tile mode size is invalid or overflows i64'')) (layout_modes tile_layout)) (\<lambda>tile_shape.
     if length tiler \<noteq> 2 \<or> length tile_shape \<noteq> 2
     then Err (CooperativePlanError ''copy_g2s v0 requires exactly two row/column tile modes'')
     else if tile_shape \<noteq> tiler
     then Err (CooperativePlanError (''tile shape ['' @ show_ints tile_shape @ ''] does not match TV tiler ['' @ show_ints tiler @ '']''))
     else
     try_let (map_err (of_validation ''invalid tile coverage: '') (validate_tv_exact_coverage tv threads per_thread tile_size)) (\<lambda>_.
     try_let (map_err (with_context ''invalid tile layout: '')
                (validate_canonical_row_major_tile_layout tile_layout (tile_shape ! 0) (tile_shape ! 1))) (\<lambda>_.
     if smem_elements \<noteq> tile_size
     then Err (CooperativePlanError (''shared-memory layout covers '' @ show_int smem_elements @
            '' elements but tile layout covers '' @ show_int tile_size))
     else
     let values_per_atom = atom_bytes sdiv element_bytes in
     try_let (map_err (of_validation ''invalid copy atom: '') (validate_atom_compatibility threads per_thread 1 values_per_atom)) (\<lambda>_.
     try_let (map_err (with_context ''global copy atom crosses a tile row: '')
                (validate_source_atom_rows tv threads per_thread values_per_atom (tile_shape ! 0))) (\<lambda>_.
     try_let (map_err (of_composed ''invalid gmem byte layout: '')
                (to_byte_offsets (from_layout tile_layout Elements) element_bytes)) (\<lambda>gmem_bytes.
     try_let (map_err (of_validation ''global copy atom is not physically contiguous: '')
                (validate_per_thread_atom_contiguity tv threads per_thread atom_bytes element_bytes gmem_bytes atom_bytes)) (\<lambda>_.
     try_let (map_err (of_composed ''invalid smem byte layout: '') (to_byte_offsets smem_layout element_bytes)) (\<lambda>smem_bytes.
     try_let (map_err (of_validation ''shared-memory copy atom is not physically contiguous: '')
                (validate_per_thread_atom_contiguity tv threads per_thread atom_bytes element_bytes smem_bytes atom_bytes)) (\<lambda>_.
     try_let (map_err (with_context ''invalid physical shared-memory map: '')
                (validate_physical_smem_map tv threads per_thread element_bytes smem_bytes)) (\<lambda>capacity.
     Ok \<lparr>tiler_shape = tiler, tv_layout = tv, gmem_byte_layout = gmem_bytes, smem_byte_layout = smem_bytes,
         thread_count = threads, values_per_thread = per_thread, tile_elements = tile_size,
         minimum_smem_capacity = capacity\<rparr>))))))))))))))"

end
