(* ===== verification/Cute_Cooperative_Properties.thy ===== *)
theory Cute_Cooperative_Properties
  imports Cute_Cooperative
begin

text \<open>
  What an accepted copy plan guarantees: every tile cell is copied by exactly one thread and local
  value, the shared bytes of different values never overlap and fit in the reported capacity, and
  each transaction is one aligned run of bytes inside one row, in global and in shared memory.
\<close>

section \<open>The scan of shared bytes\<close>

definition byte_at :: "Layout \<Rightarrow> ComposedLayout \<Rightarrow> int \<times> int \<times> int \<Rightarrow> int option" where
  "byte_at tv smem = (\<lambda>(thread, v, byte).
     do { cell \<leftarrow> checked_call tv (tv_coord thread v);
          checked_call_with_outer_delta smem (Leaf cell) byte })"

lemma byte_offset_Ok_iff: "byte_offset tv smem w = Ok off \<longleftrightarrow> byte_at tv smem w = Some off"
  by (cases w) (auto simp: byte_offset_def byte_at_def outcome_simps bind_eq_Some_conv)

lemma smem_scan_Cons_Ok:
  "smem_scan tv smem (w # ws) owners m = Ok r \<Longrightarrow>
     (\<exists>off. byte_at tv smem w = Some off \<and> 0 \<le> off \<and> off < MAX_STATIC_VALIDATION_BYTES \<and> owners off = None \<and>
        smem_scan tv smem ws (owners(off \<mapsto> w)) (max m off) = Ok r)"
  by (cases w) (auto simp: outcome_simps byte_offset_Ok_iff simp del: split_paired_All split: if_splits option.splits)

lemma smem_scan_sound:
  assumes "smem_scan tv smem ws owners m = Ok r" and "distinct ws"
  shows "m \<le> r \<and> inj_on (byte_at tv smem) (set ws) \<and>
    (\<forall>w \<in> set ws. \<exists>off. byte_at tv smem w = Some off \<and> 0 \<le> off \<and> off \<le> r \<and> owners off = None)"
  using assms
proof (induction ws arbitrary: owners m)
  case (Cons w ws)
  obtain off where off: "byte_at tv smem w = Some off" "0 \<le> off" "owners off = None"
      "smem_scan tv smem ws (owners(off \<mapsto> w)) (max m off) = Ok r"
    using smem_scan_Cons_Ok [OF Cons.prems(1)] by blast
  have d: "distinct ws" "w \<notin> set ws" using Cons.prems(2) by simp_all
  note ih = Cons.IH [OF off(4) d(1)]
  have fresh: "\<exists>k. byte_at tv smem u = Some k \<and> 0 \<le> k \<and> k \<le> r \<and> owners k = None \<and> k \<noteq> off" if "u \<in> set ws" for u
    using ih that by (metis fun_upd_apply option.distinct(1))
  have "byte_at tv smem u \<noteq> byte_at tv smem w" if "u \<in> set ws" for u using fresh [OF that] off(1) by auto
  then have "byte_at tv smem w \<notin> byte_at tv smem ` set ws" by (metis imageE)
  then have "inj_on (byte_at tv smem) (set (w # ws))"
    using conjunct1 [OF conjunct2 [OF ih]] d(2) by simp
  moreover have "m \<le> r" "off \<le> r" using ih by simp_all
  moreover have "\<exists>k. byte_at tv smem u = Some k \<and> 0 \<le> k \<and> k \<le> r \<and> owners k = None" if "u \<in> set (w # ws)" for u
    using that fresh off \<open>off \<le> r\<close> by (metis set_ConsD)
  ultimately show ?case by blast
qed simp

lemma byte_work_set:
  "set (byte_work t v e) = {0..<t} \<times> {0..<v} \<times> {0..<e}" "distinct (byte_work t v e)"
  by (auto simp: byte_work_def distinct_product)

text \<open>The capacity is the byte range rounded up to whole elements.\<close>

lemma physical_smem_map_sound:
  assumes "validate_physical_smem_map tv t v e smem = Ok capacity" and "0 < e"
  shows "inj_on (byte_at tv smem) ({0..<t} \<times> {0..<v} \<times> {0..<e}) \<and>
    (\<forall>w \<in> {0..<t} \<times> {0..<v} \<times> {0..<e}. \<exists>off. byte_at tv smem w = Some off \<and> 0 \<le> off \<and> off < capacity * e)"
proof -
  obtain r where r: "smem_scan tv smem (byte_work t v e) Map.empty (- 1) = Ok r"
    and cap: "capacity = (r + 1 + (e - 1)) sdiv e"
    using assms(1) by (auto simp: validate_physical_smem_map_def outcome_simps i64_simps)
  note S = smem_scan_sound [OF r byte_work_set(2), unfolded byte_work_set(1)]
  have c: "capacity = (r + e) div e" using cap S assms(2) by (simp add: sdiv_nonneg)
  have "r + e < capacity * e + e" unfolding c using assms(2)
    by (metis add.commute mod_mult_div_eq mult.commute pos_mod_bound add_strict_right_mono)
  then show ?thesis using S by force
qed


section \<open>What the validator checked\<close>

text \<open>The facts an accepted plan rests on, one per check.\<close>

lemma plan_checks:
  assumes "validate_cooperative_copy_plan a thread_layout value_layout tile_layout smem_layout e = Ok plan"
  shows "check_plan_counts a thread_layout value_layout tile_layout smem_layout e =
      Ok (thread_count plan, values_per_thread plan, tile_elements plan, tile_elements plan)"
    and "thread_count plan \<le> MAX_COOPERATIVE_THREADS"
    and "validate_compact_thread_layout thread_layout = Ok ()"
    and "make_layout_tv thread_layout value_layout = Ok (tiler_shape plan, tv_layout plan)"
    and "length (tiler_shape plan) = 2"
    and "validate_tv_exact_coverage (tv_layout plan) (thread_count plan) (values_per_thread plan) (tile_elements plan) = Ok ()"
    and "validate_canonical_row_major_tile_layout tile_layout (tiler_shape plan ! 0) (tiler_shape plan ! 1) = Ok ()"
    and "validate_source_atom_rows (tv_layout plan) (thread_count plan) (values_per_thread plan) (a sdiv e)
           (tiler_shape plan ! 0) = Ok ()"
    and "to_byte_offsets (from_layout tile_layout Elements) e = Ok (gmem_byte_layout plan)"
    and "validate_per_thread_atom_contiguity (tv_layout plan) (thread_count plan) (values_per_thread plan) a e
           (gmem_byte_layout plan) a = Ok ()"
    and "to_byte_offsets smem_layout e = Ok (smem_byte_layout plan)"
    and "validate_per_thread_atom_contiguity (tv_layout plan) (thread_count plan) (values_per_thread plan) a e
           (smem_byte_layout plan) a = Ok ()"
    and "validate_physical_smem_map (tv_layout plan) (thread_count plan) (values_per_thread plan) e
           (smem_byte_layout plan) = Ok (minimum_smem_capacity plan)"
    and "collect_results (\<lambda>mode. ok_or (checked_size mode)
           (CooperativePlanError ''tile mode size is invalid or overflows i64'')) (layout_modes tile_layout) =
         Ok (tiler_shape plan)"
  using assms by (auto simp: validate_cooperative_copy_plan_def Let_def try_let_Ok_iff map_err_Ok_iff
      split: if_splits)


lemma plan_element_bytes:
  assumes "validate_cooperative_copy_plan a thread_layout value_layout tile_layout smem_layout e = Ok plan"
  shows "0 < e" and "a = 4 \<or> a = 8 \<or> a = 16" and "a mod e = 0"
proof -
  have e: "0 < e" "a = 4 \<or> a = 8 \<or> a = 16" "a smod e = 0"
    using plan_checks(1) [OF assms] by (auto simp: check_plan_counts_def split: if_splits)
  then show "0 < e" "a = 4 \<or> a = 8 \<or> a = 16" "a mod e = 0" by (auto simp: smod_nonneg)
qed

lemma plan_rows:
  assumes "validate_cooperative_copy_plan a thread_layout value_layout tile_layout smem_layout e = Ok plan"
  shows "\<exists>rows columns. tiler_shape plan = [rows, columns] \<and> 0 < rows"
proof -
  obtain rows columns where s: "tiler_shape plan = [rows, columns]"
    using plan_checks(5) [OF assms] by (auto simp: numeral_2_eq_2 length_Suc_conv)
  have "\<exists>mode. checked_size mode = Some rows"
    using plan_checks(14) [OF assms] s by (auto simp: outcome_simps list_all2_Cons2 simp del: layout_modes.simps)
  then show ?thesis using s checked_tuple_size_Some by (auto simp: checked_size_def)
qed

lemma plan_tile_row_major:
  assumes "validate_cooperative_copy_plan a thread_layout value_layout tile_layout smem_layout e = Ok plan"
    and "tiler_shape plan = [rows, columns]" and "0 < rows" and "cell \<in> {0..<tile_elements plan}"
  shows "checked_call tile_layout (Leaf cell) = Some (cell mod rows * columns + cell div rows)"
proof -
  have "checked_plan_layout_size tile_layout ''tile'' = Ok (tile_elements plan)"
    using plan_checks(1) [OF assms(1)] by (auto simp: check_plan_counts_def outcome_simps split: if_splits)
  then show ?thesis
    using plan_checks(7) [OF assms(1)] assms(2-4)
    by (auto simp: validate_canonical_row_major_tile_layout_def outcome_simps i64_simps smod_nonneg sdiv_nonneg
        bind_eq_Some_conv split: if_splits)
qed

text \<open>An atom accepted by the row check stays in one row.\<close>

lemma atom_rows_loop_sound:
  assumes "atom_rows_loop tv rows thread first seen vs = Ok ()" and "0 < rows"
  shows "\<exists>row. (seen \<noteq> None \<longrightarrow> seen = Some row) \<and>
    (\<forall>v \<in> set vs. \<exists>cell. checked_call tv (tv_coord thread v) = Some cell \<and> cell mod rows = row)"
  using assms(1)
proof (induction vs arbitrary: seen)
  case (Cons v vs)
  then obtain cell where cell: "checked_call tv (tv_coord thread v) = Some cell"
    and seen: "seen = None \<or> seen = Some (cell mod rows)"
    and rest: "atom_rows_loop tv rows thread first (Some (cell mod rows)) vs = Ok ()"
    using assms(2) by (auto simp: outcome_simps i64_rem_euclid_def split: if_splits)
  show ?case using Cons.IH [OF rest] cell seen by auto
qed auto


lemma plan_atom_rows:
  assumes "validate_cooperative_copy_plan a thread_layout value_layout tile_layout smem_layout e = Ok plan"
    and "0 \<le> thread" and "thread < thread_count plan" and "0 \<le> first" and "first < values_per_thread plan"
    and "(a div e) dvd first"
  shows "\<exists>row. \<forall>b. 0 \<le> b \<and> b < a \<longrightarrow>
    (\<exists>cell. checked_call (tv_layout plan) (tv_coord thread (first + b div e)) = Some cell \<and>
       cell mod (tiler_shape plan ! 0) = row)"
proof -
  note E = plan_element_bytes [OF assms(1)]
  have k: "a sdiv e = a div e" "0 < a div e" using E zdvd_imp_le [of e a]
    by (auto simp: sdiv_nonneg pos_imp_zdiv_pos_iff dvd_eq_mod_eq_0)
  have rows: "0 < tiler_shape plan ! 0" using plan_rows [OF assms(1)] by auto
  have "(thread, first) \<in> set (List.product [0..thread_count plan - 1] (step_by (values_per_thread plan) (a div e)))"
    using assms(2-6) k(2) by (simp add: step_by_set)
  then have "atom_rows_loop (tv_layout plan) (tiler_shape plan ! 0) thread first None
      [first..first + a div e - 1] = Ok ()"
    using plan_checks(8) [OF assms(1)] k
    by (force simp: validate_source_atom_rows_def for_each_Ok_iff outcome_simps i64_simps split: if_splits)
  from atom_rows_loop_sound [OF this rows] obtain row where row:
    "\<forall>v \<in> {first..first + a div e - 1}. \<exists>cell. checked_call (tv_layout plan) (tv_coord thread v) = Some cell \<and>
       cell mod (tiler_shape plan ! 0) = row"
    by auto
  have "b div e < a div e" if "0 \<le> b" "b < a" for b
  proof -
    have "e * (b div e) \<le> b" using E(1) by (simp add: minus_mod_eq_mult_div [symmetric])
    also have "b < e * (a div e)" using that(2) E(3) by auto
    finally show ?thesis using E(1) by simp
  qed
  then show ?thesis using row E(1) by (intro exI [of _ row]) (force simp: pos_imp_zdiv_nonneg_iff)
qed


section \<open>Accepted plans\<close>

text \<open>(C7) An accepted plan assigns the tile exactly once: the pairs of a thread of the block and a local
  value map one to one onto the cells of the tile, and cell \<open>row + rows * column\<close> lies at the row-major
  element offset \<open>row * columns + column\<close> of global memory.\<close>

theorem plan_covers_tile:
  assumes "validate_cooperative_copy_plan a thread_layout value_layout tile_layout smem_layout e = Ok plan"
  shows "bij_betw (\<lambda>(thread, local). checked_call (tv_layout plan) (tv_coord thread local))
      ({0..<thread_count plan} \<times> {0..<values_per_thread plan}) (Some ` {0..<tile_elements plan}) \<and>
    thread_count plan \<le> 1024 \<and>
    (\<exists>rows columns. tiler_shape plan = [rows, columns] \<and>
       (\<forall>cell \<in> {0..<tile_elements plan}.
          checked_call tile_layout (Leaf cell) = Some (cell mod rows * columns + cell div rows)))"
proof -
  note C = plan_checks [OF assms]
  have "bij_betw (\<lambda>(thread, local). checked_call (tv_layout plan) (tv_coord thread local))
      ({0..<thread_count plan} \<times> {0..<values_per_thread plan}) (Some ` {0..<tile_elements plan})"
    using C(6) unfolding tv_coverage_decided by blast
  moreover obtain rows columns where s: "tiler_shape plan = [rows, columns]" "0 < rows"
    using plan_rows [OF assms] by blast
  ultimately show ?thesis
    using C(2) plan_tile_row_major [OF assms s] s unfolding MAX_COOPERATIVE_THREADS_def by auto
qed

text \<open>The four-cell example of the documentation.\<close>

definition doc_threads :: Layout where
  "doc_threads = \<lparr>shape = Tuple [Leaf 2, Leaf 1], stride = Tuple [Leaf 1, Leaf 0]\<rparr>"

definition doc_values :: Layout where
  "doc_values = \<lparr>shape = Tuple [Leaf 1, Leaf 2], stride = Tuple [Leaf 0, Leaf 1]\<rparr>"

definition doc_tile :: Layout where
  "doc_tile = \<lparr>shape = Tuple [Leaf 2, Leaf 2], stride = Tuple [Leaf 2, Leaf 1]\<rparr>"

definition doc_plan :: CooperativeCopyPlan where
  "doc_plan = \<lparr>tiler_shape = [2, 2], tv_layout = f32_tv, gmem_byte_layout = f32_bytes, smem_byte_layout = f32_bytes,
     thread_count = 2, values_per_thread = 2, tile_elements = 4, minimum_smem_capacity = 4\<rparr>"

lemma doc_plan_accepted:
  "validate_cooperative_copy_plan 8 doc_threads doc_values doc_tile (from_layout doc_tile Elements) 4 = Ok doc_plan"
  by code_simp

theorem plan_covers_tile_witness:
  "bij_betw (\<lambda>(thread, local). checked_call (tv_layout doc_plan) (tv_coord thread local))
      ({0..<thread_count doc_plan} \<times> {0..<values_per_thread doc_plan}) (Some ` {0..<tile_elements doc_plan}) \<and>
    thread_count doc_plan \<le> 1024 \<and>
    (\<exists>rows columns. tiler_shape doc_plan = [rows, columns] \<and>
       (\<forall>cell \<in> {0..<tile_elements doc_plan}.
          checked_call doc_tile (Leaf cell) = Some (cell mod rows * columns + cell div rows)))"
  by (rule plan_covers_tile [OF doc_plan_accepted])

text \<open>(C3) No shared byte of an accepted plan has two writers: two different (thread, local value, byte of
  the element) triples are mapped to different shared bytes, and all of them lie below
  \<open>minimum_smem_capacity * element_bytes\<close>.\<close>

theorem plan_smem_bytes_distinct:
  assumes "validate_cooperative_copy_plan a thread_layout value_layout tile_layout smem_layout e = Ok plan"
    and "w \<in> {0..<thread_count plan} \<times> {0..<values_per_thread plan} \<times> {0..<e}"
  shows "\<exists>off. byte_offset (tv_layout plan) (smem_byte_layout plan) w = Ok off \<and>
    0 \<le> off \<and> off < minimum_smem_capacity plan * e \<and>
    (\<forall>w' \<in> {0..<thread_count plan} \<times> {0..<values_per_thread plan} \<times> {0..<e}.
       byte_offset (tv_layout plan) (smem_byte_layout plan) w' = Ok off \<longrightarrow> w' = w)"
proof -
  note S = physical_smem_map_sound [OF plan_checks(13) [OF assms(1)] plan_element_bytes(1) [OF assms(1)]]
  obtain off where off: "byte_at (tv_layout plan) (smem_byte_layout plan) w = Some off" "0 \<le> off"
      "off < minimum_smem_capacity plan * e"
    using conjunct2 [OF S] assms(2) by blast
  have "w' = w" if "w' \<in> {0..<thread_count plan} \<times> {0..<values_per_thread plan} \<times> {0..<e}"
      "byte_at (tv_layout plan) (smem_byte_layout plan) w' = Some off" for w'
    using inj_onD [OF conjunct1 [OF S]] off(1) that assms(2) by metis
  then show ?thesis using off unfolding byte_offset_Ok_iff by blast
qed

theorem plan_smem_bytes_distinct_witness:
  "\<exists>off. byte_offset (tv_layout doc_plan) (smem_byte_layout doc_plan) (1, 1, 3) = Ok off \<and>
    0 \<le> off \<and> off < minimum_smem_capacity doc_plan * 4 \<and>
    (\<forall>w' \<in> {0..<thread_count doc_plan} \<times> {0..<values_per_thread doc_plan} \<times> {0..<4}.
       byte_offset (tv_layout doc_plan) (smem_byte_layout doc_plan) w' = Ok off \<longrightarrow> w' = (1, 1, 3))"
  by (rule plan_smem_bytes_distinct [OF doc_plan_accepted]) (simp add: doc_plan_def)

text \<open>(C8) Every transaction of an accepted plan is one aligned run of bytes on both sides and stays in one
  row: for each thread and each first local value of an atom there is a global and a shared start, both
  multiples of \<open>atom_bytes\<close>, such that byte \<open>b\<close> of the atom is read from the global start plus \<open>b\<close> and
  written to the shared start plus \<open>b\<close>, and the cells of the atom share their row.\<close>

theorem plan_transactions_contiguous:
  assumes "validate_cooperative_copy_plan a thread_layout value_layout tile_layout smem_layout e = Ok plan"
    and "0 \<le> thread" and "thread < thread_count plan" and "0 \<le> first" and "first < values_per_thread plan"
    and "(a div e) dvd first"
  shows "\<exists>gstart sstart row. a dvd gstart \<and> a dvd sstart \<and>
    (\<forall>b. 0 \<le> b \<and> b < a \<longrightarrow>
      (\<exists>cell. checked_call (tv_layout plan) (tv_coord thread (first + b div e)) = Some cell \<and>
        cell mod (tiler_shape plan ! 0) = row \<and>
        checked_call_with_outer_delta (gmem_byte_layout plan) (Leaf cell) (b mod e) = Some (gstart + b) \<and>
        checked_call_with_outer_delta (smem_byte_layout plan) (Leaf cell) (b mod e) = Some (sstart + b)))"
proof -
  note C = plan_checks [OF assms(1)] and E = plan_element_bytes [OF assms(1)]
  let ?cell = "\<lambda>b. checked_call (tv_layout plan) (tv_coord thread (first + b div e))"
  obtain g where g: "a dvd g" "\<And>b. 0 \<le> b \<Longrightarrow> b < a \<Longrightarrow>
      \<exists>cell. ?cell b = Some cell \<and> checked_call_with_outer_delta (gmem_byte_layout plan) (Leaf cell) (b mod e) = Some (g + b)"
    using atom_bytes_consecutive [OF C(10) assms(2-6)] by blast
  obtain s where s: "a dvd s" "\<And>b. 0 \<le> b \<Longrightarrow> b < a \<Longrightarrow>
      \<exists>cell. ?cell b = Some cell \<and> checked_call_with_outer_delta (smem_byte_layout plan) (Leaf cell) (b mod e) = Some (s + b)"
    using atom_bytes_consecutive [OF C(12) assms(2-6)] by blast
  obtain row where row: "\<And>b. 0 \<le> b \<Longrightarrow> b < a \<Longrightarrow> \<exists>cell. ?cell b = Some cell \<and> cell mod (tiler_shape plan ! 0) = row"
    using plan_atom_rows [OF assms] by blast
  have "\<exists>cell. ?cell b = Some cell \<and> cell mod (tiler_shape plan ! 0) = row \<and>
        checked_call_with_outer_delta (gmem_byte_layout plan) (Leaf cell) (b mod e) = Some (g + b) \<and>
        checked_call_with_outer_delta (smem_byte_layout plan) (Leaf cell) (b mod e) = Some (s + b)"
    if "0 \<le> b" "b < a" for b
    using g(2) [OF that] s(2) [OF that] row [OF that] by fastforce
  then show ?thesis using g(1) s(1) by blast
qed

theorem plan_transactions_contiguous_witness:
  "\<exists>gstart sstart row. 8 dvd gstart \<and> 8 dvd sstart \<and>
    (\<forall>b. 0 \<le> b \<and> b < 8 \<longrightarrow>
      (\<exists>cell. checked_call (tv_layout doc_plan) (tv_coord 1 (0 + b div 4)) = Some cell \<and>
        cell mod (tiler_shape doc_plan ! 0) = row \<and>
        checked_call_with_outer_delta (gmem_byte_layout doc_plan) (Leaf cell) (b mod 4) = Some (gstart + b) \<and>
        checked_call_with_outer_delta (smem_byte_layout doc_plan) (Leaf cell) (b mod 4) = Some (sstart + b)))"
  by (rule plan_transactions_contiguous [OF doc_plan_accepted]) (simp_all add: doc_plan_def)

end
