(* ===== verification/Oxide_Text.thy ===== *)
theory Oxide_Text
  imports Oxide_Prelude
begin

text \<open>
  What the parsers of the workspace use of Rust's \<open>str\<close>: white space, \<open>trim\<close>, decimal digits.
  A \<open>&str\<close> is its list of UTF-8 bytes.
\<close>

section \<open>White space\<close>

text \<open>\<open>str::trim_start\<close>: the UTF-8 encodings of the characters with the Unicode property
  \<open>White_Space\<close>. \<open>rest.trim().is_empty()\<close> is the emptiness of \<open>trim_start rest\<close>.\<close>

definition space1 :: "char \<Rightarrow> bool" where
  "space1 a = (a \<in> {CHR 0x09, CHR 0x0A, CHR 0x0B, CHR 0x0C, CHR 0x0D, CHR 0x20})"

definition space2 :: "char \<Rightarrow> char \<Rightarrow> bool" where
  "space2 a b = (a = CHR 0xC2 \<and> b \<in> {CHR 0x85, CHR 0xA0})"

definition space3 :: "char \<Rightarrow> char \<Rightarrow> char \<Rightarrow> bool" where
  "space3 a b c =
     (a = CHR 0xE1 \<and> b = CHR 0x9A \<and> c = CHR 0x80 \<or>
      a = CHR 0xE2 \<and> b = CHR 0x80 \<and>
        c \<in> {CHR 0x80, CHR 0x81, CHR 0x82, CHR 0x83, CHR 0x84, CHR 0x85, CHR 0x86, CHR 0x87, CHR 0x88,
              CHR 0x89, CHR 0x8A, CHR 0xA8, CHR 0xA9, CHR 0xAF} \<or>
      a = CHR 0xE2 \<and> b = CHR 0x81 \<and> c = CHR 0x9F \<or>
      a = CHR 0xE3 \<and> b = CHR 0x80 \<and> c = CHR 0x80)"

fun trim_start :: "string \<Rightarrow> string" where
  "trim_start (a # b # c # s) =
     (if space1 a then trim_start (b # c # s)
      else if space2 a b then trim_start (c # s)
      else if space3 a b c then trim_start s
      else a # b # c # s)"
| "trim_start [a, b] =
     (if space1 a then trim_start [b] else if space2 a b then [] else [a, b])"
| "trim_start [a] = (if space1 a then [] else [a])"
| "trim_start [] = []"

definition is_digit :: "char \<Rightarrow> bool" where
  "is_digit c \<longleftrightarrow> 48 \<le> (of_char c :: nat) \<and> (of_char c :: nat) \<le> 57"

text \<open>\<open>str::trim_end\<close> on the reversed bytes, and \<open>str::trim\<close>.\<close>

fun trim_back :: "string \<Rightarrow> string" where
  "trim_back (c # b # a # s) =
     (if space1 c then trim_back (b # a # s)
      else if space2 b c then trim_back (a # s)
      else if space3 a b c then trim_back s
      else c # b # a # s)"
| "trim_back [c, b] =
     (if space1 c then trim_back [b] else if space2 b c then [] else [c, b])"
| "trim_back [c] = (if space1 c then [] else [c])"
| "trim_back [] = []"

definition trim :: "string \<Rightarrow> string" where
  "trim s = rev (trim_back (rev (trim_start s)))"

lemma trim_start_length: "length (trim_start s) \<le> length s"
  by (induction s rule: trim_start.induct) auto

text \<open>A character that \<open>trim_start\<close> leaves alone, whatever follows it.\<close>

definition plain_char :: "char \<Rightarrow> bool" where
  "plain_char c \<longleftrightarrow> \<not> space1 c \<and> c \<notin> {CHR 0xC2, CHR 0xE1, CHR 0xE2, CHR 0xE3}"

lemma trim_start_plain: "plain_char c \<Longrightarrow> trim_start (c # s) = c # s"
  by (cases "c # s" rule: trim_start.cases) (auto simp: plain_char_def space2_def space3_def)

section \<open>Decimal digits\<close>

definition digits_value :: "string \<Rightarrow> int" where
  "digits_value ds = fold (\<lambda>c acc. acc * 10 + (of_char c - 48)) ds 0"

lemma show_nat_digits: "list_all is_digit (show_nat n) \<and> show_nat n \<noteq> [] \<and> digits_value (show_nat n) = int n"
proof (induction n rule: show_nat.induct)
  case (1 n)
  have digit: "is_digit (char_of (48 + d)) \<and> (of_char (char_of (48 + d)) :: int) = 48 + int d" if "d < 10" for d :: nat
    using that of_nat_of_char [of "char_of (48 + d)", where 'a = int, symmetric] by (simp add: is_digit_def)
  show ?case
  proof (cases "n < 10")
    case True
    then show ?thesis using digit [OF True] by (simp add: show_nat.simps [of n] digits_value_def)
  next
    case False
    then show ?thesis
      using 1 digit [of "n mod 10"] by (simp add: show_nat.simps [of n] digits_value_def) presburger
  qed
qed

end
