(* ===== verification/Cute_Parse.thy ===== *)
theory Cute_Parse
  imports Cute_Layout Oxide_Text
begin

text \<open>
  The text form of tuples and layouts (\<open>cute-layout/src/parse.rs\<close>): \<open>Display\<close>, the recursive-descent
  parser and the two \<open>FromStr\<close> implementations. A \<open>&str\<close> is its list of UTF-8 bytes.

  The parser recurses on what a recursive call left over, so the model takes fuel; running out is
  \<open>Panic\<close>. \<open>parse_int_tuple\<close> starts with two units per byte and two more, which the
  lemma \<open>parse_fuel\<close> shows to be enough for every input.
\<close>

section \<open>Display\<close>

fun show_tuple :: "IntTuple \<Rightarrow> string"
  and show_items :: "IntTuple list \<Rightarrow> string" where
  "show_tuple (Leaf v) = show_int v"
| "show_tuple (Tuple ts) = CHR ''('' # show_items ts @ '')''"
| "show_items [] = ''''"
| "show_items [t] = show_tuple t"
| "show_items (t # u # ts) = show_tuple t @ CHR '','' # show_items (u # ts)"

definition show_layout :: "Layout \<Rightarrow> string" where
  "show_layout self = show_tuple (shape self) @ CHR '':'' # show_tuple (stride self)"

section \<open>Parsing\<close>

datatype ParseLayoutError = ParseLayoutError

text \<open>\<open>i64::from_str\<close> on a run of digits and minus signs: an optional sign, at least one digit, nothing
  else, and a value in range.\<close>

definition i64_from_str :: "string \<Rightarrow> int option" where
  "i64_from_str s =
     (let (neg, ds) = (case s of c # cs \<Rightarrow> if c = CHR ''-'' then (True, cs) else (False, s) | [] \<Rightarrow> (False, s)) in
      if ds = [] \<or> \<not> list_all is_digit ds then None
      else i64_fit (if neg then - digits_value ds else digits_value ds))"

definition number_char :: "char \<Rightarrow> bool" where
  "number_char c \<longleftrightarrow> is_digit c \<or> c = CHR ''-''"

fun parse_tuple :: "nat \<Rightarrow> string \<Rightarrow> (IntTuple \<times> string, ParseLayoutError) outcome"
  and parse_items :: "nat \<Rightarrow> IntTuple list \<Rightarrow> string \<Rightarrow> (IntTuple \<times> string, ParseLayoutError) outcome" where
  "parse_tuple 0 s = Panic"
| "parse_tuple (Suc n) s =
     (let s = trim_start s in
      if s \<noteq> [] \<and> hd s = CHR ''('' then parse_items n [] (tl s)
      else
      try_let (ok_or (i64_from_str (takeWhile number_char s)) ParseLayoutError) (\<lambda>v.
      Ok (Leaf v, dropWhile number_char s)))"
| "parse_items 0 items rest = Panic"
| "parse_items (Suc n) items rest =
     try_let (parse_tuple n rest) (\<lambda>(item, r).
     let items = items @ [item]; r = trim_start r in
     if r \<noteq> [] \<and> hd r = CHR '','' then parse_items n items (tl r)
     else if r \<noteq> [] \<and> hd r = CHR '')'' then Ok (Tuple items, tl r)
     else Err ParseLayoutError)"

definition parse_int_tuple :: "string \<Rightarrow> (IntTuple \<times> string, ParseLayoutError) outcome" where
  "parse_int_tuple s = parse_tuple (2 * length s + 2) s"

definition int_tuple_from_str :: "string \<Rightarrow> (IntTuple, ParseLayoutError) outcome" where
  "int_tuple_from_str s =
     try_let (parse_int_tuple s) (\<lambda>(t, rest).
     if trim_start rest = [] then Ok t else Err ParseLayoutError)"

definition layout_from_str :: "string \<Rightarrow> (Layout, ParseLayoutError) outcome" where
  "layout_from_str s =
     try_let (parse_int_tuple s) (\<lambda>(sh, rest).
     let rest = trim_start rest in
     if rest = [] \<or> hd rest \<noteq> CHR '':'' then Err ParseLayoutError
     else
     try_let (parse_int_tuple (tl rest)) (\<lambda>(st, rest).
     if trim_start rest \<noteq> [] then Err ParseLayoutError
     else if \<not> is_congruent sh st then Err ParseLayoutError
     else Ok \<lparr>shape = sh, stride = st\<rparr>))"

section \<open>Enough fuel\<close>

lemma i64_from_str_Some: "i64_from_str s = Some v \<Longrightarrow> s \<noteq> [] \<and> in_i64 v"
  by (auto simp: i64_from_str_def i64_simps split: list.splits if_splits)

text \<open>A parsed tree: no empty node, every leaf an \<open>i64\<close>.\<close>

primrec well_formed_tuple :: "IntTuple \<Rightarrow> bool" where
  "well_formed_tuple (Leaf v) = in_i64 v"
| "well_formed_tuple (Tuple ts) = (ts \<noteq> [] \<and> list_all well_formed_tuple ts)"

lemma parse_fuel:
  "2 * length s + 1 \<le> n \<Longrightarrow> parse_tuple n s \<noteq> Panic \<and>
     (\<forall>t r. parse_tuple n s = Ok (t, r) \<longrightarrow> length r < length s \<and> well_formed_tuple t)"
  "2 * length s + 2 \<le> n \<Longrightarrow> list_all well_formed_tuple items \<Longrightarrow> parse_items n items s \<noteq> Panic \<and>
     (\<forall>t r. parse_items n items s = Ok (t, r) \<longrightarrow> length r < length s \<and> well_formed_tuple t)"
proof (induction n s and n items s rule: parse_tuple_parse_items.induct)
  case (2 n s)
  let ?s = "trim_start s"
  note le = trim_start_length [of s]
  show ?case
  proof (cases "?s \<noteq> [] \<and> hd ?s = CHR ''(''")
    case True
    then have "2 * length (tl ?s) + 2 \<le> n" "length (tl ?s) < length s" using 2(2) le by (cases ?s; simp)+
    then show ?thesis using 2(1) [OF refl True] True by (auto simp: Let_def)
  next
    case False
    have "length (dropWhile number_char ?s) < length s" if "takeWhile number_char ?s \<noteq> []"
    proof -
      have "length (takeWhile number_char ?s) + length (dropWhile number_char ?s) = length ?s"
        by (metis length_append takeWhile_dropWhile_id)
      then show ?thesis using that le by (cases "takeWhile number_char ?s") auto
    qed
    then show ?thesis using False i64_from_str_Some by (auto simp: Let_def outcome_simps)
  qed
next
  case (4 n items rest)
  have IH: "parse_tuple n rest \<noteq> Panic"
      "\<And>t r. parse_tuple n rest = Ok (t, r) \<Longrightarrow> length r < length rest \<and> well_formed_tuple t"
    using 4(1,3) by auto
  show ?case
  proof (cases "parse_tuple n rest")
    case (Ok tr)
    then obtain t r where tr: "parse_tuple n rest = Ok (t, r)" by (cases tr) auto
    let ?r = "trim_start r"
    have len: "length ?r < length rest" "well_formed_tuple t" using IH(2) [OF tr] trim_start_length [of r] by auto
    show ?thesis
    proof (cases "?r \<noteq> [] \<and> hd ?r = CHR '',''")
      case True
      have "2 * length (tl ?r) + 2 \<le> n" "length (tl ?r) < length rest" using len(1) 4(3) by auto
      then show ?thesis
        using 4(2) [OF tr refl refl refl True] tr True len(2) 4(4) by (auto simp: Let_def)
    next
      case False
      then show ?thesis using tr len 4(4) by (auto simp: Let_def)
    qed
  qed (use IH in auto)
qed simp_all


section \<open>Decimal numbers\<close>

lemma digit_not_minus: "is_digit c \<Longrightarrow> c \<noteq> CHR ''-''"
  by (auto simp: is_digit_def)

lemma show_int_numeral: "list_all number_char (show_int v) \<and> show_int v \<noteq> []"
  using show_nat_digits [of "nat v"] show_nat_digits [of "nat (- v)"]
  by (auto simp: show_int_def number_char_def list_all_iff)

lemma i64_from_show_int:
  assumes "in_i64 v"
  shows "i64_from_str (show_int v) = Some v"
proof (cases "v < 0")
  case True
  then show ?thesis using assms show_nat_digits [of "nat (- v)"]
    by (simp add: show_int_def i64_from_str_def i64_fit_def)
next
  case False
  obtain c cs where c: "show_nat (nat v) = c # cs" "is_digit c"
    using show_nat_digits [of "nat v"] by (cases "show_nat (nat v)") auto
  then have "\<not> c = CHR ''-''" using digit_not_minus by blast
  then show ?thesis using assms False c show_nat_digits [of "nat v"]
    by (simp add: show_int_def i64_from_str_def i64_fit_def)
qed

lemma number_char_plain: "number_char c \<Longrightarrow> plain_char c \<and> c \<noteq> CHR ''(''"
  by (auto simp: number_char_def is_digit_def plain_char_def space1_def)

lemma plain_punctuation:
  "plain_char (CHR ''('')" "plain_char (CHR '','')" "plain_char (CHR '')'')" "plain_char (CHR '':'')"
  by (simp_all add: plain_char_def space1_def)

lemma trim_start_show_int: "trim_start (show_int v @ rest) = show_int v @ rest"
  using show_int_numeral [of v] number_char_plain trim_start_plain by (cases "show_int v") auto


section \<open>Round trip\<close>

definition stops :: "string \<Rightarrow> bool" where
  "stops rest \<longleftrightarrow> rest = [] \<or> \<not> number_char (hd rest)"

lemma stops_punctuation [simp]:
  "stops []" "stops (CHR '','' # r)" "stops (CHR '')'' # r)" "stops (CHR '':'' # r)"
  by (simp_all add: stops_def number_char_def is_digit_def)

lemma parse_leaf:
  assumes "in_i64 v" and "stops rest" and "0 < n"
  shows "parse_tuple n (show_int v @ rest) = Ok (Leaf v, rest)"
proof -
  obtain m where n: "n = Suc m" using assms(3) gr0_conv_Suc by blast
  have num: "\<forall>c \<in> set (show_int v). number_char c" "show_int v \<noteq> []"
    using show_int_numeral [of v] by (auto simp: list_all_iff)
  have "takeWhile number_char rest = [] \<and> dropWhile number_char rest = rest"
    using assms(2) by (cases rest) (auto simp: stops_def)
  then have "takeWhile number_char (show_int v @ rest) = show_int v" "dropWhile number_char (show_int v @ rest) = rest"
    using num(1) by (simp_all add: takeWhile_append2 dropWhile_append2)
  moreover have "hd (show_int v @ rest) \<noteq> CHR ''(''" using num number_char_plain by (cases "show_int v") auto
  ultimately show ?thesis
    using n i64_from_show_int [OF assms(1)] num(2) by (simp add: trim_start_show_int Let_def)
qed

lemma show_tuple_nonempty: "show_tuple t \<noteq> []"
  using show_int_numeral by (cases t) auto

lemma parse_show:
  "well_formed_tuple t \<Longrightarrow> 2 * length (show_tuple t) + 1 \<le> n \<Longrightarrow> stops rest \<Longrightarrow>
     parse_tuple n (show_tuple t @ rest) = Ok (t, rest)"
  "ts \<noteq> [] \<Longrightarrow> list_all well_formed_tuple ts \<Longrightarrow> 2 * length (show_items ts) + 2 \<le> n \<Longrightarrow>
     parse_items n items (show_items ts @ CHR '')'' # rest) = Ok (Tuple (items @ ts), rest)"
proof (induction t and ts arbitrary: n rest and n rest items rule: show_tuple_show_items.induct)
  case (1 v)
  then show ?case by (simp add: parse_leaf)
next
  case (2 ts)
  then obtain m where m: "n = Suc m" by (cases n) auto
  have "parse_items m [] (show_items ts @ CHR '')'' # rest) = Ok (Tuple ([] @ ts), rest)"
    using 2 m by (intro 2(1)) auto
  then show ?case using m by (simp add: trim_start_plain plain_punctuation)
next
  case (4 t)
  then obtain m where m: "n = Suc m" by (cases n) auto
  have "parse_tuple m (show_tuple t @ CHR '')'' # rest) = Ok (t, CHR '')'' # rest)"
    using 4 m by (intro 4(1)) auto
  then show ?case using m by (simp add: trim_start_plain plain_punctuation Let_def)
next
  case (5 t u ts)
  then obtain m where m: "n = Suc m" by (cases n) auto
  have "parse_tuple m (show_tuple t @ CHR '','' # show_items (u # ts) @ CHR '')'' # rest) =
      Ok (t, CHR '','' # show_items (u # ts) @ CHR '')'' # rest)"
    using 5 m by (intro 5(1)) auto
  moreover have "parse_items m (items @ [t]) (show_items (u # ts) @ CHR '')'' # rest) =
      Ok (Tuple ((items @ [t]) @ u # ts), rest)"
    using 5 m by (intro 5(2)) auto
  ultimately show ?case using m by (simp add: trim_start_plain plain_punctuation Let_def)
qed simp_all

lemma parse_int_tuple_show:
  "well_formed_tuple t \<Longrightarrow> stops rest \<Longrightarrow> parse_int_tuple (show_tuple t @ rest) = Ok (t, rest)"
  unfolding parse_int_tuple_def by (rule parse_show(1)) auto

text \<open>(C36) Printing and parsing a layout are inverse: every layout whose shape and stride are congruent
  trees of \<open>i64\<close> leaves without an empty node is read back from its \<open>shape:stride\<close> text.\<close>

theorem layout_text_roundtrip:
  assumes "well_formed_tuple (shape l)" and "well_formed_tuple (stride l)" and "is_congruent (shape l) (stride l)"
  shows "layout_from_str (show_layout l) = Ok l"
proof -
  have "parse_int_tuple (show_layout l) = Ok (shape l, CHR '':'' # show_tuple (stride l))"
    unfolding show_layout_def using assms(1) by (intro parse_int_tuple_show) simp_all
  moreover have "parse_int_tuple (show_tuple (stride l)) = Ok (stride l, [])"
    using parse_int_tuple_show [OF assms(2), of "[]"] by simp
  ultimately show ?thesis
    using assms(3) by (simp add: layout_from_str_def trim_start_plain plain_punctuation Let_def)
qed

theorem layout_text_roundtrip_witness:
  "layout_from_str (show_layout \<lparr>shape = Tuple [Tuple [Leaf 2, Leaf 4], Leaf 32],
     stride = Tuple [Tuple [Leaf 128, Leaf (- 32)], Leaf 1]\<rparr>) =
   Ok \<lparr>shape = Tuple [Tuple [Leaf 2, Leaf 4], Leaf 32], stride = Tuple [Tuple [Leaf 128, Leaf (- 32)], Leaf 1]\<rparr>"
  by (rule layout_text_roundtrip) (simp_all add: in_i64_def)

text \<open>(C39) The layout parser is total, and what it accepts is a layout: on every text it returns a
  value or an error, and an accepted layout has congruent shape and stride, no empty node and \<open>i64\<close>
  leaves.\<close>

theorem layout_parser_total:
  "layout_from_str s \<noteq> Panic \<and>
   (\<forall>l. layout_from_str s = Ok l \<longrightarrow>
      is_congruent (shape l) (stride l) \<and> well_formed_tuple (shape l) \<and> well_formed_tuple (stride l))"
proof -
  have P: "parse_int_tuple u \<noteq> Panic" "parse_int_tuple u = Ok (t, r) \<Longrightarrow> well_formed_tuple t" for u t r
    using parse_fuel(1) [of u "2 * length u + 2"] by (auto simp: parse_int_tuple_def)
  then show ?thesis by (auto simp: layout_from_str_def outcome_simps Let_def split: if_splits)
qed

theorem layout_parser_total_witness:
  "layout_from_str '' ( 8 , 32 ) : (32,1) '' =
     Ok \<lparr>shape = Tuple [Leaf 8, Leaf 32], stride = Tuple [Leaf 32, Leaf 1]\<rparr> \<and>
   is_congruent (Tuple [Leaf 8, Leaf 32]) (Tuple [Leaf 32, Leaf 1])"
proof -
  have h: "layout_from_str '' ( 8 , 32 ) : (32,1) '' =
     Ok \<lparr>shape = Tuple [Leaf 8, Leaf 32], stride = Tuple [Leaf 32, Leaf 1]\<rparr>" by code_simp
  then show ?thesis using layout_parser_total [of "'' ( 8 , 32 ) : (32,1) ''"] by simp
qed

text \<open>An empty node prints as a text the parser rejects.\<close>

lemma empty_node_not_parsed: "int_tuple_from_str (show_tuple (Tuple [])) = Err ParseLayoutError"
  by code_simp

end
