(* ===== verification/Slot_Table.thy ===== *)
theory Slot_Table
  imports Oxide_Prelude
begin

text \<open>
  The completion-slot table of \<open>cuda-async/src/slot_table.rs\<close>, one definition per operation: a pool
  of slots, each with a completion flag the device sets, a bit of the active bitmap and a payload
  cell, a stack of free slots and the count of armed slots.

  The bitmap is a vector of 64-bit words; the operations only set and clear bits below 64 and test
  words for zero, so a word is a \<^typ>\<open>nat\<close>. Here each operation runs alone; the theory
  \<open>Slot_Protocol\<close> interleaves their atomic steps. \<open>None\<close> is a panic: an index out of
  range or the debug assertion on the armed count.
\<close>

record 'p SlotTable =
  flags :: "nat list"
  active :: "nat list"
  payload :: "'p option list"
  free :: "nat list"
  n_armed :: nat
  num_slots :: nat

definition table_new :: "nat \<Rightarrow> nat list \<Rightarrow> 'p SlotTable" where
  "table_new n flag_array =
     \<lparr>flags = flag_array, active = replicate ((n + 63) div 64) 0, payload = replicate n None,
      free = rev [0..<n], n_armed = 0, num_slots = n\<rparr>"

definition is_idle :: "'p SlotTable \<Rightarrow> bool" where
  "is_idle self = (n_armed self = 0)"

definition claim :: "'p SlotTable \<Rightarrow> nat option \<times> 'p SlotTable" where
  "claim self =
     (if free self = [] then (None, self)
      else (Some (last (free self)), self\<lparr>free := butlast (free self)\<rparr>))"

definition release :: "nat \<Rightarrow> 'p SlotTable \<Rightarrow> 'p SlotTable" where
  "release slot self = self\<lparr>free := free self @ [slot]\<rparr>"

definition reset_flag :: "nat \<Rightarrow> 'p SlotTable \<Rightarrow> 'p SlotTable option" where
  "reset_flag slot self =
     (if slot < length (flags self) then Some (self\<lparr>flags := (flags self)[slot := 0]\<rparr>) else None)"

text \<open>The three atomic steps of \<open>publish\<close>, in its order.\<close>

definition write_payload :: "nat \<Rightarrow> 'p \<Rightarrow> 'p SlotTable \<Rightarrow> 'p SlotTable option" where
  "write_payload slot p self =
     (if slot < length (payload self) then Some (self\<lparr>payload := (payload self)[slot := Some p]\<rparr>) else None)"

definition count_armed :: "'p SlotTable \<Rightarrow> bool \<times> 'p SlotTable" where
  "count_armed self = (n_armed self = 0, self\<lparr>n_armed := (n_armed self + 1) mod 2 ^ 64\<rparr>)"

definition set_active :: "nat \<Rightarrow> 'p SlotTable \<Rightarrow> 'p SlotTable option" where
  "set_active slot self =
     (if slot div 64 < length (active self)
      then Some (self\<lparr>active := (active self)[slot div 64 := active self ! (slot div 64) OR push_bit (slot mod 64) 1]\<rparr>)
      else None)"

definition publish :: "nat \<Rightarrow> 'p \<Rightarrow> 'p SlotTable \<Rightarrow> (bool \<times> 'p SlotTable) option" where
  "publish slot waker self =
     do { t \<leftarrow> write_payload slot waker self;
          let (was_idle, t) = count_armed t in
          do { t \<leftarrow> set_active slot t; Some (was_idle, t) } }"

text \<open>The pieces of one scan pass: \<open>trailing_zeros\<close>, loading a flag, clearing a bit, taking a payload, recycling.\<close>

fun ctz :: "nat \<Rightarrow> nat" where
  "ctz n = (if n = 0 then 64 else if odd n then 0 else Suc (ctz (n div 2)))"

declare ctz.simps [simp del]

definition flag_landed :: "nat \<Rightarrow> 'p SlotTable \<Rightarrow> bool option" where
  "flag_landed slot self = (if slot < length (flags self) then Some (flags self ! slot = 1) else None)"

definition clear_active :: "nat \<Rightarrow> nat \<Rightarrow> 'p SlotTable \<Rightarrow> 'p SlotTable option" where
  "clear_active word b self =
     (if word < length (active self)
      then Some (self\<lparr>active := (active self)[word := unset_bit b (active self ! word)]\<rparr>) else None)"

definition take_payload :: "nat \<Rightarrow> 'p SlotTable \<Rightarrow> ('p option \<times> 'p SlotTable) option" where
  "take_payload slot self =
     (if slot < length (payload self)
      then Some (payload self ! slot, self\<lparr>payload := (payload self)[slot := None]\<rparr>) else None)"

definition recycle :: "nat list \<Rightarrow> 'p SlotTable \<Rightarrow> 'p SlotTable" where
  "recycle retired self = self\<lparr>free := free self @ retired\<rparr>"

definition uncount_armed :: "nat \<Rightarrow> 'p SlotTable \<Rightarrow> 'p SlotTable option" where
  "uncount_armed n self = (if n_armed self \<ge> n then Some (self\<lparr>n_armed := n_armed self - n\<rparr>) else None)"

record 'p scan =
  table :: "'p SlotTable"
  retired :: "nat list"
  woken :: "'p list"
  dead_out :: "'p list"

text \<open>\<open>is_dead\<close> is asked about the payload of an armed slot whose flag has not landed.\<close>

definition slot_dead :: "('p \<Rightarrow> bool) option \<Rightarrow> nat \<Rightarrow> 'p SlotTable \<Rightarrow> bool" where
  "slot_dead probe slot t =
     (case probe of
        None \<Rightarrow> False
      | Some dead \<Rightarrow> (case payload t ! slot of None \<Rightarrow> False | Some p \<Rightarrow> dead p))"

definition probe_slot :: "('p \<Rightarrow> bool) option \<Rightarrow> nat \<Rightarrow> 'p SlotTable \<Rightarrow> bool option" where
  "probe_slot probe slot t =
     (if probe = None \<or> slot < length (payload t) then Some (slot_dead probe slot t) else None)"

definition scan_slot :: "('p \<Rightarrow> bool) option \<Rightarrow> nat \<Rightarrow> nat \<Rightarrow> 'p scan \<Rightarrow> 'p scan option" where
  "scan_slot probe word b st =
     (let slot = word * 64 + b in
      do { landed \<leftarrow> flag_landed slot (table st);
           dead \<leftarrow> (if landed then Some False else probe_slot probe slot (table st));
           if landed \<or> dead
           then do { t \<leftarrow> clear_active word b (table st);
                     (taken, t) \<leftarrow> take_payload slot t;
                     let out = (case taken of None \<Rightarrow> [] | Some p \<Rightarrow> [p]);
                     Some (st\<lparr>table := t, retired := retired st @ [slot],
                       woken := woken st @ (if landed then out else []),
                       dead_out := dead_out st @ (if landed then [] else out)\<rparr>) }
           else Some st })"

lemma drop_lowest_less: "bits \<noteq> 0 \<Longrightarrow> bits AND (bits - 1) < bits" for bits :: nat
proof -
  assume "bits \<noteq> 0"
  moreover have "int bits AND int (bits - 1) \<le> int (bits - 1)" by (rule AND_upper2) simp
  ultimately have "nat (int bits AND int (bits - 1)) < bits" by linarith
  then show ?thesis by (simp only: and_nat_def)
qed

function scan_bits :: "('p \<Rightarrow> bool) option \<Rightarrow> nat \<Rightarrow> nat \<Rightarrow> 'p scan \<Rightarrow> 'p scan option" where
  "scan_bits probe word bits st =
     (if bits = 0 then Some st
      else let b = ctz bits in
           if word * 64 + b \<ge> num_slots (table st) then Some st
           else do { st \<leftarrow> scan_slot probe word b st; scan_bits probe word (bits AND (bits - 1)) st })"
  by pat_completeness auto
termination
  by (relation "measure (\<lambda>(_, _, bits, _). bits)") (simp_all add: drop_lowest_less del: One_nat_def)

declare scan_bits.simps [simp del]

fun scan_words :: "('p \<Rightarrow> bool) option \<Rightarrow> nat list \<Rightarrow> bool \<Rightarrow> 'p scan \<Rightarrow> (bool \<times> 'p scan) option" where
  "scan_words probe [] any_active st = Some (any_active, st)"
| "scan_words probe (word # words) any_active st =
     (if word < length (active (table st))
      then let bits = active (table st) ! word in
           if bits = 0 then scan_words probe words any_active st
           else do { st \<leftarrow> scan_bits probe word bits st; scan_words probe words True st }
      else None)"

definition scan_inner :: "('p \<Rightarrow> bool) option \<Rightarrow> 'p SlotTable \<Rightarrow> (bool \<times> 'p list \<times> 'p list \<times> 'p SlotTable) option" where
  "scan_inner probe self =
     do { (any_active, st) \<leftarrow> scan_words probe [0..<length (active self)] False
            \<lparr>table = self, retired = [], woken = [], dead_out = []\<rparr>;
          if retired st = [] then Some (any_active, woken st, dead_out st, table st)
          else do { t \<leftarrow> uncount_armed (length (retired st)) (recycle (retired st) (table st));
                    Some (any_active, woken st, dead_out st, t) } }"

definition scan_once :: "'p SlotTable \<Rightarrow> (bool \<times> 'p list \<times> 'p SlotTable) option" where
  "scan_once self = map_option (\<lambda>(a, w, _, t). (a, w, t)) (scan_inner None self)"

definition scan_probing :: "('p \<Rightarrow> bool) \<Rightarrow> 'p SlotTable \<Rightarrow> (bool \<times> 'p list \<times> 'p list \<times> 'p SlotTable) option" where
  "scan_probing dead self = scan_inner (Some dead) self"

section \<open>The loop over the bits of a word\<close>

lemma ctz_lowest: "n \<noteq> 0 \<Longrightarrow> bit n (ctz n) \<and> (\<forall>i < ctz n. \<not> bit n i)"
proof (induction n rule: ctz.induct)
  case (1 n)
  show ?case
  proof (cases "odd n")
    case True
    then show ?thesis using 1(2) by (simp add: ctz.simps [of n] bit_0)
  next
    case False
    then have c: "ctz n = Suc (ctz (n div 2))" "n div 2 \<noteq> 0" using 1(2) by (auto simp: ctz.simps [of n])
    have "\<not> bit n i" if "i < Suc (ctz (n div 2))" for i
      using 1(1) [OF 1(2)] False c(2) that by (cases i) (auto simp: bit_0 bit_Suc)
    then show ?thesis using 1(1) [OF 1(2)] False c by (simp add: bit_Suc)
  qed
qed

lemma drop_lowest_bit: "n \<noteq> 0 \<Longrightarrow> bit (n AND (n - 1)) i \<longleftrightarrow> bit n i \<and> i \<noteq> ctz n" for n :: nat
proof (induction n arbitrary: i rule: ctz.induct)
  case (1 n)
  show ?case
  proof (cases "odd n")
    case True
    then have "even (n - 1)" "(n - 1) div 2 = n div 2" by (auto elim!: oddE)
    then show ?thesis
      unfolding bit_and_iff using True 1(2) by (cases i) (auto simp: ctz.simps [of n] bit_0 bit_Suc)
  next
    case False
    then have c: "ctz n = Suc (ctz (n div 2))" "n div 2 \<noteq> 0" "(n - 1) div 2 = n div 2 - 1"
      using 1(2) by (auto simp: ctz.simps [of n])
    show ?thesis
    proof (cases i)
      case 0
      then show ?thesis unfolding bit_and_iff using False by (simp add: bit_0 c)
    next
      case (Suc j)
      have "bit (n div 2 AND (n div 2 - 1)) j \<longleftrightarrow> bit (n div 2) j \<and> j \<noteq> ctz (n div 2)"
        using 1(1) [OF 1(2)] False c(2) by simp
      then show ?thesis unfolding bit_and_iff using Suc c by (simp add: bit_Suc)
    qed
  qed
qed

text \<open>The set bits of a word, lowest first: the order in which the loop meets them.\<close>

definition bit_list :: "nat \<Rightarrow> nat list" where
  "bit_list w = filter (bit w) [0..<64]"

lemma bit_list_step:
  assumes "w \<noteq> 0" and "w < 2 ^ 64"
  shows "bit_list w = ctz w # bit_list (w AND (w - 1))"
proof -
  have c: "bit w (ctz w)" "\<And>i. i < ctz w \<Longrightarrow> \<not> bit w i" using ctz_lowest [OF assms(1)] by auto
  have lt: "ctz w < 64"
  proof (rule ccontr)
    assume "\<not> ctz w < 64"
    then have "take_bit 64 w = 0" using c(2) by (intro bit_eqI) (simp add: bit_take_bit_iff)
    then show False using assms by (simp add: take_bit_nat_eq_self)
  qed
  then have split: "[0..<64] = [0..<ctz w] @ ctz w # [Suc (ctz w)..<64]"
    by (metis less_imp_add_positive upt_add_eq_append upt_conv_Cons le0 plus_nat.add_0 le_add1 add_lessD1 less_add_same_cancel1)
  have low: "filter (bit w) [0..<ctz w] = []" "filter (bit (w AND (w - 1))) [0..<ctz w] = []"
    using c(2) drop_lowest_bit [OF assms(1)] by (auto simp: filter_empty_conv)
  have "filter (bit w) [Suc (ctz w)..<64] = filter (bit (w AND (w - 1))) [Suc (ctz w)..<64]"
    using drop_lowest_bit [OF assms(1)] by (intro filter_cong) auto
  then show ?thesis
    unfolding bit_list_def split using c(1) low drop_lowest_bit [OF assms(1), of "ctz w"] by simp
qed

end
