(* ===== verification/Slot_Table_Properties.thy ===== *)
theory Slot_Table_Properties
  imports Slot_Table
begin

text \<open>
  What one scan pass does when nothing runs beside it: the two loops visit exactly the armed slots in
  increasing order, and the pass splits them into the retired ones, whose payloads it returns, and
  the ones that stay armed.
\<close>

section \<open>Armed slots\<close>

definition is_armed :: "'p SlotTable \<Rightarrow> nat \<Rightarrow> bool" where
  "is_armed t s = bit (active t ! (s div 64)) (s mod 64)"

definition armed_slots :: "'p SlotTable \<Rightarrow> nat list" where
  "armed_slots t = filter (is_armed t) [0..<num_slots t]"

definition wf_table :: "'p SlotTable \<Rightarrow> bool" where
  "wf_table t \<longleftrightarrow>
     length (flags t) = num_slots t \<and> length (payload t) = num_slots t \<and>
     length (active t) = (num_slots t + 63) div 64 \<and> (\<forall>w \<in> set (active t). w < 2 ^ 64) \<and>
     (\<forall>s. num_slots t \<le> s \<and> s < 64 * length (active t) \<longrightarrow> \<not> is_armed t s)"

lemma words_cover: "n \<le> 64 * ((n + 63) div 64)" for n :: nat
  using mult_div_mod_eq [of 64 "n + 63"] mod_less_divisor [of 64 "n + 63"] by linarith

lemma slot_word_bound: "s < n \<Longrightarrow> s div 64 < (n + 63) div 64" for s n :: nat
  using words_cover [of n] by (simp add: div_less_iff_less_mult mult.commute)

lemma slot_split: "(word * 64 + b) div 64 = word \<and> (word * 64 + b) mod 64 = b" if "b < 64" for word b :: nat
  using that by simp

lemma filter_blocks:
  "filter P [0..<64 * n] = concat (map (\<lambda>w. map (\<lambda>b. w * 64 + b) (filter (\<lambda>b. P (w * 64 + b)) [0..<64])) [0..<n])"
proof (induction n)
  case (Suc n)
  have "[0..<64 * Suc n] = [0..<64 * n] @ [64 * n..<64 * n + 64]"
    by (metis add.commute mult_Suc_right upt_add_eq_append zero_le)
  moreover have "[64 * n..<64 * n + 64] = map (\<lambda>b. n * 64 + b) [0..<64]"
    using map_add_upt [of "64 * n" 64] by (simp add: add.commute mult.commute)
  ultimately show ?case using Suc by (simp add: filter_map comp_def)
qed simp

text \<open>The armed slots, word by word.\<close>

lemma armed_slots_words:
  assumes "wf_table t"
  shows "armed_slots t =
    concat (map (\<lambda>w. map (\<lambda>b. w * 64 + b) (bit_list (active t ! w))) [0..<length (active t)])"
proof -
  let ?n = "num_slots t" and ?m = "64 * length (active t)"
  have le: "?n \<le> ?m" using assms words_cover [of ?n] by (simp add: wf_table_def)
  then have "[0..<?m] = [0..<?n] @ [?n..<?m]" by (metis le_add_diff_inverse upt_add_eq_append zero_le)
  moreover have "filter (is_armed t) [?n..<?m] = []" using assms by (auto simp: wf_table_def filter_empty_conv)
  ultimately have "armed_slots t = filter (is_armed t) [0..<?m]" by (simp add: armed_slots_def)
  also have "\<dots> = concat (map (\<lambda>w. map (\<lambda>b. w * 64 + b) (filter (\<lambda>b. is_armed t (w * 64 + b)) [0..<64]))
      [0..<length (active t)])" by (rule filter_blocks)
  also have "\<dots> = concat (map (\<lambda>w. map (\<lambda>b. w * 64 + b) (bit_list (active t ! w))) [0..<length (active t)])"
    unfolding bit_list_def is_armed_def by (intro arg_cong [where f = concat] map_cong refl filter_cong) auto
  finally show ?thesis .
qed

section \<open>The loops\<close>

text \<open>The effects of clearing a bit and of looking at a slot when every index is in range.\<close>

definition cleared :: "nat \<Rightarrow> nat \<Rightarrow> 'p SlotTable \<Rightarrow> 'p SlotTable" where
  "cleared word b t = t\<lparr>active := (active t)[word := unset_bit b (active t ! word)]\<rparr>"

lemma clear_active_Some: "clear_active w b t = Some t' \<longleftrightarrow> w < length (active t) \<and> t' = cleared w b t"
  by (auto simp: clear_active_def cleared_def)

lemma take_payload_Some:
  "take_payload s t = Some (c, t') \<longleftrightarrow> s < length (payload t) \<and> c = payload t ! s \<and> t' = t\<lparr>payload := (payload t)[s := None]\<rparr>"
  by (auto simp: take_payload_def)

lemma flag_landed_Some: "flag_landed s t = Some b \<longleftrightarrow> s < length (flags t) \<and> b = (flags t ! s = 1)"
  by (auto simp: flag_landed_def)

definition visit :: "('p \<Rightarrow> bool) option \<Rightarrow> nat \<Rightarrow> nat \<Rightarrow> 'p scan \<Rightarrow> 'p scan" where
  "visit probe word b st =
     (let slot = word * 64 + b; landed = (flags (table st) ! slot = 1); taken = payload (table st) ! slot;
          out = (case taken of None \<Rightarrow> [] | Some p \<Rightarrow> [p]); t = cleared word b (table st) in
      if landed \<or> slot_dead probe slot (table st)
      then st\<lparr>table := t\<lparr>payload := (payload t)[slot := None]\<rparr>, retired := retired st @ [slot],
              woken := woken st @ (if landed then out else []),
              dead_out := dead_out st @ (if landed then [] else out)\<rparr>
      else st)"

text \<open>Every index of the slots below the number of slots is in range.\<close>

definition sized :: "'p SlotTable \<Rightarrow> bool" where
  "sized t \<longleftrightarrow> length (flags t) = num_slots t \<and> length (payload t) = num_slots t \<and> length (active t) = (num_slots t + 63) div 64"

lemma scan_slot_visit:
  assumes "sized (table st)" "w * 64 + b < num_slots (table st)" "b < 64"
  shows "scan_slot probe w b st = Some (visit probe w b st)"
proof -
  have "w < length (active (table st))" using assms slot_word_bound [OF assms(2)] by (simp add: sized_def)
  then show ?thesis using assms
    by (auto simp: scan_slot_def visit_def sized_def flag_landed_def probe_slot_def clear_active_def take_payload_def cleared_def Let_def)
qed

definition scan_at :: "('p \<Rightarrow> bool) option \<Rightarrow> nat \<Rightarrow> 'p scan \<Rightarrow> 'p scan" where
  "scan_at probe s = visit probe (s div 64) (s mod 64)"

definition retires :: "('p \<Rightarrow> bool) option \<Rightarrow> 'p SlotTable \<Rightarrow> nat \<Rightarrow> bool" where
  "retires probe t s \<longleftrightarrow> flags t ! s = 1 \<or> slot_dead probe s t"

lemma visit_frame:
  "num_slots (table (visit probe w b st)) = num_slots (table st)"
  "flags (table (visit probe w b st)) = flags (table st)"
  "free (table (visit probe w b st)) = free (table st)"
  "n_armed (table (visit probe w b st)) = n_armed (table st)"
  "length (payload (table (visit probe w b st))) = length (payload (table st))"
  "length (active (table (visit probe w b st))) = length (active (table st))"
  "w' \<noteq> w \<Longrightarrow> active (table (visit probe w b st)) ! w' = active (table st) ! w'"
  by (simp_all add: visit_def Let_def cleared_def)

lemma sized_visit: "sized (table (visit probe w b st)) = sized (table st)"
  by (simp add: sized_def visit_frame)

lemma scan_bits_fold:
  assumes "bits < 2 ^ 64" and "\<forall>b \<in> set (bit_list bits). w * 64 + b < num_slots (table st)" and "sized (table st)"
  shows "scan_bits probe w bits st = Some (fold (\<lambda>b. scan_at probe (w * 64 + b)) (bit_list bits) st)"
  using assms
proof (induction probe w bits st rule: scan_bits.induct)
  case (1 probe w bits st)
  show ?case
  proof (cases "bits = 0")
    case True
    then show ?thesis by (simp add: scan_bits.simps [of _ _ 0] bit_list_def)
  next
    case False
    note step = bit_list_step [OF False 1(2)]
    have "ctz bits \<in> set (bit_list bits)" unfolding step by simp
    then have c: "w * 64 + ctz bits < num_slots (table st)" "ctz bits < 64" using 1(3) by (auto simp: bit_list_def)
    note v = scan_slot_visit [OF 1(4) c]
    have "scan_bits probe w (bits AND (bits - 1)) (visit probe w (ctz bits) st) =
        Some (fold (\<lambda>b. scan_at probe (w * 64 + b)) (bit_list (bits AND (bits - 1))) (visit probe w (ctz bits) st))"
      using 1(1) [OF False refl _ v] 1(2-4) step c drop_lowest_less [OF False] by (simp add: visit_frame sized_visit)
    then show ?thesis
      using False c step v by (simp add: scan_bits.simps [of _ _ bits] scan_at_def slot_split)
  qed
qed

lemma sized_fold: "sized (table (fold (\<lambda>b. scan_at probe (w * 64 + b)) bs st)) = sized (table st)"
  by (induction bs arbitrary: st) (simp_all add: scan_at_def sized_visit)

lemma fold_scan_frame:
  "num_slots (table (fold (\<lambda>b. scan_at probe (w * 64 + b)) bs st)) = num_slots (table st)"
  "\<forall>b \<in> set bs. b < 64 \<Longrightarrow> w' \<noteq> w \<Longrightarrow>
     active (table (fold (\<lambda>b. scan_at probe (w * 64 + b)) bs st)) ! w' = active (table st) ! w'"
  by (induction bs arbitrary: st) (simp_all add: scan_at_def visit_frame)

lemma scan_words_fold:
  assumes "distinct ws" and "\<forall>w \<in> set ws. active (table st) ! w < 2 ^ 64"
    and "\<forall>w \<in> set ws. \<forall>b \<in> set (bit_list (active (table st) ! w)). w * 64 + b < num_slots (table st)"
    and "sized (table st)" and "\<forall>w \<in> set ws. w < length (active (table st))"
  shows "scan_words probe ws any_active st =
    Some (any_active \<or> (\<exists>w \<in> set ws. active (table st) ! w \<noteq> 0),
     fold (scan_at probe) (concat (map (\<lambda>w. map (\<lambda>b. w * 64 + b) (bit_list (active (table st) ! w))) ws)) st)"
  using assms
proof (induction ws arbitrary: any_active st)
  case (Cons w ws)
  let ?bits = "active (table st) ! w"
  let ?st = "fold (\<lambda>b. scan_at probe (w * 64 + b)) (bit_list ?bits) st"
  have B: "scan_bits probe w ?bits st = Some ?st" using Cons.prems by (intro scan_bits_fold) auto
  have b64: "\<forall>b \<in> set (bit_list ?bits). b < 64" by (auto simp: bit_list_def)
  have same: "active (table ?st) ! v = active (table st) ! v" if "v \<in> set ws" for v
    using that Cons.prems(1) fold_scan_frame(2) [OF b64] by (metis distinct.simps(2))
  have len: "length (active (table ?st)) = length (active (table st))" using Cons.prems(4) sized_fold [of probe w "bit_list ?bits" st]
    by (simp add: sized_def fold_scan_frame(1))
  have IH: "scan_words probe ws any' ?st =
      Some (any' \<or> (\<exists>v \<in> set ws. active (table st) ! v \<noteq> 0),
       fold (scan_at probe) (concat (map (\<lambda>v. map (\<lambda>b. v * 64 + b) (bit_list (active (table st) ! v))) ws)) ?st)" for any'
    using Cons.IH [of ?st any'] Cons.prems same by (simp add: fold_scan_frame(1) sized_fold len cong: map_cong)
  show ?case
  proof (cases "?bits = 0")
    case True
    then have "?st = st" by (simp add: bit_list_def)
    then show ?thesis using True IH Cons.prems(5) by (simp add: bit_list_def)
  next
    case False
    then show ?thesis using B IH Cons.prems(5) by (simp add: fold_map comp_def)
  qed
qed simp

section \<open>The effect of a pass\<close>

lemma armed_clear:
  assumes "s div 64 < length (active t)"
  shows "is_armed (cleared (s div 64) (s mod 64) t) x \<longleftrightarrow> is_armed t x \<and> x \<noteq> s"
proof -
  have "x div 64 = s div 64 \<Longrightarrow> x mod 64 = s mod 64 \<Longrightarrow> x = s" by (metis div_mult_mod_eq)
  then show ?thesis using assms by (auto simp: is_armed_def cleared_def nth_list_update bit_unset_bit_iff)
qed

lemma scan_at_retire:
  assumes "retires probe (table st) s" and "s < length (payload (table st))" and "s div 64 < length (active (table st))"
    and "payload (table st) ! s = Some p"
  shows "retired (scan_at probe s st) = retired st @ [s]"
    and "woken (scan_at probe s st) = woken st @ (if flags (table st) ! s = 1 then [p] else [])"
    and "dead_out (scan_at probe s st) = dead_out st @ (if flags (table st) ! s = 1 then [] else [p])"
    and "payload (table (scan_at probe s st)) = (payload (table st))[s := None]"
    and "is_armed (table (scan_at probe s st)) x \<longleftrightarrow> is_armed (table st) x \<and> x \<noteq> s"
    and "active (table (scan_at probe s st)) = active (cleared (s div 64) (s mod 64) (table st))"
  using assms armed_clear [OF assms(3), of x]
  by (auto simp: scan_at_def visit_def retires_def Let_def cleared_def is_armed_def)

lemma scan_at_keep: "\<not> retires probe (table st) s \<Longrightarrow> scan_at probe s st = st"
  by (simp add: scan_at_def visit_def retires_def Let_def)

lemma slot_dead_cong: "payload t ! s = payload u ! s \<Longrightarrow> slot_dead probe s t = slot_dead probe s u"
  by (simp add: slot_dead_def split: option.split)

lemma retires_cong: "flags t = flags u \<Longrightarrow> payload t ! s = payload u ! s \<Longrightarrow> retires probe t s = retires probe u s"
  by (auto simp: retires_def slot_dead_def split: option.splits)

lemma unset_bit_less: "w < 2 ^ 64 \<Longrightarrow> unset_bit b w < 2 ^ 64" for w :: nat
proof -
  assume "w < 2 ^ 64"
  moreover have "int (unset_bit b w) \<le> int w" unfolding of_nat_unset_bit_eq by (rule unset_bit_less_eq)
  ultimately show ?thesis by linarith
qed

text \<open>The pass over the slots \<open>ss\<close> from \<open>st\<close> ends in \<open>st'\<close>: what it collected and what the table holds.\<close>

definition scanned :: "('p \<Rightarrow> bool) option \<Rightarrow> nat list \<Rightarrow> 'p scan \<Rightarrow> 'p scan \<Rightarrow> bool" where
  "scanned probe ss st st' \<longleftrightarrow>
     retired st' = retired st @ filter (retires probe (table st)) ss \<and>
     woken st' = woken st @ map (\<lambda>s. the (payload (table st) ! s)) (filter (\<lambda>s. flags (table st) ! s = 1) ss) \<and>
     dead_out st' = dead_out st @ map (\<lambda>s. the (payload (table st) ! s))
        (filter (\<lambda>s. flags (table st) ! s \<noteq> 1 \<and> slot_dead probe s (table st)) ss) \<and>
     (\<forall>x. is_armed (table st') x \<longleftrightarrow> is_armed (table st) x \<and> \<not> (x \<in> set ss \<and> retires probe (table st) x)) \<and>
     (\<forall>x. \<not> (x \<in> set ss \<and> retires probe (table st) x) \<longrightarrow> payload (table st') ! x = payload (table st) ! x) \<and>
     ((\<forall>w \<in> set (active (table st)). w < 2 ^ 64) \<longrightarrow> (\<forall>w \<in> set (active (table st')). w < 2 ^ 64)) \<and>
     num_slots (table st') = num_slots (table st) \<and> flags (table st') = flags (table st) \<and>
     free (table st') = free (table st) \<and> n_armed (table st') = n_armed (table st) \<and>
     length (payload (table st')) = length (payload (table st)) \<and> length (active (table st')) = length (active (table st))"

lemma scanned_Nil: "scanned probe [] st st"
  by (simp add: scanned_def)

lemma scanned_keep: "\<not> retires probe (table st) s \<Longrightarrow> scanned probe ss st st' \<Longrightarrow> scanned probe (s # ss) st st'"
  by (auto simp: scanned_def retires_def)

lemma scanned_retire:
  assumes R: "retires probe (table st) s" and s: "s < length (payload (table st))" "s div 64 < length (active (table st))"
    and p: "payload (table st) ! s = Some p" and new: "s \<notin> set ss" and S: "scanned probe ss (scan_at probe s st) st'"
  shows "scanned probe (s # ss) st st'"
proof -
  let ?st = "scan_at probe s st"
  note E = scan_at_retire [OF R s p]
  note F = visit_frame [where probe = probe and w = "s div 64" and b = "s mod 64" and st = st, folded scan_at_def]
  have other: "payload (table ?st) ! x = payload (table st) ! x" if "x \<noteq> s" for x
    using E(4) that by simp
  have same: "retires probe (table ?st) x = retires probe (table st) x" "slot_dead probe x (table ?st) = slot_dead probe x (table st)"
    if "x \<noteq> s" for x
    using retires_cong [OF F(2) other [OF that]] slot_dead_cong [OF other [OF that]] by simp_all
  have ne: "x \<noteq> s" if "x \<in> set ss" for x using new that by blast
  have flt: "filter (retires probe (table ?st)) ss = filter (retires probe (table st)) ss"
    "filter (\<lambda>u. flags (table st) ! u \<noteq> 1 \<and> slot_dead probe u (table ?st)) ss =
     filter (\<lambda>u. flags (table st) ! u \<noteq> 1 \<and> slot_dead probe u (table st)) ss"
    using same ne by (auto intro!: filter_cong)
  have mp: "map (\<lambda>u. the (payload (table ?st) ! u)) (filter P ss) = map (\<lambda>u. the (payload (table st) ! u)) (filter P ss)" for P
    using other ne by (intro map_cong refl) auto
  have small: "\<forall>w \<in> set (active (table ?st)). w < 2 ^ 64" if "\<forall>w \<in> set (active (table st)). w < 2 ^ 64"
    using that s(2) unset_bit_less nth_mem [OF s(2)] unfolding E(6) cleared_def
    by (auto dest!: set_update_subset_insert [THEN subsetD])
  have armed: "is_armed (table st') x \<longleftrightarrow> is_armed (table st) x \<and> \<not> (x \<in> set (s # ss) \<and> retires probe (table st) x)" for x
    using S E(5) [of x] same(1) [of x] R by (auto simp: scanned_def)
  have kept: "payload (table st') ! x = payload (table st) ! x" if "\<not> (x \<in> set (s # ss) \<and> retires probe (table st) x)" for x
  proof -
    have x: "x \<noteq> s" "\<not> (x \<in> set ss \<and> retires probe (table ?st) x)" using that R same(1) [of x] by auto
    then show ?thesis using S other by (simp add: scanned_def)
  qed
  have r: "retired st' = retired st @ filter (retires probe (table st)) (s # ss)"
    using S R E(1) by (simp add: scanned_def flt(1))
  have w: "woken st' = woken st @ map (\<lambda>u. the (payload (table st) ! u)) (filter (\<lambda>u. flags (table st) ! u = 1) (s # ss))"
    using S E(2) F(2) p by (simp add: scanned_def mp)
  have d: "dead_out st' = dead_out st @ map (\<lambda>u. the (payload (table st) ! u))
      (filter (\<lambda>u. flags (table st) ! u \<noteq> 1 \<and> slot_dead probe u (table st)) (s # ss))"
    using S E(3) F(2) p R flt(2) by (cases "flags (table st) ! s = 1") (simp_all add: scanned_def mp retires_def del: One_nat_def)
  have sm: "(\<forall>w \<in> set (active (table st)). w < 2 ^ 64) \<longrightarrow> (\<forall>w \<in> set (active (table st')). w < 2 ^ 64)"
    using S small unfolding scanned_def by blast
  have fr: "num_slots (table st') = num_slots (table st) \<and> flags (table st') = flags (table st) \<and>
      free (table st') = free (table st) \<and> n_armed (table st') = n_armed (table st) \<and>
      length (payload (table st')) = length (payload (table st)) \<and> length (active (table st')) = length (active (table st))"
    using S F(1-6) by (simp add: scanned_def)
  show ?thesis unfolding scanned_def using r w d armed kept sm fr by blast
qed

lemma fold_scanned:
  assumes "distinct ss" and "\<forall>s \<in> set ss. s < length (payload (table st)) \<and> s div 64 < length (active (table st)) \<and>
      (\<exists>p. payload (table st) ! s = Some p)"
  shows "scanned probe ss st (fold (scan_at probe) ss st)"
  using assms
proof (induction ss arbitrary: st)
  case (Cons s ss)
  show ?case
  proof (cases "retires probe (table st) s")
    case True
    obtain p where p: "payload (table st) ! s = Some p" "s < length (payload (table st))" "s div 64 < length (active (table st))"
      using Cons.prems(2) by auto
    have "\<forall>u \<in> set ss. payload (table (scan_at probe s st)) ! u = payload (table st) ! u"
      using Cons.prems(1) scan_at_retire(4) [OF True p(2,3,1)] by (metis distinct.simps(2) nth_list_update_neq)
    then have "scanned probe ss (scan_at probe s st) (fold (scan_at probe) ss (scan_at probe s st))"
      using Cons.prems by (intro Cons.IH) (auto simp: scan_at_def visit_frame)
    then show ?thesis using scanned_retire [OF True p(2,3,1)] Cons.prems(1) by simp
  next
    case False
    then show ?thesis using scanned_keep [OF False] scan_at_keep [OF False] Cons by simp
  qed
qed (simp add: scanned_Nil)

text \<open>The sequential contract: every armed slot has a payload and the count is the number of armed slots.\<close>

definition settled :: "'p SlotTable \<Rightarrow> bool" where
  "settled t \<longleftrightarrow> wf_table t \<and> n_armed t = length (armed_slots t) \<and> num_slots t < 2 ^ 64 \<and>
     (\<forall>s \<in> set (armed_slots t). \<exists>p. payload t ! s = Some p)"

lemma scan_words_all:
  assumes "wf_table t" and "\<forall>s \<in> set (armed_slots t). \<exists>p. payload t ! s = Some p"
    and "st = \<lparr>table = t, retired = [], woken = [], dead_out = []\<rparr>"
  shows "\<exists>st'. scan_words probe [0..<length (active t)] False st = Some (armed_slots t \<noteq> [], st') \<and>
    scanned probe (armed_slots t) st st'"
proof -
  let ?ws = "[0..<length (active t)]"
  have small: "active t ! w < 2 ^ 64" if "w < length (active t)" for w
    using assms(1) that by (auto simp: wf_table_def)
  have inside: "w * 64 + b < num_slots t" if "w < length (active t)" "b \<in> set (bit_list (active t ! w))" for w b
  proof -
    have "w * 64 + b \<in> set (armed_slots t)" unfolding armed_slots_words [OF assms(1)] using that by auto
    then show ?thesis by (simp add: armed_slots_def)
  qed
  have "sized t" using assms(1) by (simp add: wf_table_def sized_def)
  then have "scan_words probe ?ws False st = Some (\<exists>w \<in> set ?ws. active t ! w \<noteq> 0, fold (scan_at probe) (armed_slots t) st)"
    unfolding armed_slots_words [OF assms(1)] using scan_words_fold [of ?ws st probe False] small inside assms(3) by simp
  moreover have "(\<exists>w \<in> set ?ws. active t ! w \<noteq> 0) \<longleftrightarrow> armed_slots t \<noteq> []"
  proof -
    have "bit_list (active t ! w) = [] \<longleftrightarrow> active t ! w = 0" if "w < length (active t)" for w
      using bit_list_step [OF _ small [OF that]] by (cases "active t ! w = 0") (auto simp: bit_list_def)
    then show ?thesis unfolding armed_slots_words [OF assms(1)] by auto
  qed
  moreover have "scanned probe (armed_slots t) st (fold (scan_at probe) (armed_slots t) st)"
    using assms(1,2) slot_word_bound unfolding assms(3)
    by (intro fold_scanned) (auto simp: armed_slots_def wf_table_def)
  ultimately show ?thesis by auto
qed

text \<open>(C30) What one scan pass does to a quiet table (as many armed slots as the count says, each with a payload):
  the pass does not panic, reports whether it saw an armed slot, returns the payloads of exactly the
  armed slots whose flag is set, in slot order, and apart from them those the probe declares dead; the
  retired slots go to the free list in that order, the other armed slots stay armed with their
  payloads, no flag changes, and the table is quiet again.\<close>

theorem scan_inner_effect:
  assumes "settled t"
  shows "\<exists>t'. scan_inner probe t =
      Some (armed_slots t \<noteq> [],
            map (\<lambda>s. the (payload t ! s)) (filter (\<lambda>s. flags t ! s = 1) (armed_slots t)),
            map (\<lambda>s. the (payload t ! s)) (filter (\<lambda>s. flags t ! s \<noteq> 1 \<and> slot_dead probe s t) (armed_slots t)), t') \<and>
    settled t' \<and> armed_slots t' = filter (\<lambda>s. \<not> retires probe t s) (armed_slots t) \<and>
    free t' = free t @ filter (retires probe t) (armed_slots t) \<and> flags t' = flags t \<and>
    (\<forall>s \<in> set (armed_slots t'). payload t' ! s = payload t ! s)"
proof -
  let ?st = "\<lparr>table = t, retired = [], woken = [], dead_out = []\<rparr> :: 'a scan"
  let ?R = "filter (retires probe t) (armed_slots t)"
  have wf: "wf_table t" and cnt: "n_armed t = length (armed_slots t)" and pay: "\<forall>s \<in> set (armed_slots t). \<exists>p. payload t ! s = Some p"
    using assms by (auto simp: settled_def)
  obtain st' where st': "scan_words probe [0..<length (active t)] False ?st = Some (armed_slots t \<noteq> [], st')"
    and S: "scanned probe (armed_slots t) ?st st'"
    using scan_words_all [OF wf pay refl] by blast
  let ?t = "(table st')\<lparr>free := free t @ ?R, n_armed := n_armed t - length ?R\<rparr>"
  have armed: "is_armed (table st') s \<longleftrightarrow> is_armed t s \<and> \<not> (s \<in> set (armed_slots t) \<and> retires probe t s)" for s
    using S by (simp add: scanned_def)
  have slots: "armed_slots (table st') = filter (\<lambda>s. \<not> retires probe t s) (armed_slots t)"
    using S armed unfolding armed_slots_def by (auto simp: scanned_def intro!: filter_cong)
  have same: "armed_slots (u\<lparr>free := f, n_armed := n\<rparr>) = armed_slots u" "wf_table (u\<lparr>free := f, n_armed := n\<rparr>) = wf_table u"
    for u :: "'a SlotTable" and f n by (simp_all add: armed_slots_def is_armed_def [abs_def] wf_table_def)
  have kept: "payload (table st') ! s = payload t ! s" if "s \<in> set (armed_slots (table st'))" for s
    using S that unfolding slots by (simp add: scanned_def)
  have wf': "wf_table (table st')" using wf S armed by (auto simp: wf_table_def scanned_def)
  have len: "length ?R \<le> n_armed t" "n_armed t - length ?R = length (armed_slots (table st'))"
    unfolding cnt slots using sum_length_filter_compl [of "retires probe t" "armed_slots t"] by simp_all
  have "settled ?t"
    using wf' len(2) kept slots pay assms S unfolding settled_def same by (auto simp: scanned_def)
  moreover have "scan_inner probe t = Some (armed_slots t \<noteq> [], woken st', dead_out st', ?t)"
    using st' S len(1) by (auto simp: scan_inner_def scanned_def uncount_armed_def recycle_def)
  ultimately show ?thesis
    using S slots kept by (intro exI [of _ ?t]) (simp add: same scanned_def)
qed

text \<open>Three slots, two armed, one of them complete.\<close>

definition two_armed :: "nat SlotTable" where
  "two_armed = \<lparr>flags = [0, 0, 1], active = [5], payload = [Some 10, None, Some 12], free = [1], n_armed = 2, num_slots = 3\<rparr>"

lemma bit_five: "bit (5 :: nat) s \<longleftrightarrow> s = 0 \<or> s = 2"
proof (cases "s < 3")
  case True
  then have "s = 0 \<or> s = 1 \<or> s = 2" by auto
  then show ?thesis by (auto simp: bit_iff_odd)
next
  case False
  then have "(2 :: nat) ^ 3 \<le> 2 ^ s" by (intro power_increasing) auto
  then show ?thesis using False by (simp add: bit_iff_odd)
qed

lemma two_armed_settled: "armed_slots two_armed = [0, 2] \<and> settled two_armed"
proof -
  have a: "armed_slots two_armed = [0, 2]" by (simp add: armed_slots_def is_armed_def two_armed_def bit_five bit_0 upt_rec)
  moreover have "settled two_armed" unfolding settled_def a wf_table_def
    by (auto simp: two_armed_def is_armed_def bit_five)
  ultimately show ?thesis by simp
qed

theorem scan_inner_effect_witness:
  "\<exists>t'. scan_inner None two_armed = Some (True, [12], [], t') \<and> armed_slots t' = [0] \<and> free t' = [1, 2]"
  using scan_inner_effect [of two_armed None] two_armed_settled
  by (auto simp: retires_def slot_dead_def) (auto simp: two_armed_def)

end
