(* ===== verification/Slot_Protocol.thy ===== *)
theory Slot_Protocol
  imports Slot_Table_Properties "HOL-Library.Multiset"
begin

text \<open>
  The slot table under concurrency: any number of registrants run \<open>register\<close>, one scanner thread runs
  \<open>scan_loop\<close> (\<open>cuda-async/src/reactor.rs\<close>) and the device executes the enqueued flag writes. A
  transition is one atomic action of one of them, taken from the operations of \<open>Slot_Table\<close>, and any
  interleaving of transitions is a run. Memory is sequentially consistent.

  The driver is the documented part: an enqueued write lands at some later point or is lost to a
  fault of its context; once the driver reports the fault, the write cannot land any more. The scanner loads
  the flag and asks the driver in two steps, so a write may land in between.

  Ghost components that no guard reads: the owner of each slot, and the multisets of payloads
  published, delivered and handed out as faulted.
\<close>

section \<open>State\<close>

text \<open>The position of a registrant inside \<open>register\<close>: after \<open>claim\<close>, after \<open>reset_flag\<close>, after the flag write was
  enqueued, and after each of the three steps of \<open>publish\<close>.\<close>

datatype stage = Claimed | Cleared | Enqueued | Stored | Counted bool

datatype 'p registrant = Outside | Inside stage nat 'p | Announce bool

datatype flag_write = NoWrite | Pending | Landed | Lost

text \<open>A pass is \<open>scan_once\<close>, which records whether it has found a completed payload, or
  \<open>probe_stale_slots\<close>, which asks the driver about the slots whose flag has not landed. Another pass follows at once
  behind a probing pass and behind one that found a payload.\<close>

datatype pass = Plain bool | Probe

fun found :: "pass \<Rightarrow> bool \<Rightarrow> pass" where
  "found (Plain g) x = Plain (g \<or> x)"
| "found Probe x = Probe"

fun follows :: "pass \<Rightarrow> bool" where
  "follows (Plain g) = g"
| "follows Probe = True"

text \<open>The position of the scanner: at a word, at the bits left of a word, between loading a flag and asking the
  driver, before clearing a bit, before taking a payload, before recycling, before lowering the count, before deciding to
  park (with the answer whether another pass follows at once), parked. The list is \<open>retired\<close>.\<close>

datatype scanner =
  AtWord nat "nat list" pass
| AtBits nat nat "nat list" pass
| Probing nat nat nat "nat list"
| Clearing nat nat nat bool "nat list" pass
| Taking nat nat nat bool "nat list" pass
| Recycling "nat list" pass
| Uncounting nat pass
| Deciding bool
| Parked

datatype owner = Pool | Registrant nat | Armed | Leaving | Retired

record 'p sys =
  tbl :: "'p SlotTable"
  registrants :: "nat \<Rightarrow> 'p registrant"
  scanner :: scanner
  writes :: "nat \<Rightarrow> flag_write"
  token :: bool
  owner :: "nat \<Rightarrow> owner"
  published :: "'p multiset"
  delivered :: "'p multiset"
  faulted :: "'p multiset"

definition sys_init :: "nat \<Rightarrow> 'p sys" where
  "sys_init n = \<lparr>tbl = table_new n (replicate n 0), registrants = (\<lambda>_. Outside), scanner = AtWord 0 [] (Plain False),
     writes = (\<lambda>_. NoWrite), token = False, owner = (\<lambda>_. Pool), published = {#}, delivered = {#}, faulted = {#}\<rparr>"

section \<open>Transitions\<close>

text \<open>The steps of \<open>register\<close>. A registrant that finds no free slot returns an error and changes nothing.\<close>

inductive register_step :: "'p sys \<Rightarrow> 'p sys \<Rightarrow> bool" where
  claim: "registrants S r = Outside \<Longrightarrow> claim (tbl S) = (Some s, t) \<Longrightarrow>
    register_step S (S\<lparr>tbl := t, registrants := (registrants S)(r := Inside Claimed s p), owner := (owner S)(s := Registrant r)\<rparr>)"
| clear: "registrants S r = Inside Claimed s p \<Longrightarrow> reset_flag s (tbl S) = Some t \<Longrightarrow>
    register_step S (S\<lparr>tbl := t, registrants := (registrants S)(r := Inside Cleared s p)\<rparr>)"
| enqueue: "registrants S r = Inside Cleared s p \<Longrightarrow>
    register_step S (S\<lparr>registrants := (registrants S)(r := Inside Enqueued s p), writes := (writes S)(s := Pending)\<rparr>)"
| enqueue_fails: "registrants S r = Inside Cleared s p \<Longrightarrow>
    register_step S (S\<lparr>tbl := release s (tbl S), registrants := (registrants S)(r := Outside), owner := (owner S)(s := Pool)\<rparr>)"
| store: "registrants S r = Inside Enqueued s p \<Longrightarrow> write_payload s p (tbl S) = Some t \<Longrightarrow>
    register_step S (S\<lparr>tbl := t, registrants := (registrants S)(r := Inside Stored s p), published := add_mset p (published S)\<rparr>)"
| count: "registrants S r = Inside Stored s p \<Longrightarrow> count_armed (tbl S) = (was_idle, t) \<Longrightarrow>
    register_step S (S\<lparr>tbl := t, registrants := (registrants S)(r := Inside (Counted was_idle) s p)\<rparr>)"
| activate: "registrants S r = Inside (Counted was_idle) s p \<Longrightarrow> set_active s (tbl S) = Some t \<Longrightarrow>
    register_step S (S\<lparr>tbl := t, registrants := (registrants S)(r := Announce was_idle), owner := (owner S)(s := Armed)\<rparr>)"
| unpark: "registrants S r = Announce was_idle \<Longrightarrow>
    register_step S (S\<lparr>registrants := (registrants S)(r := Outside), token := (token S \<or> was_idle)\<rparr>)"

inductive device_step :: "'p sys \<Rightarrow> 'p sys \<Rightarrow> bool" where
  land: "writes S s = Pending \<Longrightarrow>
    device_step S (S\<lparr>tbl := (tbl S)\<lparr>flags := (flags (tbl S))[s := 1]\<rparr>, writes := (writes S)(s := Landed)\<rparr>)"
| fault: "writes S s = Pending \<Longrightarrow> device_step S (S\<lparr>writes := (writes S)(s := Lost)\<rparr>)"

text \<open>The steps of \<open>scan_inner\<close> and of the loop around it. A flag, a bitmap word or a payload out of range is no
  step. Only a pass that probes asks the driver, and a pass probes only if the table was not idle (how long the scanner
  spins before it probes is a matter of time, so here it may probe or not). The driver reports a fault only when the write
  of the slot cannot land any more, which leaves that it was lost or that it landed behind the load of the flag.
  \<open>thread::park\<close> may also return without a token.\<close>

inductive scan_step :: "'p sys \<Rightarrow> 'p sys \<Rightarrow> bool" where
  load_word: "scanner S = AtWord w ret k \<Longrightarrow> w < length (active (tbl S)) \<Longrightarrow>
    scan_step S (S\<lparr>scanner := AtBits w (active (tbl S) ! w) ret k\<rparr>)"
| last_word: "scanner S = AtWord w ret k \<Longrightarrow> \<not> w < length (active (tbl S)) \<Longrightarrow>
    scan_step S (S\<lparr>scanner := Recycling ret k\<rparr>)"
| word_done: "scanner S = AtBits w bits ret k \<Longrightarrow> bits = 0 \<or> w * 64 + ctz bits \<ge> num_slots (tbl S) \<Longrightarrow>
    scan_step S (S\<lparr>scanner := AtWord (w + 1) ret k\<rparr>)"
| see_armed: "scanner S = AtBits w bits ret (Plain g) \<Longrightarrow> bits \<noteq> 0 \<Longrightarrow> s = w * 64 + ctz bits \<Longrightarrow> s < num_slots (tbl S) \<Longrightarrow>
    flag_landed s (tbl S) = Some False \<Longrightarrow>
    scan_step S (S\<lparr>scanner := AtBits w (bits AND (bits - 1)) ret (Plain g)\<rparr>)"
| see_landed: "scanner S = AtBits w bits ret k \<Longrightarrow> bits \<noteq> 0 \<Longrightarrow> s = w * 64 + ctz bits \<Longrightarrow> s < num_slots (tbl S) \<Longrightarrow>
    flag_landed s (tbl S) = Some True \<Longrightarrow>
    scan_step S (S\<lparr>scanner := Clearing w (ctz bits) (bits AND (bits - 1)) True ret k\<rparr>)"
| see_unlanded: "scanner S = AtBits w bits ret Probe \<Longrightarrow> bits \<noteq> 0 \<Longrightarrow> s = w * 64 + ctz bits \<Longrightarrow> s < num_slots (tbl S) \<Longrightarrow>
    flag_landed s (tbl S) = Some False \<Longrightarrow>
    scan_step S (S\<lparr>scanner := Probing w (ctz bits) (bits AND (bits - 1)) ret\<rparr>)"
| probe_alive: "scanner S = Probing w b bits ret \<Longrightarrow> w * 64 + b < length (payload (tbl S)) \<Longrightarrow>
    scan_step S (S\<lparr>scanner := AtBits w bits ret Probe\<rparr>)"
| probe_dead: "scanner S = Probing w b bits ret \<Longrightarrow> w * 64 + b < length (payload (tbl S)) \<Longrightarrow> payload (tbl S) ! (w * 64 + b) \<noteq> None \<Longrightarrow>
    writes S (w * 64 + b) \<noteq> Pending \<Longrightarrow>
    scan_step S (S\<lparr>scanner := Clearing w b bits False ret Probe\<rparr>)"
| clear_bit: "scanner S = Clearing w b bits landed ret k \<Longrightarrow> clear_active w b (tbl S) = Some t \<Longrightarrow>
    scan_step S (S\<lparr>tbl := t, scanner := Taking w b bits landed ret k, owner := (owner S)(w * 64 + b := Leaving)\<rparr>)"
| take: "scanner S = Taking w b bits landed ret k \<Longrightarrow> take_payload (w * 64 + b) (tbl S) = Some (taken, t) \<Longrightarrow>
    out = (case taken of None \<Rightarrow> {#} | Some p \<Rightarrow> {#p#}) \<Longrightarrow>
    scan_step S (S\<lparr>tbl := t, scanner := AtBits w bits (ret @ [w * 64 + b]) (found k (landed \<and> taken \<noteq> None)),
      owner := (owner S)(w * 64 + b := Retired),
      delivered := delivered S + (if landed then out else {#}), faulted := faulted S + (if landed then {#} else out)\<rparr>)"
| recycle: "scanner S = Recycling ret k \<Longrightarrow> ret \<noteq> [] \<Longrightarrow>
    scan_step S (S\<lparr>tbl := recycle ret (tbl S), scanner := Uncounting (length ret) k,
      owner := (\<lambda>s. if s \<in> set ret then Pool else owner S s)\<rparr>)"
| none_retired: "scanner S = Recycling [] k \<Longrightarrow> scan_step S (S\<lparr>scanner := Deciding (follows k)\<rparr>)"
| uncount: "scanner S = Uncounting n k \<Longrightarrow> uncount_armed n (tbl S) = Some t \<Longrightarrow>
    scan_step S (S\<lparr>tbl := t, scanner := Deciding (follows k)\<rparr>)"
| again: "scanner S = Deciding True \<Longrightarrow> scan_step S (S\<lparr>scanner := AtWord 0 [] (Plain False)\<rparr>)"
| spin: "scanner S = Deciding False \<Longrightarrow> \<not> is_idle (tbl S) \<Longrightarrow> k = Plain False \<or> k = Probe \<Longrightarrow>
    scan_step S (S\<lparr>scanner := AtWord 0 [] k\<rparr>)"
| park: "scanner S = Deciding False \<Longrightarrow> is_idle (tbl S) \<Longrightarrow> scan_step S (S\<lparr>scanner := Parked\<rparr>)"
| resume: "scanner S = Parked \<Longrightarrow> token S \<Longrightarrow> scan_step S (S\<lparr>scanner := AtWord 0 [] (Plain False), token := False\<rparr>)"
| spurious: "scanner S = Parked \<Longrightarrow> scan_step S (S\<lparr>scanner := AtWord 0 [] (Plain False)\<rparr>)"

definition sys_step :: "'p sys \<Rightarrow> 'p sys \<Rightarrow> bool" where
  "sys_step S S' \<longleftrightarrow> register_step S S' \<or> device_step S S' \<or> scan_step S S'"

inductive reachable :: "nat \<Rightarrow> 'p sys \<Rightarrow> bool" for n where
  initial: "reachable n (sys_init n)"
| later: "reachable n S \<Longrightarrow> sys_step S S' \<Longrightarrow> reachable n S'"

section \<open>Invariant\<close>

fun retired_of :: "scanner \<Rightarrow> nat list" where
  "retired_of (AtWord _ ret _) = ret"
| "retired_of (AtBits _ _ ret _) = ret"
| "retired_of (Probing _ _ _ ret) = ret"
| "retired_of (Clearing _ _ _ _ ret _) = ret"
| "retired_of (Taking _ _ _ _ ret _) = ret"
| "retired_of (Recycling ret _) = ret"
| "retired_of _ = []"

fun taking_of :: "scanner \<Rightarrow> nat option" where
  "taking_of (Taking w b _ _ _ _) = Some (w * 64 + b)"
| "taking_of _ = None"

text \<open>The slots of the current word the scanner still has to look at.\<close>

fun ahead_of :: "scanner \<Rightarrow> nat set" where
  "ahead_of (AtBits w bits _ _) = {w * 64 + b | b. bit bits b}"
| "ahead_of (Probing w b bits _) = insert (w * 64 + b) {w * 64 + c | c. bit bits c}"
| "ahead_of (Clearing w b bits _ _ _) = insert (w * 64 + b) {w * 64 + c | c. bit bits c}"
| "ahead_of (Taking w _ bits _ _ _) = {w * 64 + c | c. bit bits c}"
| "ahead_of _ = {}"

definition inv_shape :: "nat \<Rightarrow> 'p sys \<Rightarrow> bool" where
  "inv_shape n S \<longleftrightarrow> wf_table (tbl S) \<and> num_slots (tbl S) = n \<and>
     (case scanner S of
        AtBits w bits _ _ \<Rightarrow> bits < 2 ^ 64
      | Probing w b bits _ \<Rightarrow> bits < 2 ^ 64 \<and> b < 64 \<and> \<not> bit bits b
      | Clearing w b bits _ _ _ \<Rightarrow> bits < 2 ^ 64 \<and> b < 64 \<and> \<not> bit bits b
      | Taking w b bits _ _ _ \<Rightarrow> bits < 2 ^ 64 \<and> b < 64
      | _ \<Rightarrow> True)"

definition own_free :: "nat \<Rightarrow> 'p sys \<Rightarrow> bool" where
  "own_free n S \<longleftrightarrow> distinct (free (tbl S)) \<and> set (free (tbl S)) = {s. s < n \<and> owner S s = Pool}"

fun slot_of :: "'p registrant \<Rightarrow> nat option" where
  "slot_of (Inside _ s _) = Some s"
| "slot_of _ = None"

definition own_reg :: "nat \<Rightarrow> 'p sys \<Rightarrow> bool" where
  "own_reg n S \<longleftrightarrow> (\<forall>r s. slot_of (registrants S r) = Some s \<longleftrightarrow> s < n \<and> owner S s = Registrant r)"

definition own_armed :: "nat \<Rightarrow> 'p sys \<Rightarrow> bool" where
  "own_armed n S \<longleftrightarrow> (\<forall>s < n. is_armed (tbl S) s \<longleftrightarrow> owner S s = Armed)"

definition own_scan :: "nat \<Rightarrow> 'p sys \<Rightarrow> bool" where
  "own_scan n S \<longleftrightarrow>
     (\<forall>s. taking_of (scanner S) = Some s \<longleftrightarrow> s < n \<and> owner S s = Leaving) \<and>
     distinct (retired_of (scanner S)) \<and> set (retired_of (scanner S)) = {s. s < n \<and> owner S s = Retired} \<and>
     (\<forall>s \<in> ahead_of (scanner S). s < n \<and> owner S s = Armed)"

definition inv_owner :: "nat \<Rightarrow> 'p sys \<Rightarrow> bool" where
  "inv_owner n S \<longleftrightarrow> own_free n S \<and> own_reg n S \<and> own_armed n S \<and> own_scan n S"

definition has_payload :: "stage \<Rightarrow> bool" where
  "has_payload st \<longleftrightarrow> st \<notin> {Claimed, Cleared, Enqueued}"

definition enqueued :: "stage \<Rightarrow> bool" where
  "enqueued st \<longleftrightarrow> st \<notin> {Claimed, Cleared}"

text \<open>The flag of a slot whose write is enqueued tells whether the write has landed.\<close>

definition in_flight :: "'p sys \<Rightarrow> nat \<Rightarrow> bool" where
  "in_flight S s \<longleftrightarrow> writes S s \<noteq> NoWrite \<and> (flags (tbl S) ! s = 1 \<longleftrightarrow> writes S s = Landed)"

definition stage_ok :: "'p sys \<Rightarrow> nat \<Rightarrow> stage \<Rightarrow> 'p \<Rightarrow> bool" where
  "stage_ok S s st p \<longleftrightarrow>
     payload (tbl S) ! s = (if has_payload st then Some p else None) \<and>
     (if enqueued st then in_flight S s else writes S s \<noteq> Pending) \<and>
     (st = Cleared \<longrightarrow> flags (tbl S) ! s = 0)"

definition slot_ok :: "'p sys \<Rightarrow> nat \<Rightarrow> bool" where
  "slot_ok S s \<longleftrightarrow>
     (case owner S s of
        Pool \<Rightarrow> payload (tbl S) ! s = None \<and> writes S s \<noteq> Pending
      | Registrant r \<Rightarrow> (\<exists>st p. registrants S r = Inside st s p \<and> stage_ok S s st p)
      | Armed \<Rightarrow> payload (tbl S) ! s \<noteq> None \<and> in_flight S s
      | Leaving \<Rightarrow> payload (tbl S) ! s \<noteq> None \<and> writes S s \<noteq> Pending
      | Retired \<Rightarrow> payload (tbl S) ! s = None \<and> writes S s \<noteq> Pending)"

text \<open>What the scanner knew when it decided to retire a slot stays true until it takes the payload: the write has
  landed, or it can no longer land.\<close>

definition settled_write :: "bool \<Rightarrow> flag_write \<Rightarrow> bool" where
  "settled_write landed fw \<longleftrightarrow> fw = Landed \<or> \<not> landed \<and> fw = Lost"

fun verdict_ok :: "(nat \<Rightarrow> flag_write) \<Rightarrow> scanner \<Rightarrow> bool" where
  "verdict_ok ws (Clearing w b _ landed _ _) = settled_write landed (ws (w * 64 + b))"
| "verdict_ok ws (Taking w b _ landed _ _) = settled_write landed (ws (w * 64 + b))"
| "verdict_ok ws _ = True"

definition inv_slots :: "nat \<Rightarrow> 'p sys \<Rightarrow> bool" where
  "inv_slots n S \<longleftrightarrow> (\<forall>s < n. slot_ok S s) \<and> (\<forall>s \<ge> n. writes S s = NoWrite) \<and> verdict_ok (writes S) (scanner S)"

definition counted :: "'p sys \<Rightarrow> nat \<Rightarrow> bool" where
  "counted S s \<longleftrightarrow>
     (case owner S s of
        Pool \<Rightarrow> False
      | Registrant r \<Rightarrow> (\<exists>b p. registrants S r = Inside (Counted b) s p)
      | _ \<Rightarrow> True)"

fun uncounting_of :: "scanner \<Rightarrow> nat" where
  "uncounting_of (Uncounting k _) = k"
| "uncounting_of _ = 0"

definition inv_count :: "nat \<Rightarrow> 'p sys \<Rightarrow> bool" where
  "inv_count n S \<longleftrightarrow> n_armed (tbl S) = card {s. s < n \<and> counted S s} + uncounting_of (scanner S) \<and>
     uncounting_of (scanner S) \<le> n"

definition in_table :: "'p SlotTable \<Rightarrow> 'p multiset" where
  "in_table t = mset (concat (map (\<lambda>c. case c of None \<Rightarrow> [] | Some p \<Rightarrow> [p]) (payload t)))"

definition inv_delivery :: "'p sys \<Rightarrow> bool" where
  "inv_delivery S \<longleftrightarrow> published S = delivered S + faulted S + in_table (tbl S)"

definition waking :: "'p registrant \<Rightarrow> bool" where
  "waking g \<longleftrightarrow> g = Announce True \<or> (\<exists>s p. g = Inside (Counted True) s p)"

definition inv_wake :: "'p sys \<Rightarrow> bool" where
  "inv_wake S \<longleftrightarrow> (scanner S = Parked \<and> \<not> token S \<longrightarrow> is_idle (tbl S) \<or> (\<exists>r. waking (registrants S r)))"

definition sys_inv :: "nat \<Rightarrow> 'p sys \<Rightarrow> bool" where
  "sys_inv n S \<longleftrightarrow> inv_shape n S \<and> inv_owner n S \<and> inv_slots n S \<and> inv_count n S \<and>
     inv_delivery S \<and> inv_wake S"

end
