(* ===== verification/Slot_Invariant.thy ===== *)
theory Slot_Invariant
  imports Slot_Protocol
begin

text \<open>Every transition of the slot protocol preserves the invariant.\<close>

section \<open>The table operations\<close>

named_theorems table_simps \<open>effects of the table operations\<close>

lemma is_armed_frame [table_simps]:
  "is_armed (t\<lparr>free := f\<rparr>) = is_armed t" "is_armed (t\<lparr>flags := f\<rparr>) = is_armed t" "is_armed (t\<lparr>payload := q\<rparr>) = is_armed t"
  "is_armed (t\<lparr>n_armed := k\<rparr>) = is_armed t"
  by (simp_all add: is_armed_def [abs_def])

lemma wf_table_frame [table_simps]:
  "wf_table (t\<lparr>free := f\<rparr>) = wf_table t" "wf_table (t\<lparr>n_armed := k\<rparr>) = wf_table t"
  "wf_table (t\<lparr>flags := (flags t)[s := v]\<rparr>) = wf_table t" "wf_table (t\<lparr>payload := (payload t)[s := c]\<rparr>) = wf_table t"
  by (simp_all add: wf_table_def is_armed_def)

lemma claim_Some:
  "claim t = (Some s, t') \<longleftrightarrow> free t \<noteq> [] \<and> s = last (free t) \<and> t' = t\<lparr>free := butlast (free t)\<rparr>"
  by (auto simp: claim_def)

lemma butlast_set:
  assumes "distinct xs" and "xs \<noteq> []"
  shows "set (butlast xs) = set xs - {last xs} \<and> distinct (butlast xs) \<and> last xs \<in> set xs"
  using assms by (induction xs rule: rev_induct) auto

lemma or_bit_less: "w < 2 ^ 64 \<Longrightarrow> b < 64 \<Longrightarrow> w OR push_bit b 1 < 2 ^ 64" for w :: nat
proof -
  assume w: "w < 2 ^ 64" and b: "b < 64"
  have "take_bit 64 (w OR push_bit b 1) = w OR push_bit b 1"
    using w b take_bit_nat_eq_self [OF w] by (simp add: take_bit_or push_bit_of_1 take_bit_nat_eq_self)
  then show ?thesis by (metis take_bit_nat_less_exp)
qed

lemma set_active_armed:
  assumes "set_active s t = Some t'"
  shows "is_armed t' x \<longleftrightarrow> is_armed t x \<or> x = s"
proof -
  have eq: "x div 64 = s div 64 \<Longrightarrow> x mod 64 = s mod 64 \<Longrightarrow> x = s" by (metis div_mult_mod_eq)
  then show ?thesis
    using assms by (auto simp: set_active_def is_armed_def nth_list_update bit_or_iff bit_push_bit_iff bit_1_iff bit_exp_iff split: if_splits)
qed

lemma set_active_frame:
  "set_active s t = Some t' \<Longrightarrow> \<exists>a. t' = t\<lparr>active := a\<rparr>"
  by (auto simp: set_active_def split: if_splits)

lemma set_active_wf:
  assumes "set_active s t = Some t'" and "wf_table t" and "s < num_slots t"
  shows "wf_table t'"
proof -
  have len: "s div 64 < length (active t)" using assms(1) by (simp add: set_active_def split: if_splits)
  let ?w = "active t ! (s div 64)"
  have "?w < 2 ^ 64" using assms(2) len by (auto simp: wf_table_def)
  then have "?w OR push_bit (s mod 64) 1 < 2 ^ 64" by (rule or_bit_less) simp
  moreover have t': "t' = t\<lparr>active := (active t)[s div 64 := ?w OR push_bit (s mod 64) 1]\<rparr>"
    using assms(1) by (simp add: set_active_def split: if_splits)
  ultimately have "\<forall>w \<in> set (active t'). w < 2 ^ 64"
    using assms(2) set_update_subset_insert [of "active t" "s div 64"] by (auto simp: wf_table_def)
  moreover have "\<not> is_armed t' x" if "num_slots t \<le> x" "x < 64 * length (active t)" for x
    using assms that unfolding set_active_armed [OF assms(1)] by (auto simp: wf_table_def)
  ultimately show ?thesis using assms(2) t' by (simp add: wf_table_def)
qed

lemma clear_active_wf: "wf_table t \<Longrightarrow> s div 64 < length (active t) \<Longrightarrow> wf_table (cleared (s div 64) (s mod 64) t)"
  using armed_clear [of s t] unset_bit_less [of "active t ! (s div 64)" "s mod 64"]
  by (auto simp: wf_table_def cleared_def dest!: set_update_subset_insert [THEN subsetD])

lemma in_table_update:
  assumes "s < length (payload t)"
  shows "in_table (t\<lparr>payload := (payload t)[s := c]\<rparr>) + (case payload t ! s of None \<Rightarrow> {#} | Some p \<Rightarrow> {#p#}) =
    in_table t + (case c of None \<Rightarrow> {#} | Some p \<Rightarrow> {#p#})"
proof -
  let ?f = "\<lambda>c. case c of None \<Rightarrow> [] | Some p \<Rightarrow> [p]"
  have split: "payload t = take s (payload t) @ payload t ! s # drop (Suc s) (payload t)"
    using assms by (rule id_take_nth_drop)
  have upd: "(payload t)[s := c] = take s (payload t) @ c # drop (Suc s) (payload t)"
    using assms by (rule upd_conv_take_nth_drop)
  have "mset (concat (map ?f (payload t))) =
      mset (concat (map ?f (take s (payload t)))) + mset (?f (payload t ! s)) + mset (concat (map ?f (drop (Suc s) (payload t))))"
    by (subst split) simp
  then show ?thesis unfolding in_table_def by (simp add: upd split: option.split)
qed

lemma in_table_frame [table_simps]:
  "in_table (t\<lparr>free := f\<rparr>) = in_table t" "in_table (t\<lparr>flags := f\<rparr>) = in_table t"
  "in_table (t\<lparr>n_armed := k\<rparr>) = in_table t" "in_table (t\<lparr>active := a\<rparr>) = in_table t"
  by (simp_all add: in_table_def)

lemma reset_flag_Some: "reset_flag s t = Some t' \<longleftrightarrow> s < length (flags t) \<and> t' = t\<lparr>flags := (flags t)[s := 0]\<rparr>"
  by (auto simp: reset_flag_def)

lemma write_payload_Some:
  "write_payload s p t = Some t' \<longleftrightarrow> s < length (payload t) \<and> t' = t\<lparr>payload := (payload t)[s := Some p]\<rparr>"
  by (auto simp: write_payload_def)

lemma uncount_armed_Some:
  "uncount_armed k t = Some t' \<longleftrightarrow> k \<le> n_armed t \<and> t' = t\<lparr>n_armed := n_armed t - k\<rparr>"
  by (auto simp: uncount_armed_def)

lemmas scan_ops = uncount_armed_Some take_payload_Some clear_active_Some flag_landed_Some recycle_def
lemmas table_ops = claim_Some reset_flag_Some write_payload_Some release_def count_armed_def

section \<open>Registrants\<close>

lemma own_reg_slot: "own_reg n S \<Longrightarrow> registrants S r = Inside st s p \<Longrightarrow> s < n \<and> owner S s = Registrant r"
  by (metis own_reg_def slot_of.simps(1))

lemma registrant_slot:
  "inv_owner n S \<Longrightarrow> registrants S r = Inside st s p \<Longrightarrow> s < n \<and> owner S s = Registrant r"
  by (rule own_reg_slot) (simp add: inv_owner_def, assumption)

lemma slot_registrant:
  assumes "inv_owner n S" and "registrants S r = Inside st s p" and "registrants S r' = Inside st' s p'"
  shows "r' = r"
  using registrant_slot [OF assms(1,2)] registrant_slot [OF assms(1,3)] by simp

lemma register_shape:
  assumes "register_step S S'" and "inv_shape n S" and "inv_owner n S"
  shows "inv_shape n S'"
  using assms(1)
proof cases
  case (activate r wi s p t)
  have "s < n" using registrant_slot [OF assms(3) activate(2)] by simp
  then show ?thesis
    using activate assms(2) set_active_wf [OF activate(3)] set_active_frame [OF activate(3)]
    by (auto simp: inv_shape_def split: scanner.splits)
qed (use assms(2) in \<open>auto simp: inv_shape_def table_ops table_simps split: scanner.splits\<close>)

text \<open>A slot goes from its old owner to a new one.\<close>

lemma own_scan_frame:
  assumes "own_scan n S" and "scanner S' = scanner S"
    and "\<And>x. owner S' x = owner S x \<or> x = s" and "owner S s \<in> {Pool, Registrant r}" and "owner S' s \<in> {Pool, Registrant r', Armed}"
  shows "own_scan n S'"
proof -
  have "owner S' x = Leaving \<longleftrightarrow> owner S x = Leaving" "owner S' x = Retired \<longleftrightarrow> owner S x = Retired"
    "owner S x = Armed \<Longrightarrow> owner S' x = Armed" for x
    using assms(3) [of x] assms(4,5) by auto
  then show ?thesis using assms(1,2) by (simp add: own_scan_def)
qed

lemma register_free:
  assumes "register_step S S'" and "own_free n S" and "own_reg n S"
  shows "own_free n S'"
  using assms(1)
proof cases
  case (claim r s t p)
  have "distinct (free (tbl S))" "free (tbl S) \<noteq> []" using assms(2) claim(3) by (simp_all add: own_free_def claim_Some)
  note b = butlast_set [OF this]
  then show ?thesis using assms(2) claim(3) unfolding claim(1) own_free_def by (auto simp: claim_Some)
next
  case (enqueue_fails r s p)
  note s = own_reg_slot [OF assms(3) enqueue_fails(2)]
  have "{x. x < n \<and> ((owner S)(s := Pool)) x = Pool} = insert s {x. x < n \<and> owner S x = Pool}" using s by auto
  then show ?thesis using assms(2) s unfolding enqueue_fails(1) by (simp add: own_free_def release_def)
next
  case (activate r wi s p t)
  note s = own_reg_slot [OF assms(3) activate(2)]
  obtain a where a: "t = (tbl S)\<lparr>active := a\<rparr>" using set_active_frame [OF activate(3)] by blast
  have "{x. x < n \<and> ((owner S)(s := Armed)) x = Pool} = {x. x < n \<and> owner S x = Pool}" using s by auto
  then show ?thesis using assms(2) unfolding activate(1) a by (simp add: own_free_def)
qed (use assms(2) in \<open>auto simp: own_free_def table_ops\<close>)

lemma own_reg_one: "own_reg n S \<Longrightarrow> registrants S r = Inside st s p \<Longrightarrow> owner S x = Registrant r \<Longrightarrow> x < n \<Longrightarrow> x = s"
  by (metis own_reg_def slot_of.simps(1) option.inject)

lemma own_reg_none: "own_reg n S \<Longrightarrow> slot_of (registrants S r) = None \<Longrightarrow> x < n \<Longrightarrow> owner S x \<noteq> Registrant r"
  by (metis own_reg_def option.distinct(1))

lemma own_reg_same:
  assumes "own_reg n S" and "\<And>x. slot_of (registrants S' x) = slot_of (registrants S x)" and "owner S' = owner S"
  shows "own_reg n S'"
  using assms(1) by (simp add: own_reg_def assms(2,3))

lemma own_reg_leave:
  assumes "own_reg n S" and "registrants S r = Inside st s p" and "\<And>r'. q \<noteq> Registrant r'" and "slot_of g = None"
    and "registrants S' = (registrants S)(r := g)" and "owner S' = (owner S)(s := q)"
  shows "own_reg n S'"
  unfolding own_reg_def
proof (intro allI)
  fix r' x
  have a: "slot_of (registrants S r') = Some x \<longleftrightarrow> x < n \<and> owner S x = Registrant r'"
    using assms(1) by (simp add: own_reg_def)
  have b: "s < n" "owner S s = Registrant r" using own_reg_slot [OF assms(1,2)] by simp_all
  have c: "x < n \<and> owner S x = Registrant r \<Longrightarrow> x = s" using own_reg_one [OF assms(1,2), of x] by simp
  show "slot_of (registrants S' r') = Some x \<longleftrightarrow> x < n \<and> owner S' x = Registrant r'"
  proof (cases "r' = r")
    case True
    have "\<not> (x < n \<and> owner S' x = Registrant r)" using c assms(3) by (cases "x = s") (auto simp: assms(6))
    then show ?thesis using True by (simp add: assms(4,5))
  next
    case False
    then show ?thesis using a b assms(3) by (cases "x = s") (simp_all add: assms(5,6))
  qed
qed

lemma own_reg_enter:
  assumes "own_reg n S" and "slot_of (registrants S r) = None" and "owner S s = Pool" and "s < n" and "slot_of g = Some s"
    and "registrants S' = (registrants S)(r := g)" and "owner S' = (owner S)(s := Registrant r)"
  shows "own_reg n S'"
  unfolding own_reg_def
proof (intro allI)
  fix r' x
  have a: "slot_of (registrants S r') = Some x \<longleftrightarrow> x < n \<and> owner S x = Registrant r'"
    using assms(1) by (simp add: own_reg_def)
  have c: "x < n \<Longrightarrow> owner S x \<noteq> Registrant r" using own_reg_none [OF assms(1,2)] by simp
  show "slot_of (registrants S' r') = Some x \<longleftrightarrow> x < n \<and> owner S' x = Registrant r'"
    using a c assms(3,4) by (cases "r' = r"; cases "x = s") (auto simp: assms(5-7))
qed

lemma claim_pool:
  assumes "claim (tbl S) = (Some s, t)" and "own_free n S"
  shows "s < n \<and> owner S s = Pool"
  using assms last_in_set [of "free (tbl S)"] by (auto simp: claim_Some own_free_def)

lemma register_reg:
  assumes "register_step S S'" and "own_free n S" and "own_reg n S"
  shows "own_reg n S'"
  using assms(1)
proof cases
  case (claim r s t p)
  then show ?thesis using claim_pool [OF claim(3) assms(2)] by (intro own_reg_enter [OF assms(3)]) auto
next
  case (enqueue_fails r s p)
  then show ?thesis by (intro own_reg_leave [OF assms(3) enqueue_fails(2)]) auto
next
  case (activate r wi s p t)
  then show ?thesis by (intro own_reg_leave [OF assms(3) activate(2)]) auto
qed (rule own_reg_same [OF assms(3)]; simp)+

lemma register_armed:
  assumes "register_step S S'" and "own_free n S" and "own_reg n S" and "own_armed n S"
  shows "own_armed n S'"
  using assms(1)
proof cases
  case (claim r s t p)
  then show ?thesis using claim_pool [OF claim(3) assms(2)] assms(4) by (auto simp: own_armed_def claim_Some table_simps)
next
  case (enqueue_fails r s p)
  then show ?thesis using own_reg_slot [OF assms(3) enqueue_fails(2)] assms(4) by (auto simp: own_armed_def release_def table_simps)
next
  case (activate r wi s p t)
  then show ?thesis using assms(4) set_active_armed [OF activate(3)] by (auto simp: own_armed_def)
qed (use assms(4) in \<open>auto simp: own_armed_def table_ops table_simps\<close>)

lemma register_scan:
  assumes "register_step S S'" and "own_free n S" and "own_reg n S" and "own_scan n S"
  shows "own_scan n S'"
  using assms(1)
proof cases
  case (claim r s t p)
  then show ?thesis using claim_pool [OF claim(3) assms(2)] by (intro own_scan_frame [OF assms(4), of _ s]) auto
next
  case (enqueue_fails r s p)
  then show ?thesis using own_reg_slot [OF assms(3) enqueue_fails(2)] by (intro own_scan_frame [OF assms(4), of _ s]) auto
next
  case (activate r wi s p t)
  then show ?thesis using own_reg_slot [OF assms(3) activate(2)] by (intro own_scan_frame [OF assms(4), of _ s]) auto
qed (use assms(4) in \<open>auto simp: own_scan_def\<close>)

lemma register_owner: "register_step S S' \<Longrightarrow> inv_owner n S \<Longrightarrow> inv_owner n S'"
  using register_free register_reg register_armed register_scan unfolding inv_owner_def by blast

section \<open>Device\<close>

lemma device_shape: "device_step S S' \<Longrightarrow> inv_shape n S \<Longrightarrow> inv_shape n S'"
  by (erule device_step.cases) (simp_all add: inv_shape_def table_simps split: scanner.splits)

lemma device_owner: "device_step S S' \<Longrightarrow> inv_owner n S \<Longrightarrow> inv_owner n S'"
  by (erule device_step.cases) (simp_all add: inv_owner_def own_free_def own_reg_def own_armed_def own_scan_def table_simps)

section \<open>Scanner\<close>

lemma bit_below_64: "w < 2 ^ 64 \<Longrightarrow> bit w b \<Longrightarrow> b < 64" for w :: nat
  by (metis bit_take_bit_iff take_bit_nat_eq_self)

lemma drop_lowest_ahead: "bits \<noteq> 0 \<Longrightarrow> bit (bits AND (bits - 1)) c \<Longrightarrow> bit bits c \<and> c \<noteq> ctz bits" for bits :: nat
  using drop_lowest_bit by blast

lemma ctz_ahead: "bits \<noteq> 0 \<Longrightarrow> bit bits (ctz bits)"
  using ctz_lowest by blast

lemma armed_in_range:
  assumes "inv_shape n S" and "w < length (active (tbl S))" and "bit (active (tbl S) ! w) b"
  shows "w * 64 + b < n \<and> is_armed (tbl S) (w * 64 + b)"
proof -
  have wf: "wf_table (tbl S)" "num_slots (tbl S) = n" using assms(1) by (simp_all add: inv_shape_def)
  have "active (tbl S) ! w < 2 ^ 64" using wf(1) assms(2) by (auto simp: wf_table_def)
  then have b: "b < 64" using assms(3) bit_below_64 by blast
  then have armed: "is_armed (tbl S) (w * 64 + b)" using assms(3) by (simp add: is_armed_def)
  have "w * 64 + b < 64 * length (active (tbl S))" using b assms(2) by linarith
  then show ?thesis using armed wf by (auto simp: wf_table_def) (metis not_less)
qed

lemma scan_shape:
  assumes "scan_step S S'" and "inv_shape n S" and "inv_owner n S"
  shows "inv_shape n S'"
  using assms(1)
proof cases
  case (load_word w ret k)
  then show ?thesis using assms(2) by (auto simp: inv_shape_def wf_table_def)
next
  case (see_armed w bits ret g s)
  then show ?thesis using assms(2) drop_lowest_less [OF see_armed(3)] by (auto simp: inv_shape_def)
next
  case (see_landed w bits ret k s)
  then show ?thesis using assms(2) drop_lowest_less [OF see_landed(3)] drop_lowest_ahead [OF see_landed(3)]
      bit_below_64 [OF _ ctz_ahead [OF see_landed(3)]] by (auto simp: inv_shape_def)
next
  case (see_unlanded w bits ret s)
  then show ?thesis using assms(2) drop_lowest_less [OF see_unlanded(3)] drop_lowest_ahead [OF see_unlanded(3)]
      bit_below_64 [OF _ ctz_ahead [OF see_unlanded(3)]] by (auto simp: inv_shape_def)
next
  case (clear_bit w b bits landed ret k t)
  have b: "b < 64" "num_slots (tbl S) = n" "wf_table (tbl S)" using assms(2) clear_bit(2) by (simp_all add: inv_shape_def)
  have "w * 64 + b < n" using assms(3) clear_bit(2) by (simp add: inv_owner_def own_scan_def)
  then have "w < length (active (tbl S))" using b slot_word_bound [of "w * 64 + b" n] by (simp add: wf_table_def)
  then have "wf_table (cleared w b (tbl S))" using clear_active_wf [OF b(3), of "w * 64 + b"] b(1) by simp
  then show ?thesis using assms(2) clear_bit by (simp add: inv_shape_def clear_active_Some cleared_def)
qed (use assms(2) in \<open>simp_all add: inv_shape_def scan_ops table_simps\<close>)

lemma own_scan_at:
  assumes "own_scan n S" and "owner S' = owner S" and "taking_of (scanner S') = None" and "taking_of (scanner S) = None"
    and "retired_of (scanner S') = retired_of (scanner S)" and "\<And>x. x \<in> ahead_of (scanner S') \<Longrightarrow> x < n \<and> owner S x = Armed"
  shows "own_scan n S'"
  using assms unfolding own_scan_def by simp

lemma own_scan_ahead: "own_scan n S \<Longrightarrow> x \<in> ahead_of (scanner S) \<Longrightarrow> x < n \<and> owner S x = Armed"
  by (simp add: own_scan_def)

lemma leaving_slot:
  "own_scan n S \<Longrightarrow> scanner S = Taking w b bits landed ret k \<Longrightarrow> (w * 64 + b = x) = (x < n \<and> owner S x = Leaving)"
  by (simp add: own_scan_def)

lemma scan_scan:
  assumes "scan_step S S'" and "inv_shape n S" and "own_armed n S" and "own_scan n S"
  shows "own_scan n S'"
  using assms(1)
proof cases
  case (load_word w ret k)
  have "x < n \<and> owner S x = Armed" if "x \<in> ahead_of (scanner S')" for x
    using that armed_in_range [OF assms(2) load_word(3)] assms(3) unfolding load_word(1) by (auto simp: own_armed_def)
  then show ?thesis using load_word by (intro own_scan_at [OF assms(4)]) simp_all
next
  case (see_armed w bits ret g s)
  show ?thesis using see_armed drop_lowest_ahead [OF see_armed(3)] own_scan_ahead [OF assms(4)]
    by (intro own_scan_at [OF assms(4)]) auto
next
  case (see_landed w bits ret k s)
  show ?thesis using see_landed drop_lowest_ahead [OF see_landed(3)] ctz_ahead [OF see_landed(3)] own_scan_ahead [OF assms(4)]
    by (intro own_scan_at [OF assms(4)]) auto
next
  case (see_unlanded w bits ret s)
  show ?thesis using see_unlanded drop_lowest_ahead [OF see_unlanded(3)] ctz_ahead [OF see_unlanded(3)] own_scan_ahead [OF assms(4)]
    by (intro own_scan_at [OF assms(4)]) auto
next
  case (clear_bit w b bits landed ret k t)
  let ?s = "w * 64 + b"
  have s: "?s < n" "owner S ?s = Armed" using own_scan_ahead [OF assms(4)] clear_bit(2) by simp_all
  have nb: "\<not> bit bits b" using assms(2) clear_bit(2) by (simp add: inv_shape_def)
  have free: "\<not> (x < n \<and> owner S x = Leaving)" for x using assms(4) clear_bit(2) by (auto simp: own_scan_def)
  have ret: "{x. x < n \<and> ((owner S)(?s := Leaving)) x = Retired} = {x. x < n \<and> owner S x = Retired}" using s by auto
  have ahead: "x < n \<and> ((owner S)(?s := Leaving)) x = Armed" if "x \<in> {w * 64 + c |c. bit bits c}" for x
    using that nb own_scan_ahead [OF assms(4), of x] clear_bit(2) by auto
  show ?thesis
    using assms(4) clear_bit(2) s(1) free ret ahead unfolding clear_bit(1) own_scan_def by auto
next
  case (take w b bits landed ret k taken t out)
  let ?s = "w * 64 + b"
  note T = leaving_slot [OF assms(4) take(2)]
  have s: "?s < n" "owner S ?s = Leaving" using T [of ?s] by simp_all
  have one: "x = ?s" if "x < n" "owner S x = Leaving" for x using T [of x] that by simp
  have ret: "{x. x < n \<and> ((owner S)(?s := Retired)) x = Retired} = insert ?s {x. x < n \<and> owner S x = Retired}" using s by auto
  have ahead: "x < n \<and> ((owner S)(?s := Retired)) x = Armed" if "x \<in> {w * 64 + c |c. bit bits c}" for x
    using that s own_scan_ahead [OF assms(4), of x] take(2) by auto
  have old: "distinct ret" "set ret = {x. x < n \<and> owner S x = Retired}" using assms(4) take(2) by (simp_all add: own_scan_def)
  have "\<not> (x < n \<and> ((owner S)(?s := Retired)) x = Leaving)" for x using one [of x] by (cases "x = ?s") auto
  moreover have "distinct (ret @ [?s])" using old s by simp
  moreover have "set (ret @ [?s]) = {x. x < n \<and> ((owner S)(?s := Retired)) x = Retired}" unfolding ret using old(2) by simp
  ultimately show ?thesis using ahead unfolding take(1) own_scan_def by simp
next
  case (recycle ret k)
  have ret: "distinct ret" "set ret = {x. x < n \<and> owner S x = Retired}" "\<And>x. x < n \<Longrightarrow> owner S x \<noteq> Leaving"
    using assms(4) recycle(2) by (auto simp: own_scan_def)
  then show ?thesis unfolding recycle(1) own_scan_def by auto
qed (use assms(4) in \<open>simp_all add: own_scan_def\<close>)

lemma retired_slots:
  "own_scan n S \<Longrightarrow> scanner S = Recycling ret k \<Longrightarrow> distinct ret \<and> set ret = {x. x < n \<and> owner S x = Retired}"
  by (simp add: own_scan_def)

lemma scan_free:
  assumes "scan_step S S'" and "own_free n S" and "own_scan n S"
  shows "own_free n S'"
  using assms(1)
proof cases
  case (clear_bit w b bits landed ret k t)
  have "{x. x < n \<and> ((owner S)(w * 64 + b := Leaving)) x = Pool} = {x. x < n \<and> owner S x = Pool}"
    using own_scan_ahead [OF assms(3)] clear_bit(2) by auto
  then show ?thesis using assms(2) clear_bit by (simp add: own_free_def clear_active_Some cleared_def)
next
  case (take w b bits landed ret k taken t out)
  have "{x. x < n \<and> ((owner S)(w * 64 + b := Retired)) x = Pool} = {x. x < n \<and> owner S x = Pool}"
    using leaving_slot [OF assms(3) take(2), of "w * 64 + b"] by auto
  then show ?thesis using assms(2) take by (simp add: own_free_def scan_ops)
next
  case (recycle ret k)
  note R = retired_slots [OF assms(3) recycle(2)]
  have "{x. x < n \<and> (if x \<in> set ret then Pool else owner S x) = Pool} = {x. x < n \<and> owner S x = Pool} \<union> set ret"
    unfolding conjunct2 [OF R] by auto
  moreover have "set (free (tbl S)) \<inter> set ret = {}"
    unfolding conjunct2 [OF R] conjunct2 [OF assms(2) [unfolded own_free_def]] by auto
  ultimately show ?thesis using assms(2) R unfolding recycle(1) by (simp add: own_free_def recycle_def)
qed (use assms(2) in \<open>simp_all add: own_free_def scan_ops\<close>)

lemma scan_reg:
  assumes "scan_step S S'" and "own_reg n S" and "own_scan n S"
  shows "own_reg n S'"
proof -
  have reg: "registrants S' = registrants S" using assms(1) by cases simp_all
  have own: "x < n \<and> owner S' x = Registrant r \<longleftrightarrow> x < n \<and> owner S x = Registrant r" for x r
    using assms(1)
  proof cases
    case (clear_bit w b bits landed ret k t)
    then show ?thesis using own_scan_ahead [OF assms(3), of "w * 64 + b"] by auto
  next
    case (take w b bits landed ret k taken t out)
    then show ?thesis using leaving_slot [OF assms(3) take(2), of "w * 64 + b"] by auto
  next
    case (recycle ret k)
    then show ?thesis using retired_slots [OF assms(3) recycle(2)] by auto
  qed simp_all
  show ?thesis using assms(2) reg own by (simp add: own_reg_def)
qed

lemma scan_armed:
  assumes "scan_step S S'" and "inv_shape n S" and "own_armed n S" and "own_scan n S"
  shows "own_armed n S'"
  using assms(1)
proof cases
  case (clear_bit w b bits landed ret k t)
  have s: "w * 64 + b < n" using own_scan_ahead [OF assms(4)] clear_bit(2) by simp
  have b: "b < 64" "num_slots (tbl S) = n" "wf_table (tbl S)" using assms(2) clear_bit(2) by (simp_all add: inv_shape_def)
  have "w < length (active (tbl S))" using b s slot_word_bound [of "w * 64 + b" n] by (simp add: wf_table_def)
  then have "is_armed (cleared w b (tbl S)) x \<longleftrightarrow> is_armed (tbl S) x \<and> x \<noteq> w * 64 + b" for x
    using armed_clear [of "w * 64 + b" "tbl S" x] b(1) by simp
  then show ?thesis using assms(3) clear_bit(1,3) by (auto simp: own_armed_def clear_active_Some)
next
  case (take w b bits landed ret k taken t out)
  then show ?thesis using assms(3) leaving_slot [OF assms(4) take(2), of "w * 64 + b"] by (auto simp: own_armed_def scan_ops table_simps)
next
  case (recycle ret k)
  then show ?thesis using assms(3) retired_slots [OF assms(4) recycle(2)] by (auto simp: own_armed_def recycle_def table_simps)
qed (use assms(3) in \<open>simp_all add: own_armed_def scan_ops table_simps\<close>)

lemma scan_owner: "scan_step S S' \<Longrightarrow> inv_shape n S \<Longrightarrow> inv_owner n S \<Longrightarrow> inv_owner n S'"
  using scan_free scan_reg scan_armed scan_scan unfolding inv_owner_def by blast

section \<open>Payloads and flag writes\<close>

lemma slot_ok_frame:
  assumes "slot_ok S x" and "owner S' x = owner S x" and "payload (tbl S') ! x = payload (tbl S) ! x"
    and "flags (tbl S') ! x = flags (tbl S) ! x" and "writes S' x = writes S x"
    and "\<And>r. owner S x = Registrant r \<Longrightarrow> registrants S' r = registrants S r"
  shows "slot_ok S' x"
proof -
  have "in_flight S' x = in_flight S x" using assms(4,5) by (simp add: in_flight_def)
  then have "stage_ok S' x st p = stage_ok S x st p" for st p using assms(3-5) by (simp add: stage_ok_def)
  then show ?thesis
    using assms \<open>in_flight S' x = in_flight S x\<close> by (simp add: slot_ok_def split: owner.splits)
qed

lemma slot_ok_inside:
  "slot_ok S s \<Longrightarrow> owner S s = Registrant r \<Longrightarrow> registrants S r = Inside st s p \<Longrightarrow> stage_ok S s st p"
  by (simp add: slot_ok_def)

text \<open>A step that concerns one slot only.\<close>

lemma inv_slots_at:
  assumes "inv_slots n S" and "slot_ok S' s" and "\<And>x. x < n \<Longrightarrow> x \<noteq> s \<Longrightarrow> slot_ok S x \<Longrightarrow> slot_ok S' x"
    and "\<And>x. x \<ge> n \<Longrightarrow> writes S' x = writes S x" and "verdict_ok (writes S') (scanner S')"
  shows "inv_slots n S'"
  using assms unfolding inv_slots_def by metis

lemma other_registrant:
  assumes "own_reg n S" and "registrants S r = Inside st s p" and "x < n" and "x \<noteq> s" and "owner S x = Registrant r'"
  shows "r' \<noteq> r"
  using own_reg_one [OF assms(1,2), of x] assms(3-5) by blast

lemma outside_registrant:
  "own_reg n S \<Longrightarrow> slot_of (registrants S r) = None \<Longrightarrow> x < n \<Longrightarrow> owner S x = Registrant r' \<Longrightarrow> r' \<noteq> r"
  using own_reg_none by blast

lemmas stage_simps = stage_ok_def in_flight_def has_payload_def enqueued_def

lemma verdict_slot:
  assumes "own_scan n S" and "verdict_ok ws (scanner S)" and "owner S s \<notin> {Armed, Leaving}" and "\<And>x. x \<noteq> s \<Longrightarrow> ws' x = ws x"
  shows "verdict_ok ws' (scanner S)"
proof (cases "scanner S")
  case (Clearing w b bits landed ret k)
  then have "owner S (w * 64 + b) = Armed" using own_scan_ahead [OF assms(1), of "w * 64 + b"] by simp
  then have "w * 64 + b \<noteq> s" using assms(3) by auto
  then show ?thesis using assms(2,4) Clearing by simp
next
  case (Taking w b bits landed ret k)
  then have "owner S (w * 64 + b) = Leaving" using leaving_slot [OF assms(1) Taking, of "w * 64 + b"] by simp
  then have "w * 64 + b \<noteq> s" using assms(3) by auto
  then show ?thesis using assms(2,4) Taking by simp
qed simp_all

lemma register_slots:
  assumes "register_step S S'" and "inv_shape n S" and "inv_owner n S" and I: "inv_slots n S"
  shows "inv_slots n S'"
proof -
  have O: "own_free n S" "own_reg n S" "own_scan n S" using assms(3) by (simp_all add: inv_owner_def)
  have len: "length (flags (tbl S)) = n" "length (payload (tbl S)) = n" using assms(2) by (simp_all add: inv_shape_def wf_table_def)
  have V: "verdict_ok (writes S) (scanner S)" using I by (simp add: inv_slots_def)
  have ok: "slot_ok S s" if "s < n" for s using I that by (simp add: inv_slots_def)
  have stg: "s < n" "owner S s = Registrant r" "stage_ok S s st p" if "registrants S r = Inside st s p" for r st s p
    using own_reg_slot [OF O(2) that] ok slot_ok_inside [OF _ _ that] by auto
  show ?thesis using assms(1)
  proof cases
    case (claim r s t p)
    note P = claim_pool [OF claim(3) O(1)]
    show ?thesis
    proof (rule inv_slots_at [OF I, of _ s])
      show "slot_ok S' s" using ok [of s] P claim by (simp add: slot_ok_def claim_Some stage_simps)
    next
      fix x assume "x < n" "x \<noteq> s" "slot_ok S x"
      then show "slot_ok S' x"
        using outside_registrant [OF O(2), of r x] claim by (intro slot_ok_frame [of S x S']) (auto simp: claim_Some)
    qed (use V claim in simp_all)
  next
    case (clear r s p t)
    show ?thesis
    proof (rule inv_slots_at [OF I, of _ s])
      show "slot_ok S' s" using stg [OF clear(2)] clear len by (simp add: slot_ok_def reset_flag_Some stage_simps)
    next
      fix x assume "x < n" "x \<noteq> s" "slot_ok S x"
      then show "slot_ok S' x"
        using other_registrant [OF O(2) clear(2), of x] clear by (intro slot_ok_frame [of S x S']) (auto simp: reset_flag_Some)
    qed (use V clear in simp_all)
  next
    case (enqueue r s p)
    show ?thesis
    proof (rule inv_slots_at [OF I, of _ s])
      show "slot_ok S' s" using stg [OF enqueue(2)] enqueue by (simp add: slot_ok_def stage_simps)
    next
      fix x assume "x < n" "x \<noteq> s" "slot_ok S x"
      then show "slot_ok S' x"
        using other_registrant [OF O(2) enqueue(2), of x] enqueue by (intro slot_ok_frame [of S x S']) auto
    next
      show "verdict_ok (writes S') (scanner S')"
        using verdict_slot [OF O(3) V, of s] stg [OF enqueue(2)] unfolding enqueue(1) by simp
    qed (use stg [OF enqueue(2)] enqueue in simp_all)
  next
    case (enqueue_fails r s p)
    show ?thesis
    proof (rule inv_slots_at [OF I, of _ s])
      show "slot_ok S' s" using stg [OF enqueue_fails(2)] enqueue_fails by (simp add: slot_ok_def release_def stage_simps)
    next
      fix x assume "x < n" "x \<noteq> s" "slot_ok S x"
      then show "slot_ok S' x"
        using other_registrant [OF O(2) enqueue_fails(2), of x] enqueue_fails
        by (intro slot_ok_frame [of S x S']) (auto simp: release_def)
    qed (use V enqueue_fails in simp_all)
  next
    case (store r s p t)
    show ?thesis
    proof (rule inv_slots_at [OF I, of _ s])
      show "slot_ok S' s" using stg [OF store(2)] store len by (simp add: slot_ok_def write_payload_Some stage_simps)
    next
      fix x assume "x < n" "x \<noteq> s" "slot_ok S x"
      then show "slot_ok S' x"
        using other_registrant [OF O(2) store(2), of x] store by (intro slot_ok_frame [of S x S']) (auto simp: write_payload_Some)
    qed (use V store in simp_all)
  next
    case (count r s p wi t)
    obtain m where m: "t = (tbl S)\<lparr>n_armed := m\<rparr>" using count(3) by (auto simp: count_armed_def)
    show ?thesis
    proof (rule inv_slots_at [OF I, of _ s])
      show "slot_ok S' s" using stg [OF count(2)] unfolding count(1) m by (simp add: slot_ok_def stage_simps)
    next
      fix x assume "x < n" "x \<noteq> s" "slot_ok S x"
      then show "slot_ok S' x"
        using other_registrant [OF O(2) count(2), of x] count(1) m by (intro slot_ok_frame [of S x S']) auto
    qed (use V count in simp_all)
  next
    case (activate r wi s p t)
    obtain a where a: "t = (tbl S)\<lparr>active := a\<rparr>" using set_active_frame [OF activate(3)] by blast
    show ?thesis
    proof (rule inv_slots_at [OF I, of _ s])
      show "slot_ok S' s" using stg [OF activate(2)] unfolding activate(1) a by (simp add: slot_ok_def stage_simps)
    next
      fix x assume "x < n" "x \<noteq> s" "slot_ok S x"
      then show "slot_ok S' x"
        using other_registrant [OF O(2) activate(2), of x] activate(1) a by (intro slot_ok_frame [of S x S']) auto
    qed (use V activate in simp_all)
  next
    case (unpark r wi)
    have "slot_ok S' x" if "x < n" for x
      using outside_registrant [OF O(2), of r x] unpark ok [OF that] that by (intro slot_ok_frame [of S x S']) auto
    then show ?thesis using I unpark by (simp add: inv_slots_def)
  qed
qed

lemma pending_slot:
  assumes "inv_slots n S" and "own_reg n S" and "writes S s = Pending"
  shows "s < n \<and> (owner S s = Armed \<or> (\<exists>r st p. owner S s = Registrant r \<and> registrants S r = Inside st s p \<and> enqueued st))"
proof -
  have s: "s < n" using assms(1,3) by (auto simp: inv_slots_def not_less [symmetric])
  then have "slot_ok S s" using assms(1) by (simp add: inv_slots_def)
  then show ?thesis using s assms(3) by (auto simp: slot_ok_def stage_ok_def split: owner.splits if_splits)
qed

lemma pending_verdict:
  assumes "verdict_ok (writes S) (scanner S)" and "writes S s = Pending"
  shows "verdict_ok ((writes S)(s := v)) (scanner S)"
  using assms by (cases "(writes S, scanner S)" rule: verdict_ok.cases) (auto simp: settled_write_def)

lemma device_slots:
  assumes "device_step S S'" and "inv_shape n S" and "inv_owner n S" and I: "inv_slots n S"
  shows "inv_slots n S'"
proof -
  have R: "own_reg n S" using assms(3) by (simp add: inv_owner_def)
  have len: "length (flags (tbl S)) = n" using assms(2) by (simp add: inv_shape_def wf_table_def)
  have V: "verdict_ok (writes S) (scanner S)" using I by (simp add: inv_slots_def)
  show ?thesis using assms(1)
  proof cases
    case (land s)
    note P = pending_slot [OF I R land(2)]
    have ok: "slot_ok S s" using I P by (simp add: inv_slots_def)
    show ?thesis
    proof (rule inv_slots_at [OF I, of _ s])
      show "slot_ok S' s" using ok P len land(1)
        by (auto simp: slot_ok_def stage_simps split: owner.splits)
    next
      fix x assume "x < n" "x \<noteq> s" "slot_ok S x"
      then show "slot_ok S' x" using land by (intro slot_ok_frame [of S x S']) auto
    qed (use P V pending_verdict [OF V land(2)] land in auto)
  next
    case (fault s)
    note P = pending_slot [OF I R fault(2)]
    have ok: "slot_ok S s" using I P by (simp add: inv_slots_def)
    show ?thesis
    proof (rule inv_slots_at [OF I, of _ s])
      show "slot_ok S' s" using ok P fault
        by (auto simp: slot_ok_def stage_simps split: owner.splits)
    next
      fix x assume "x < n" "x \<noteq> s" "slot_ok S x"
      then show "slot_ok S' x" using fault by (intro slot_ok_frame [of S x S']) auto
    qed (use P V pending_verdict [OF V fault(2)] fault in auto)
  qed
qed

lemma scan_slots:
  assumes "scan_step S S'" and "inv_shape n S" and "inv_owner n S" and I: "inv_slots n S"
  shows "inv_slots n S'"
proof -
  have O: "own_scan n S" using assms(3) by (simp add: inv_owner_def)
  have len: "length (payload (tbl S)) = n" "num_slots (tbl S) = n" using assms(2) by (simp_all add: inv_shape_def wf_table_def)
  have ok: "slot_ok S s" if "s < n" for s using I that by (simp add: inv_slots_def)
  have quiet: "inv_slots n S'" if "tbl S' = tbl S \<or> (\<exists>m. tbl S' = (tbl S)\<lparr>n_armed := m\<rparr>)" "owner S' = owner S" "registrants S' = registrants S" "writes S' = writes S"
      "verdict_ok (writes S) (scanner S')"
  proof -
    have "slot_ok S' x" if "x < n" for x
      using ok [OF that] \<open>tbl S' = tbl S \<or> _\<close> \<open>owner S' = owner S\<close> \<open>registrants S' = registrants S\<close> \<open>writes S' = writes S\<close>
      by (intro slot_ok_frame [of S x S']) auto
    then show ?thesis using I that by (simp add: inv_slots_def)
  qed
  show ?thesis using assms(1)
  proof cases
    case (see_landed w bits ret k s)
    have "s < n \<and> owner S s = Armed" using own_scan_ahead [OF O, of s] see_landed ctz_ahead [OF see_landed(3)] by auto
    then have "writes S s = Landed" using ok [of s] see_landed(6) by (auto simp: slot_ok_def in_flight_def flag_landed_Some)
    then show ?thesis using see_landed by (intro quiet) (simp_all add: settled_write_def)
  next
    case (probe_dead w b bits ret)
    have "w * 64 + b < n \<and> owner S (w * 64 + b) = Armed" using own_scan_ahead [OF O, of "w * 64 + b"] probe_dead(2) by simp
    then have "writes S (w * 64 + b) \<in> {Landed, Lost}" using ok [of "w * 64 + b"] probe_dead(5)
      by (cases "writes S (w * 64 + b)") (simp_all add: slot_ok_def in_flight_def)
    then show ?thesis using probe_dead by (intro quiet) (auto simp: settled_write_def)
  next
    case (clear_bit w b bits landed ret k t)
    let ?s = "w * 64 + b"
    have s: "?s < n" "owner S ?s = Armed" using own_scan_ahead [OF O] clear_bit(2) by simp_all
    have v: "settled_write landed (writes S ?s)" using I clear_bit(2) by (simp add: inv_slots_def)
    show ?thesis
    proof (rule inv_slots_at [OF I, of _ ?s])
      show "slot_ok S' ?s" using ok [OF s(1)] s(2) v clear_bit(1,3)
        by (auto simp: slot_ok_def clear_active_Some cleared_def settled_write_def)
    next
      fix x assume "x < n" "x \<noteq> ?s" "slot_ok S x"
      then show "slot_ok S' x" using clear_bit by (intro slot_ok_frame [of S x S']) (auto simp: clear_active_Some cleared_def)
    qed (use v clear_bit in simp_all)
  next
    case (take w b bits landed ret k taken t out)
    let ?s = "w * 64 + b"
    have s: "?s < n" "owner S ?s = Leaving" using leaving_slot [OF O take(2), of ?s] by simp_all
    show ?thesis
    proof (rule inv_slots_at [OF I, of _ ?s])
      show "slot_ok S' ?s" using ok [OF s(1)] s len take(1,3) by (simp add: slot_ok_def take_payload_Some)
    next
      fix x assume "x < n" "x \<noteq> ?s" "slot_ok S x"
      then show "slot_ok S' x" using take by (intro slot_ok_frame [of S x S']) (auto simp: take_payload_Some)
    qed (use take in simp_all)
  next
    case (recycle ret k)
    note R = retired_slots [OF O recycle(2)]
    have "slot_ok S' x" if x: "x < n" for x
    proof (cases "x \<in> set ret")
      case True
      then have "owner S x = Retired" using R by auto
      then show ?thesis using ok [OF x] True recycle(1) by (simp add: slot_ok_def recycle_def)
    next
      case False
      then show ?thesis using ok [OF x] recycle by (intro slot_ok_frame [of S x S']) (auto simp: recycle_def)
    qed
    then show ?thesis using I recycle(1) by (simp add: inv_slots_def)
  qed (rule quiet; auto simp: uncount_armed_Some)+
qed

section \<open>The armed count\<close>

lemma counted_frame:
  assumes "owner S' x = owner S x" and "\<And>r. owner S x = Registrant r \<Longrightarrow> registrants S' r = registrants S r"
  shows "counted S' x = counted S x"
  using assms by (simp add: counted_def split: owner.splits)

lemma inv_count_same:
  assumes "inv_count n S" and "\<And>x. x < n \<Longrightarrow> counted S' x = counted S x" and "n_armed (tbl S') = n_armed (tbl S)"
    and "uncounting_of (scanner S') = uncounting_of (scanner S)"
  shows "inv_count n S'"
proof -
  have "{x. x < n \<and> counted S' x} = {x. x < n \<and> counted S x}" using assms(2) by blast
  then show ?thesis using assms(1,3,4) by (simp add: inv_count_def)
qed

lemma register_count:
  assumes "register_step S S'" and "inv_owner n S" and C: "inv_count n S" and small: "2 * n < 2 ^ 64"
  shows "inv_count n S'"
proof -
  have O: "own_free n S" "own_reg n S" using assms(2) by (simp_all add: inv_owner_def)
  have at: "counted S' x = counted S x" if "counted S' s = counted S s" "registrants S r = Inside st s p" "x < n"
      "\<And>y. y \<noteq> s \<Longrightarrow> owner S' y = owner S y" "\<And>q. q \<noteq> r \<Longrightarrow> registrants S' q = registrants S q" for r st s p x
    using that other_registrant [OF O(2) that(2,3)] by (cases "x = s") (auto intro!: counted_frame)
  show ?thesis using assms(1)
  proof cases
    case (claim r s t p)
    note c = claim_pool [OF claim(3) O(1)]
    have "counted S' x = counted S x" if x: "x < n" for x
    proof (cases "x = s")
      case True
      then show ?thesis using c claim(1) by (simp add: counted_def)
    next
      case False
      then show ?thesis using outside_registrant [OF O(2) _ x, of r] claim(1,2)
        by (intro counted_frame) auto
    qed
    then show ?thesis using claim by (intro inv_count_same [OF C]) (auto simp: claim_Some)
  next
    case (clear r s p t)
    note s = own_reg_slot [OF O(2) clear(2)]
    show ?thesis using clear s by (intro inv_count_same [OF C at [OF _ clear(2)]]) (auto simp: counted_def reset_flag_Some)
  next
    case (enqueue r s p)
    note s = own_reg_slot [OF O(2) enqueue(2)]
    show ?thesis using enqueue s by (intro inv_count_same [OF C at [OF _ enqueue(2)]]) (auto simp: counted_def)
  next
    case (enqueue_fails r s p)
    note s = own_reg_slot [OF O(2) enqueue_fails(2)]
    show ?thesis using enqueue_fails s
      by (intro inv_count_same [OF C at [OF _ enqueue_fails(2)]]) (auto simp: counted_def release_def)
  next
    case (store r s p t)
    note s = own_reg_slot [OF O(2) store(2)]
    show ?thesis using store s by (intro inv_count_same [OF C at [OF _ store(2)]]) (auto simp: counted_def write_payload_Some)
  next
    case (activate r wi s p t)
    note s = own_reg_slot [OF O(2) activate(2)]
    obtain a where a: "t = (tbl S)\<lparr>active := a\<rparr>" using set_active_frame [OF activate(3)] by blast
    show ?thesis using activate s a by (intro inv_count_same [OF C at [OF _ activate(2)]]) (auto simp: counted_def)
  next
    case (unpark r wi)
    have "counted S' x = counted S x" if "x < n" for x
      using outside_registrant [OF O(2), of r x] that unpark by (intro counted_frame) auto
    then show ?thesis using unpark by (intro inv_count_same [OF C]) auto
  next
    case (count r s p wi t)
    note s = own_reg_slot [OF O(2) count(2)]
    have c: "\<not> counted S s" "counted S' s" using s count by (auto simp: counted_def)
    have "counted S' x = counted S x" if "x < n" "x \<noteq> s" for x
      using other_registrant [OF O(2) count(2) that] count by (intro counted_frame) auto
    then have "{x. x < n \<and> counted S' x} = insert s {x. x < n \<and> counted S x}" using c s by auto
    then have card: "card {x. x < n \<and> counted S' x} = Suc (card {x. x < n \<and> counted S x})" using c by simp
    have "card {x. x < n \<and> counted S x} \<le> n" using card_mono [of "{..<n}" "{x. x < n \<and> counted S x}"] by auto
    moreover have "{x. x < n \<and> counted S x} \<noteq> {..<n}" using c s by auto
    ultimately have "card {x. x < n \<and> counted S x} < n"
      by (metis (no_types, lifting) card_lessThan card_subset_eq finite_lessThan lessThan_iff mem_Collect_eq nless_le subsetI)
    then have "n_armed (tbl S) + 1 < 2 ^ 64" using C small by (simp add: inv_count_def)
    then have "n_armed (tbl S') = n_armed (tbl S) + 1" using count by (auto simp: count_armed_def)
    then show ?thesis using C card count(1) by (simp add: inv_count_def)
  qed
qed

lemma device_count:
  assumes "device_step S S'" and C: "inv_count n S"
  shows "inv_count n S'"
proof (rule inv_count_same [OF C])
  show "counted S' x = counted S x" for x using assms(1) by cases (simp_all add: counted_def split: owner.split)
  show "n_armed (tbl S') = n_armed (tbl S)" using assms(1) by cases simp_all
  show "uncounting_of (scanner S') = uncounting_of (scanner S)" using assms(1) by cases simp_all
qed

lemma scan_count:
  assumes "scan_step S S'" and "inv_owner n S" and C: "inv_count n S"
  shows "inv_count n S'"
proof -
  have O: "own_scan n S" using assms(2) by (simp add: inv_owner_def)
  have at: "counted S' x = counted S x" if "counted S' s = counted S s" "registrants S' = registrants S"
      "\<And>y. y \<noteq> s \<Longrightarrow> owner S' y = owner S y" for s x
    using that by (cases "x = s") (auto intro!: counted_frame)
  show ?thesis using assms(1)
  proof cases
    case (clear_bit w b bits landed ret k t)
    have "owner S (w * 64 + b) = Armed" using own_scan_ahead [OF O] clear_bit(2) by simp
    then show ?thesis using clear_bit
      by (intro inv_count_same [OF C at [of "w * 64 + b"]]) (auto simp: counted_def clear_active_Some cleared_def)
  next
    case (take w b bits landed ret k taken t out)
    have "owner S (w * 64 + b) = Leaving" using leaving_slot [OF O take(2), of "w * 64 + b"] by simp
    then show ?thesis using take by (intro inv_count_same [OF C at [of "w * 64 + b"]]) (auto simp: counted_def take_payload_Some)
  next
    case (recycle ret k)
    note R = retired_slots [OF O recycle(2)]
    have "counted S' x \<longleftrightarrow> counted S x \<and> x \<notin> set ret" if "x < n" for x
      using R recycle(1) by (auto simp: counted_def split: owner.splits)
    then have new: "{x. x < n \<and> counted S' x} = {x. x < n \<and> counted S x} - set ret" by auto
    have sub: "set ret \<subseteq> {x. x < n \<and> counted S x}" unfolding conjunct2 [OF R] by (auto simp: counted_def)
    then have "card (set ret) \<le> card {..<n}" by (intro card_mono) auto
    moreover have card: "card (set ret) = length ret" using R by (intro distinct_card) simp
    ultimately have len: "length ret \<le> n" by simp
    have "card {x. x < n \<and> counted S x} = card {x. x < n \<and> counted S' x} + length ret"
      unfolding new card [symmetric] using card_mono [OF _ sub] card_Diff_subset [OF _ sub] by simp
    then show ?thesis using C recycle len by (simp add: inv_count_def recycle_def)
  next
    case (uncount m k t)
    have "counted S' x = counted S x" for x using uncount by (intro counted_frame) auto
    then show ?thesis using C uncount by (simp add: inv_count_def uncount_armed_Some)
  qed (rule inv_count_same [OF C]; auto intro!: counted_frame)+
qed

section \<open>Delivery\<close>

lemma register_delivery:
  assumes "register_step S S'" and "inv_shape n S" and "inv_owner n S" and "inv_slots n S" and D: "inv_delivery S"
  shows "inv_delivery S'"
  using assms(1)
proof cases
  case (store r s p t)
  have s: "s < n" "owner S s = Registrant r" using registrant_slot [OF assms(3) store(2)] by simp_all
  have "payload (tbl S) ! s = None"
    using assms(4) s store(2) by (auto simp: inv_slots_def slot_ok_def stage_ok_def has_payload_def)
  moreover have "s < length (payload (tbl S))" using assms(2) s by (simp add: inv_shape_def wf_table_def)
  ultimately have "in_table t = add_mset p (in_table (tbl S))"
    using store(3) in_table_update [of s "tbl S" "Some p"] by (simp add: write_payload_Some)
  then show ?thesis using D store(1) by (simp add: inv_delivery_def)
next
  case (activate r wi s p t)
  obtain a where a: "t = (tbl S)\<lparr>active := a\<rparr>" using set_active_frame [OF activate(3)] by blast
  show ?thesis using D activate(1) a by (simp add: inv_delivery_def in_table_def)
qed (use D in \<open>auto simp: inv_delivery_def in_table_def claim_Some reset_flag_Some release_def count_armed_def\<close>)

lemma device_delivery: "device_step S S' \<Longrightarrow> inv_delivery S \<Longrightarrow> inv_delivery S'"
  by (erule device_step.cases) (simp_all add: inv_delivery_def in_table_def)

lemma scan_delivery:
  assumes "scan_step S S'" and "inv_shape n S" and "inv_owner n S" and D: "inv_delivery S"
  shows "inv_delivery S'"
  using assms(1)
proof cases
  case (take w b bits landed ret k taken t out)
  have "own_scan n S" using assms(3) by (simp add: inv_owner_def)
  then have "w * 64 + b < n" using leaving_slot [OF _ take(2), of n "w * 64 + b"] by simp
  then have "w * 64 + b < length (payload (tbl S))" using assms(2) by (simp add: inv_shape_def wf_table_def)
  then have "in_table (tbl S) = in_table t + out"
    using take(3,4) in_table_update [of "w * 64 + b" "tbl S" None]
    by (auto simp: take_payload_Some split: option.splits)
  then show ?thesis using D take(1) by (simp add: inv_delivery_def)
qed (use D in \<open>auto simp: inv_delivery_def in_table_def clear_active_Some cleared_def recycle_def uncount_armed_Some\<close>)

section \<open>Wake-ups\<close>

lemma inv_wake_registrant:
  assumes "inv_wake S" and "registrants S' = (registrants S)(r := g)" and "waking (registrants S r) \<Longrightarrow> waking g \<or> token S'"
    and "scanner S' = scanner S" and "token S \<Longrightarrow> token S'" and "is_idle (tbl S) \<Longrightarrow> is_idle (tbl S') \<or> waking g"
  shows "inv_wake S'"
  using assms unfolding inv_wake_def by (metis fun_upd_apply)

lemma register_wake:
  assumes "register_step S S'" and W: "inv_wake S"
  shows "inv_wake S'"
  using assms(1)
proof cases
  case (count r s p was_idle t)
  then show ?thesis by (intro inv_wake_registrant [OF W, of S' r])
    (auto simp: count_armed_def is_idle_def waking_def)
next
  case (activate r was_idle s p t)
  then obtain a where a: "t = (tbl S)\<lparr>active := a\<rparr>" using set_active_frame [OF activate(3)] by blast
  show ?thesis using activate a by (intro inv_wake_registrant [OF W, of S' r]) (auto simp: is_idle_def waking_def)
next
  case (unpark r was_idle)
  then show ?thesis by (intro inv_wake_registrant [OF W, of S' r]) (auto simp: waking_def)
next
  case (claim r s t p)
  then show ?thesis by (intro inv_wake_registrant [OF W, of S' r]) (auto simp: waking_def is_idle_def claim_Some)
next
  case (clear r s p t)
  then show ?thesis by (intro inv_wake_registrant [OF W, of S' r]) (auto simp: waking_def is_idle_def reset_flag_Some)
next
  case (enqueue r s p)
  then show ?thesis by (intro inv_wake_registrant [OF W, of S' r]) (auto simp: waking_def is_idle_def)
next
  case (enqueue_fails r s p)
  then show ?thesis by (intro inv_wake_registrant [OF W, of S' r]) (auto simp: waking_def is_idle_def release_def)
next
  case (store r s p t)
  then show ?thesis by (intro inv_wake_registrant [OF W, of S' r]) (auto simp: waking_def is_idle_def write_payload_Some)
qed

lemma device_wake: "device_step S S' \<Longrightarrow> inv_wake S \<Longrightarrow> inv_wake S'"
  by (erule device_step.cases) (auto simp: inv_wake_def is_idle_def)

lemma scan_wake: "scan_step S S' \<Longrightarrow> inv_wake S'"
  by (erule scan_step.cases) (auto simp: inv_wake_def)

end
