(* ===== verification/Slot_Protocol_Properties.thy ===== *)
theory Slot_Protocol_Properties
  imports Slot_Invariant
begin

text \<open>
  What the completion-slot protocol guarantees in every state of every interleaving: a published
  payload is delivered at most once and never lost, a slot has one owner, a delivery follows the write of
  the same registration, the armed count never underflows, the scanner never sleeps on an armed slot,
  no participant gets stuck and every pass of the scanner ends.
\<close>

section \<open>Reachable states\<close>

text \<open>A step system whose invariant holds at the start and is kept by every step.\<close>

locale step_system =
  fixes start :: 's and step :: "'s \<Rightarrow> 's \<Rightarrow> bool" and kept :: "'s \<Rightarrow> bool"
  assumes kept_start: "kept start"
    and kept_step: "kept s \<Longrightarrow> step s s' \<Longrightarrow> kept s'"
begin

lemma kept_run: "kept s \<Longrightarrow> step\<^sup>*\<^sup>* s s' \<Longrightarrow> kept s'"
  by (erule rtranclp_induct) (auto intro: kept_step)

lemma kept_reachable: "step\<^sup>*\<^sup>* start s \<Longrightarrow> kept s"
  by (rule kept_run [OF kept_start])

end

lemma reachable_run: "reachable n S \<longleftrightarrow> sys_step\<^sup>*\<^sup>* (sys_init n) S"
proof
  show "reachable n S \<Longrightarrow> sys_step\<^sup>*\<^sup>* (sys_init n) S" by (induction rule: reachable.induct) auto
  show "sys_step\<^sup>*\<^sup>* (sys_init n) S \<Longrightarrow> reachable n S"
    by (induction rule: rtranclp_induct) (auto intro: reachable.intros)
qed

lemma table_new_armed: "s div 64 < (n + 63) div 64 \<Longrightarrow> \<not> is_armed (table_new n fl) s"
  by (simp add: is_armed_def table_new_def)

lemma in_table_new [simp]: "in_table (table_new n fl) = {#}"
  by (induction n) (simp_all add: in_table_def table_new_def)

lemma sys_inv_init: "sys_inv n (sys_init n)"
proof -
  have "inv_shape n (sys_init n)"
    by (auto simp: inv_shape_def sys_init_def wf_table_def table_new_def is_armed_def div_less_iff_less_mult mult.commute)
  moreover have "own_free n (sys_init n)" by (auto simp: own_free_def sys_init_def table_new_def)
  moreover have "own_reg n (sys_init n)" by (simp add: own_reg_def sys_init_def)
  moreover have "own_armed n (sys_init n)" by (simp add: own_armed_def sys_init_def table_new_armed slot_word_bound)
  moreover have "own_scan n (sys_init n)" by (simp add: own_scan_def sys_init_def)
  moreover have "inv_slots n (sys_init n)" by (simp add: inv_slots_def slot_ok_def sys_init_def table_new_def)
  moreover have "inv_count n (sys_init n)" by (simp add: inv_count_def counted_def sys_init_def table_new_def)
  moreover have "inv_delivery (sys_init n)" by (simp add: inv_delivery_def sys_init_def)
  moreover have "inv_wake (sys_init n)" by (simp add: inv_wake_def sys_init_def)
  ultimately show ?thesis by (simp add: sys_inv_def inv_owner_def)
qed

lemma sys_inv_step:
  assumes "2 * n < 2 ^ 64" and "sys_inv n S" and "sys_step S S'"
  shows "sys_inv n S'"
proof -
  have I: "inv_shape n S" "inv_owner n S" "inv_slots n S" "inv_count n S" "inv_delivery S" "inv_wake S"
    using assms(2) by (simp_all add: sys_inv_def)
  consider "register_step S S'" | "device_step S S'" | "scan_step S S'" using assms(3) by (auto simp: sys_step_def)
  then show ?thesis
  proof cases
    case 1
    then show ?thesis
      using register_shape [OF 1] register_owner [OF 1] register_slots [OF 1] register_count [OF 1 _ _ assms(1)]
        register_delivery [OF 1] register_wake [OF 1] I by (simp add: sys_inv_def)
  next
    case 2
    then show ?thesis
      using device_shape [OF 2] device_owner [OF 2] device_slots [OF 2] device_count [OF 2]
        device_delivery [OF 2] device_wake [OF 2] I by (simp add: sys_inv_def)
  next
    case 3
    then show ?thesis
      using scan_shape [OF 3] scan_owner [OF 3] scan_slots [OF 3] scan_count [OF 3]
        scan_delivery [OF 3] scan_wake [OF 3] I by (simp add: sys_inv_def)
  qed
qed

interpretation reactor: step_system "sys_init n" sys_step "\<lambda>S. 2 * n < 2 ^ 64 \<longrightarrow> sys_inv n S" for n
  using sys_inv_init sys_inv_step by unfold_locales blast+

lemma reachable_inv: "reachable n S \<Longrightarrow> 2 * n < 2 ^ 64 \<Longrightarrow> sys_inv n S"
  using reactor.kept_reachable [of n S] by (simp add: reachable_run)


lemmas reachable_parts = reachable_inv [unfolded sys_inv_def inv_owner_def]

section \<open>Safety\<close>

text \<open>(C2) Exactly-once delivery: in every reachable state of a reactor with n slots, the payloads published
  so far are exactly those handed out as completed, those handed out as faulted and those still in
  the table, as multisets, and a free slot holds no payload. So no payload is lost, duplicated or
  left in a recycled slot, whatever the interleaving of registrants, scanner and device.\<close>

theorem exactly_once_delivery:
  assumes "reachable n S" and "2 * n < 2 ^ 64"
  shows "published S = delivered S + faulted S + in_table (tbl S) \<and>
    list_all (\<lambda>s. payload (tbl S) ! s = None) (free (tbl S))"
proof -
  have I: "own_free n S" "inv_slots n S" "inv_delivery S" using reachable_parts [OF assms] by simp_all
  then have "payload (tbl S) ! s = None" if "s \<in> set (free (tbl S))" for s
    using that by (auto simp: own_free_def inv_slots_def slot_ok_def)
  then show ?thesis using I(3) by (simp add: inv_delivery_def list_all_iff)
qed

text \<open>(C6) Exclusive slots: in every reachable state the free list has no duplicates, and a slot between the
  \<open>claim\<close> of a registrant and the end of its \<open>publish\<close> is in the table, not in the free list, not
  marked active, neither being taken nor retired by the scanner, and held by no other registrant.\<close>

theorem slot_exclusive:
  assumes "reachable n S" and "2 * n < 2 ^ 64"
  shows "distinct (free (tbl S)) \<and>
    (\<forall>r s. slot_of (registrants S r) = Some s \<longrightarrow>
       s < n \<and> s \<notin> set (free (tbl S)) \<and> \<not> is_armed (tbl S) s \<and> taking_of (scanner S) \<noteq> Some s \<and>
       s \<notin> set (retired_of (scanner S)) \<and> (\<forall>r'. slot_of (registrants S r') = Some s \<longrightarrow> r' = r))"
proof -
  have I: "own_free n S" "own_reg n S" "own_armed n S" "own_scan n S" using reachable_parts [OF assms] by simp_all
  have "s < n \<and> s \<notin> set (free (tbl S)) \<and> \<not> is_armed (tbl S) s \<and> taking_of (scanner S) \<noteq> Some s \<and>
       s \<notin> set (retired_of (scanner S)) \<and> (\<forall>r'. slot_of (registrants S r') = Some s \<longrightarrow> r' = r)"
    if "slot_of (registrants S r) = Some s" for r s
  proof -
    have s: "s < n" "owner S s = Registrant r" using I(2) that by (auto simp: own_reg_def)
    show ?thesis using s I by (auto simp: own_free_def own_reg_def own_armed_def own_scan_def)
  qed
  then show ?thesis using I(1) by (auto simp: own_free_def)
qed

text \<open>(C5) A completion is delivered only after its own write: when a scanner step hands out a payload as
  completed, it is the payload of one slot whose enqueued flag write has landed; when it hands one out
  as faulted, the flag write of that slot can no longer land (it was lost, or it landed after the scanner had loaded the
  flag). No step hands out more than one payload, and no write is pending for a slot of the free list, so a recycled slot
  is never clobbered by a late device write.\<close>

theorem delivery_after_write:
  assumes "reachable n S" and "2 * n < 2 ^ 64" and "scan_step S S'"
  shows "(delivered S' = delivered S \<and> faulted S' = faulted S \<or>
    (\<exists>s p. s < n \<and> payload (tbl S) ! s = Some p \<and> payload (tbl S') ! s = None \<and>
      (delivered S' = add_mset p (delivered S) \<and> faulted S' = faulted S \<and> writes S s = Landed \<or>
       delivered S' = delivered S \<and> faulted S' = add_mset p (faulted S) \<and> (writes S s = Lost \<or> writes S s = Landed)))) \<and>
    list_all (\<lambda>s. writes S s \<noteq> Pending) (free (tbl S))"
proof (rule conjI)
  have I: "inv_shape n S" "own_free n S" "own_scan n S" "inv_slots n S" using reachable_parts [OF assms(1,2)] by simp_all
  show "list_all (\<lambda>s. writes S s \<noteq> Pending) (free (tbl S))"
    using I(2,4) by (auto simp: list_all_iff own_free_def inv_slots_def slot_ok_def)
  show "delivered S' = delivered S \<and> faulted S' = faulted S \<or>
    (\<exists>s p. s < n \<and> payload (tbl S) ! s = Some p \<and> payload (tbl S') ! s = None \<and>
      (delivered S' = add_mset p (delivered S) \<and> faulted S' = faulted S \<and> writes S s = Landed \<or>
       delivered S' = delivered S \<and> faulted S' = add_mset p (faulted S) \<and> (writes S s = Lost \<or> writes S s = Landed)))"
    using assms(3)
  proof cases
    case (take w b bits landed ret k taken t out)
    let ?s = "w * 64 + b"
    have s: "?s < n" "owner S ?s = Leaving" using leaving_slot [OF I(3) take(2), of ?s] by simp_all
    have "slot_ok S ?s" and v: "settled_write landed (writes S ?s)"
      using I(4) s(1) take(2) by (auto simp: inv_slots_def)
    then obtain p where p: "payload (tbl S) ! ?s = Some p" using s(2) by (auto simp: slot_ok_def)
    have "?s < length (payload (tbl S))" using I(1) s(1) by (simp add: inv_shape_def wf_table_def)
    then show ?thesis using take p v s(1)
      by (intro disjI2 exI [of _ ?s] exI [of _ p]) (auto simp: take_payload_Some settled_write_def)
  qed auto
qed

section \<open>Progress\<close>

lemma in_table_empty: "\<forall>s < length (payload t). payload t ! s = None \<Longrightarrow> in_table t = {#}"
  by (auto simp: in_table_def in_set_conv_nth split: option.splits)

text \<open>(C9) No lost wake-up: in every reachable state in which the scanner is parked and holds no token, either
  nothing is armed or a registrant is on its way to unpark it. If moreover no registration is under
  way, every published payload has been handed out and every slot is free.\<close>

theorem no_lost_wakeup:
  assumes "reachable n S" and "2 * n < 2 ^ 64" and "scanner S = Parked" and "\<not> token S"
  shows "(is_idle (tbl S) \<or> (\<exists>r. waking (registrants S r))) \<and>
    ((\<forall>r. registrants S r = Outside) \<longrightarrow>
       published S = delivered S + faulted S \<and> distinct (free (tbl S)) \<and> set (free (tbl S)) = {..<n})"
proof -
  have I: "inv_shape n S" "own_free n S" "own_reg n S" "inv_slots n S" "inv_count n S" "inv_delivery S" "inv_wake S"
    using reachable_parts [OF assms(1,2)] by simp_all
  have wake: "is_idle (tbl S) \<or> (\<exists>r. waking (registrants S r))" using I(7) assms(3,4) by (simp add: inv_wake_def)
  have "in_table (tbl S) = {#} \<and> set (free (tbl S)) = {..<n}" if "\<forall>r. registrants S r = Outside"
  proof -
    have "is_idle (tbl S)" using wake that by (auto simp: waking_def)
    then have "{s. s < n \<and> counted S s} = {}" using I(5) by (auto simp: inv_count_def is_idle_def)
    then have none: "\<not> counted S s" if "s < n" for s using that by auto
    have reg: "owner S s \<noteq> Registrant r" if "s < n" for s r
      using I(3) that \<open>\<forall>r. registrants S r = Outside\<close> by (metis own_reg_def option.distinct(1) slot_of.simps(2))
    have pool: "owner S s = Pool" if "s < n" for s
      using none [OF that] reg [OF that] by (cases "owner S s") (auto simp: counted_def)
    then have "payload (tbl S) ! s = None" if "s < n" for s
      using I(4) that by (auto simp: inv_slots_def slot_ok_def)
    moreover have "length (payload (tbl S)) = n" using I(1) by (simp add: inv_shape_def wf_table_def)
    ultimately show ?thesis using I(2) pool by (auto simp: own_free_def intro!: in_table_empty)
  qed
  then show ?thesis using wake I(2,6) by (auto simp: own_free_def inv_delivery_def)
qed

lemma scanner_progress:
  assumes "inv_shape n S" and "own_scan n S" and "inv_count n S" and "scanner S \<noteq> Parked"
  shows "\<exists>S'. scan_step S S'"
proof (cases "scanner S")
  case (AtWord w ret k)
  then show ?thesis using scan_step.load_word [of S w ret k] scan_step.last_word [of S w ret k] by blast
next
  case (AtBits w bits ret k)
  have len: "length (flags (tbl S)) = num_slots (tbl S)" using assms(1) by (simp add: inv_shape_def wf_table_def)
  show ?thesis
  proof (cases "bits = 0 \<or> w * 64 + ctz bits \<ge> num_slots (tbl S)")
    case True
    then show ?thesis using scan_step.word_done [OF AtBits] by blast
  next
    case False
    then have s: "bits \<noteq> 0" "w * 64 + ctz bits < num_slots (tbl S)" by simp_all
    then consider "flag_landed (w * 64 + ctz bits) (tbl S) = Some True" | "flag_landed (w * 64 + ctz bits) (tbl S) = Some False"
      using len by (auto simp: flag_landed_Some)
    then show ?thesis
    proof cases
      case 1
      then show ?thesis using scan_step.see_landed [OF AtBits s(1) refl s(2)] by blast
    next
      case 2
      then show ?thesis using scan_step.see_armed [OF _ s(1) refl s(2)] scan_step.see_unlanded [OF _ s(1) refl s(2)] AtBits
        by (cases k) blast+
    qed
  qed
next
  case (Probing w b bits ret)
  then have "w * 64 + b < length (payload (tbl S))"
    using own_scan_ahead [OF assms(2), of "w * 64 + b"] assms(1) by (simp add: inv_shape_def wf_table_def)
  then show ?thesis using scan_step.probe_alive [OF Probing] by blast
next
  case (Clearing w b bits landed ret k)
  have "w * 64 + b < n" using own_scan_ahead [OF assms(2), of "w * 64 + b"] Clearing by simp
  moreover have "b < 64" using assms(1) Clearing by (simp add: inv_shape_def)
  ultimately have "w < length (active (tbl S))"
    using assms(1) slot_word_bound [of "w * 64 + b" n] by (simp add: inv_shape_def wf_table_def)
  then show ?thesis using scan_step.clear_bit [OF Clearing] clear_active_Some by blast
next
  case (Taking w b bits landed ret k)
  have "w * 64 + b < n" using leaving_slot [OF assms(2) Taking, of "w * 64 + b"] by simp
  then have "w * 64 + b < length (payload (tbl S))" using assms(1) by (simp add: inv_shape_def wf_table_def)
  then show ?thesis using scan_step.take [OF Taking _ refl] take_payload_Some by blast
next
  case (Recycling ret k)
  then show ?thesis using scan_step.recycle [of S ret k] scan_step.none_retired [of S k] by (cases "ret = []") auto
next
  case (Uncounting m k)
  then have "m \<le> n_armed (tbl S)" using assms(3) by (simp add: inv_count_def)
  then show ?thesis using scan_step.uncount [OF Uncounting] by (simp add: uncount_armed_def) blast
next
  case (Deciding k)
  then show ?thesis using scan_step.again [of S] scan_step.spin [of S] scan_step.park [of S] by (cases k) auto
qed (use assms(4) in simp)

lemma registrant_progress:
  assumes "inv_shape n S" and "own_reg n S" and "registrants S r \<noteq> Outside"
  shows "\<exists>S'. register_step S S' \<and> registrants S' r \<noteq> registrants S r"
proof (cases "registrants S r")
  case (Announce wi)
  then show ?thesis using register_step.unpark [OF Announce] by fastforce
next
  case (Inside st s p)
  have s: "s < n" using own_reg_slot [OF assms(2) Inside] by simp
  have len: "length (flags (tbl S)) = n" "length (payload (tbl S)) = n" "s div 64 < length (active (tbl S))"
    using assms(1) s slot_word_bound [OF s] by (auto simp: inv_shape_def wf_table_def)
  show ?thesis
  proof (cases st)
    case Claimed
    then show ?thesis using register_step.clear [of S r s p] Inside s len by (simp add: reset_flag_def) fastforce
  next
    case Cleared
    then show ?thesis using register_step.enqueue [of S r s p] Inside by fastforce
  next
    case Enqueued
    then show ?thesis using register_step.store [of S r s p] Inside s len by (simp add: write_payload_def) fastforce
  next
    case Stored
    then show ?thesis using register_step.count [of S r s p] Inside by (simp add: count_armed_def) fastforce
  next
    case (Counted wi)
    then show ?thesis using register_step.activate [of S r wi s p] Inside len by (simp add: set_active_def) fastforce
  qed
qed (use assms(3) in simp)

text \<open>(C29) Nobody gets stuck: in every reachable state the scanner can take its next step unless it is parked
  (so \<open>debug_assert\<close> on the armed count holds and every flag, bitmap word and payload it indexes is in range), and every registrant inside \<open>register\<close>
  can take its next step.\<close>

theorem no_participant_stuck:
  assumes "reachable n S" and "2 * n < 2 ^ 64"
  shows "(scanner S = Parked \<or> (\<exists>S'. scan_step S S')) \<and>
    (registrants S r = Outside \<or> (\<exists>S'. register_step S S' \<and> registrants S' r \<noteq> registrants S r))"
  using reachable_parts [OF assms] scanner_progress [of n S] registrant_progress [of n S r] by blast

section \<open>Every pass ends\<close>

text \<open>The work left in the current pass: the words left, then the bits left of the current word, and after
  the last word the steps up to the decision whether to park.\<close>

definition bits_set :: "nat \<Rightarrow> nat" where
  "bits_set w = card {b. bit w b}"

fun pass_rank :: "nat \<Rightarrow> scanner \<Rightarrow> nat \<times> nat" where
  "pass_rank len (AtWord w _ _) = (2 * (len - w) + 1, 0)"
| "pass_rank len (AtBits w bits _ _) = (2 * (len - w), 4 * bits_set bits)"
| "pass_rank len (Probing w _ bits _) = (2 * (len - w), 4 * bits_set bits + 3)"
| "pass_rank len (Clearing w _ bits _ _ _) = (2 * (len - w), 4 * bits_set bits + 2)"
| "pass_rank len (Taking w _ bits _ _ _) = (2 * (len - w), 4 * bits_set bits + 1)"
| "pass_rank len (Recycling _ _) = (0, 2)"
| "pass_rank len (Uncounting _ _) = (0, 1)"
| "pass_rank len _ = (0, 0)"

fun in_pass :: "scanner \<Rightarrow> bool" where
  "in_pass (Deciding _) = False"
| "in_pass Parked = False"
| "in_pass _ = True"

definition rank :: "'p sys \<Rightarrow> nat \<times> nat" where
  "rank S = pass_rank (length (active (tbl S))) (scanner S)"

fun word_of :: "scanner \<Rightarrow> nat option" where
  "word_of (AtBits w _ _ _) = Some w"
| "word_of (Probing w _ _ _) = Some w"
| "word_of (Clearing w _ _ _ _ _) = Some w"
| "word_of (Taking w _ _ _ _ _) = Some w"
| "word_of _ = None"

definition word_ok :: "'p sys \<Rightarrow> bool" where
  "word_ok S \<longleftrightarrow> (case word_of (scanner S) of Some w \<Rightarrow> w < length (active (tbl S)) | None \<Rightarrow> True)"

lemma register_active_length: "register_step S S' \<Longrightarrow> length (active (tbl S')) = length (active (tbl S))"
  by (erule register_step.cases) (auto simp: table_ops set_active_def split: if_splits)

lemma device_active_length: "device_step S S' \<Longrightarrow> length (active (tbl S')) = length (active (tbl S))"
  by (erule device_step.cases) auto

lemma scan_active_length: "scan_step S S' \<Longrightarrow> length (active (tbl S')) = length (active (tbl S))"
  by (erule scan_step.cases) (auto simp: scan_ops cleared_def)

lemma other_scanner: "register_step S S' \<or> device_step S S' \<Longrightarrow> scanner S' = scanner S"
  by (auto elim!: register_step.cases device_step.cases)

lemma reachable_word_ok: "reachable n S \<Longrightarrow> word_ok S"
proof (induction rule: reachable.induct)
  case initial
  show ?case by (simp add: word_ok_def sys_init_def)
next
  case (later S S')
  then consider "register_step S S' \<or> device_step S S'" | "scan_step S S'" by (auto simp: sys_step_def)
  then show ?case
  proof cases
    case 1
    then show ?thesis using later(3) other_scanner [OF 1] register_active_length [of S S'] device_active_length [of S S']
      by (auto simp: word_ok_def split: option.splits)
  next
    case 2
    then have "word_of (scanner S') = None \<or> word_of (scanner S') = word_of (scanner S) \<or>
        (\<exists>w. word_of (scanner S') = Some w \<and> w < length (active (tbl S)))" by cases auto
    then show ?thesis using later(3) scan_active_length [OF 2] by (auto simp: word_ok_def split: option.splits)
  qed
qed

lemma finite_bits: "finite {b. bit (w :: nat) b}"
proof (rule finite_subset)
  show "{b. bit w b} \<subseteq> {..<w}" using bit_nat_iff
    by (auto simp: bit_iff_odd) (metis div_less even_zero less_exp linorder_not_less order_less_le_trans)
qed simp

lemma bits_set_drop: "w \<noteq> 0 \<Longrightarrow> bits_set (w AND (w - 1)) < bits_set w"
  unfolding bits_set_def by (rule psubset_card_mono [OF finite_bits]) (use drop_lowest_ahead [of w] ctz_ahead [of w] in blast)

lemma scan_rank:
  assumes "scan_step S S'" and "in_pass (scanner S)" and "word_ok S"
  shows "(rank S', rank S) \<in> less_than <*lex*> less_than"
  using assms(1)
proof cases
  case (see_armed w bits ret g s)
  then show ?thesis using bits_set_drop [of bits] by (simp add: rank_def)
next
  case (see_landed w bits ret k s)
  then show ?thesis using bits_set_drop [of bits] by (simp add: rank_def)
next
  case (see_unlanded w bits ret s)
  then show ?thesis using bits_set_drop [of bits] by (simp add: rank_def)
qed (use assms(2,3) in \<open>auto simp: rank_def word_ok_def scan_ops cleared_def\<close>)

lemma other_rank: "register_step S S' \<or> device_step S S' \<Longrightarrow> rank S' = rank S"
  using other_scanner [of S S'] register_active_length [of S S'] device_active_length [of S S'] by (auto simp: rank_def)

text \<open>(C28) Every scan pass ends: during a pass, each step of the scanner lowers the rank in a well-founded
  order, and no step of a registrant or of the device changes it. So a pass makes finitely many
  scanner steps however the other participants interleave, and no infinite run stays in one pass
  unless the scanner is not scheduled.\<close>

theorem scan_pass_ends:
  assumes "reachable n S" and "sys_step S S'" and "in_pass (scanner S)"
  shows "wf (less_than <*lex*> less_than) \<and>
    (if scan_step S S' then (rank S', rank S) \<in> less_than <*lex*> less_than else rank S' = rank S)"
  using scan_rank [OF _ assms(3) reachable_word_ok [OF assms(1)]] other_rank [of S S'] assms(2)
  by (auto simp: sys_step_def)

section \<open>A run of one slot\<close>

text \<open>The run behind the witnesses: one registration of the payload 7 while the scanner parks, then the device
  writes the flag and the scanner, unparked, delivers the payload.\<close>

definition cell :: "nat \<Rightarrow> nat \<Rightarrow> nat option \<Rightarrow> nat list \<Rightarrow> nat \<Rightarrow> nat SlotTable" where
  "cell fl ac pay fr na = \<lparr>flags = [fl], active = [ac], payload = [pay], free = fr, n_armed = na, num_slots = 1\<rparr>"

definition shot :: "nat SlotTable \<Rightarrow> nat registrant \<Rightarrow> scanner \<Rightarrow> flag_write \<Rightarrow> bool \<Rightarrow> owner \<Rightarrow> nat multiset \<Rightarrow>
    nat multiset \<Rightarrow> nat sys" where
  "shot t g sc fw tok ow pub del =
     \<lparr>tbl = t, registrants = (\<lambda>_. Outside)(0 := g), scanner = sc, writes = (\<lambda>_. NoWrite)(0 := fw), token = tok,
      owner = (\<lambda>_. Pool)(0 := ow), published = pub, delivered = del, faulted = {#}\<rparr>"

lemmas shot_simps = shot_def cell_def table_ops scan_ops set_active_def cleared_def is_idle_def ctz.simps

lemma reach_register: "reachable n S \<Longrightarrow> register_step S T \<Longrightarrow> T = S' \<Longrightarrow> reachable n S'"
  using reachable.later by (auto simp: sys_step_def)

lemma reach_device: "reachable n S \<Longrightarrow> device_step S T \<Longrightarrow> T = S' \<Longrightarrow> reachable n S'"
  using reachable.later by (auto simp: sys_step_def)

lemma reach_scan: "reachable n S \<Longrightarrow> scan_step S T \<Longrightarrow> T = S' \<Longrightarrow> reachable n S'"
  using reachable.later by (auto simp: sys_step_def)

lemma shot_parked: "reachable 1 (shot (cell 0 0 None [0] 0) Outside Parked NoWrite False Pool {#} {#})"
proof -
  let ?S = "\<lambda>sc. shot (cell 0 0 None [0] 0) Outside sc NoWrite False Pool {#} {#}"
  have "reachable 1 (?S (AtWord 0 [] (Plain False)))"
    using reachable.initial [of 1] by (simp add: sys_init_def table_new_def shot_simps fun_upd_idem)
  then have "reachable 1 (?S (AtBits 0 0 [] (Plain False)))"
    by (rule reach_scan [OF _ scan_step.load_word [where w = 0 and ret = "[]" and k = "Plain False"]]) (simp_all add: shot_simps)
  then have "reachable 1 (?S (AtWord 1 [] (Plain False)))"
    by (rule reach_scan [OF _ scan_step.word_done [where w = 0 and bits = 0 and ret = "[]" and k = "Plain False"]]) (simp_all add: shot_simps)
  then have "reachable 1 (?S (Recycling [] (Plain False)))"
    by (rule reach_scan [OF _ scan_step.last_word [where w = 1 and ret = "[]" and k = "Plain False"]]) (simp_all add: shot_simps)
  then have "reachable 1 (?S (Deciding False))"
    by (rule reach_scan [OF _ scan_step.none_retired [where k = "Plain False"]]) (simp_all add: shot_simps)
  then show ?thesis by (rule reach_scan [OF _ scan_step.park]) (simp_all add: shot_simps)
qed

lemma shot_counted:
  "reachable 1 (shot (cell 0 0 (Some 7) [] 1) (Inside (Counted True) 0 7) Parked Pending False (Registrant 0) {#7#} {#})"
proof -
  let ?S = "\<lambda>t g fw pub. shot t g Parked fw False (Registrant 0) pub {#}"
  have "reachable 1 (?S (cell 0 0 None [] 0) (Inside Claimed 0 7) NoWrite {#})"
    by (rule reach_register [OF shot_parked register_step.claim [where r = 0 and p = 7 and s = 0 and t = "cell 0 0 None [] 0"]]) (simp_all add: shot_simps)
  then have "reachable 1 (?S (cell 0 0 None [] 0) (Inside Cleared 0 7) NoWrite {#})"
    by (rule reach_register [OF _ register_step.clear [where r = 0 and s = 0 and p = 7 and t = "cell 0 0 None [] 0"]]) (simp_all add: shot_simps)
  then have "reachable 1 (?S (cell 0 0 None [] 0) (Inside Enqueued 0 7) Pending {#})"
    by (rule reach_register [OF _ register_step.enqueue [where r = 0 and s = 0 and p = 7]]) (simp_all add: shot_simps)
  then have "reachable 1 (?S (cell 0 0 (Some 7) [] 0) (Inside Stored 0 7) Pending {#7#})"
    by (rule reach_register [OF _ register_step.store [where r = 0 and s = 0 and p = 7 and t = "cell 0 0 (Some 7) [] 0"]]) (simp_all add: shot_simps)
  then show ?thesis by (rule reach_register [OF _ register_step.count [where r = 0 and s = 0 and p = 7 and was_idle = True and t = "cell 0 0 (Some 7) [] 1"]]) (simp_all add: shot_simps)
qed

lemma shot_taking:
  "reachable 1 (shot (cell 1 0 (Some 7) [] 1) Outside (Taking 0 0 0 True [] (Plain False)) Landed False Leaving {#7#} {#})"
proof -
  let ?S = "\<lambda>sc ow. shot (cell 1 1 (Some 7) [] 1) Outside sc Landed False ow {#7#} {#}"
  have "reachable 1 (shot (cell 0 1 (Some 7) [] 1) (Announce True) Parked Pending False Armed {#7#} {#})"
    by (rule reach_register [OF shot_counted register_step.activate [where r = 0 and s = 0 and p = 7 and was_idle = True and t = "cell 0 1 (Some 7) [] 1"]]) (simp_all add: shot_simps)
  then have "reachable 1 (shot (cell 0 1 (Some 7) [] 1) Outside Parked Pending True Armed {#7#} {#})"
    by (rule reach_register [OF _ register_step.unpark [where r = 0 and was_idle = True]]) (simp_all add: shot_simps)
  then have "reachable 1 (shot (cell 1 1 (Some 7) [] 1) Outside Parked Landed True Armed {#7#} {#})"
    by (rule reach_device [OF _ device_step.land [where s = 0]]) (simp_all add: shot_simps)
  then have "reachable 1 (?S (AtWord 0 [] (Plain False)) Armed)"
    by (rule reach_scan [OF _ scan_step.resume]) (simp_all add: shot_simps)
  then have "reachable 1 (?S (AtBits 0 1 [] (Plain False)) Armed)"
    by (rule reach_scan [OF _ scan_step.load_word [where w = 0 and ret = "[]" and k = "Plain False"]]) (simp_all add: shot_simps)
  then have "reachable 1 (?S (Clearing 0 0 0 True [] (Plain False)) Armed)"
    by (rule reach_scan [OF _ scan_step.see_landed [where w = 0 and bits = 1 and ret = "[]" and k = "Plain False" and s = 0]]) (simp_all add: shot_simps)
  then show ?thesis by (rule reach_scan [OF _ scan_step.clear_bit [where w = 0 and b = 0 and bits = 0 and landed = True and ret = "[]" and k = "Plain False"
      and t = "cell 1 0 (Some 7) [] 1"]]) (simp_all add: shot_simps unset_bit_0)
qed

abbreviation taking_shot :: "nat sys" where
  "taking_shot \<equiv> shot (cell 1 0 (Some 7) [] 1) Outside (Taking 0 0 0 True [] (Plain False)) Landed False Leaving {#7#} {#}"

abbreviation taken_shot :: "nat sys" where
  "taken_shot \<equiv> shot (cell 1 0 None [] 1) Outside (AtBits 0 0 [0] (Plain True)) Landed False Retired {#7#} {#7#}"

abbreviation counted_shot :: "nat sys" where
  "counted_shot \<equiv> shot (cell 0 0 (Some 7) [] 1) (Inside (Counted True) 0 7) Parked Pending False (Registrant 0) {#7#} {#}"

abbreviation parked_shot :: "nat sys" where
  "parked_shot \<equiv> shot (cell 0 0 None [0] 0) Outside Parked NoWrite False Pool {#} {#}"

lemma scan_step_eq: "scan_step S T \<Longrightarrow> T = S' \<Longrightarrow> scan_step S S'"
  by simp

lemma shot_takes: "scan_step taking_shot taken_shot"
  by (rule scan_step_eq [OF scan_step.take [where w = 0 and b = 0 and bits = 0 and landed = True and ret = "[]" and k = "Plain False"
      and taken = "Some 7" and t = "cell 1 0 None [] 1" and out = "{#7#}"]]) (simp_all add: shot_simps)

theorem exactly_once_delivery_witness:
  "published taking_shot = delivered taking_shot + faulted taking_shot + in_table (tbl taking_shot) \<and>
   in_table (tbl taking_shot) = {#7#}"
  using exactly_once_delivery [OF shot_taking] by (simp add: in_table_def shot_simps)

theorem slot_exclusive_witness:
  "distinct (free (tbl counted_shot)) \<and> slot_of (registrants counted_shot 0) = Some 0 \<and> 0 \<notin> set (free (tbl counted_shot)) \<and>
   \<not> is_armed (tbl counted_shot) 0"
proof -
  have "slot_of (registrants counted_shot 0) = Some 0" by (simp add: shot_simps)
  then show ?thesis using slot_exclusive [OF shot_counted] by simp
qed

theorem delivery_after_write_witness:
  "\<exists>s. s < 1 \<and> payload (tbl taking_shot) ! s = Some 7 \<and> delivered taken_shot = add_mset 7 (delivered taking_shot) \<and>
     writes taking_shot s = Landed"
proof -
  have "delivered taken_shot \<noteq> delivered taking_shot" "faulted taken_shot = faulted taking_shot"
    "delivered taken_shot = add_mset 7 (delivered taking_shot)" by (simp_all add: shot_def)
  then show ?thesis using delivery_after_write [OF shot_taking _ shot_takes] by (simp; metis)
qed

theorem no_lost_wakeup_witness:
  "\<not> is_idle (tbl counted_shot) \<and> (\<exists>r. waking (registrants counted_shot r)) \<and>
   set (free (tbl parked_shot)) = {..<1}"
proof -
  have "is_idle (tbl counted_shot) \<or> (\<exists>r. waking (registrants counted_shot r))"
    using no_lost_wakeup [OF shot_counted] by (simp add: shot_simps)
  moreover have "\<not> is_idle (tbl counted_shot)" by (simp add: shot_simps)
  moreover have "set (free (tbl parked_shot)) = {..<1}"
    using no_lost_wakeup [OF shot_parked] by (simp add: shot_simps)
  ultimately show ?thesis by blast
qed

theorem no_participant_stuck_witness:
  "(\<exists>S'. register_step counted_shot S' \<and> registrants S' 0 \<noteq> registrants counted_shot 0) \<and> (\<exists>S'. scan_step taking_shot S')"
proof -
  have "registrants counted_shot 0 \<noteq> Outside" "scanner taking_shot \<noteq> Parked" by (simp_all add: shot_simps)
  then show ?thesis using no_participant_stuck [OF shot_counted, of 0] no_participant_stuck [OF shot_taking, of 0] by simp
qed

theorem scan_pass_ends_witness: "(rank taken_shot, rank taking_shot) \<in> less_than <*lex*> less_than"
proof -
  have "sys_step taking_shot taken_shot" "in_pass (scanner taking_shot)" using shot_takes by (simp_all add: sys_step_def shot_simps)
  then show ?thesis using scan_pass_ends [OF shot_taking, of taken_shot] shot_takes by simp
qed

end
