(* ===== verification/Target_Spec.thy ===== *)
theory Target_Spec
  imports Oxide_Text
begin

text \<open>
  The target vocabulary (\<open>cuda-target-spec/src/lib.rs\<close>): CUDA architectures and their text, the two tables of
  PTX versions per target, the supported PTX spellings, and the compute-capability floor of device
  code. Capabilities are \<open>u32\<close> and PTX versions \<open>u16\<close>; they are only compared, so they are natural
  numbers, with the range of \<open>u32\<close> enforced where a capability is parsed.
\<close>

section \<open>Architectures\<close>

record CudaArch =
  capability :: nat
  suffix :: "char option"

record CudaArchParseError =
  err_target :: string
  err_reason :: string

definition render_parts :: "string \<Rightarrow> nat \<Rightarrow> char option \<Rightarrow> string" where
  "render_parts prefix cap suf =
     (case suf of Some c \<Rightarrow> prefix @ show_nat cap @ [c] | None \<Rightarrow> prefix @ show_nat cap)"

definition bad_target :: "string \<Rightarrow> string \<Rightarrow> CudaArchParseError" where
  "bad_target t r = \<lparr>err_target = t, err_reason = r\<rparr>"

definition show_arch_error :: "CudaArchParseError \<Rightarrow> string" where
  "show_arch_error self = ''invalid CUDA target `'' @ err_target self @ ''`: '' @ err_reason self"

definition cuda_arch_new :: "nat \<Rightarrow> char option \<Rightarrow> (CudaArch, CudaArchParseError) outcome" where
  "cuda_arch_new cap suf =
     (let target = render_parts ''sm_'' cap suf in
      if cap < 10
      then Err (bad_target target ''compute capability must contain at least two digits'')
      else if suf \<noteq> None \<and> suf \<noteq> Some (CHR ''a'') \<and> suf \<noteq> Some (CHR ''f'')
      then Err (bad_target target ''the only supported architecture suffixes are `a` and `f`'')
      else Ok \<lparr>capability = cap, suffix = suf\<rparr>)"

definition uses_legacy_llvm :: "CudaArch \<Rightarrow> bool" where
  "uses_legacy_llvm self = (capability self < 100)"

definition render :: "CudaArch \<Rightarrow> string \<Rightarrow> string" where
  "render self prefix = render_parts prefix (capability self) (suffix self)"

definition sm :: "CudaArch \<Rightarrow> string" where
  "sm self = render self ''sm_''"

definition compute :: "CudaArch \<Rightarrow> string" where
  "compute self = render self ''compute_''"

definition strip_prefix :: "string \<Rightarrow> string \<Rightarrow> string option" where
  "strip_prefix p s = (if take (length p) s = p then Some (drop (length p) s) else None)"

text \<open>\<open>u32::from_str\<close> on a run of digits.\<close>

definition u32_from_digits :: "string \<Rightarrow> nat option" where
  "u32_from_digits ds =
     (if ds = [] \<or> 2 ^ 32 \<le> digits_value ds then None else Some (nat (digits_value ds)))"

definition suffix_of_text :: "string \<Rightarrow> char option option" where
  "suffix_of_text t =
     (if t = '''' then Some None
      else if t = ''a'' then Some (Some (CHR ''a''))
      else if t = ''f'' then Some (Some (CHR ''f''))
      else None)"

definition cuda_arch_from_str :: "string \<Rightarrow> (CudaArch, CudaArchParseError) outcome" where
  "cuda_arch_from_str target =
     (case (case strip_prefix ''sm_'' target of Some r \<Rightarrow> Some r | None \<Rightarrow> strip_prefix ''compute_'' target) of
        None \<Rightarrow> Err (bad_target target ''expected `sm_XX` or `compute_XX`'')
      | Some rest \<Rightarrow>
          (case suffix_of_text (dropWhile is_digit rest) of
             None \<Rightarrow> Err (bad_target target ''the only supported architecture suffixes are `a` and `f`'')
           | Some suf \<Rightarrow>
               (case u32_from_digits (takeWhile is_digit rest) of
                  None \<Rightarrow> Err (bad_target target ''compute capability is not a valid integer'')
                | Some cap \<Rightarrow> cuda_arch_new cap suf)))"

datatype DeviceArch = DeviceArch CudaArch

fun as_cuda_arch :: "DeviceArch \<Rightarrow> CudaArch" where
  "as_cuda_arch (DeviceArch a) = a"

definition device_arch_from_str :: "string \<Rightarrow> (DeviceArch, CudaArchParseError) outcome" where
  "device_arch_from_str v =
     (if strip_prefix ''sm_'' v = None
      then Err (bad_target v ''device architecture must use the `sm_` prefix'')
      else
      try_let (cuda_arch_from_str v) (\<lambda>arch.
      if suffix arch = Some (CHR ''f'')
      then Err (bad_target v ''a device architecture cannot name an `f` compilation family'')
      else Ok (DeviceArch arch)))"

section \<open>PTX versions per target\<close>

record TargetPtxFloor =
  entry_capability :: nat
  entry_suffix :: "char option"
  entry_floor :: nat

definition ptx_entry :: "nat \<Rightarrow> char option \<Rightarrow> nat \<Rightarrow> TargetPtxFloor" where
  "ptx_entry c s f = \<lparr>entry_capability = c, entry_suffix = s, entry_floor = f\<rparr>"

definition ARCH_INTRODUCTION_PTX :: "TargetPtxFloor list" where
  "ARCH_INTRODUCTION_PTX =
     [ptx_entry 11 None 10, ptx_entry 20 None 20, ptx_entry 30 None 30,
      ptx_entry 53 None 42, ptx_entry 60 None 50, ptx_entry 61 None 50,
      ptx_entry 70 None 60, ptx_entry 75 None 63, ptx_entry 80 None 70,
      ptx_entry 86 None 71, ptx_entry 89 None 78, ptx_entry 90 None 78,
      ptx_entry 100 None 86]"

definition RECORDED_PTX_FLOORS :: "TargetPtxFloor list" where
  "RECORDED_PTX_FLOORS =
     [ptx_entry 70 None 60, ptx_entry 72 None 61, ptx_entry 75 None 63,
      ptx_entry 80 None 70, ptx_entry 86 None 71, ptx_entry 87 None 74,
      ptx_entry 88 None 90, ptx_entry 89 None 78, ptx_entry 90 None 78,
      ptx_entry 100 None 86, ptx_entry 101 None 86, ptx_entry 103 None 88,
      ptx_entry 110 None 90, ptx_entry 120 None 87, ptx_entry 121 None 88,
      ptx_entry 90 (Some (CHR ''a'')) 80, ptx_entry 100 (Some (CHR ''a'')) 86, ptx_entry 101 (Some (CHR ''a'')) 86,
      ptx_entry 103 (Some (CHR ''a'')) 88, ptx_entry 110 (Some (CHR ''a'')) 90, ptx_entry 120 (Some (CHR ''a'')) 87,
      ptx_entry 121 (Some (CHR ''a'')) 88, ptx_entry 100 (Some (CHR ''f'')) 88, ptx_entry 101 (Some (CHR ''f'')) 88,
      ptx_entry 103 (Some (CHR ''f'')) 88, ptx_entry 110 (Some (CHR ''f'')) 90, ptx_entry 120 (Some (CHR ''f'')) 88,
      ptx_entry 121 (Some (CHR ''f'')) 88]"

datatype UnsupportedTargetError = UnsupportedTargetError string

fun show_unsupported :: "UnsupportedTargetError \<Rightarrow> string" where
  "show_unsupported (UnsupportedTargetError t) = ''CUDA target `'' @ t @ ''` has no recorded PTX ISA floor''"

definition find_floor :: "TargetPtxFloor list \<Rightarrow> CudaArch \<Rightarrow> (nat, UnsupportedTargetError) outcome" where
  "find_floor entries arch =
     (case find (\<lambda>e. entry_capability e = capability arch \<and> entry_suffix e = suffix arch) entries of
        Some e \<Rightarrow> Ok (entry_floor e)
      | None \<Rightarrow> Err (UnsupportedTargetError (sm arch)))"

definition arch_introduced_ptx :: "CudaArch \<Rightarrow> (nat, UnsupportedTargetError) outcome" where
  "arch_introduced_ptx arch = find_floor ARCH_INTRODUCTION_PTX arch"

definition recorded_ptx_floor :: "CudaArch \<Rightarrow> (nat, UnsupportedTargetError) outcome" where
  "recorded_ptx_floor arch = find_floor RECORDED_PTX_FLOORS arch"

definition is_known_nvvm_target :: "CudaArch \<Rightarrow> bool" where
  "is_known_nvvm_target arch =
     ((case recorded_ptx_floor arch of Ok _ \<Rightarrow> True | _ \<Rightarrow> False) \<or>
      capability arch = 107 \<and> (suffix arch = None \<or> suffix arch = Some (CHR ''a'') \<or> suffix arch = Some (CHR ''f'')))"

section \<open>PTX spellings\<close>

definition PTX_ISA_SPELLINGS :: "nat list" where
  "PTX_ISA_SPELLINGS = [62, 65, 70, 71, 73, 78, 80, 86, 87, 88, 90, 91]"

datatype PtxSpelling = PtxSpelling nat

fun from_spelling_loop :: "nat list \<Rightarrow> nat \<Rightarrow> PtxSpelling option" where
  "from_spelling_loop [] spelling = None"
| "from_spelling_loop (s # ss) spelling = (if s = spelling then Some (PtxSpelling spelling) else from_spelling_loop ss spelling)"

definition from_spelling :: "nat \<Rightarrow> PtxSpelling option" where
  "from_spelling spelling = from_spelling_loop PTX_ISA_SPELLINGS spelling"

definition round_up :: "nat \<Rightarrow> PtxSpelling option" where
  "round_up floor_ptx = Option.bind (find (\<lambda>s. s \<ge> floor_ptx) PTX_ISA_SPELLINGS) from_spelling"

fun spelling_get :: "PtxSpelling \<Rightarrow> nat" where
  "spelling_get (PtxSpelling s) = s"

text \<open>\<open>None\<close> is the \<open>unreachable!\<close> branch.\<close>

definition ptx_feature :: "PtxSpelling \<Rightarrow> string option" where
  "ptx_feature self =
     (let s = spelling_get self in
      if s = 62 then Some ''+ptx62'' else if s = 65 then Some ''+ptx65''
      else if s = 70 then Some ''+ptx70'' else if s = 71 then Some ''+ptx71''
      else if s = 73 then Some ''+ptx73'' else if s = 78 then Some ''+ptx78''
      else if s = 80 then Some ''+ptx80'' else if s = 86 then Some ''+ptx86''
      else if s = 87 then Some ''+ptx87'' else if s = 88 then Some ''+ptx88''
      else if s = 90 then Some ''+ptx90'' else if s = 91 then Some ''+ptx91'' else None)"

definition feature_beyond_floor :: "PtxSpelling \<Rightarrow> nat \<Rightarrow> string option option" where
  "feature_beyond_floor self recorded_floor =
     (if spelling_get self \<le> recorded_floor then Some None else map_option Some (ptx_feature self))"

definition spelling_feature :: "nat \<Rightarrow> string option option" where
  "spelling_feature spelling =
     (case from_spelling spelling of None \<Rightarrow> Some None | Some s \<Rightarrow> map_option Some (ptx_feature s))"

definition spelling_at_least :: "nat \<Rightarrow> nat option" where
  "spelling_at_least floor_ptx = map_option spelling_get (round_up floor_ptx)"

section \<open>Capability floors of device code\<close>

definition SM_FLOOR_LADDER :: "nat list" where
  "SM_FLOOR_LADDER = [70, 75, 80, 86, 90, 100, 120]"

definition DEFAULT_SM_FLOOR :: nat where
  "DEFAULT_SM_FLOOR = 80"

definition resolve_sm_floor :: "string option \<Rightarrow> CudaArch option \<Rightarrow> (nat, CudaArchParseError) outcome" where
  "resolve_sm_floor target device_arch =
     (case Option.bind (map_option trim target) (\<lambda>t. if t \<noteq> '''' then Some t else None) of
        Some t \<Rightarrow> try_let (cuda_arch_from_str t) (\<lambda>a. Ok (capability a))
      | None \<Rightarrow> Ok (case device_arch of None \<Rightarrow> DEFAULT_SM_FLOOR | Some d \<Rightarrow> min DEFAULT_SM_FLOOR (capability d)))"

definition sm_floors_at_most :: "nat \<Rightarrow> nat list" where
  "sm_floors_at_most cap = filter (\<lambda>f. f \<le> cap) SM_FLOOR_LADDER"

end
