(* ===== verification/Target_Properties.thy ===== *)
theory Target_Properties
  imports Target_Spec
begin

text \<open>
  Correctness of the target vocabulary: which texts name which architecture, the choice of a PTX
  spelling, the exact-key lookups, and the floor that device code may assume.
\<close>

section \<open>Decimal text\<close>

lemma is_digit_char_of: "d < 10 \<Longrightarrow> is_digit (char_of (48 + d))" for d :: nat
  by (simp add: is_digit_def)

lemma zero_char: "char_of (48 :: nat) = CHR ''0''"
  by code_simp

lemma digits_value_snoc: "digits_value (ds @ [c]) = 10 * digits_value ds + (of_char c - 48)"
  by (simp add: digits_value_def)

lemma digits_value_zeros: "set zs \<subseteq> {CHR ''0''} \<Longrightarrow> digits_value (zs @ ds) = digits_value ds"
proof (induction ds rule: rev_induct)
  case Nil
  then have "digits_value zs = 0" by (induction zs rule: rev_induct) (simp_all add: digits_value_snoc digits_value_def)
  then show ?case by (simp add: digits_value_def)
next
  case (snoc d ds)
  then show ?case using digits_value_snoc [of "zs @ ds" d] digits_value_snoc [of ds d] by simp
qed

lemma digit_range: "is_digit c \<Longrightarrow> (48 :: int) \<le> of_char c \<and> of_char c \<le> (57 :: int)"
  using of_nat_of_char [of c, where 'a = int, symmetric] by (simp add: is_digit_def)

lemma digits_value_nonneg: "list_all is_digit ds \<Longrightarrow> 0 \<le> digits_value ds"
proof (induction ds rule: rev_induct)
  case (snoc d ds)
  then show ?case using digit_range [of d] by (simp add: digits_value_snoc)
qed (simp add: digits_value_def)

lemma show_nat_snoc: "v \<noteq> 0 \<Longrightarrow> d < 10 \<Longrightarrow> show_nat (10 * v + d) = show_nat v @ [char_of (48 + d)]"
  by (simp add: show_nat.simps [of "10 * v + d"])

text \<open>A run of digits is leading zeros followed by the canonical text of its value.\<close>

lemma digits_canonical:
  assumes "list_all is_digit ds" and "ds \<noteq> []"
  shows "\<exists>zs. set zs \<subseteq> {CHR ''0''} \<and> ds = zs @ show_nat (nat (digits_value ds))"
  using assms
proof (induction ds rule: rev_induct)
  case (snoc d ds)
  let ?v = "nat (digits_value ds)" and ?d = "of_char d - 48 :: nat"
  have d: "?d < 10" "char_of (48 + ?d) = d" "(of_char d :: int) - 48 = int ?d"
    using snoc(2) digit_range [of d] of_nat_of_char [of d, where 'a = int, symmetric] by (auto simp: is_digit_def)
  have v: "digits_value ds = int ?v" using snoc(2) digits_value_nonneg by simp
  have "nat (digits_value (ds @ [d])) = 10 * ?v + ?d"
    unfolding digits_value_snoc d(3) using v by linarith
  then have val: "nat (digits_value (ds @ [d])) = 10 * ?v + ?d" .
  show ?case
  proof (cases "?v = 0")
    case True
    then have new: "show_nat (nat (digits_value (ds @ [d]))) = [d]" using val d by (simp add: show_nat.simps [of "?d"])
    have "set ds \<subseteq> {CHR ''0''}"
    proof (cases "ds = []")
      case False
      then obtain zs where "set zs \<subseteq> {CHR ''0''}" "ds = zs @ show_nat 0" using snoc True by auto
      then show ?thesis by (auto simp: show_nat.simps [of 0] zero_char)
    qed simp
    then show ?thesis unfolding new by auto
  next
    case False
    then have new: "show_nat (nat (digits_value (ds @ [d]))) = show_nat ?v @ [d]"
      unfolding val using show_nat_snoc [OF False d(1)] d(2) by simp
    have "ds \<noteq> []" using False by (auto simp: digits_value_def)
    then show ?thesis unfolding new using snoc by auto
  qed
qed simp

section \<open>Architectures\<close>

definition arch_ok :: "CudaArch \<Rightarrow> bool" where
  "arch_ok a \<longleftrightarrow> 10 \<le> capability a \<and> capability a < 2 ^ 32 \<and> suffix a \<in> {None, Some (CHR ''a''), Some (CHR ''f'')}"

lemma strip_prefix_Some: "strip_prefix p s = Some r \<longleftrightarrow> s = p @ r"
proof
  assume "strip_prefix p s = Some r"
  then have "take (length p) s = p" "r = drop (length p) s" by (auto simp: strip_prefix_def split: if_splits)
  then show "s = p @ r" by (metis append_take_drop_id)
qed (simp add: strip_prefix_def)

lemma strip_prefix_None: "strip_prefix p s = None \<longleftrightarrow> (\<nexists>r. s = p @ r)"
  using strip_prefix_Some [of p s] by (cases "strip_prefix p s") auto

lemma suffix_not_digit: "\<not> is_digit (CHR ''a'')" "\<not> is_digit (CHR ''f'')"
  by (simp_all add: is_digit_def)

lemma digit_run:
  assumes "list_all is_digit ds" and "t = [] \<or> \<not> is_digit (hd t)"
  shows "takeWhile is_digit (ds @ t) = ds" and "dropWhile is_digit (ds @ t) = t"
  using assms by (induction ds) (auto simp: takeWhile_eq_Nil_iff dropWhile_eq_self_iff)

lemma show_nat_is_digits: "list_all is_digit (show_nat n)" "show_nat n \<noteq> []" "digits_value (show_nat n) = int n"
  using show_nat_digits by simp_all

lemma cuda_arch_new_Ok:
  "cuda_arch_new cap suf = Ok a \<longleftrightarrow>
     10 \<le> cap \<and> suf \<in> {None, Some (CHR ''a''), Some (CHR ''f'')} \<and> a = \<lparr>capability = cap, suffix = suf\<rparr>"
  by (auto simp: cuda_arch_new_def Let_def)

lemma rest_exact:
  "(\<exists>suf cap. suffix_of_text (dropWhile is_digit r) = Some suf \<and> u32_from_digits (takeWhile is_digit r) = Some cap \<and>
      cuda_arch_new cap suf = Ok a) \<longleftrightarrow>
   arch_ok a \<and> (\<exists>zs. set zs \<subseteq> {CHR ''0''} \<and> r = zs @ render a [])" (is "?parsed \<longleftrightarrow> ?text")
proof
  assume ?parsed
  then obtain suf cap where p: "suffix_of_text (dropWhile is_digit r) = Some suf"
      "u32_from_digits (takeWhile is_digit r) = Some cap" "cuda_arch_new cap suf = Ok a" by blast
  let ?ds = "takeWhile is_digit r"
  have ds: "list_all is_digit ?ds" "?ds \<noteq> []" "digits_value ?ds < 2 ^ 32" "cap = nat (digits_value ?ds)"
    using p(2) by (auto simp: u32_from_digits_def list_all_iff dest: set_takeWhileD split: if_splits)
  then obtain zs where zs: "set zs \<subseteq> {CHR ''0''}" "?ds = zs @ show_nat cap" using digits_canonical by blast
  have suf: "dropWhile is_digit r = (case suf of None \<Rightarrow> [] | Some c \<Rightarrow> [c])"
    using p(1) by (auto simp: suffix_of_text_def split: if_splits)
  have "r = zs @ render a []"
    using takeWhile_dropWhile_id [of is_digit r] p(3) zs(2) suf
    by (auto simp: cuda_arch_new_Ok render_def render_parts_def split: option.splits)
  moreover have "arch_ok a" using p(3) ds digits_value_nonneg [OF ds(1)] by (auto simp: cuda_arch_new_Ok arch_ok_def)
  ultimately show ?text using zs(1) by blast
next
  assume ?text
  then obtain zs where ok: "arch_ok a" and zs: "set zs \<subseteq> {CHR ''0''}" "r = zs @ render a []" by blast
  let ?ds = "zs @ show_nat (capability a)" and ?t = "case suffix a of None \<Rightarrow> [] | Some c \<Rightarrow> [c]"
  have "list_all is_digit zs" using zs(1) by (auto simp: list_all_iff is_digit_def)
  then have ds: "list_all is_digit ?ds" using show_nat_is_digits by simp
  have r: "r = ?ds @ ?t" using zs(2) by (simp add: render_def render_parts_def split: option.splits)
  have "?t = [] \<or> \<not> is_digit (hd ?t)" using ok suffix_not_digit by (auto simp: arch_ok_def)
  note run = digit_run [OF ds this, folded r]
  have "suffix_of_text (dropWhile is_digit r) = Some (suffix a)"
    using ok unfolding run(2) by (auto simp: arch_ok_def suffix_of_text_def)
  moreover have "u32_from_digits (takeWhile is_digit r) = Some (capability a)"
    unfolding run(1) using ok show_nat_is_digits by (simp add: u32_from_digits_def digits_value_zeros zs(1) arch_ok_def)
  moreover have "cuda_arch_new (capability a) (suffix a) = Ok a" using ok by (simp add: cuda_arch_new_Ok arch_ok_def)
  ultimately show ?parsed by blast
qed

lemma arch_from_rest:
  "cuda_arch_from_str s = Ok a \<longleftrightarrow>
   (\<exists>pre r. pre \<in> {''sm_'', ''compute_''} \<and> s = pre @ r \<and>
      (\<exists>suf cap. suffix_of_text (dropWhile is_digit r) = Some suf \<and> u32_from_digits (takeWhile is_digit r) = Some cap \<and>
         cuda_arch_new cap suf = Ok a))"
proof -
  let ?rest = "case strip_prefix ''sm_'' s of Some r \<Rightarrow> Some r | None \<Rightarrow> strip_prefix ''compute_'' s"
  have rest: "?rest = Some r \<longleftrightarrow> (\<exists>pre. pre \<in> {''sm_'', ''compute_''} \<and> s = pre @ r)" for r
    by (auto simp: strip_prefix_Some strip_prefix_None split: option.split)
  have "cuda_arch_from_str s = Ok a \<longleftrightarrow>
    (\<exists>r. ?rest = Some r \<and> (\<exists>suf cap. suffix_of_text (dropWhile is_digit r) = Some suf \<and>
       u32_from_digits (takeWhile is_digit r) = Some cap \<and> cuda_arch_new cap suf = Ok a))"
    unfolding cuda_arch_from_str_def by (cases ?rest) (simp_all split: option.split)
  then show ?thesis unfolding rest by blast
qed

text \<open>(C31) Which texts name an architecture: \<open>CudaArch::from_str\<close> accepts a text with the value \<open>a\<close> exactly when
  \<open>a\<close> is a valid architecture (a capability of at least 10 that fits \<open>u32\<close>, no suffix or \<open>a\<close> or
  \<open>f\<close>) and the text is \<open>sm_\<close> or \<open>compute_\<close>, any number of zeros, and the rendering of \<open>a\<close>; every
  other text is an error. So each architecture is read back from both of its renderings.\<close>

theorem arch_text_exact:
  "cuda_arch_from_str s \<noteq> Panic \<and>
   (cuda_arch_from_str s = Ok a \<longleftrightarrow>
    arch_ok a \<and> (\<exists>pre zs. (pre = ''sm_'' \<or> pre = ''compute_'') \<and> set zs \<subseteq> {CHR ''0''} \<and> s = pre @ zs @ render a []))"
proof
  show "cuda_arch_from_str s \<noteq> Panic"
    by (auto simp: cuda_arch_from_str_def cuda_arch_new_def Let_def split: option.splits)
  show "cuda_arch_from_str s = Ok a \<longleftrightarrow>
    arch_ok a \<and> (\<exists>pre zs. (pre = ''sm_'' \<or> pre = ''compute_'') \<and> set zs \<subseteq> {CHR ''0''} \<and> s = pre @ zs @ render a [])"
    unfolding arch_from_rest rest_exact by blast
qed

lemma render_prefix: "render a pre = pre @ render a []"
  by (simp add: render_def render_parts_def split: option.split)

lemma arch_roundtrip:
  assumes "arch_ok a"
  shows "cuda_arch_from_str (sm a) = Ok a" and "cuda_arch_from_str (compute a) = Ok a"
  unfolding arch_from_rest rest_exact sm_def compute_def
  using assms render_prefix [of a "''sm_''"] render_prefix [of a "''compute_''"] by (metis append_Nil empty_set empty_subsetI insertCI)+

lemma device_arch_roundtrip:
  assumes "arch_ok a"
  shows "device_arch_from_str (sm a) =
      (if suffix a = Some (CHR ''f'') then Err (bad_target (sm a) ''a device architecture cannot name an `f` compilation family'')
       else Ok (DeviceArch a))"
    and "\<exists>e. device_arch_from_str (compute a) = Err e"
proof -
  obtain r where "strip_prefix ''sm_'' (sm a) = Some r" and "strip_prefix ''sm_'' (compute a) = None"
    using render_prefix [of a "''sm_''"] render_prefix [of a "''compute_''"]
    by (fastforce simp: strip_prefix_def sm_def compute_def)
  then show "device_arch_from_str (sm a) =
      (if suffix a = Some (CHR ''f'') then Err (bad_target (sm a) ''a device architecture cannot name an `f` compilation family'')
       else Ok (DeviceArch a))" "\<exists>e. device_arch_from_str (compute a) = Err e"
    using arch_roundtrip [OF assms] by (simp_all add: device_arch_from_str_def)
qed

section \<open>PTX spellings\<close>

lemma find_sorted_least:
  "sorted xs \<Longrightarrow> find (\<lambda>s. s \<ge> l) xs = Some x \<longleftrightarrow> x \<in> set xs \<and> l \<le> x \<and> (\<forall>y \<in> set xs. l \<le> y \<longrightarrow> x \<le> y)"
  for l :: "'a :: linorder"
  by (induction xs) (auto intro: antisym)

lemma from_spelling_iff: "from_spelling s = (if s \<in> set PTX_ISA_SPELLINGS then Some (PtxSpelling s) else None)"
proof -
  have "from_spelling_loop xs s = (if s \<in> set xs then Some (PtxSpelling s) else None)" for xs by (induction xs) auto
  then show ?thesis by (simp add: from_spelling_def)
qed

lemma spellings_sorted: "sorted PTX_ISA_SPELLINGS"
  by (simp add: PTX_ISA_SPELLINGS_def)

lemma spelling_features:
  "list_all (\<lambda>s. ptx_feature (PtxSpelling s) = Some (''+ptx'' @ show_nat s)) PTX_ISA_SPELLINGS"
  by code_simp

text \<open>Rounding up a PTX version: \<open>round_up\<close> returns a spelling exactly when it is the least supported one that
  is at least the floor, returns nothing exactly when every supported one is below, and the feature of
  what it returns is \<open>+ptx\<close> followed by the number, so the \<open>unreachable!\<close> branch is not reached.\<close>

theorem ptx_round_up_least:
  "(round_up fl = Some p \<longleftrightarrow>
      spelling_get p \<in> set PTX_ISA_SPELLINGS \<and> fl \<le> spelling_get p \<and>
      list_all (\<lambda>s. fl \<le> s \<longrightarrow> spelling_get p \<le> s) PTX_ISA_SPELLINGS) \<and>
   (round_up fl = None \<longleftrightarrow> list_all (\<lambda>s. s < fl) PTX_ISA_SPELLINGS) \<and>
   (round_up fl = Some p \<longrightarrow> ptx_feature p = Some (''+ptx'' @ show_nat (spelling_get p)))"
proof -
  have up: "round_up fl = map_option PtxSpelling (find (\<lambda>s. s \<ge> fl) PTX_ISA_SPELLINGS)"
  proof (cases "find (\<lambda>s. s \<ge> fl) PTX_ISA_SPELLINGS")
    case (Some s)
    then have "s \<in> set PTX_ISA_SPELLINGS" by (auto simp: find_Some_iff)
    then show ?thesis using Some by (simp add: round_up_def from_spelling_iff)
  qed (simp add: round_up_def)
  have some: "round_up fl = Some p \<longleftrightarrow> spelling_get p \<in> set PTX_ISA_SPELLINGS \<and> fl \<le> spelling_get p \<and>
      list_all (\<lambda>s. fl \<le> s \<longrightarrow> spelling_get p \<le> s) PTX_ISA_SPELLINGS"
    unfolding up using find_sorted_least [OF spellings_sorted, of fl "spelling_get p"]
    by (cases p) (auto simp: list_all_iff)
  have "round_up fl = None \<longleftrightarrow> list_all (\<lambda>s. s < fl) PTX_ISA_SPELLINGS"
    unfolding up by (auto simp: find_None_iff list_all_iff not_le)
  moreover have "ptx_feature p = Some (''+ptx'' @ show_nat (spelling_get p))" if "round_up fl = Some p"
    using that some spelling_features by (cases p) (auto simp: list_all_iff)
  ultimately show ?thesis using some by blast
qed

theorem ptx_round_up_least_witness:
  "round_up 74 = Some (PtxSpelling 78) \<and> ptx_feature (PtxSpelling 78) = Some (''+ptx'' @ show_nat 78) \<and> round_up 92 = None"
  using ptx_round_up_least [of 74 "PtxSpelling 78"] ptx_round_up_least [of 92 "PtxSpelling 78"]
  by (simp add: PTX_ISA_SPELLINGS_def)

section \<open>Recorded targets\<close>

definition key :: "TargetPtxFloor \<Rightarrow> nat \<times> char option" where
  "key e = (entry_capability e, entry_suffix e)"

lemma find_floor_exact:
  assumes "distinct (map key es)"
  shows "find_floor es a = Ok f \<longleftrightarrow> ptx_entry (capability a) (suffix a) f \<in> set es"
  using assms
proof (induction es)
  case (Cons e es)
  have "e = ptx_entry (capability a) (suffix a) f \<longleftrightarrow> key e = (capability a, suffix a) \<and> entry_floor e = f"
    by (cases e) (auto simp: key_def ptx_entry_def)
  moreover have "key (ptx_entry (capability a) (suffix a) f) = (capability a, suffix a)" by (simp add: key_def ptx_entry_def)
  ultimately show ?case using Cons
    by (auto simp: find_floor_def key_def split: option.splits) (force simp: key_def)+
qed (simp add: find_floor_def)

lemma tables_distinct: "distinct (map key RECORDED_PTX_FLOORS)" "distinct (map key ARCH_INTRODUCTION_PTX)"
  by (simp_all add: RECORDED_PTX_FLOORS_def ARCH_INTRODUCTION_PTX_def key_def ptx_entry_def)

lemma recorded_entry: "recorded_ptx_floor a = Ok f \<longleftrightarrow> ptx_entry (capability a) (suffix a) f \<in> set RECORDED_PTX_FLOORS"
  unfolding recorded_ptx_floor_def by (rule find_floor_exact [OF tables_distinct(1)])

lemma introduced_entry: "arch_introduced_ptx a = Ok f \<longleftrightarrow> ptx_entry (capability a) (suffix a) f \<in> set ARCH_INTRODUCTION_PTX"
  unfolding arch_introduced_ptx_def by (rule find_floor_exact [OF tables_distinct(2)])

lemma floors_spellable:
  "list_all (\<lambda>e. spelling_at_least (entry_floor e) \<noteq> None \<and> 10 \<le> entry_capability e \<and> entry_capability e < 2 ^ 32 \<and>
     entry_suffix e \<in> {None, Some (CHR ''a''), Some (CHR ''f'')}) RECORDED_PTX_FLOORS"
  by (simp add: RECORDED_PTX_FLOORS_def ptx_entry_def spelling_at_least_def round_up_def PTX_ISA_SPELLINGS_def
      from_spelling_def)

lemma introduced_before_recorded:
  "list_all (\<lambda>e. list_all (\<lambda>d. key e = key d \<longrightarrow> entry_floor e \<le> entry_floor d) RECORDED_PTX_FLOORS) ARCH_INTRODUCTION_PTX"
  by (simp add: RECORDED_PTX_FLOORS_def ARCH_INTRODUCTION_PTX_def ptx_entry_def key_def)

text \<open>The two version tables: a lookup returns a version exactly when the table has an entry with the same
  capability and the same suffix (no fallback to another suffix); a target with a recorded backend
  floor is a valid architecture, a known NVVM target, has a spellable feature at or above its floor,
  and was introduced no later than that floor.\<close>

theorem target_tables_exact:
  "(recorded_ptx_floor a = Ok f \<longleftrightarrow> ptx_entry (capability a) (suffix a) f \<in> set RECORDED_PTX_FLOORS) \<and>
   (arch_introduced_ptx a = Ok g \<longleftrightarrow> ptx_entry (capability a) (suffix a) g \<in> set ARCH_INTRODUCTION_PTX) \<and>
   (recorded_ptx_floor a = Ok f \<longrightarrow> arch_ok a \<and> is_known_nvvm_target a \<and> spelling_at_least f \<noteq> None) \<and>
   (recorded_ptx_floor a = Ok f \<and> arch_introduced_ptx a = Ok g \<longrightarrow> g \<le> f)"
proof -
  let ?e = "ptx_entry (capability a) (suffix a)"
  have "arch_ok a \<and> is_known_nvvm_target a \<and> spelling_at_least f \<noteq> None" if f: "recorded_ptx_floor a = Ok f"
  proof -
    have "?e f \<in> set RECORDED_PTX_FLOORS" using f recorded_entry by simp
    then have "spelling_at_least f \<noteq> None" "arch_ok a"
      using floors_spellable unfolding list_all_iff by (force simp: ptx_entry_def arch_ok_def)+
    then show ?thesis using f by (simp add: is_known_nvvm_target_def)
  qed
  moreover have "g \<le> f" if "recorded_ptx_floor a = Ok f \<and> arch_introduced_ptx a = Ok g"
  proof -
    have "?e f \<in> set RECORDED_PTX_FLOORS" "?e g \<in> set ARCH_INTRODUCTION_PTX"
      using that recorded_entry introduced_entry by auto
    then show ?thesis using introduced_before_recorded unfolding list_all_iff by (force simp: ptx_entry_def key_def)
  qed
  ultimately show ?thesis using recorded_entry introduced_entry by blast
qed

theorem target_tables_exact_witness:
  "recorded_ptx_floor \<lparr>capability = 80, suffix = None\<rparr> = Ok 70 \<and> arch_introduced_ptx \<lparr>capability = 80, suffix = None\<rparr> = Ok 70 \<and>
   arch_ok \<lparr>capability = 80, suffix = None\<rparr> \<and> spelling_at_least 70 \<noteq> None"
  using target_tables_exact [of "\<lparr>capability = 80, suffix = None\<rparr>" 70 70]
  by (simp add: RECORDED_PTX_FLOORS_def ARCH_INTRODUCTION_PTX_def)

section \<open>The floor of device code\<close>

lemma ladder_filter: "set (sm_floors_at_most c) = {r \<in> set SM_FLOOR_LADDER. r \<le> c}"
  by (auto simp: sm_floors_at_most_def)

lemma ladder_sorted: "sorted_wrt (<) (sm_floors_at_most c)"
  unfolding sm_floors_at_most_def by (rule sorted_wrt_filter) (simp add: SM_FLOOR_LADDER_def)

text \<open>The compute-capability floor: a target that is not blank decides alone, with its own capability or its
  own error; without one the floor is the default, lowered but never raised by a detected device. The
  rungs device code may test are, in ascending order, exactly those at or below the floor, so with no
  target no rung above the device or above the default is ever set.\<close>

theorem sm_floor_rule:
  "resolve_sm_floor target dev =
     (if target = None \<or> trim (the target) = '''' then Ok (case dev of None \<Rightarrow> 80 | Some d \<Rightarrow> min 80 (capability d))
      else (case cuda_arch_from_str (trim (the target)) of Ok a \<Rightarrow> Ok (capability a) | Err e \<Rightarrow> Err e | Panic \<Rightarrow> Panic)) \<and>
   sorted_wrt (<) (sm_floors_at_most c) \<and> set (sm_floors_at_most c) = {r \<in> set SM_FLOOR_LADDER. r \<le> c} \<and>
   80 \<in> set SM_FLOOR_LADDER"
  using ladder_sorted ladder_filter
  by (cases target) (auto simp: resolve_sm_floor_def DEFAULT_SM_FLOOR_def SM_FLOOR_LADDER_def split: outcome.split option.split)

end
