(* ===== verification/Tile_Model.thy ===== *)
theory Tile_Model
  imports Oxide_Text
begin

text \<open>
  The vocabulary of a tile library description (\<open>oxide-tilebc/src/model.rs\<close>): bytecode versions, element types,
  tiles, accesses, layouts, fragments, declarations, implementations and libraries. \<open>i64\<close> products
  are \<open>None\<close> where the Rust product overflows; a version number is a \<open>u8\<close>.
\<close>

section \<open>Versions\<close>

datatype BytecodeVersion = BytecodeVersion (major: nat) (minor: nat)

text \<open>The derived order: lexicographic in the field order.\<close>

instantiation BytecodeVersion :: linorder
begin

definition less_eq_BytecodeVersion :: "BytecodeVersion \<Rightarrow> BytecodeVersion \<Rightarrow> bool" where
  "less_eq_BytecodeVersion v w \<longleftrightarrow> major v < major w \<or> major v = major w \<and> minor v \<le> minor w"

definition less_BytecodeVersion :: "BytecodeVersion \<Rightarrow> BytecodeVersion \<Rightarrow> bool" where
  "less_BytecodeVersion v w \<longleftrightarrow> major v < major w \<or> major v = major w \<and> minor v < minor w"

instance
  by standard (auto simp: less_eq_BytecodeVersion_def less_BytecodeVersion_def BytecodeVersion.expand)

end

definition PREVIEW_FIRST :: BytecodeVersion where
  "PREVIEW_FIRST = BytecodeVersion 13 5"

text \<open>\<open>str::split('.')\<close>.\<close>

fun split_dots :: "string \<Rightarrow> string list" where
  "split_dots [] = [[]]"
| "split_dots (c # s) =
     (if c = CHR ''.'' then [] # split_dots s
      else (case split_dots s of [] \<Rightarrow> [[c]] | p # ps \<Rightarrow> (c # p) # ps))"

text \<open>\<open>u8::from_str\<close> and \<open>u16::from_str\<close>: an optional plus sign, at least one digit, nothing else, in range.\<close>

definition unsigned_from_str :: "nat \<Rightarrow> string \<Rightarrow> nat option" where
  "unsigned_from_str limit s =
     (let ds = (case s of c # cs \<Rightarrow> if c = CHR ''+'' then cs else s | [] \<Rightarrow> s) in
      if ds = [] \<or> \<not> list_all is_digit ds \<or> int limit \<le> digits_value ds then None
      else Some (nat (digits_value ds)))"

definition version_parse :: "string \<Rightarrow> BytecodeVersion option" where
  "version_parse text =
     (case split_dots (trim text) of
        a # b # parts \<Rightarrow>
          do { major \<leftarrow> unsigned_from_str 256 a;
               minor \<leftarrow> unsigned_from_str 256 b;
               (case parts of
                  [] \<Rightarrow> Some (BytecodeVersion major minor)
                | tag # more \<Rightarrow>
                    do { unsigned_from_str 65536 tag;
                         if more \<noteq> [] then None else Some (BytecodeVersion major minor) }) }
      | _ \<Rightarrow> None)"

definition show_version :: "BytecodeVersion \<Rightarrow> string" where
  "show_version v = show_nat (major v) @ ''.'' @ show_nat (minor v)"

section \<open>Types\<close>

datatype ScalarType = F16 | BF16 | F32 | F64 | I8 | I16 | I32 | I64

fun scalar_tag :: "ScalarType \<Rightarrow> nat" where
  "scalar_tag I8 = 1"
| "scalar_tag I16 = 2"
| "scalar_tag I32 = 3"
| "scalar_tag I64 = 4"
| "scalar_tag F16 = 5"
| "scalar_tag BF16 = 6"
| "scalar_tag F32 = 7"
| "scalar_tag F64 = 9"

fun scalar_name :: "ScalarType \<Rightarrow> string" where
  "scalar_name F16 = ''f16''"
| "scalar_name BF16 = ''bf16''"
| "scalar_name F32 = ''f32''"
| "scalar_name F64 = ''f64''"
| "scalar_name I8 = ''i8''"
| "scalar_name I16 = ''i16''"
| "scalar_name I32 = ''i32''"
| "scalar_name I64 = ''i64''"

text \<open>\<open>iter().product()\<close> of \<open>i64\<close> values.\<close>

definition extents_product :: "int list \<Rightarrow> int option" where
  "extents_product xs = i64_product_from 1 (map Some xs)"

record TileType =
  tile_shape :: "int list"
  tile_element :: ScalarType

definition tile_size :: "TileType \<Rightarrow> int option" where
  "tile_size self = extents_product (tile_shape self)"

datatype Access = In | Out | InOut

fun access_value :: "Access \<Rightarrow> nat" where
  "access_value In = 0"
| "access_value Out = 1"
| "access_value InOut = 2"

fun access_name :: "Access \<Rightarrow> string" where
  "access_name In = ''in''"
| "access_name Out = ''out''"
| "access_name InOut = ''inout''"

definition is_written :: "Access \<Rightarrow> bool" where
  "is_written a \<longleftrightarrow> a \<noteq> In"

datatype MemorySpace = Local | Smem

fun space_value :: "MemorySpace \<Rightarrow> nat" where
  "space_value Local = 0"
| "space_value Smem = 1"

fun space_name :: "MemorySpace \<Rightarrow> string" where
  "space_name Local = ''local''"
| "space_name Smem = ''smem''"

datatype Synchronization = SyncNone | Warp | Warpgroup | Cta

fun sync_value :: "Synchronization \<Rightarrow> nat" where
  "sync_value SyncNone = 0"
| "sync_value Warp = 1"
| "sync_value Warpgroup = 2"
| "sync_value Cta = 3"

fun sync_name :: "Synchronization \<Rightarrow> string" where
  "sync_name SyncNone = ''none''"
| "sync_name Warp = ''warp''"
| "sync_name Warpgroup = ''warpgroup''"
| "sync_name Cta = ''cta''"

fun participants :: "Synchronization \<Rightarrow> int" where
  "participants SyncNone = 1"
| "participants Warp = 32"
| "participants Warpgroup = 128"
| "participants Cta = 0"

section \<open>Layouts and fragments\<close>

record TileLayout =
  shapes :: "int list"
  strides :: "int list"

definition flat :: "int list \<Rightarrow> int list \<Rightarrow> TileLayout" where
  "flat sh st = \<lparr>shapes = sh, strides = st\<rparr>"

definition scalar_mem :: TileLayout where
  "scalar_mem = flat [] []"

definition contiguous_mem :: "int \<Rightarrow> TileLayout" where
  "contiguous_mem f = flat [f] [1]"

definition elementwise :: "int \<Rightarrow> TileLayout" where
  "elementwise n = flat [n, 1, 1] [1, 0, 0]"

definition warp_lanes :: "int \<Rightarrow> TileLayout option" where
  "warp_lanes n = do { q \<leftarrow> i64_div n 32; Some (flat [q, 32, 1] [32, 1, 0]) }"

definition footprint_blocks :: "int \<Rightarrow> int \<Rightarrow> TileLayout option" where
  "footprint_blocks n f = do { q \<leftarrow> i64_div n f; Some (flat [q, 1, f] [f, 0, 1]) }"

definition tile_layout_rank :: "TileLayout \<Rightarrow> nat" where
  "tile_layout_rank self = length (shapes self)"

definition tile_layout_size :: "TileLayout \<Rightarrow> int option" where
  "tile_layout_size self = extents_product (shapes self)"

record FragmentType =
  frag_shape :: "int list"
  frag_element :: ScalarType
  memory_space :: MemorySpace
  mem_layout :: TileLayout
  fragmap :: TileLayout

definition footprint :: "FragmentType \<Rightarrow> int option" where
  "footprint self = extents_product (frag_shape self)"

section \<open>Libraries\<close>

record TileArg =
  targ_name :: string
  targ_ty :: TileType
  targ_access :: Access

record FragmentArg =
  farg_name :: string
  farg_fragment :: FragmentType
  farg_access :: Access

record Declaration =
  decl_name :: string
  decl_args :: "TileArg list"

definition decl_results :: "Declaration \<Rightarrow> TileType list" where
  "decl_results self = map targ_ty (filter (\<lambda>a. is_written (targ_access a)) (decl_args self))"

record Implementation =
  imp_symbol :: string
  implements :: string
  imp_args :: "FragmentArg list"
  synchronization :: "Synchronization option"
  arch :: "string list"
  frontend_abi :: "(string \<times> string) list"

definition implementation_new :: "string \<Rightarrow> string \<Rightarrow> FragmentArg list \<Rightarrow> Implementation" where
  "implementation_new symbol imp args =
     \<lparr>imp_symbol = symbol, implements = imp, imp_args = args, synchronization = None, arch = [], frontend_abi = []\<rparr>"

record Library =
  lib_name :: string
  declarations :: "Declaration list"
  implementations :: "Implementation list"

datatype TileError = Verify string | Version BytecodeVersion

fun show_tile_error :: "TileError \<Rightarrow> string" where
  "show_tile_error (Verify s) = s"
| "show_tile_error (Version v) =
     ''bytecode version '' @ show_version v @ '' is older than 13.5, the first with public-preview content''"

end
