(* ===== verification/Tile_Encoding.thy ===== *)
theory Tile_Encoding
  imports Oxide_Prelude
begin

text \<open>
  The byte-level primitives of Tile IR bytecode (\<open>oxide-tilebc/src/encoding.rs\<close>): varints, zigzag varints,
  little-endian words, alignment padding, section framing and offset tables. A \<open>Writer\<close> is its
  buffer. \<open>u64\<close> and \<open>usize\<close> values are natural numbers below \<open>2 ^ 64\<close>, \<open>i64\<close> values integers in
  range; conversions to bytes write out the reduction modulo the width.

  The reader at the end is the one the crate checks itself with (\<open>read_varint\<close> in \<open>lib.rs\<close>).
\<close>

type_synonym Writer = "byte list"

definition MAGIC :: "byte list" where
  "MAGIC = [0x7F, 0x54, 0x69, 0x6C, 0x65, 0x49, 0x52, 0x00]"

definition ALIGNMENT_BYTE :: byte where
  "ALIGNMENT_BYTE = 0xCB"

definition CONTAINS_PREVIEW :: nat where
  "CONTAINS_PREVIEW = 1"

datatype Section = EndOfBytecode | StringSection | FuncSection | DebugSection | TypeSection

fun section_id :: "Section \<Rightarrow> byte" where
  "section_id EndOfBytecode = 0x00"
| "section_id StringSection = 0x01"
| "section_id FuncSection = 0x02"
| "section_id DebugSection = 0x03"
| "section_id TypeSection = 0x05"

definition push_byte :: "byte \<Rightarrow> Writer \<Rightarrow> Writer" where
  "push_byte v w = w @ [v]"

definition write_raw :: "byte list \<Rightarrow> Writer \<Rightarrow> Writer" where
  "write_raw data w = w @ data"

function varint :: "nat \<Rightarrow> Writer \<Rightarrow> Writer" where
  "varint v w =
     (let b = word_of_nat (v AND 0x7F) :: byte;
          rest = drop_bit 7 v;
          b = (if rest \<noteq> 0 then b OR 0x80 else b);
          w = w @ [b] in
      if rest = 0 then w else varint rest w)"
  by pat_completeness auto
termination
  by (relation "measure fst") (auto simp: drop_bit_eq_div)

declare varint.simps [simp del]

definition zigzag :: "int \<Rightarrow> nat" where
  "zigzag v = (let w = word_of_int v :: 64 word in unat (push_bit 1 w XOR signed_drop_bit 63 w))"

definition signed_varint :: "int \<Rightarrow> Writer \<Rightarrow> Writer" where
  "signed_varint v w = varint (zigzag v) w"

definition le_u32 :: "nat \<Rightarrow> Writer \<Rightarrow> Writer" where
  "le_u32 v w = w @ le_bytes 4 v"

definition le_u64 :: "nat \<Rightarrow> Writer \<Rightarrow> Writer" where
  "le_u64 v w = w @ le_bytes 8 v"

definition i64_bytes :: "int \<Rightarrow> byte list" where
  "i64_bytes v = le_bytes 8 (nat (v mod 2 ^ 64))"

definition le_var_size_i64 :: "int list \<Rightarrow> Writer \<Rightarrow> Writer" where
  "le_var_size_i64 vs w = fold (\<lambda>v w. w @ i64_bytes v) vs (varint (length vs) w)"

text \<open>The padding loop: push until the length is a multiple of the alignment.\<close>

definition to_pad :: "nat \<Rightarrow> nat \<Rightarrow> nat" where
  "to_pad a n = (if n mod a = 0 then 0 else a - n mod a)"

function pad_loop :: "nat \<Rightarrow> Writer \<Rightarrow> Writer" where
  "pad_loop a w = (if a = 0 \<or> length w mod a = 0 then w else pad_loop a (w @ [ALIGNMENT_BYTE]))"
  by pat_completeness auto
termination
proof (relation "measure (\<lambda>(a, w). to_pad a (length w))")
  fix a :: nat and w :: Writer
  assume "\<not> (a = 0 \<or> length w mod a = 0)"
  then have "to_pad a (Suc (length w)) < to_pad a (length w)"
    by (auto simp: to_pad_def mod_Suc intro!: diff_less_mono2)
  then show "((a, w @ [ALIGNMENT_BYTE]), a, w) \<in> measure (\<lambda>(a, w). to_pad a (length w))" by simp
qed simp

declare pad_loop.simps [simp del]

definition align_to :: "nat \<Rightarrow> Writer \<Rightarrow> Writer" where
  "align_to a w = (if a < 2 then w else pad_loop a w)"

definition patch_u32 :: "nat \<Rightarrow> nat \<Rightarrow> Writer \<Rightarrow> Writer option" where
  "patch_u32 off v w = (if off + 4 \<le> length w then Some (splice w off (le_bytes 4 v)) else None)"

definition write_section :: "Section \<Rightarrow> byte list \<Rightarrow> nat \<Rightarrow> byte list \<Rightarrow> byte list" where
  "write_section sec payload_bytes alignment out =
     (let id = (if alignment > 1 then section_id sec OR 0x80 else section_id sec);
          header = push_byte id [];
          header = varint (length payload_bytes) header;
          header = (if alignment > 1 then varint alignment header else header);
          out = out @ header;
          out = (if alignment > 1 then pad_loop alignment out else out) in
      out @ payload_bytes)"

definition begin_offset_table :: "nat \<Rightarrow> Writer \<Rightarrow> nat \<times> Writer" where
  "begin_offset_table count w =
     (let w = align_to 4 (varint count w) in
      (length w, fold (\<lambda>_ w. le_u32 0 w) [0..<count] w))"

section \<open>Reading varints\<close>

text \<open>\<open>value |= u64::from(byte & 0x7F) << shift\<close>. \<open>None\<close> is the panic: no byte left, or a shift of 64 or more.\<close>

fun read_varint :: "nat \<Rightarrow> nat \<Rightarrow> byte list \<Rightarrow> (nat \<times> byte list) option" where
  "read_varint v sh [] = None"
| "read_varint v sh (b # bs) =
     (if sh \<ge> 64 then None
      else let v = v OR take_bit 64 (push_bit sh (unat (b AND 0x7F))) in
           if b AND 0x80 = 0 then Some (v, bs) else read_varint v (sh + 7) bs)"

end
