(* ===== verification/Tile_Writer.thy ===== *)
theory Tile_Writer
  imports Tile_Model Tile_Encoding
begin

text \<open>
  The bytecode writer (\<open>oxide-tilebc/src/writer.rs\<close>): the interning tables, the type and function entries, the
  four sections and the two modules of a library. A function that takes \<open>&mut Writer\<close> and
  \<open>&mut Tables\<close> passes both on. \<open>None\<close> is a panic: a patch out of range, the debug assertion that the type
  table does not grow, an overflow of the running string offset.
\<close>

definition TAG_TILE :: nat where "TAG_TILE = 13"
definition TAG_FUNC :: nat where "TAG_FUNC = 16"
definition TAG_FRAGMENT :: nat where "TAG_FRAGMENT = 0xD2"
definition ATTR_STRING :: nat where "ATTR_STRING = 5"
definition ATTR_ARRAY :: nat where "ATTR_ARRAY = 6"
definition ATTR_DICTIONARY :: nat where "ATTR_DICTIONARY = 10"
definition ATTR_SYMBOLIC_INT :: nat where "ATTR_SYMBOLIC_INT = 0xD1"
definition ATTR_SYMBOLIC_TUPLE :: nat where "ATTR_SYMBOLIC_TUPLE = 0xD8"
definition ATTR_LAYOUT :: nat where "ATTR_LAYOUT = 0xD9"
definition ATTR_ACCESS :: nat where "ATTR_ACCESS = 0xDF"

definition ACCESS_ATTR :: string where
  "ACCESS_ATTR = ''cuda_tile.preview$access''"

definition FLAG_PRIVATE :: byte where "FLAG_PRIVATE = 0x01"
definition FORM_EXTERN_IMPL :: byte where "FORM_EXTERN_IMPL = 0x04"
definition IMPL_ARG_ATTRS :: nat where "IMPL_ARG_ATTRS = push_bit 2 1"
definition IMPL_ARCH :: nat where "IMPL_ARCH = push_bit 6 1"
definition IMPL_FRONTEND_ABI :: nat where "IMPL_FRONTEND_ABI = push_bit 7 1"
definition IMPL_SYNCHRONIZATION :: nat where "IMPL_SYNCHRONIZATION = push_bit 8 1"

section \<open>Interning\<close>

datatype Type = Scalar ScalarType | Tile TileType | Fragment FragmentType | Func "Type list" "Type list"

record Tables =
  version :: BytecodeVersion
  strings :: "string list"
  string_index :: "string \<rightharpoonup> nat"
  types :: "Type list"
  type_index :: "Type \<rightharpoonup> nat"

definition tables_new :: "BytecodeVersion \<Rightarrow> Tables" where
  "tables_new v = \<lparr>version = v, strings = [], string_index = Map.empty, types = [], type_index = Map.empty\<rparr>"

definition intern_string :: "string \<Rightarrow> Tables \<Rightarrow> nat \<times> Tables" where
  "intern_string text self =
     (case string_index self text of
        Some index \<Rightarrow> (index, self)
      | None \<Rightarrow>
          let index = length (strings self) in
          (index, self\<lparr>strings := strings self @ [text], string_index := (string_index self)(text \<mapsto> index)\<rparr>))"

definition push_type :: "Type \<Rightarrow> Tables \<Rightarrow> nat \<times> Tables" where
  "push_type ty self =
     (let index = length (types self) in
      (index, self\<lparr>types := types self @ [ty], type_index := (type_index self)(ty \<mapsto> index)\<rparr>))"

primrec type_weight :: "Type \<Rightarrow> nat" where
  "type_weight (Scalar _) = 1"
| "type_weight (Tile _) = 2"
| "type_weight (Fragment _) = 2"
| "type_weight (Func inputs results) =
     3 + sum_list (map (\<lambda>w. w + 1) (map type_weight inputs)) + sum_list (map (\<lambda>w. w + 1) (map type_weight results))"

text \<open>Register a type, its dependencies first.\<close>

function (sequential) intern_type :: "Type \<Rightarrow> Tables \<Rightarrow> nat \<times> Tables"
  and intern_types :: "Type list \<Rightarrow> Tables \<Rightarrow> Tables" where
  "intern_type ty self =
     (case type_index self ty of
        Some index \<Rightarrow> (index, self)
      | None \<Rightarrow>
          push_type ty
            (case ty of
               Scalar _ \<Rightarrow> self
             | Tile tile \<Rightarrow> snd (intern_type (Scalar (tile_element tile)) self)
             | Fragment fragment \<Rightarrow> snd (intern_type (Scalar (frag_element fragment)) self)
             | Func inputs results \<Rightarrow> intern_types results (intern_types inputs self)))"
| "intern_types [] self = self"
| "intern_types (ty # tys) self = intern_types tys (snd (intern_type ty self))"
  by pat_completeness auto
termination
  by (relation "measure (case_sum (\<lambda>(ty, _). type_weight ty) (\<lambda>(tys, _). sum_list (map (\<lambda>w. w + 1) (map type_weight tys))))")
    auto

declare intern_type.simps [simp del]

section \<open>Entries\<close>

definition write_int_tuple :: "int list \<Rightarrow> Writer \<Rightarrow> Writer" where
  "write_int_tuple vs w = fold (\<lambda>v w. signed_varint v (varint ATTR_SYMBOLIC_INT w)) vs (varint (length vs) w)"

definition write_layout :: "TileLayout \<Rightarrow> Writer \<Rightarrow> Writer" where
  "write_layout l w = write_int_tuple (strides l) (write_int_tuple (shapes l) (varint ATTR_LAYOUT w))"

definition write_access_dictionary :: "Access \<Rightarrow> Writer \<times> Tables \<Rightarrow> Writer \<times> Tables" where
  "write_access_dictionary a = (\<lambda>(w, tables).
     let w = varint ATTR_DICTIONARY w;
         w = varint 1 w;
         (index, tables) = intern_string ACCESS_ATTR tables;
         w = varint index w;
         w = varint ATTR_ACCESS w;
         w = varint (access_value a) w in
     (w, tables))"

definition write_arg_attrs :: "Access list \<Rightarrow> bool \<Rightarrow> Writer \<times> Tables \<Rightarrow> Writer \<times> Tables" where
  "write_arg_attrs accesses tagged = (\<lambda>(w, tables).
     let w = (if tagged then varint ATTR_ARRAY w else w);
         w = varint (length accesses) w in
     fold write_access_dictionary accesses (w, tables))"

definition write_type_ref :: "Type \<Rightarrow> Writer \<times> Tables \<Rightarrow> Writer \<times> Tables" where
  "write_type_ref ty = (\<lambda>(w, tables). let (index, tables) = intern_type ty tables in (varint index w, tables))"

definition write_string_ref :: "string \<Rightarrow> Writer \<times> Tables \<Rightarrow> Writer \<times> Tables" where
  "write_string_ref text = (\<lambda>(w, tables). let (index, tables) = intern_string text tables in (varint index w, tables))"

fun write_type :: "Type \<Rightarrow> Writer \<times> Tables \<Rightarrow> Writer \<times> Tables" where
  "write_type (Scalar scalar) (w, tables) = (varint (scalar_tag scalar) w, tables)"
| "write_type (Tile tile) (w, tables) =
     (let (w, tables) = write_type_ref (Scalar (tile_element tile)) (varint TAG_TILE w, tables) in
      (le_var_size_i64 (tile_shape tile) w, tables))"
| "write_type (Func inputs results) (w, tables) =
     (let w = varint (length inputs) (varint TAG_FUNC w);
          (w, tables) = fold write_type_ref inputs (w, tables);
          w = varint (length results) w in
      fold write_type_ref results (w, tables))"
| "write_type (Fragment fragment) (w, tables) =
     (let w = varint ATTR_SYMBOLIC_TUPLE (varint TAG_FRAGMENT w);
          w = (if version tables < BytecodeVersion 13 6
               then fold (\<lambda>d w. signed_varint d (varint ATTR_SYMBOLIC_INT w)) (frag_shape fragment)
                      (varint (length (frag_shape fragment)) w)
               else varint 0 w);
          w = le_var_size_i64 (frag_shape fragment) w;
          (w, tables) = write_type_ref (Scalar (frag_element fragment)) (w, tables);
          w = varint (space_value (memory_space fragment)) w;
          w = write_layout (mem_layout fragment) w;
          w = write_layout (fragmap fragment) w;
          w = signed_varint 1 (varint ATTR_SYMBOLIC_INT w) in
      (w, tables))"

definition declaration_signature :: "Declaration \<Rightarrow> Type" where
  "declaration_signature decl = Func (map (\<lambda>a. Tile (targ_ty a)) (decl_args decl)) (map Tile (decl_results decl))"

definition implementation_signature :: "Implementation \<Rightarrow> Type" where
  "implementation_signature imp = Func (map (\<lambda>a. Fragment (farg_fragment a)) (imp_args imp)) []"

definition write_declaration :: "Declaration \<Rightarrow> nat \<Rightarrow> Writer \<times> Tables \<Rightarrow> Writer \<times> Tables" where
  "write_declaration decl debug s =
     (let s = write_string_ref (decl_name decl) s;
          (w, tables) = write_type_ref (declaration_signature decl) s;
          w = varint debug (push_byte FLAG_PRIVATE w);
          (w, tables) = write_arg_attrs (map targ_access (decl_args decl)) True (w, tables);
          w = varint 0 (varint ATTR_ARRAY (varint 0 w)) in
      (w, tables))"

definition implementation_flags :: "Implementation \<Rightarrow> nat" where
  "implementation_flags imp =
     (let flags = IMPL_ARG_ATTRS;
          flags = (if arch imp \<noteq> [] then flags OR IMPL_ARCH else flags);
          flags = (if frontend_abi imp \<noteq> [] then flags OR IMPL_FRONTEND_ABI else flags) in
      if synchronization imp \<noteq> None then flags OR IMPL_SYNCHRONIZATION else flags)"

definition write_arch :: "string list \<Rightarrow> Writer \<times> Tables \<Rightarrow> Writer \<times> Tables" where
  "write_arch names = (\<lambda>(w, tables).
     if names = [] then (w, tables)
     else fold (\<lambda>name (w, tables). write_string_ref name (varint ATTR_STRING w, tables)) names
            (varint (length names) w, tables))"

definition write_frontend_abi :: "(string \<times> string) list \<Rightarrow> Writer \<times> Tables \<Rightarrow> Writer \<times> Tables" where
  "write_frontend_abi entries = (\<lambda>(w, tables).
     if entries = [] then (w, tables)
     else fold (\<lambda>(k, v) s. let (w, tables) = write_string_ref k s in write_string_ref v (varint ATTR_STRING w, tables)) entries
            (varint (length entries) w, tables))"

definition write_implementation :: "Implementation \<Rightarrow> nat \<Rightarrow> Writer \<times> Tables \<Rightarrow> Writer \<times> Tables" where
  "write_implementation imp debug s =
     (let s = write_string_ref (imp_symbol imp) s;
          (w, tables) = write_type_ref (implementation_signature imp) s;
          w = varint debug (push_byte (FLAG_PRIVATE OR FORM_EXTERN_IMPL) w);
          w = varint (implementation_flags imp) w;
          s = write_string_ref (imp_symbol imp) (w, tables);
          s = write_string_ref (implements imp) s;
          s = write_type_ref (implementation_signature imp) s;
          s = write_arg_attrs (map farg_access (imp_args imp)) False s;
          s = write_arch (arch imp) s;
          (w, tables) = write_frontend_abi (frontend_abi imp) s;
          w = (case synchronization imp of Some sync \<Rightarrow> varint (sync_value sync) w | None \<Rightarrow> w);
          w = varint 0 (varint 0 (varint 1 w)) in
      (w, tables))"

section \<open>Sections and modules\<close>

definition debug_section :: "nat \<Rightarrow> byte list" where
  "debug_section functions =
     (let w = align_to 4 (varint functions []);
          w = fold (\<lambda>index w. le_u32 index w) [0..<functions] w;
          w = align_to 8 (varint functions w);
          w = fold (\<lambda>_ w. le_u64 0 w) [0..<functions] w;
          w = align_to 4 (varint 1 w) in
      push_byte 0 (le_u32 0 w))"

fun type_entries :: "nat \<Rightarrow> nat \<Rightarrow> nat \<Rightarrow> Type list \<Rightarrow> Writer \<times> Tables \<Rightarrow> (Writer \<times> Tables) option" where
  "type_entries offsets start index [] s = Some s"
| "type_entries offsets start index (ty # tys) (w, tables) =
     do { w \<leftarrow> patch_u32 (offsets + 4 * index) (length w - start) w;
          type_entries offsets start (index + 1) tys (write_type ty (w, tables)) }"

definition type_section :: "Tables \<Rightarrow> (byte list \<times> Tables) option" where
  "type_section tables =
     (let count = length (types tables);
          (offsets, w) = begin_offset_table count [];
          start = length w in
      do { (w, tables) \<leftarrow> type_entries offsets start 0 (types tables) (w, tables);
           if length (types tables) = count then Some (w, tables) else None })"

fun string_entries :: "nat \<Rightarrow> nat \<Rightarrow> nat \<Rightarrow> string list \<Rightarrow> Writer \<Rightarrow> Writer option" where
  "string_entries offsets index running [] w = Some w"
| "string_entries offsets index running (text # texts) w =
     do { w \<leftarrow> patch_u32 (offsets + 4 * index) running w;
          let w = write_raw (as_bytes text) w;
              running = running + length text mod 2 ^ 32 in
          if running < 2 ^ 32 then string_entries offsets (index + 1) running texts w else None }"

definition string_section :: "Tables \<Rightarrow> byte list option" where
  "string_section tables =
     (let (offsets, w) = begin_offset_table (length (strings tables)) [] in
      string_entries offsets 0 0 (strings tables) w)"

definition write_module ::
  "BytecodeVersion \<Rightarrow> nat \<Rightarrow> (Writer \<times> Tables \<Rightarrow> Writer \<times> Tables) \<Rightarrow> (byte list, TileError) outcome" where
  "write_module ver entries write_entries =
     (if ver < PREVIEW_FIRST then Err (Version ver)
      else
      let (functions, tables) = write_entries (varint entries [], tables_new ver);
          functions = align_to 8 functions;
          out = MAGIC @ [word_of_nat (major ver), word_of_nat (minor ver)] @ le_bytes 2 CONTAINS_PREVIEW;
          out = write_section FuncSection functions 8 out;
          out = write_section DebugSection (debug_section entries) 8 out in
      try_let (or_panic (type_section tables)) (\<lambda>(ts, tables).
      let out = write_section TypeSection ts 4 out in
      try_let (or_panic (string_section tables)) (\<lambda>ss.
      let out = write_section StringSection ss 4 out in
      Ok (out @ [section_id EndOfBytecode]))))"

fun write_all :: "('a \<Rightarrow> nat \<Rightarrow> Writer \<times> Tables \<Rightarrow> Writer \<times> Tables) \<Rightarrow> nat \<Rightarrow> 'a list \<Rightarrow> Writer \<times> Tables \<Rightarrow> Writer \<times> Tables" where
  "write_all f index [] s = s"
| "write_all f index (x # xs) s = write_all f (index + 1) xs (f x (index + 1) s)"

definition interface_bytecode :: "Library \<Rightarrow> BytecodeVersion \<Rightarrow> (byte list, TileError) outcome" where
  "interface_bytecode self ver =
     write_module ver (length (declarations self)) (write_all write_declaration 0 (declarations self))"

definition implementation_bytecode :: "Library \<Rightarrow> BytecodeVersion \<Rightarrow> (byte list, TileError) outcome" where
  "implementation_bytecode self ver =
     write_module ver (length (implementations self)) (write_all write_implementation 0 (implementations self))"

end
