(* ===== verification/Tile_Encoding_Facts.thy ===== *)
theory Tile_Encoding_Facts
  imports Tile_Encoding
begin

text \<open>
  Facts about the primitives: a varint and a zigzag varint are read back, whatever follows them; the
  padding reaches the next multiple of the alignment; a section is framed by its header.
\<close>

section \<open>Varints\<close>

lemma and_7F: "n AND 0x7F = n mod 128" for n :: nat
  using take_bit_eq_mask [of 7 n] by (simp add: take_bit_eq_mod mask_eq_exp_minus_1)

lemma byte_7F: "b AND 0x7F = take_bit 7 b" for b :: byte
  using take_bit_eq_mask [of 7 b] by (simp add: mask_eq_exp_minus_1)

lemma byte_80: "b AND 0x80 = 0 \<longleftrightarrow> \<not> bit b 7" for b :: byte
proof -
  have "0x80 = (push_bit 7 1 :: byte)" by simp
  then show ?thesis using bit_iff_and_push_bit_not_eq_0 [of b 7] by metis
qed

lemma last_byte: "n < 128 \<Longrightarrow> unat ((word_of_nat n :: byte) AND 0x7F) = n \<and> (word_of_nat n :: byte) AND 0x80 = 0"
  unfolding byte_7F byte_80
  by (simp add: bit_simps take_bit_nat_def unsigned_take_bit_eq unat_of_nat) (simp add: bit_iff_odd)

lemma more_byte:
  "n < 128 \<Longrightarrow> unat ((word_of_nat n OR 0x80 :: byte) AND 0x7F) = n \<and> (word_of_nat n OR 0x80 :: byte) AND 0x80 \<noteq> 0"
  unfolding byte_7F byte_80 by (simp add: bit_simps take_bit_nat_def unsigned_take_bit_eq unat_of_nat)

lemma or_shift: "acc < 2 ^ sh \<Longrightarrow> acc OR push_bit sh n = acc + 2 ^ sh * n" for acc n :: nat
proof -
  assume "acc < 2 ^ sh"
  then have "take_bit sh acc = acc" by (simp add: take_bit_nat_eq_self)
  then have "\<not> (bit acc i \<and> bit (push_bit sh n) i)" for i
    by (metis bit_push_bit_iff bit_take_bit_iff linorder_not_less)
  then have "acc AND push_bit sh n = 0"
    by (intro bit_eqI) (auto simp: bit_and_iff)
  from disjunctive_add_eq_or [OF this] show ?thesis by (simp add: push_bit_eq_mult mult.commute)
qed

text \<open>The bytes of a varint.\<close>

definition leb :: "nat \<Rightarrow> byte list" where
  "leb v = varint v []"

lemma varint_app: "varint v w = w @ leb v"
proof (induction v arbitrary: w rule: less_induct)
  case (less v)
  have step: "drop_bit 7 v \<noteq> 0 \<Longrightarrow> drop_bit 7 v < v" by (auto simp: drop_bit_eq_div)
  show ?case
    unfolding leb_def
    by (subst (1 2) varint.simps) (auto simp: Let_def less [OF step])
qed

lemma leb_step:
  "leb v = (if v < 128 then [word_of_nat v] else (word_of_nat (v mod 128) OR 0x80) # leb (v div 128))"
proof -
  have "drop_bit 7 v = v div 128" by (simp add: drop_bit_eq_div)
  then show ?thesis
    unfolding leb_def
    by (subst varint.simps) (simp add: Let_def and_7F varint_app leb_def [symmetric] div_eq_0_iff)
qed

lemma leb_nonempty [simp]: "leb v \<noteq> []"
  by (subst leb_step) simp

lemma read_leb:
  assumes "acc < 2 ^ sh" and "sh < 64" and "2 ^ sh * v < 2 ^ 64"
  shows "read_varint acc sh (leb v @ rest) = Some (acc + 2 ^ sh * v, rest)"
  using assms
proof (induction v arbitrary: acc sh rule: less_induct)
  case (less v)
  have fit: "take_bit 64 (push_bit sh n) = push_bit sh n" if "n \<le> v" for n
  proof -
    have "2 ^ sh * n < 2 ^ 64" using that less(4) by (meson mult_le_mono2 order_le_less_trans)
    then show ?thesis unfolding push_bit_eq_mult by (intro take_bit_nat_eq_self) (simp only: mult.commute)
  qed
  show ?case
  proof (cases "v < 128")
    case True
    then show ?thesis
      using less(2,3) last_byte [of v] by (subst leb_step) (simp add: fit or_shift Let_def)
  next
    case False
    let ?m = "v mod 128" and ?d = "v div 128" and ?acc = "acc + 2 ^ sh * (v mod 128)"
    have v: "v = 128 * ?d + ?m" by simp
    have d: "0 < ?d" "?d < v" using False by auto
    have pow: "(2 :: nat) ^ (sh + 7) = 128 * 2 ^ sh" by (simp add: power_add)
    have le: "2 ^ (sh + 7) * ?d \<le> 2 ^ sh * v" unfolding pow by (metis div_times_less_eq_dividend mult.assoc mult.commute mult_le_mono2)
    have bound: "2 ^ (sh + 7) * ?d < 2 ^ 64" using le less(4) by linarith
    moreover have "(2 :: nat) ^ (sh + 7) * 1 \<le> 2 ^ (sh + 7) * ?d" using d(1) by (intro mult_le_mono2) simp
    ultimately have "(2 :: nat) ^ (sh + 7) < 2 ^ 64" by linarith
    then have sh: "sh + 7 < 64" by (rule power_less_imp_less_exp [rotated]) simp
    have acc: "?acc < 2 ^ (sh + 7)"
    proof -
      have "?m < 128" by simp
      then have "2 ^ sh * ?m + 2 ^ sh \<le> 2 ^ sh * 128" using mult_le_mono2 [of "?m + 1" 128 "2 ^ sh"] by simp
      then show ?thesis using less(2) pow by linarith
    qed
    have "read_varint ?acc (sh + 7) (leb ?d @ rest) = Some (?acc + 2 ^ (sh + 7) * ?d, rest)"
      by (rule less(1) [OF d(2) acc sh bound])
    moreover have "?acc + 2 ^ (sh + 7) * ?d = acc + 2 ^ sh * v"
    proof -
      have "(acc + 2 ^ sh * m) + 128 * 2 ^ sh * d = acc + 2 ^ sh * (128 * d + m)" for d m :: nat
        by (simp add: algebra_simps)
      from this [of ?m ?d] show ?thesis unfolding pow by simp
    qed
    ultimately show ?thesis
      using less(2,3) False more_byte [of ?m] by (subst leb_step) (simp add: fit or_shift Let_def)
  qed
qed

lemma read_varint_leb: "v < 2 ^ 64 \<Longrightarrow> read_varint 0 0 (leb v @ rest) = Some (v, rest)"
  using read_leb [of 0 0 v rest] by simp

lemma leb_length: "v < 2 ^ (7 * Suc n) \<Longrightarrow> length (leb v) \<le> Suc n"
proof (induction n arbitrary: v)
  case (Suc n)
  show ?case
  proof (cases "v < 128")
    case False
    have "v div 128 < 2 ^ (7 * Suc n)" using Suc(2) by (intro less_mult_imp_div_less) (simp add: power_add mult.commute)
    then show ?thesis using Suc(1) False by (subst leb_step) simp
  qed (subst leb_step, simp)
qed (subst leb_step, simp)

section \<open>Zigzag\<close>

lemma zigzag_value:
  assumes "in_i64 v"
  shows "int (zigzag v) = (if 0 \<le> v then 2 * v else - 2 * v - 1)"
proof -
  let ?w = "word_of_int v :: 64 word"
  have sint: "sint ?w = v" using assms by (simp add: sint_sbintrunc' in_i64_def signed_take_bit_int_eq_self)
  have "sint (signed_drop_bit 63 ?w) = (if 0 \<le> v then 0 else - 1)"
    using assms zdiv_eq_0_iff [of v "2 ^ 63"] int_div_pos_eq [of v "2 ^ 63" "- 1" "v + 2 ^ 63"]
    by (auto simp: sint_signed_drop_bit_eq sint drop_bit_eq_div in_i64_def)
  then have sign: "signed_drop_bit 63 ?w = (if 0 \<le> v then 0 else - 1)"
    by (intro signed_word_eqI [where 'a = int]) simp
  have push: "push_bit 1 ?w = word_of_int (2 * v)" by (simp add: push_bit_eq_mult mult.commute)
  have fits: "uint (word_of_int x :: 64 word) = x" if "0 \<le> x" "x < 2 ^ 64" for x
    using that by (simp add: uint_word_of_int)
  show ?thesis
  proof (cases "0 \<le> v")
    case True
    then have "int (zigzag v) = uint (word_of_int (2 * v) :: 64 word)"
      unfolding zigzag_def Let_def sign push by simp
    also have "\<dots> = 2 * v" using True assms by (intro fits) (simp_all add: in_i64_def)
    finally show ?thesis using True by simp
  next
    case False
    then have "int (zigzag v) = uint (NOT (word_of_int (2 * v)) :: 64 word)"
      unfolding zigzag_def Let_def sign push by simp
    also have "\<dots> = uint (word_of_int (- 2 * v - 1) :: 64 word)" by (simp add: not_eq_complement)
    also have "\<dots> = - 2 * v - 1" using False assms by (intro fits) (simp_all add: in_i64_def)
    finally show ?thesis using False by simp
  qed
qed

definition unzigzag :: "nat \<Rightarrow> int" where
  "unzigzag z = (if even z then int (z div 2) else - int (z div 2) - 1)"

lemma unzigzag_zigzag: "in_i64 v \<Longrightarrow> unzigzag (zigzag v) = v"
proof -
  assume "in_i64 v"
  note z = zigzag_value [OF this]
  show ?thesis
  proof (cases "0 \<le> v")
    case True
    then have "zigzag v = 2 * nat v" using z by simp
    then show ?thesis using True by (simp add: unzigzag_def)
  next
    case False
    then have "zigzag v = 2 * nat (- v - 1) + 1" using z by simp
    then show ?thesis using False by (simp add: unzigzag_def)
  qed
qed

lemma zigzag_range: "zigzag v < 2 ^ 64"
  using unsigned_less [of "push_bit 1 (word_of_int v) XOR signed_drop_bit 63 (word_of_int v) :: 64 word"]
  by (simp add: zigzag_def Let_def)

section \<open>Padding\<close>

lemma pad_loop_eq: "0 < a \<Longrightarrow> pad_loop a w = w @ replicate (to_pad a (length w)) ALIGNMENT_BYTE"
proof (induction a w rule: pad_loop.induct)
  case (1 a w)
  show ?case
  proof (cases "length w mod a = 0")
    case False
    have pad: "to_pad a (length w) = Suc (to_pad a (Suc (length w)))"
      using False 1(2) mod_less_divisor [OF 1(2), of "length w"] by (simp add: to_pad_def mod_Suc) linarith
    have "pad_loop a (w @ [ALIGNMENT_BYTE]) =
        (w @ [ALIGNMENT_BYTE]) @ replicate (to_pad a (length (w @ [ALIGNMENT_BYTE]))) ALIGNMENT_BYTE"
      by (rule 1(1)) (use False 1(2) in simp_all)
    then show ?thesis using False 1(2) by (subst pad_loop.simps) (simp add: pad)
  qed (subst pad_loop.simps, simp add: to_pad_def)
qed

lemma to_pad_multiple: "0 < a \<Longrightarrow> (n + to_pad a n) mod a = 0"
proof -
  assume a: "0 < a"
  have "(n mod a + (a - n mod a)) mod a = 0" using mod_less_divisor [OF a, of n] by simp
  then show ?thesis by (simp add: to_pad_def mod_add_left_eq)
qed

lemma to_pad_less: "0 < a \<Longrightarrow> to_pad a n < a"
  by (simp add: to_pad_def)

section \<open>Sections\<close>

text \<open>The bytes a section adds after \<open>n\<close> bytes of output.\<close>

definition section_bytes :: "Section \<Rightarrow> byte list \<Rightarrow> nat \<Rightarrow> nat \<Rightarrow> byte list" where
  "section_bytes sec p a n =
     (let header = (section_id sec OR 0x80) # leb (length p) @ leb a in
      header @ replicate (to_pad a (n + length header)) ALIGNMENT_BYTE @ p)"

lemma write_section_eq:
  "1 < a \<Longrightarrow> write_section sec p a out = out @ section_bytes sec p a (length out)"
  by (simp add: write_section_def section_bytes_def Let_def push_byte_def varint_app pad_loop_eq add.assoc)

lemma fold_appends: "fold (\<lambda>x w. w @ f x) xs w = w @ concat (map f xs)"
  by (induction xs arbitrary: w) simp_all

lemma le_var_size_eq: "le_var_size_i64 vs w = w @ leb (length vs) @ concat (map i64_bytes vs)"
  by (simp add: le_var_size_i64_def varint_app fold_appends)

lemma begin_offset_table_eq:
  "begin_offset_table n w =
     (let u = w @ leb n; u = u @ replicate (to_pad 4 (length u)) ALIGNMENT_BYTE in
      (length u, u @ replicate (4 * n) 0))"
proof -
  have zero: "le_bytes m 0 = replicate m (0 :: byte)" for m by (induction m) simp_all
  have "fold (\<lambda>_ w. le_u32 0 w) xs u = u @ replicate (4 * length xs) 0" for xs :: "nat list" and u
    by (induction xs arbitrary: u) (simp_all add: le_u32_def zero replicate_add)
  then show ?thesis by (simp add: begin_offset_table_def align_to_def varint_app pad_loop_eq Let_def)
qed

end
