(* ===== verification/Tile_Interning.thy ===== *)
theory Tile_Interning
  imports Tile_Writer Tile_Encoding_Facts
begin

text \<open>
  The interning tables of the writer: the contract of an interning table as a locale, its
  interpretation for strings and for types, and its consequence for the type section, which
  refers to types that are in the table already and so does not grow it.
\<close>

section \<open>The contract\<close>

text \<open>Interning keeps the table's invariant, only appends, returns the position of the value, and leaves the
  table alone when the value is there.\<close>

locale intern_table =
  fixes entries :: "'t \<Rightarrow> 'a list" and intern :: "'a \<Rightarrow> 't \<Rightarrow> nat \<times> 't" and ok :: "'t \<Rightarrow> bool"
  assumes intern_keeps: "ok t \<Longrightarrow> ok (snd (intern x t))"
    and intern_grows: "ok t \<Longrightarrow> \<exists>ys. entries (snd (intern x t)) = entries t @ ys"
    and intern_found: "ok t \<Longrightarrow>
      fst (intern x t) < length (entries (snd (intern x t))) \<and> entries (snd (intern x t)) ! fst (intern x t) = x"
    and intern_known: "ok t \<Longrightarrow> x \<in> set (entries t) \<Longrightarrow> snd (intern x t) = t"
    and ok_distinct: "ok t \<Longrightarrow> distinct (entries t)"
begin

lemma known_index: "ok t \<Longrightarrow> i < length (entries t) \<Longrightarrow> intern (entries t ! i) t = (i, t)"
  by (metis intern_found intern_known nth_eq_iff_index_eq nth_mem ok_distinct prod.collapse)

text \<open>An index stays valid: whatever the table has grown to, interning the value again returns it.\<close>

lemma index_stable:
  assumes "ok t" and "ok u" and "entries u = entries (snd (intern x t)) @ ys"
  shows "intern x u = (fst (intern x t), u)"
proof -
  let ?i = "fst (intern x t)"
  have "?i < length (entries u) \<and> entries u ! ?i = x"
    using intern_found [OF assms(1), of x] assms(3) by (auto simp: nth_append)
  then show ?thesis using known_index [OF assms(2), of ?i] by simp
qed

lemma intern_injective:
  assumes "ok t" and "x \<in> set (entries t)" and "y \<in> set (entries t)" and "fst (intern x t) = fst (intern y t)"
  shows "x = y"
  using assms intern_found [OF assms(1), of x] intern_found [OF assms(1), of y] by (simp add: intern_known)

end

section \<open>Strings\<close>

definition strings_ok :: "Tables \<Rightarrow> bool" where
  "strings_ok t \<longleftrightarrow> distinct (strings t) \<and>
     (\<forall>s i. string_index t s = Some i \<longleftrightarrow> i < length (strings t) \<and> strings t ! i = s)"

lemma string_index_known: "strings_ok t \<Longrightarrow> s \<in> set (strings t) \<Longrightarrow> string_index t s \<noteq> None"
  by (auto simp: strings_ok_def in_set_conv_nth)

lemma intern_string_cases:
  "string_index t s = Some i \<Longrightarrow> intern_string s t = (i, t)"
  "string_index t s = None \<Longrightarrow> intern_string s t =
     (length (strings t), t\<lparr>strings := strings t @ [s], string_index := (string_index t)(s \<mapsto> length (strings t))\<rparr>)"
  by (simp_all add: intern_string_def Let_def)

lemma string_index_found: "strings_ok t \<Longrightarrow> string_index t s = Some i \<Longrightarrow> i < length (strings t) \<and> strings t ! i = s"
  by (simp add: strings_ok_def)

lemma intern_string_new:
  assumes "strings_ok t" and "string_index t s = None"
  shows "strings_ok (snd (intern_string s t))"
proof -
  have "s \<notin> set (strings t)" using assms string_index_known by blast
  moreover have "(if x = s then Some (length (strings t)) else string_index t x) = Some i \<longleftrightarrow>
      i < Suc (length (strings t)) \<and> (strings t @ [s]) ! i = x" for x i
    using assms(1) calculation by (auto simp: strings_ok_def nth_append less_Suc_eq)
  ultimately show ?thesis using assms by (simp add: strings_ok_def intern_string_cases fun_upd_def)
qed

interpretation string_table: intern_table strings intern_string strings_ok
proof
  fix t x
  assume ok: "strings_ok t"
  show "strings_ok (snd (intern_string x t))"
    using ok intern_string_new by (cases "string_index t x") (simp_all add: intern_string_cases)
  show "\<exists>ys. strings (snd (intern_string x t)) = strings t @ ys"
    by (cases "string_index t x") (simp_all add: intern_string_cases)
  show "fst (intern_string x t) < length (strings (snd (intern_string x t))) \<and>
      strings (snd (intern_string x t)) ! fst (intern_string x t) = x"
    using string_index_found [OF ok] by (cases "string_index t x") (simp_all add: intern_string_cases)
  show "snd (intern_string x t) = t" if "x \<in> set (strings t)"
    using string_index_known [OF ok that] by (auto simp: intern_string_cases)
  show "distinct (strings t)" using ok by (simp add: strings_ok_def)
qed

section \<open>Types\<close>

fun deps :: "Type \<Rightarrow> Type list" where
  "deps (Scalar _) = []"
| "deps (Tile tile) = [Scalar (tile_element tile)]"
| "deps (Fragment fragment) = [Scalar (frag_element fragment)]"
| "deps (Func inputs results) = inputs @ results"

text \<open>Every type is in the table once, the index finds it, and what it refers to comes before it.\<close>

definition types_ok :: "Tables \<Rightarrow> bool" where
  "types_ok t \<longleftrightarrow> distinct (types t) \<and>
     (\<forall>ty i. type_index t ty = Some i \<longleftrightarrow> i < length (types t) \<and> types t ! i = ty) \<and>
     (\<forall>i < length (types t). set (deps (types t ! i)) \<subseteq> set (take i (types t)))"

lemma type_index_known: "types_ok t \<Longrightarrow> ty \<in> set (types t) \<longleftrightarrow> type_index t ty \<noteq> None"
  by (auto simp: types_ok_def in_set_conv_nth)

lemma type_index_found: "types_ok t \<Longrightarrow> type_index t ty = Some i \<Longrightarrow> i < length (types t) \<and> types t ! i = ty"
  by (simp add: types_ok_def)

lemma push_type_ok:
  assumes "types_ok t" and "ty \<notin> set (types t)" and "set (deps ty) \<subseteq> set (types t)"
  shows "types_ok (snd (push_type ty t))"
proof -
  have "(if x = ty then Some (length (types t)) else type_index t x) = Some i \<longleftrightarrow>
      i < Suc (length (types t)) \<and> (types t @ [ty]) ! i = x" for x i
    using assms(1,2) by (auto simp: types_ok_def nth_append less_Suc_eq)
  moreover have "set (deps ((types t @ [ty]) ! i)) \<subseteq> set (take i (types t @ [ty]))" if "i < Suc (length (types t))" for i
    using assms(1,3) that by (auto simp: types_ok_def nth_append less_Suc_eq)
  ultimately show ?thesis using assms(1,2) by (auto simp: types_ok_def push_type_def Let_def fun_upd_def)
qed

text \<open>What interning \<open>ty\<close> does to a table: it appends types no heavier than \<open>ty\<close>, and \<open>ty\<close> is there.\<close>

definition interned :: "nat \<Rightarrow> Tables \<Rightarrow> Tables \<Rightarrow> bool" where
  "interned bound t t' \<longleftrightarrow> types_ok t' \<and> strings t' = strings t \<and> string_index t' = string_index t \<and> version t' = version t \<and>
     (\<exists>ys. types t' = types t @ ys \<and> (\<forall>y \<in> set ys. type_weight y \<le> bound))"

lemma interned_refl: "types_ok t \<Longrightarrow> interned b t t"
  by (simp add: interned_def)

lemma interned_trans:
  assumes "interned b t t'" and "interned c t' t''" and "b \<le> d" and "c \<le> d"
  shows "interned d t t''"
proof -
  obtain ys zs where ys: "types t' = types t @ ys" "\<forall>y \<in> set ys. type_weight y \<le> b"
    and zs: "types t'' = types t' @ zs" "\<forall>y \<in> set zs. type_weight y \<le> c"
    using assms(1,2) by (auto simp: interned_def)
  have "types t'' = types t @ (ys @ zs) \<and> (\<forall>y \<in> set (ys @ zs). type_weight y \<le> d)"
    using ys zs assms(3,4) by (simp; force)
  then show ?thesis using assms(1,2) by (auto simp: interned_def)
qed

abbreviation list_weight :: "Type list \<Rightarrow> nat" where
  "list_weight tys \<equiv> sum_list (map (\<lambda>w. w + 1) (map type_weight tys))"

lemma weight_positive: "0 < type_weight ty"
  by (cases ty) simp_all

lemma intern_type_effect:
  "types_ok t \<Longrightarrow> interned (type_weight ty) t (snd (intern_type ty t)) \<and>
     fst (intern_type ty t) < length (types (snd (intern_type ty t))) \<and>
     types (snd (intern_type ty t)) ! fst (intern_type ty t) = ty"
  "types_ok t \<Longrightarrow> interned (list_weight tys - 1) t (intern_types tys t) \<and> set tys \<subseteq> set (types (intern_types tys t))"
proof (induction ty t and tys t rule: intern_type_intern_types.induct)
  case (1 ty t)
  show ?case
  proof (cases "type_index t ty")
    case (Some i)
    then have "intern_type ty t = (i, t)" by (simp add: intern_type.simps)
    then show ?thesis using type_index_found [OF 1(5) Some] interned_refl [OF 1(5)] by simp
  next
    case None
    define u where "u = (case ty of
               Scalar _ \<Rightarrow> t
             | Tile tile \<Rightarrow> snd (intern_type (Scalar (tile_element tile)) t)
             | Fragment fragment \<Rightarrow> snd (intern_type (Scalar (frag_element fragment)) t)
             | Func inputs results \<Rightarrow> intern_types results (intern_types inputs t))"
    have res: "intern_type ty t = push_type ty u" using None by (simp add: intern_type.simps u_def)
    have u: "interned (type_weight ty - 1) t u \<and> set (deps ty) \<subseteq> set (types u)"
    proof (cases ty)
      case (Scalar s)
      then show ?thesis using 1(5) interned_refl by (simp add: u_def)
    next
      case (Tile tile)
      then show ?thesis using 1(1) [OF None Tile] 1(5) by (auto simp: u_def in_set_conv_nth)
    next
      case (Fragment fragment)
      then show ?thesis using 1(2) [OF None Fragment] 1(5) by (auto simp: u_def in_set_conv_nth)
    next
      case (Func inputs results)
      have a: "interned (list_weight inputs - 1) t (intern_types inputs t)" "set inputs \<subseteq> set (types (intern_types inputs t))"
        using 1(3) [OF None Func] 1(5) by auto
      have b: "interned (list_weight results - 1) (intern_types inputs t) u" "set results \<subseteq> set (types u)"
        using 1(4) [OF None Func] a(1) Func by (auto simp: u_def interned_def)
      have "set inputs \<subseteq> set (types u)" using a(2) b(1) by (auto simp: interned_def)
      moreover have "interned (type_weight ty - 1) t u" using Func by (intro interned_trans [OF a(1) b(1)]) auto
      ultimately show ?thesis using b(2) Func by simp
    qed
    have "ty \<notin> set (types t)" using None type_index_known 1(5) by blast
    moreover obtain ys where "types u = types t @ ys" "\<forall>y \<in> set ys. type_weight y \<le> type_weight ty - 1"
      using u by (auto simp: interned_def)
    moreover have "\<not> type_weight ty \<le> type_weight ty - 1" using weight_positive [of ty] by simp
    ultimately have new: "ty \<notin> set (types u)" by auto
    then have "types_ok (snd (push_type ty u))" using u by (intro push_type_ok) (auto simp: interned_def)
    then have push: "interned (type_weight ty) u (snd (push_type ty u))" by (auto simp: interned_def push_type_def Let_def)
    have "interned (type_weight ty) t (snd (push_type ty u))" by (rule interned_trans [OF conjunct1 [OF u] push]) simp_all
    then show ?thesis unfolding res by (simp add: push_type_def Let_def)
  qed
next
  case (2 t)
  then show ?case using interned_refl by simp
next
  case (3 ty tys t)
  let ?u = "snd (intern_type ty t)"
  have a: "interned (type_weight ty) t ?u" "ty \<in> set (types ?u)" using 3(1) [OF 3(3)] by (auto simp: in_set_conv_nth)
  have b: "interned (list_weight tys - 1) ?u (intern_types tys ?u)" "set tys \<subseteq> set (types (intern_types tys ?u))"
    using 3(2) a(1) by (auto simp: interned_def)
  have "ty \<in> set (types (intern_types tys ?u))" using a(2) b(1) by (auto simp: interned_def)
  moreover have "interned (list_weight (ty # tys) - 1) t (intern_types tys ?u)" by (rule interned_trans [OF a(1) b(1)]) auto
  ultimately show ?case using b(2) by simp
qed

interpretation type_table: intern_table types intern_type types_ok
proof
  fix t ty
  assume ok: "types_ok t"
  note eff = intern_type_effect(1) [OF ok, of ty]
  show "types_ok (snd (intern_type ty t))" using eff by (simp add: interned_def)
  show "\<exists>ys. types (snd (intern_type ty t)) = types t @ ys" using eff by (auto simp: interned_def)
  show "fst (intern_type ty t) < length (types (snd (intern_type ty t))) \<and>
      types (snd (intern_type ty t)) ! fst (intern_type ty t) = ty" using eff by simp
  show "snd (intern_type ty t) = t" if "ty \<in> set (types t)"
    using type_index_known [OF ok, of ty] that by (auto simp: intern_type.simps)
  show "distinct (types t)" using ok by (simp add: types_ok_def)
qed

section \<open>Appending operations\<close>

definition tables_ok :: "Tables \<Rightarrow> bool" where
  "tables_ok t \<longleftrightarrow> strings_ok t \<and> types_ok t"

lemma tables_ok_new: "tables_ok (tables_new v)"
  by (simp add: tables_ok_def strings_ok_def types_ok_def tables_new_def)

text \<open>A writer and its tables after operations that only append to each of them.\<close>

definition extends :: "Tables \<Rightarrow> Tables \<Rightarrow> bool" where
  "extends t t' \<longleftrightarrow> version t' = version t \<and> (\<exists>ss. strings t' = strings t @ ss) \<and> (\<exists>ts. types t' = types t @ ts)"

definition grown :: "Writer \<Rightarrow> Tables \<Rightarrow> Writer \<times> Tables \<Rightarrow> bool" where
  "grown w t s \<longleftrightarrow> (\<exists>bs. fst s = w @ bs) \<and> tables_ok (snd s) \<and> extends t (snd s)"

named_theorems grown_intros \<open>operations that only append\<close>

lemma extends_refl: "extends t t"
  by (simp add: extends_def)

lemma extends_trans: "extends t t' \<Longrightarrow> extends t' t'' \<Longrightarrow> extends t t''"
  by (auto simp: extends_def)

lemma grown_refl: "tables_ok t \<Longrightarrow> grown w t (w, t)"
  by (simp add: grown_def extends_refl)

lemma grown_varint [grown_intros]: "grown w t (u, t') \<Longrightarrow> grown w t (varint n u, t')"
  by (auto simp: grown_def varint_app)

lemma grown_byte [grown_intros]: "grown w t (u, t') \<Longrightarrow> grown w t (push_byte b u, t')"
  by (auto simp: grown_def push_byte_def)

lemma grown_case [grown_intros]:
  "grown w t s \<Longrightarrow> (\<And>u t'. grown w t (u, t') \<Longrightarrow> grown w t (f u t')) \<Longrightarrow> grown w t (case s of (u, t') \<Rightarrow> f u t')"
  by (cases s) simp

lemma grown_fold [grown_intros]:
  "grown w t s \<Longrightarrow> (\<And>x u. grown w t u \<Longrightarrow> grown w t (f x u)) \<Longrightarrow> grown w t (fold f xs s)"
  by (induction xs arbitrary: s) simp_all

lemma grown_if [grown_intros]: "(b \<Longrightarrow> grown w t s) \<Longrightarrow> (\<not> b \<Longrightarrow> grown w t u) \<Longrightarrow> grown w t (if b then s else u)"
  by simp

lemma write_string_ref_eq: "write_string_ref s (w, t) = (w @ leb (fst (intern_string s t)), snd (intern_string s t))"
  by (simp add: write_string_ref_def varint_app case_prod_beta)

lemma write_type_ref_eq: "write_type_ref ty (w, t) = (w @ leb (fst (intern_type ty t)), snd (intern_type ty t))"
  by (simp add: write_type_ref_def varint_app case_prod_beta)

lemma intern_string_frame: "types (snd (intern_string s t)) = types t \<and> type_index (snd (intern_string s t)) = type_index t \<and>
    version (snd (intern_string s t)) = version t"
  by (cases "string_index t s") (simp_all add: intern_string_cases)

lemma types_ok_frame: "types t' = types t \<Longrightarrow> type_index t' = type_index t \<Longrightarrow> types_ok t' = types_ok t"
  by (simp add: types_ok_def)

lemma strings_ok_frame: "strings t' = strings t \<Longrightarrow> string_index t' = string_index t \<Longrightarrow> strings_ok t' = strings_ok t"
  by (simp add: strings_ok_def)

lemma grown_string_ref [grown_intros]:
  assumes "grown w t s"
  shows "grown w t (write_string_ref x s)"
proof -
  obtain u t' where s: "s = (u, t')" by (cases s)
  let ?t = "snd (intern_string x t')"
  have "tables_ok ?t \<and> extends t' ?t"
    using assms string_table.intern_keeps [of t' x] string_table.intern_grows [of t' x] intern_string_frame [of x t']
      types_ok_frame [of ?t t'] by (simp add: s grown_def tables_ok_def extends_def)
  then show ?thesis using assms extends_trans [of t t' ?t] by (auto simp: s grown_def write_string_ref_eq)
qed

lemma grown_type_ref [grown_intros]:
  assumes "grown w t s"
  shows "grown w t (write_type_ref ty s)"
proof -
  obtain u t' where s: "s = (u, t')" by (cases s)
  let ?t = "snd (intern_type ty t')"
  have "tables_ok ?t \<and> extends t' ?t"
    using assms intern_type_effect(1) [of t' ty] strings_ok_frame [of ?t t']
    by (auto simp: s grown_def tables_ok_def extends_def interned_def)
  then show ?thesis using assms extends_trans [of t t' ?t] by (auto simp: s grown_def write_type_ref_eq)
qed

end
