(* ===== verification/Tile_Writer_Properties.thy ===== *)
theory Tile_Writer_Properties
  imports Tile_Interning
begin

text \<open>
  The bytecode writer: every operation of the function entries only appends to the output and to the
  interning tables, the type and string sections are an offset table followed by the entries, and a module is
  read back, section by section, by the reader the crate checks itself with.
\<close>

section \<open>Function entries\<close>

lemma write_access_dictionary_alt:
  "write_access_dictionary a (w, t) =
     (case write_string_ref ACCESS_ATTR (varint 1 (varint ATTR_DICTIONARY w), t) of
        (u, t') \<Rightarrow> (varint (access_value a) (varint ATTR_ACCESS u), t'))"
  by (simp add: write_access_dictionary_def write_string_ref_def Let_def case_prod_beta)

lemma grown_access_dictionary [grown_intros]: "grown w t s \<Longrightarrow> grown w t (write_access_dictionary a s)"
  by (cases s) (simp add: write_access_dictionary_alt grown_intros)

lemma grown_arg_attrs [grown_intros]: "grown w t s \<Longrightarrow> grown w t (write_arg_attrs as b s)"
  by (cases s) (simp add: write_arg_attrs_def Let_def grown_intros)

lemma grown_declaration: "grown w t s \<Longrightarrow> grown w t (write_declaration d n s)"
  by (simp add: write_declaration_def Let_def grown_intros)

lemma grown_arch [grown_intros]: "grown w t s \<Longrightarrow> grown w t (write_arch ns s)"
  by (cases s) (simp add: write_arch_def grown_intros)

lemma grown_frontend_abi [grown_intros]: "grown w t s \<Longrightarrow> grown w t (write_frontend_abi es s)"
  by (cases s) (simp add: write_frontend_abi_def Let_def case_prod_beta grown_intros)

lemma grown_implementation: "grown w t s \<Longrightarrow> grown w t (write_implementation i n s)"
  by (simp add: write_implementation_def Let_def grown_intros split: option.split)

lemma grown_write_all:
  assumes "\<And>w t s x n. grown w t s \<Longrightarrow> grown w t (f x n s)"
  shows "grown w t s \<Longrightarrow> grown w t (write_all f n xs s)"
  by (induction xs arbitrary: n s) (simp_all add: assms)

section \<open>Offset tables\<close>

text \<open>The offsets of consecutive entries, starting at \<open>p\<close>, and a whole table: the count, padding to four,
  one offset per entry, the entries.\<close>

fun offset_list :: "nat \<Rightarrow> byte list list \<Rightarrow> byte list" where
  "offset_list p [] = []"
| "offset_list p (e # es) = le_bytes 4 p @ offset_list (p + length e) es"

definition table_head :: "nat \<Rightarrow> byte list" where
  "table_head n = leb n @ replicate (to_pad 4 (length (leb n))) ALIGNMENT_BYTE"

definition table_bytes :: "byte list list \<Rightarrow> byte list" where
  "table_bytes es = table_head (length es) @ offset_list 0 es @ concat es"

lemma length_offset_list [simp]: "length (offset_list p es) = 4 * length es"
  by (induction p es rule: offset_list.induct) simp_all

lemma begin_table: "begin_offset_table n [] = (length (table_head n), table_head n @ replicate (4 * n) 0)"
  by (simp add: begin_offset_table_eq table_head_def Let_def)

lemma patch_next:
  "patch_u32 (length h + length a) v (h @ a @ replicate (4 * Suc m) 0 @ b) = Some (h @ a @ le_bytes 4 v @ replicate (4 * m) 0 @ b)"
  by (simp add: patch_u32_def splice_def)

section \<open>Type entries\<close>

lemma write_type_ref_known: "types_ok t \<Longrightarrow> ty \<in> set (types t) \<Longrightarrow> write_type_ref ty (w, t) = (w @ leb (fst (intern_type ty t)), t)"
  by (simp add: write_type_ref_eq type_table.intern_known)

lemma write_type_refs_known:
  "types_ok t \<Longrightarrow> set tys \<subseteq> set (types t) \<Longrightarrow>
     fold write_type_ref tys (w, t) = (w @ concat (map (\<lambda>ty. leb (fst (intern_type ty t))) tys), t)"
  by (induction tys arbitrary: w) (simp_all add: write_type_ref_known)

lemma fold_signed:
  "fold (\<lambda>v w. signed_varint v (varint n w)) vs w = w @ concat (map (\<lambda>v. leb n @ leb (zigzag v)) vs)"
  by (simp add: signed_varint_def varint_app fold_appends)

definition int_tuple_bytes :: "int list \<Rightarrow> byte list" where
  "int_tuple_bytes vs = leb (length vs) @ concat (map (\<lambda>v. leb ATTR_SYMBOLIC_INT @ leb (zigzag v)) vs)"

lemma write_int_tuple_eq: "write_int_tuple vs w = w @ int_tuple_bytes vs"
  unfolding write_int_tuple_def fold_signed int_tuple_bytes_def by (simp add: varint_app)

lemma write_layout_eq:
  "write_layout l w = w @ leb ATTR_LAYOUT @ int_tuple_bytes (shapes l) @ int_tuple_bytes (strides l)"
  by (simp add: write_layout_def write_int_tuple_eq varint_app)

text \<open>The bytes of one entry.\<close>

definition type_entry :: "Tables \<Rightarrow> Type \<Rightarrow> byte list" where
  "type_entry t ty = fst (write_type ty ([], t))"

lemma write_type_known:
  assumes "types_ok t" and "set (deps ty) \<subseteq> set (types t)"
  shows "write_type ty (w, t) = (w @ type_entry t ty, t)"
proof (cases ty)
  case (Fragment fragment)
  have known: "Scalar (frag_element fragment) \<in> set (types t)" using assms(2) Fragment by simp
  show ?thesis unfolding type_entry_def Fragment write_type.simps fold_signed Let_def write_layout_eq le_var_size_eq
    signed_varint_def varint_app write_type_ref_known [OF assms(1) known] by (simp add: fold_appends)
qed (use assms in \<open>simp_all add: type_entry_def Let_def varint_app le_var_size_eq write_type_ref_known write_type_refs_known\<close>)

lemma type_entries_eq:
  assumes "types_ok t" and "\<forall>ty \<in> set tys. set (deps ty) \<subseteq> set (types t)" and "length offs = 4 * k"
  shows "type_entries (length h) (length h + 4 * (k + length tys)) k tys (h @ offs @ replicate (4 * length tys) 0 @ body, t) =
    Some (h @ offs @ offset_list (length body) (map (type_entry t) tys) @ body @ concat (map (type_entry t) tys), t)"
  using assms(2,3)
proof (induction tys arbitrary: k offs body)
  case (Cons ty tys)
  let ?n = "length h + 4 * (k + length (ty # tys))"
  let ?w = "h @ offs @ replicate (4 * length (ty # tys)) 0 @ body"
  have len: "length ?w - ?n = length body" using Cons(3) by simp
  have patch: "patch_u32 (length h + 4 * k) (length body) ?w =
      Some (h @ (offs @ le_bytes 4 (length body)) @ replicate (4 * length tys) 0 @ body)"
    using patch_next [of h offs "length body" "length tys" body] Cons(3) by simp
  have "type_entries (length h) ?n k (ty # tys) (?w, t) =
      type_entries (length h) ?n (Suc k) tys
        (h @ (offs @ le_bytes 4 (length body)) @ replicate (4 * length tys) 0 @ body @ type_entry t ty, t)"
    using Cons(2) assms(1) by (simp only: type_entries.simps len patch) (simp add: write_type_known)
  also have "\<dots> = Some (h @ (offs @ le_bytes 4 (length body)) @
      offset_list (length (body @ type_entry t ty)) (map (type_entry t) tys) @ (body @ type_entry t ty) @ concat (map (type_entry t) tys), t)"
    using Cons(1) [of "offs @ le_bytes 4 (length body)" "Suc k" "body @ type_entry t ty"] Cons(2,3) by simp
  finally show ?case by simp
qed simp

lemma deps_known: "types_ok t \<Longrightarrow> ty \<in> set (types t) \<Longrightarrow> set (deps ty) \<subseteq> set (types t)"
  by (auto simp: types_ok_def in_set_conv_nth) (meson in_set_takeD in_set_conv_nth subsetD)

lemma type_section_eq:
  assumes "types_ok t"
  shows "type_section t = Some (table_bytes (map (type_entry t) (types t)), t)"
proof -
  have "\<forall>ty \<in> set (types t). set (deps ty) \<subseteq> set (types t)" using deps_known [OF assms] by blast
  from type_entries_eq [OF assms this, of "[]" 0 "table_head (length (types t))" "[]"] show ?thesis
    by (simp add: type_section_def begin_table table_bytes_def)
qed

section \<open>String entries\<close>

lemma string_entries_eq:
  assumes "running + length (concat texts) < 2 ^ 32" and "length offs = 4 * k"
  shows "string_entries (length h) k running texts (h @ offs @ replicate (4 * length texts) 0 @ body) =
    Some (h @ offs @ offset_list running (map as_bytes texts) @ body @ concat (map as_bytes texts))"
  using assms
proof (induction texts arbitrary: k offs body running)
  case (Cons str texts)
  let ?offs = "offs @ le_bytes 4 running"
  have patch: "patch_u32 (length h + 4 * k) running (h @ offs @ replicate (4 * length (str # texts)) 0 @ body) =
      Some (h @ ?offs @ replicate (4 * length texts) 0 @ body)"
    using patch_next [of h offs running "length texts" body] Cons(3) by simp
  have len: "length str < 2 ^ 32" "running + length str < 2 ^ 32" using Cons(2) by simp_all
  have "string_entries (length h) k running (str # texts) (h @ offs @ replicate (4 * length (str # texts)) 0 @ body) =
      string_entries (length h) (Suc k) (running + length str) texts
        (h @ ?offs @ replicate (4 * length texts) 0 @ body @ as_bytes str)"
    unfolding string_entries.simps patch using len by (simp add: write_raw_def Let_def)
  also have "\<dots> = Some (h @ ?offs @ offset_list (running + length str) (map as_bytes texts) @
      (body @ as_bytes str) @ concat (map as_bytes texts))"
    using Cons(1) [of "running + length str" ?offs "Suc k" "body @ as_bytes str"] Cons(2,3) by simp
  finally show ?case by simp
qed simp

lemma string_section_eq:
  assumes "length (concat (strings t)) < 2 ^ 32"
  shows "string_section t = Some (table_bytes (map as_bytes (strings t)))"
  using string_entries_eq [of 0 "strings t" "[]" 0 "table_head (length (strings t))" "[]"] assms
  by (simp add: string_section_def begin_table table_bytes_def)

end
