(* ===== verification/Tile_Reader.thy ===== *)
theory Tile_Reader
  imports Tile_Writer_Properties
begin

text \<open>
  The reader with which \<open>oxide-tilebc/src/lib.rs\<close> checks the framing of a module: \<open>sections\<close> walks the file section
  by section, \<open>strings\<close> reads the string table. \<open>None\<close> is a failed assertion or an index out of range.
  A position in the file is its length less the length of the rest. The loop over the sections takes
  as many units of fuel as the file has bytes, and each section has at least one.
\<close>

fun skip_padding :: "nat \<Rightarrow> nat \<Rightarrow> byte list \<Rightarrow> byte list option" where
  "skip_padding tot a bs =
     (if a = 0 then None
      else if (tot - length bs) mod a = 0 then Some bs
      else (case bs of b # rest \<Rightarrow> if b = 0xCB then skip_padding tot a rest else None | [] \<Rightarrow> None))"

declare skip_padding.simps [simp del]

fun read_sections :: "nat \<Rightarrow> nat \<Rightarrow> byte list \<Rightarrow> (byte \<times> byte list) list option" where
  "read_sections fuel tot [] = None"
| "read_sections 0 tot (idb # bs) = None"
| "read_sections (Suc fuel) tot (idb # bs) =
     (if idb AND 0x7F = 0 then (if bs = [] then Some [] else None)
      else
      do { (len, bs) \<leftarrow> read_varint 0 0 bs;
           bs \<leftarrow> (if idb AND 0x80 \<noteq> 0 then do { (a, bs) \<leftarrow> read_varint 0 0 bs; skip_padding tot a bs } else Some bs);
           if len \<le> length bs
           then do { out \<leftarrow> read_sections fuel tot (drop len bs); Some ((idb AND 0x7F, take len bs) # out) }
           else None })"

definition sections :: "byte list \<Rightarrow> (byte \<times> byte list) list option" where
  "sections bytes =
     (if 12 \<le> length bytes \<and> take 8 bytes = MAGIC then read_sections (length bytes) (length bytes) (drop 12 bytes) else None)"

definition section_payload :: "byte list \<Rightarrow> byte \<Rightarrow> byte list option" where
  "section_payload bytes idb = do { ss \<leftarrow> sections bytes; map_option snd (find (\<lambda>(s, _). s = idb) ss) }"

text \<open>\<open>while pos % 4 != 0 { pos += 1 }\<close> adds \<open>to_pad 4 pos\<close>.\<close>

definition read_table :: "byte list \<Rightarrow> byte list list option" where
  "read_table payload_bytes =
     do { (count, r) \<leftarrow> read_varint 0 0 payload_bytes;
          let pos = length payload_bytes - length r;
              pos = pos + to_pad 4 pos;
              offsets = map (\<lambda>i. le_nat (slice payload_bytes (pos + 4 * i) 4)) [0..<count];
              data = drop (pos + 4 * count) payload_bytes;
              ends = (\<lambda>i. if i + 1 < count then offsets ! (i + 1) else length data) in
          if pos + 4 * count \<le> length payload_bytes \<and>
             list_all (\<lambda>i. offsets ! i \<le> ends i \<and> ends i \<le> length data) [0..<count]
          then Some (map (\<lambda>i. slice data (offsets ! i) (ends i - offsets ! i)) [0..<count])
          else None }"

definition read_strings :: "byte list \<Rightarrow> string list option" where
  "read_strings bytes =
     do { p \<leftarrow> section_payload bytes 1;
          es \<leftarrow> read_table p;
          if list_all utf8_valid es then Some (map string_of_bytes es) else None }"

section \<open>Reading sections\<close>

lemma skip_padding_eq:
  assumes "0 < a" and "tot = pos + n + length p" and "n = to_pad a pos"
  shows "skip_padding tot a (replicate n ALIGNMENT_BYTE @ p) = Some p"
  using assms
proof (induction n arbitrary: pos)
  case 0
  then have "pos mod a = 0" using to_pad_multiple [of a pos] by simp
  then show ?case using 0 by (subst skip_padding.simps) simp
next
  case (Suc n)
  have r: "pos mod a \<noteq> 0" using Suc(4) by (cases "pos mod a = 0") (simp_all add: to_pad_def)
  have "n = to_pad a (Suc pos)"
    using r Suc(2,4) mod_less_divisor [OF Suc(2), of pos] by (auto simp: to_pad_def mod_Suc)
  then have "skip_padding tot a (replicate n ALIGNMENT_BYTE @ p) = Some p" using Suc by (intro Suc(1) [of "Suc pos"]) auto
  moreover have "tot - length (replicate (Suc n) ALIGNMENT_BYTE @ p) = pos" using Suc(3) by simp
  ultimately show ?case using r Suc(2) by (subst skip_padding.simps) (simp add: ALIGNMENT_BYTE_def)
qed

lemma section_id_bits:
  "sec \<noteq> EndOfBytecode \<Longrightarrow>
    (section_id sec OR 0x80) AND 0x7F = section_id sec \<and> section_id sec \<noteq> 0 \<and> (section_id sec OR 0x80) AND 0x80 \<noteq> 0"
  by (cases sec) simp_all

lemma read_section:
  assumes "sec \<noteq> EndOfBytecode" and "1 < a" and "a < 2 ^ 64" and "length p < 2 ^ 64"
    and "tot = pos + length (section_bytes sec p a pos) + length rest"
  shows "read_sections (Suc fuel) tot (section_bytes sec p a pos @ rest) =
    map_option (Cons (section_id sec, p)) (read_sections fuel tot rest)"
proof -
  let ?h = "(section_id sec OR 0x80) # leb (length p) @ leb a"
  let ?pad = "to_pad a (pos + length ?h)"
  have bytes: "section_bytes sec p a pos @ rest =
      (section_id sec OR 0x80) # leb (length p) @ leb a @ replicate ?pad ALIGNMENT_BYTE @ p @ rest"
    by (simp add: section_bytes_def Let_def)
  have "skip_padding tot a (replicate ?pad ALIGNMENT_BYTE @ p @ rest) = Some (p @ rest)"
    using assms(2,5) by (intro skip_padding_eq [of _ _ "pos + length ?h"]) (simp_all add: section_bytes_def Let_def)
  then show ?thesis
    unfolding bytes using section_id_bits [OF assms(1)] assms(3,4)
    by (simp add: read_varint_leb) (cases "read_sections fuel tot rest"; simp)
qed

section \<open>Reading tables\<close>

lemma offset_list_nth:
  assumes "i < length es"
  shows "slice (h @ offset_list p es @ d) (length h + 4 * i) 4 = le_bytes 4 (p + length (concat (take i es)))"
  using assms
proof (induction es arbitrary: i p h)
  case (Cons e es)
  show ?case
  proof (cases i)
    case 0
    then show ?thesis by (simp add: slice_def)
  next
    case (Suc j)
    have "slice ((h @ le_bytes 4 p) @ offset_list (p + length e) es @ d) (length (h @ le_bytes 4 p) + 4 * j) 4 =
        le_bytes 4 (p + length e + length (concat (take j es)))"
      using Cons(2) Suc by (intro Cons(1)) simp
    then show ?thesis using Suc by (simp add: add.assoc)
  qed
qed simp

lemma concat_take_Suc: "i < length es \<Longrightarrow> concat (take (Suc i) es) = concat (take i es) @ es ! i"
  by (simp add: take_Suc_conv_app_nth)

lemma concat_slice:
  assumes "i < length es"
  shows "slice (concat es) (length (concat (take i es))) (length (es ! i)) = es ! i"
proof -
  have "concat es = concat (take i es) @ es ! i @ concat (drop (Suc i) es)"
    by (metis assms concat_append id_take_nth_drop concat.simps(2))
  then show ?thesis by (simp add: slice_def)
qed

lemma read_table_eq:
  assumes "length (concat es) < 2 ^ 32" and "length es < 2 ^ 64"
  shows "read_table (table_bytes es) = Some es"
proof -
  let ?n = "length es" and ?h = "table_head (length es)" and ?p = "table_bytes es"
  let ?off = "\<lambda>i. length (concat (take i es))"
  have head: "?p = leb ?n @ replicate (to_pad 4 (length (leb ?n))) ALIGNMENT_BYTE @ offset_list 0 es @ concat es"
    by (simp add: table_bytes_def table_head_def)
  have rd: "read_varint 0 0 ?p = Some (?n, replicate (to_pad 4 (length (leb ?n))) ALIGNMENT_BYTE @ offset_list 0 es @ concat es)"
    unfolding head by (rule read_varint_leb [OF assms(2)])
  have pos: "length (leb ?n) + to_pad 4 (length (leb ?n)) = length ?h" by (simp add: table_head_def)
  have small: "?off i < 2 ^ 32" for i
  proof -
    have "?off i \<le> length (concat es)" by (metis append_take_drop_id concat_append le_add1 length_append)
    then show ?thesis using assms(1) by simp
  qed
  have off: "le_nat (slice ?p (length ?h + 4 * i) 4) = ?off i" if "i < ?n" for i
    using offset_list_nth [OF that, of ?h 0 "concat es"] small [of i] by (simp add: table_bytes_def le_nat_le_bytes)
  have data: "drop (length ?h + 4 * ?n) ?p = concat es" "length ?h + 4 * ?n \<le> length ?p" by (simp_all add: table_bytes_def)
  have ends: "(if i + 1 < ?n then map (\<lambda>i. le_nat (slice ?p (length ?h + 4 * i) 4)) [0..<?n] ! (i + 1) else length (concat es)) =
      ?off i + length (es ! i)" if "i < ?n" for i
  proof (cases "i + 1 < ?n")
    case True
    then show ?thesis using off [OF True] concat_take_Suc [OF that] by simp
  next
    case False
    then have "take (Suc i) es = es" using that by simp
    then show ?thesis using False concat_take_Suc [OF that] by simp
  qed
  have bound: "?off i + length (es ! i) \<le> length (concat es)" if "i < ?n" for i
    using concat_take_Suc [OF that] by (metis append_take_drop_id concat_append le_add1 length_append)
  let ?O = "map (\<lambda>i. le_nat (slice ?p (length ?h + 4 * i) 4)) [0..<?n]"
  let ?E = "\<lambda>i. if i + 1 < ?n then ?O ! (i + 1) else length (concat es)"
  have O: "?O ! i = ?off i" if "i < ?n" for i using that off by simp
  have r: "length ?p - length (replicate (to_pad 4 (length (leb ?n))) ALIGNMENT_BYTE @ offset_list 0 es @ concat es) = length (leb ?n)"
    unfolding head by simp
  have each: "?O ! i \<le> ?E i \<and> ?E i \<le> length (concat es)" if "i < ?n" for i
    unfolding O [OF that] ends [OF that] using bound [OF that] by simp
  have ok: "list_all (\<lambda>i. ?O ! i \<le> ?E i \<and> ?E i \<le> length (concat es)) [0..<?n]"
    unfolding list_all_iff by (rule ballI, rule each, simp)
  have entry: "slice (concat es) (?O ! i) (?E i - ?O ! i) = es ! i" if "i < ?n" for i
    unfolding O [OF that] ends [OF that] using concat_slice [OF that] by simp
  have "map (\<lambda>i. slice (concat es) (?O ! i) (?E i - ?O ! i)) [0..<?n] = map ((!) es) [0..<?n]"
    by (rule map_cong [OF refl], rule entry, simp)
  then have es: "map (\<lambda>i. slice (concat es) (?O ! i) (?E i - ?O ! i)) [0..<?n] = es" unfolding map_nth .
  show ?thesis
    unfolding read_table_def rd bind.bind_lunit prod.case Let_def r pos data(1)
    by (simp only: ok es data(2) simp_thms if_True)
qed

end
