(* ===== verification/Tile_Properties.thy ===== *)
theory Tile_Properties
  imports Tile_Reader
begin

text \<open>
  Correctness of the Tile IR writer: integers are read back from their encodings, the type table does not
  grow while it is written and has its entries at the stored offsets, and the reader finds in a module the four sections
  and the interned strings.
\<close>

section \<open>Integers\<close>

text \<open>Varints are self-delimiting and lossless: whatever was written before and follows, reading at the
  position where a \<open>u64\<close> was written returns that value and stops at the first byte after it; a
  \<open>u64\<close> takes at most ten bytes. A signed varint of an \<open>i64\<close> is read back the same way, undoing the
  zigzag.\<close>

theorem varint_roundtrip:
  assumes "v < 2 ^ 64" and "in_i64 i"
  shows "read_varint 0 0 (drop (length w) (varint v w) @ rest) = Some (v, rest) \<and>
    take (length w) (varint v w) = w \<and> length (varint v w) \<le> length w + 10 \<and>
    map_option (\<lambda>(z, r). (unzigzag z, r)) (read_varint 0 0 (drop (length w) (signed_varint i w) @ rest)) = Some (i, rest)"
proof -
  have "length (leb v) \<le> 10" using assms(1) by (intro leb_length [of v 9, simplified]) simp
  then show ?thesis
    using read_varint_leb [OF assms(1)] read_varint_leb [OF zigzag_range] unzigzag_zigzag [OF assms(2)]
    by (simp add: varint_app signed_varint_def)
qed

theorem varint_roundtrip_witness:
  "read_varint 0 0 (drop (length [0xAA]) (varint 300 [0xAA]) @ [0x01]) = Some (300, [0x01]) \<and>
   map_option (\<lambda>(z, r). (unzigzag z, r)) (read_varint 0 0 (drop (length [0xAA]) (signed_varint (- 7) [0xAA]) @ [0x01])) =
     Some (- 7, [0x01])"
  using varint_roundtrip [of 300 "- 7" "[0xAA]" "[0x01]"] by (simp add: in_i64_def)

section \<open>Tables\<close>

text \<open>The interning tables: after interning a string or a type the returned index is the position of
  that value, the values already there keep their positions, every table keeps its invariant (no
  duplicates, the index map is exact, a type comes after every type it refers to), and interning the
  value again, whatever the table has grown to, returns the same index and changes nothing.\<close>

theorem interning_stable:
  assumes "tables_ok t" and "tables_ok u" and "strings u = strings (snd (intern_string s t)) @ ss"
    and "types u = types (snd (intern_type ty t)) @ ts"
  shows "tables_ok (snd (intern_string s t)) \<and> tables_ok (snd (intern_type ty t)) \<and>
    strings (snd (intern_string s t)) ! fst (intern_string s t) = s \<and>
    take (length (strings t)) (strings (snd (intern_string s t))) = strings t \<and>
    types (snd (intern_type ty t)) ! fst (intern_type ty t) = ty \<and>
    take (length (types t)) (types (snd (intern_type ty t))) = types t \<and>
    intern_string s u = (fst (intern_string s t), u) \<and> intern_type ty u = (fst (intern_type ty t), u)"
proof -
  have t: "strings_ok t" "types_ok t" "strings_ok u" "types_ok u" using assms(1,2) by (simp_all add: tables_ok_def)
  have "grown [] t (write_string_ref s ([], t))" "grown [] t (write_type_ref ty ([], t))"
    using grown_refl [OF assms(1)] by (simp_all add: grown_intros)
  then have "tables_ok (snd (intern_string s t))" "tables_ok (snd (intern_type ty t))"
    by (simp_all add: grown_def write_string_ref_eq write_type_ref_eq)
  then show ?thesis
    using string_table.intern_found [OF t(1), of s] string_table.intern_grows [OF t(1), of s]
      type_table.intern_found [OF t(2), of ty] type_table.intern_grows [OF t(2), of ty]
      string_table.index_stable [OF t(1,3) assms(3)] type_table.index_stable [OF t(2,4) assms(4)] by auto
qed

theorem interning_stable_witness:
  "let t = tables_new PREVIEW_FIRST; ty = Scalar F32;
       u = snd (intern_type ty (snd (intern_string ''a'' t))) in
   fst (intern_string ''a'' t) = 0 \<and> intern_string ''a'' u = (0, u) \<and> intern_type ty u = (0, u)"
proof -
  let ?t = "tables_new PREVIEW_FIRST" and ?ty = "Scalar F32"
  let ?u = "snd (intern_type ?ty (snd (intern_string ''a'' ?t)))"
  have f: "fst (intern_string ''a'' ?t) = 0" "fst (intern_type ?ty ?t) = 0"
    "strings ?u = strings (snd (intern_string ''a'' ?t)) @ []" "types ?u = types (snd (intern_type ?ty ?t)) @ []"
    by (simp_all add: intern_string_def intern_type.simps push_type_def tables_new_def)
  have "grown [] ?t (write_type_ref ?ty (write_string_ref ''a'' ([], ?t)))"
    using grown_refl [OF tables_ok_new] by (simp add: grown_intros)
  then have "tables_ok ?u" by (simp add: grown_def write_string_ref_eq write_type_ref_eq)
  from interning_stable [OF tables_ok_new this f(3,4)] show ?thesis using f(1,2) by (simp add: Let_def)
qed

lemma table_head_eq: "table_head n = align_to 4 (varint n [])"
  by (simp add: table_head_def align_to_def pad_loop_eq varint_app)

text \<open>(C22) The layout of the type section: for tables in their invariant, writing the section neither panics nor adds a type
  (the debug assertion holds). Its bytes are the count as a varint padded to a multiple of four, one little-endian 32-bit
  offset per type and the entries in table order; every entry is what \<open>write_type\<close> writes, which leaves the tables as they
  are. An offset is the size of the entries before it modulo \<open>2 ^ 32\<close>: when the entries take fewer than \<open>2 ^ 32\<close> bytes, the
  entry of every type stands at its stored offset.\<close>

theorem type_section_layout:
  assumes "tables_ok t"
  shows "\<exists>bs. type_section t = Some (bs, t) \<and>
    (let es = map (type_entry t) (types t); head = align_to 4 (varint (length (types t)) []); data = drop (length head + 4 * length es) bs in
     length head mod 4 = 0 \<and> take (length head) bs = head \<and> data = concat es \<and>
     (\<forall>i < length es. slice bs (length head + 4 * i) 4 = le_bytes 4 (length (concat (take i es)))) \<and>
     (\<forall>ty \<in> set (types t). \<forall>w. write_type ty (w, t) = (w @ type_entry t ty, t)) \<and>
     (length data < 2 ^ 32 \<longrightarrow>
        (\<forall>i < length es. slice data (le_nat (slice bs (length head + 4 * i) 4)) (length (es ! i)) = es ! i)))"
proof -
  let ?es = "map (type_entry t) (types t)"
  let ?head = "align_to 4 (varint (length (types t)) [])"
  let ?bs = "?head @ offset_list 0 ?es @ concat ?es"
  have ok: "types_ok t" using assms by (simp add: tables_ok_def)
  have "type_section t = Some (?bs, t)"
    using type_section_eq [OF ok] by (simp add: table_bytes_def table_head_eq)
  moreover have "length ?head mod 4 = 0"
    using to_pad_multiple [of 4 "length (leb (length (types t)))"] unfolding table_head_eq [symmetric] by (simp add: table_head_def)
  moreover have "\<forall>i < length ?es. slice ?bs (length ?head + 4 * i) 4 = le_bytes 4 (length (concat (take i ?es)))"
    using offset_list_nth [of _ ?es ?head 0 "concat ?es"] by simp
  moreover have data: "drop (length ?head + 4 * length ?es) ?bs = concat ?es" by simp
  moreover have "slice (concat ?es) (le_nat (le_bytes 4 (length (concat (take i ?es))))) (length (?es ! i)) = ?es ! i"
    if "i < length ?es" "length (concat ?es) < 2 ^ 32" for i
  proof -
    have "length (concat (take i ?es)) \<le> length (concat ?es)"
      by (metis append_take_drop_id concat_append le_add1 length_append)
    then show ?thesis using concat_slice [OF that(1)] that(2) by (simp add: le_nat_le_bytes)
  qed
  moreover have "\<forall>ty \<in> set (types t). \<forall>w. write_type ty (w, t) = (w @ type_entry t ty, t)"
    using write_type_known [OF ok deps_known [OF ok]] by blast
  ultimately show ?thesis by (intro exI [of _ ?bs]) (simp add: Let_def)
qed

theorem type_section_layout_witness:
  "let t = snd (intern_type (Tile \<lparr>tile_shape = [128], tile_element = F32\<rparr>) (tables_new PREVIEW_FIRST)) in
   \<exists>bs. type_section t = Some (bs, t) \<and> length (types t) = 2 \<and> slice bs 4 4 = le_bytes 4 0 \<and>
     slice bs 8 4 = le_bytes 4 (length (type_entry t (Scalar F32))) \<and>
     drop 12 bs = type_entry t (Scalar F32) @ type_entry t (Tile \<lparr>tile_shape = [128], tile_element = F32\<rparr>)"
proof -
  let ?t = "snd (intern_type (Tile \<lparr>tile_shape = [128], tile_element = F32\<rparr>) (tables_new PREVIEW_FIRST))"
  have "grown [] (tables_new PREVIEW_FIRST) (write_type_ref (Tile \<lparr>tile_shape = [128], tile_element = F32\<rparr>) ([], tables_new PREVIEW_FIRST))"
    using grown_refl [OF tables_ok_new] by (simp add: grown_intros)
  then have ok: "tables_ok ?t" by (simp add: grown_def write_type_ref_eq)
  have ty: "types ?t = [Scalar F32, Tile \<lparr>tile_shape = [128], tile_element = F32\<rparr>]"
    by (simp add: intern_type.simps push_type_def tables_new_def)
  have head: "length (align_to 4 (varint (Suc (Suc 0)) [])) = 4" by code_simp
  obtain bs where bs: "type_section ?t = Some (bs, ?t)"
    "\<forall>i < Suc (Suc 0). slice bs (4 + 4 * i) 4 = le_bytes 4 (length (concat (take i (map (type_entry ?t) (types ?t)))))"
    "drop 12 bs = concat (map (type_entry ?t) (types ?t))"
    using type_section_layout [OF ok] unfolding Let_def ty by (auto simp: head)
  then show ?thesis using bs(2) [rule_format, of 0] bs(2) [rule_format, of 1] unfolding ty Let_def by (auto simp: ty)
qed

section \<open>Modules\<close>

text \<open>The bytes of a module with the given function entries and tables.\<close>

definition module_head :: "BytecodeVersion \<Rightarrow> byte list" where
  "module_head v = MAGIC @ [word_of_nat (major v), word_of_nat (minor v)] @ le_bytes 2 CONTAINS_PREVIEW"

definition payloads :: "nat \<Rightarrow> byte list \<Rightarrow> Tables \<Rightarrow> (Section \<times> byte list \<times> nat) list" where
  "payloads n fs t = [(FuncSection, align_to 8 fs, 8), (DebugSection, debug_section n, 8),
     (TypeSection, table_bytes (map (type_entry t) (types t)), 4), (StringSection, table_bytes (map as_bytes (strings t)), 4)]"

fun framed :: "nat \<Rightarrow> (Section \<times> byte list \<times> nat) list \<Rightarrow> byte list" where
  "framed pos [] = [0]"
| "framed pos ((sec, p, a) # ps) = section_bytes sec p a pos @ framed (pos + length (section_bytes sec p a pos)) ps"

lemma read_framed:
  assumes "tot = pos + length (framed pos ps)" and "list_all (\<lambda>(sec, p, a). sec \<noteq> EndOfBytecode \<and> 1 < a \<and> a < 2 ^ 64) ps"
    and "tot < 2 ^ 64" and "length ps < fuel"
  shows "read_sections fuel tot (framed pos ps) = Some (map (\<lambda>(sec, p, a). (section_id sec, p)) ps)"
  using assms
proof (induction ps arbitrary: pos fuel)
  case Nil
  then obtain m where "fuel = Suc m" by (cases fuel) auto
  then show ?case by simp
next
  case (Cons s ps)
  obtain sec p a where s: "s = (sec, p, a)" by (cases s)
  obtain m where m: "fuel = Suc m" using Cons(5) by (cases fuel) auto
  let ?pos = "pos + length (section_bytes sec p a pos)"
  have "length p \<le> length (section_bytes sec p a pos)" by (simp add: section_bytes_def Let_def)
  then have "length p < 2 ^ 64" using Cons(2,4) s by simp
  then have "read_sections (Suc m) tot (section_bytes sec p a pos @ framed ?pos ps) =
      map_option (Cons (section_id sec, p)) (read_sections m tot (framed ?pos ps))"
    using Cons(2,3) s by (intro read_section) simp_all
  moreover have "read_sections m tot (framed ?pos ps) = Some (map (\<lambda>(sec, p, a). (section_id sec, p)) ps)"
    using Cons(2-5) s m by (intro Cons(1)) simp_all
  ultimately show ?case using s m by simp
qed

lemma write_module_eq:
  assumes "\<not> v < PREVIEW_FIRST" and "f (varint n [], tables_new v) = (fs, t)" and "types_ok t"
    and "length (concat (strings t)) < 2 ^ 32"
  shows "write_module v n f = Ok (module_head v @ framed 12 (payloads n fs t))"
  using assms(1)
  by (simp add: write_module_def assms(2) type_section_eq [OF assms(3)] string_section_eq [OF assms(4)] write_section_eq
      payloads_def Let_def add.assoc module_head_def MAGIC_def)

lemma payload_length: "(sec, p, a) \<in> set ps \<Longrightarrow> length p \<le> length (framed pos ps)"
  by (induction pos ps rule: framed.induct) (auto simp: section_bytes_def Let_def)

lemma module_readable:
  assumes "length (module_head v @ framed 12 (payloads n fs t)) < 2 ^ 64" (is "length ?out < _")
    and "length (concat (strings t)) < 2 ^ 32" and "list_all valid_str (strings t)"
  shows "sections ?out = Some (map (\<lambda>(sec, p, a). (section_id sec, p)) (payloads n fs t)) \<and> read_strings ?out = Some (strings t)"
proof -
  have len: "length (module_head v) = 12" by (simp add: module_head_def MAGIC_def)
  have head: "take 8 ?out = MAGIC" "drop 12 ?out = framed 12 (payloads n fs t)"
    using len by (simp_all add: module_head_def MAGIC_def)
  have "length (table_bytes (map as_bytes (strings t))) \<le> length (framed 12 (payloads n fs t))"
    by (rule payload_length [of StringSection _ 4]) (simp add: payloads_def)
  then have small: "length (strings t) < 2 ^ 64" using assms(1) by (simp add: table_bytes_def)
  have secs: "sections ?out = Some (map (\<lambda>(sec, p, a). (section_id sec, p)) (payloads n fs t))"
    unfolding sections_def head using len assms(1)
    by (subst read_framed) (simp_all add: payloads_def)
  moreover have "section_payload ?out 1 = Some (table_bytes (map as_bytes (strings t)))"
    unfolding section_payload_def secs by (simp add: payloads_def)
  moreover have "read_table (table_bytes (map as_bytes (strings t))) = Some (map as_bytes (strings t))"
    using assms(2) small by (intro read_table_eq) (simp_all add: length_concat comp_def)
  ultimately show ?thesis using assms(3) by (simp add: read_strings_def list_all_iff valid_str_def comp_def)
qed

text \<open>(C4) The modules of a library are read back: below version 13.5 both halves are refused with that version;
  from 13.5 on, with fewer than \<open>2 ^ 32\<close> bytes of interned strings, both are written without panic,
  and the reader finds in each the magic bytes, exactly the function, debug, type and string sections in
  that order with their payloads, the end marker, and in the string table the interned strings.\<close>

theorem modules_readable:
  assumes "write_all write_declaration 0 (declarations lib) (varint (length (declarations lib)) [], tables_new v) = (fs, t)"
    and "write_all write_implementation 0 (implementations lib) (varint (length (implementations lib)) [], tables_new v) = (gs, u)"
    and "length (concat (strings t)) < 2 ^ 32" and "length (concat (strings u)) < 2 ^ 32"
    and "list_all valid_str (strings t)" and "list_all valid_str (strings u)"
  shows "if v < PREVIEW_FIRST
    then interface_bytecode lib v = Err (Version v) \<and> implementation_bytecode lib v = Err (Version v)
    else \<exists>a b. interface_bytecode lib v = Ok a \<and> implementation_bytecode lib v = Ok b \<and>
      (length a < 2 ^ 64 \<longrightarrow> sections a = Some [(2, align_to 8 fs), (3, debug_section (length (declarations lib))),
         (5, table_bytes (map (type_entry t) (types t))), (1, table_bytes (map as_bytes (strings t)))] \<and>
         read_strings a = Some (strings t)) \<and>
      (length b < 2 ^ 64 \<longrightarrow> sections b = Some [(2, align_to 8 gs), (3, debug_section (length (implementations lib))),
         (5, table_bytes (map (type_entry u) (types u))), (1, table_bytes (map as_bytes (strings u)))] \<and>
         read_strings b = Some (strings u))"
proof (cases "v < PREVIEW_FIRST")
  case True
  then show ?thesis by (simp add: interface_bytecode_def implementation_bytecode_def write_module_def)
next
  case False
  have "grown w (tables_new v) (write_all write_declaration 0 ds (w, tables_new v))"
      "grown w (tables_new v) (write_all write_implementation 0 is (w, tables_new v))" for w ds "is"
    by (intro grown_write_all grown_declaration grown_implementation grown_refl tables_ok_new; assumption)+
  then have "types_ok t" "types_ok u" using assms(1,2) by (metis grown_def snd_conv tables_ok_def)+
  note w = write_module_eq [of v "write_all write_declaration 0 (declarations lib)", OF False assms(1) this(1) assms(3)]
    write_module_eq [of v "write_all write_implementation 0 (implementations lib)", OF False assms(2) this(2) assms(4)]
  show ?thesis
    using False w module_readable [OF _ assms(3,5), of v "length (declarations lib)" fs]
      module_readable [OF _ assms(4,6), of v "length (implementations lib)" gs]
    by (simp add: interface_bytecode_def implementation_bytecode_def) (simp add: payloads_def)
qed

text \<open>The library of the crate's own tests: one declaration with one argument, and its implementation.\<close>

definition scale_library :: Library where
  "scale_library =
     (let tile = \<lparr>tile_shape = [128], tile_element = F32\<rparr>;
          fragment = \<lparr>frag_shape = [1], frag_element = F32, memory_space = Local, mem_layout = contiguous_mem 1,
                      fragmap = elementwise 128\<rparr> in
      \<lparr>lib_name = ''tilelib'',
       declarations = [\<lparr>decl_name = ''tilelib_scale'', decl_args = [\<lparr>targ_name = ''arg0'', targ_ty = tile, targ_access = InOut\<rparr>]\<rparr>],
       implementations = [implementation_new ''tilelib_scale_impl'' ''tilelib_scale''
         [\<lparr>farg_name = ''arg0'', farg_fragment = fragment, farg_access = InOut\<rparr>]]\<rparr>)"

lemma scale_strings:
  "strings (snd (write_all write_declaration 0 (declarations scale_library)
     (varint (length (declarations scale_library)) [], tables_new PREVIEW_FIRST))) = [''tilelib_scale'', ACCESS_ATTR]"
  "strings (snd (write_all write_implementation 0 (implementations scale_library)
     (varint (length (implementations scale_library)) [], tables_new PREVIEW_FIRST))) =
   [''tilelib_scale_impl'', ''tilelib_scale'', ACCESS_ATTR]"
  by (simp_all add: scale_library_def Let_def write_declaration_def write_implementation_def implementation_new_def
      write_string_ref_def write_type_ref_def intern_string_def intern_type.simps push_type_def tables_new_def
      write_arg_attrs_def write_access_dictionary_def write_arch_def write_frontend_abi_def ACCESS_ATTR_def
      declaration_signature_def implementation_signature_def decl_results_def is_written_def)

theorem modules_readable_witness:
  "\<exists>a b. interface_bytecode scale_library PREVIEW_FIRST = Ok a \<and> implementation_bytecode scale_library PREVIEW_FIRST = Ok b \<and>
     (length a < 2 ^ 64 \<longrightarrow> read_strings a = Some [''tilelib_scale'', ACCESS_ATTR])"
proof -
  have valid: "list_all valid_str [''tilelib_scale_impl'', ''tilelib_scale'', ACCESS_ATTR]" by code_simp
  obtain fs t where t: "write_all write_declaration 0 (declarations scale_library)
     (varint (length (declarations scale_library)) [], tables_new PREVIEW_FIRST) = (fs, t)" by fastforce
  obtain gs u where u: "write_all write_implementation 0 (implementations scale_library)
     (varint (length (implementations scale_library)) [], tables_new PREVIEW_FIRST) = (gs, u)" by fastforce
  have s: "strings t = [''tilelib_scale'', ACCESS_ATTR]" "strings u = [''tilelib_scale_impl'', ''tilelib_scale'', ACCESS_ATTR]"
    using scale_strings t u by simp_all
  have "length (concat (strings t)) < 2 ^ 32" "length (concat (strings u)) < 2 ^ 32" unfolding s by (simp_all add: ACCESS_ATTR_def)
  from modules_readable [OF t u this] show ?thesis using s valid by auto
qed

end
