(* ===== verification/Tile_Verify.thy ===== *)
theory Tile_Verify
  imports Tile_Model
begin

text \<open>
  The structural rules of a tile library (\<open>oxide-tilebc/src/verify.rs\<close>), every rule with its error message, and its
  readable form (\<open>text.rs\<close>). A \<open>Panic\<close> is an overflow of an \<open>i64\<close> product.
\<close>

section \<open>Verification\<close>

definition ident_start :: "char \<Rightarrow> bool" where
  "ident_start c =
     (let n = of_char c :: nat in c = CHR ''_'' \<or> 65 \<le> n \<and> n \<le> 90 \<or> 97 \<le> n \<and> n \<le> 122)"

definition is_identifier :: "string \<Rightarrow> bool" where
  "is_identifier s = (case s of [] \<Rightarrow> False | c # cs \<Rightarrow> ident_start c \<and> list_all (\<lambda>c. ident_start c \<or> is_digit c) cs)"

definition at_declaration :: "Declaration \<Rightarrow> string \<Rightarrow> TileError" where
  "at_declaration decl message = Verify (''declaration @'' @ decl_name decl @ '': '' @ message)"

fun verify_args :: "Declaration \<Rightarrow> string list \<Rightarrow> TileArg list \<Rightarrow> (unit, TileError) outcome" where
  "verify_args decl seen [] = Ok ()"
| "verify_args decl seen (arg # args) =
     (if \<not> is_identifier (targ_name arg)
      then Err (at_declaration decl (''argument name `'' @ targ_name arg @ ''` is not an identifier''))
      else if targ_name arg \<in> set seen
      then Err (at_declaration decl (''argument `'' @ targ_name arg @ ''` appears twice''))
      else if length (tile_shape (targ_ty arg)) \<noteq> 1
      then Err (at_declaration decl (''argument `'' @ targ_name arg @ ''` has '' @ show_nat (length (tile_shape (targ_ty arg))) @
             '' dimensions; this writer emits one-dimensional tiles''))
      else if tile_shape (targ_ty arg) ! 0 \<le> 0
      then Err (at_declaration decl (''argument `'' @ targ_name arg @ ''` has a non-positive extent''))
      else verify_args decl (seen @ [targ_name arg]) args)"

definition written_indices :: "TileArg list \<Rightarrow> nat list" where
  "written_indices args = filter (\<lambda>i. is_written (targ_access (args ! i))) [0..<length args]"

definition verify_declaration :: "Declaration \<Rightarrow> (unit, TileError) outcome" where
  "verify_declaration decl =
     (if \<not> is_identifier (decl_name decl)
      then Err (Verify (''declaration name `'' @ decl_name decl @ ''` is not an identifier''))
      else if decl_args decl = [] then Err (at_declaration decl ''a declaration needs at least one argument'')
      else
      try_let (verify_args decl [] (decl_args decl)) (\<lambda>_.
      let written = written_indices (decl_args decl) in
      if written = []
      then Err (at_declaration decl ''no argument is written; a declaration's results are its out and inout arguments'')
      else if last written - hd written + 1 \<noteq> length written
      then Err (at_declaration decl (''written arguments must form one contiguous run; `'' @
             (case find (\<lambda>a. \<not> is_written (targ_access a)) (slice (decl_args decl) (hd written + 1) (last written - (hd written + 1))) of
                Some a \<Rightarrow> targ_name a | None \<Rightarrow> ''?'') @ ''` sits between them''))
      else Ok ()))"

definition verify_fragment :: "FragmentArg \<Rightarrow> int \<Rightarrow> ScalarType \<Rightarrow> int \<Rightarrow> (unit, string) outcome" where
  "verify_fragment arg tile_elements element promised =
     (let fragment = farg_fragment arg in
      if frag_element fragment \<noteq> element
      then Err (''fragment element type '' @ scalar_name (frag_element fragment) @ '' differs from the tile element type '' @
             scalar_name element)
      else if frag_shape fragment = [] \<or> list_ex (\<lambda>d. d \<le> 0) (frag_shape fragment)
      then Err ''fragment shape must have positive extents''
      else
      try_let (or_panic (footprint fragment)) (\<lambda>fp.
      let fm = fragmap fragment in
      if tile_layout_rank fm \<noteq> 3 \<or> length (strides fm) \<noteq> 3
      then Err (''fragmap must have three modes (invocations, participants, footprint), found '' @ show_nat (tile_layout_rank fm))
      else if shapes fm ! 2 \<noteq> fp
      then Err (''fragmap footprint '' @ show_int (shapes fm ! 2) @ '' differs from the fragment's '' @ show_int fp @ '' elements'')
      else
      try_let (or_panic (tile_layout_size fm)) (\<lambda>covered.
      if covered \<noteq> tile_elements
      then Err (''fragmap covers '' @ show_int covered @ '' elements of a '' @ show_int tile_elements @ ''-element tile'')
      else if promised \<noteq> 0 \<and> shapes fm ! 1 \<noteq> promised
      then Err (''fragmap has '' @ show_int (shapes fm ! 1) @ '' participants but the synchronization clause promises '' @
             show_int promised)
      else
      let mem = mem_layout fragment in
      if length (shapes mem) \<noteq> length (strides mem) then Err ''mem_layout shapes and strides differ in length''
      else if tile_layout_rank mem = 0
      then if fp \<noteq> 1 then Err ''a rank-0 mem_layout needs a one-element footprint''
           else if farg_access arg \<noteq> In \<or> memory_space fragment \<noteq> Local
           then Err ''a rank-0 mem_layout (passed by value) is only valid for a read-only local fragment''
           else Ok ()
      else
      try_let (or_panic (tile_layout_size mem)) (\<lambda>span.
      if span \<noteq> fp
      then Err (''mem_layout spans '' @ show_int span @ '' elements but the footprint is '' @ show_int fp)
      else Ok ()))))"

definition at_implementation :: "Implementation \<Rightarrow> string \<Rightarrow> TileError" where
  "at_implementation imp message = Verify (''implementation @'' @ imp_symbol imp @ '': '' @ message)"

definition verify_argument :: "Implementation \<Rightarrow> int \<Rightarrow> FragmentArg \<times> TileArg \<Rightarrow> (unit, TileError) outcome" where
  "verify_argument imp promised = (\<lambda>(arg, decl_arg).
     try_let (or_panic (tile_size (targ_ty decl_arg))) (\<lambda>size.
     try_let (map_err (\<lambda>m. at_implementation imp (''argument `'' @ farg_name arg @ ''`: '' @ m))
       (verify_fragment arg size (tile_element (targ_ty decl_arg)) promised)) (\<lambda>_.
     if farg_access arg \<noteq> targ_access decl_arg
     then Err (at_implementation imp (''argument `'' @ farg_name arg @ ''` is `'' @ access_name (farg_access arg) @
            ''` but the declaration says `'' @ access_name (targ_access decl_arg) @ ''`''))
     else Ok ())))"

definition verify_implementation :: "Implementation \<Rightarrow> Declaration \<Rightarrow> (unit, TileError) outcome" where
  "verify_implementation imp decl =
     (if \<not> is_identifier (imp_symbol imp)
      then Err (Verify (''implementation symbol `'' @ imp_symbol imp @ ''` is not an identifier''))
      else if length (imp_args imp) \<noteq> length (decl_args decl)
      then Err (at_implementation imp (show_nat (length (imp_args imp)) @ '' fragment arguments for the '' @
             show_nat (length (decl_args decl)) @ '' arguments of @'' @ decl_name decl))
      else
      let promised = (case synchronization imp of None \<Rightarrow> 1 | Some sync \<Rightarrow> participants sync) in
      try_let (for_each (verify_argument imp promised) (zip (imp_args imp) (decl_args decl))) (\<lambda>_.
      for_each (\<lambda>name. if name = '''' then Err (at_implementation imp ''an empty arch name'') else Ok ()) (arch imp)))"

fun verify_declarations :: "string list \<Rightarrow> Declaration list \<Rightarrow> (unit, TileError) outcome" where
  "verify_declarations names [] = Ok ()"
| "verify_declarations names (decl # decls) =
     try_let (verify_declaration decl) (\<lambda>_.
     if decl_name decl \<in> set names then Err (Verify (''declaration @'' @ decl_name decl @ '' appears twice''))
     else verify_declarations (names @ [decl_name decl]) decls)"

fun verify_implementations :: "Declaration list \<Rightarrow> string list \<Rightarrow> Implementation list \<Rightarrow> (unit, TileError) outcome" where
  "verify_implementations decls symbols [] = Ok ()"
| "verify_implementations decls symbols (imp # imps) =
     (if imp_symbol imp \<in> set symbols then Err (Verify (''implementation @'' @ imp_symbol imp @ '' appears twice''))
      else
      try_let (ok_or (find (\<lambda>decl. decl_name decl = implements imp) decls)
        (Verify (''implementation @'' @ imp_symbol imp @ '' implements @'' @ implements imp @
           '', which the interface does not declare''))) (\<lambda>decl.
      try_let (verify_implementation imp decl) (\<lambda>_.
      verify_implementations decls (symbols @ [imp_symbol imp]) imps)))"

definition verify_library :: "Library \<Rightarrow> (unit, TileError) outcome" where
  "verify_library self =
     (if \<not> is_identifier (lib_name self) then Err (Verify (''module name `'' @ lib_name self @ ''` is not an identifier''))
      else
      try_let (verify_declarations [] (declarations self)) (\<lambda>_.
      verify_implementations (declarations self) [] (implementations self)))"

section \<open>Text\<close>

fun join :: "string \<Rightarrow> string list \<Rightarrow> string" where
  "join sep [] = ''''"
| "join sep [x] = x"
| "join sep (x # y # xs) = x @ sep @ join sep (y # xs)"

definition layout_text :: "TileLayout \<Rightarrow> string" where
  "layout_text l = ''#cuda_tile.preview$layout<('' @ join '', '' (map show_int (shapes l)) @ ''):('' @
     join '', '' (map show_int (strides l)) @ '')>''"

definition tile_text :: "TileType \<Rightarrow> string" where
  "tile_text ty = ''!cuda_tile.tile<'' @ join ''x'' (map show_int (tile_shape ty)) @ ''x'' @ scalar_name (tile_element ty) @ ''>''"

definition fragment_text :: "FragmentType \<Rightarrow> string" where
  "fragment_text ty = ''!cuda_tile.preview$fragment<'' @ join ''x'' (map show_int (frag_shape ty)) @ ''x'' @
     scalar_name (frag_element ty) @ '', '' @ space_name (memory_space ty) @ '', mem_layout = '' @ layout_text (mem_layout ty) @
     '', fragmap = '' @ layout_text (fragmap ty) @ ''>''"

definition access_text :: "Access \<Rightarrow> string" where
  "access_text a = ''{cuda_tile.preview$access = #cuda_tile.preview$access<'' @ access_name a @ ''>}''"

definition line_break :: string where
  "line_break = [CHR 0x0A]"

definition quoted :: "string \<Rightarrow> string" where
  "quoted s = CHR 0x22 # s @ [CHR 0x22]"

definition declaration_text :: "Declaration \<Rightarrow> string" where
  "declaration_text decl =
     (let args = map (\<lambda>a. ''%'' @ targ_name a @ '': '' @ tile_text (targ_ty a) @ '' '' @ access_text (targ_access a)) (decl_args decl);
          results = map tile_text (decl_results decl);
          results = (if length results = 1 then results ! 0 else ''('' @ join '', '' results @ '')'') in
      ''  cuda_tile.preview$func extern @'' @ decl_name decl @ ''('' @ join '', '' args @ '') -> '' @ results @ line_break)"

definition implementation_text_of :: "Implementation \<Rightarrow> string" where
  "implementation_text_of imp =
     (let args = map (\<lambda>a. ''%'' @ farg_name a @ '': '' @ fragment_text (farg_fragment a) @ '' '' @ access_text (farg_access a)) (imp_args imp);
          out = ''  cuda_tile.preview$extern_impl @'' @ imp_symbol imp @ '' implements @'' @ implements imp @ ''('' @ join '', '' args @ '')'';
          out = (case synchronization imp of
                   Some sync \<Rightarrow> out @ line_break @ ''    synchronization = #cuda_tile.preview$synchronization<'' @ sync_name sync @ ''>''
                 | None \<Rightarrow> out);
          out = (if arch imp \<noteq> [] then out @ line_break @ ''    arch = ['' @ join '', '' (map quoted (arch imp)) @ '']'' else out);
          out = (if frontend_abi imp \<noteq> []
                 then out @ line_break @ ''    {frontendABI = {'' @ join '', '' (map (\<lambda>(k, v). k @ '' = '' @ quoted v) (frontend_abi imp)) @ ''}}''
                 else out) in
      out @ line_break)"

definition module_text :: "Library \<Rightarrow> string list \<Rightarrow> string" where
  "module_text self entries = ''cuda_tile.module @'' @ lib_name self @ '' {'' @ line_break @ concat entries @ ''}'' @ line_break"

definition interface_text :: "Library \<Rightarrow> string" where
  "interface_text self = module_text self (map declaration_text (declarations self))"

definition implementation_text :: "Library \<Rightarrow> string" where
  "implementation_text self = module_text self (map implementation_text_of (implementations self))"

end
