(* ===== verification/Tile_Verify_Properties.thy ===== *)
theory Tile_Verify_Properties
  imports Tile_Verify
begin

text \<open>
  The verifier accepts exactly the libraries that satisfy its rules, stated without its loops; accepted
  versions are read back from their text.
\<close>

section \<open>The rules\<close>

text \<open>One argument of a declaration: an identifier and a one-dimensional tile of positive extent.\<close>

definition targ_ok :: "TileArg \<Rightarrow> bool" where
  "targ_ok a \<longleftrightarrow> is_identifier (targ_name a) \<and> (\<exists>e > 0. tile_shape (targ_ty a) = [e])"

text \<open>A declaration: distinct arguments, and the written ones form one non-empty run.\<close>

definition decl_ok :: "Declaration \<Rightarrow> bool" where
  "decl_ok d \<longleftrightarrow> is_identifier (decl_name d) \<and> list_all targ_ok (decl_args d) \<and> distinct (map targ_name (decl_args d)) \<and>
     (\<exists>pre mid post. decl_args d = pre @ mid @ post \<and> mid \<noteq> [] \<and> list_all (\<lambda>a. is_written (targ_access a)) mid \<and>
        list_all (\<lambda>a. \<not> is_written (targ_access a)) (pre @ post))"

text \<open>A fragment covers a tile: same element type, positive footprint, three modes whose product is the tile,
  the promised participants, and a buffer that holds the footprint or, by value, one read-only local element.\<close>

definition farg_ok :: "int \<Rightarrow> FragmentArg \<Rightarrow> TileArg \<Rightarrow> bool" where
  "farg_ok promised a d \<longleftrightarrow>
     (let f = farg_fragment a in
      farg_access a = targ_access d \<and> frag_element f = tile_element (targ_ty d) \<and> frag_shape f \<noteq> [] \<and> list_all (\<lambda>e. e > 0) (frag_shape f) \<and>
      (\<exists>fp size inv par.
         footprint f = Some fp \<and> tile_size (targ_ty d) = Some size \<and>
         shapes (fragmap f) = [inv, par, fp] \<and> length (strides (fragmap f)) = 3 \<and> tile_layout_size (fragmap f) = Some size \<and>
         (promised = 0 \<or> par = promised) \<and> length (shapes (mem_layout f)) = length (strides (mem_layout f)) \<and>
         (if shapes (mem_layout f) = [] then fp = 1 \<and> farg_access a = In \<and> memory_space f = Local
          else tile_layout_size (mem_layout f) = Some fp)))"

definition promised_participants :: "Implementation \<Rightarrow> int" where
  "promised_participants imp = (case synchronization imp of None \<Rightarrow> 1 | Some sync \<Rightarrow> participants sync)"

definition imp_ok :: "Implementation \<Rightarrow> Declaration \<Rightarrow> bool" where
  "imp_ok imp d \<longleftrightarrow> is_identifier (imp_symbol imp) \<and> list_all2 (farg_ok (promised_participants imp)) (imp_args imp) (decl_args d) \<and>
     '''' \<notin> set (arch imp)"

definition library_ok :: "Library \<Rightarrow> bool" where
  "library_ok lib \<longleftrightarrow> is_identifier (lib_name lib) \<and>
     list_all decl_ok (declarations lib) \<and> distinct (map decl_name (declarations lib)) \<and>
     distinct (map imp_symbol (implementations lib)) \<and>
     list_all (\<lambda>imp. \<exists>d \<in> set (declarations lib). decl_name d = implements imp \<and> imp_ok imp d) (implementations lib)"

section \<open>Declarations\<close>

lemma verify_args_Ok:
  "verify_args d seen args = Ok () \<longleftrightarrow> list_all targ_ok args \<and> distinct (map targ_name args) \<and> set seen \<inter> targ_name ` set args = {}"
proof (induction args arbitrary: seen)
  case (Cons a args)
  have one: "length s = 1 \<and> \<not> s ! 0 \<le> 0 \<longleftrightarrow> (\<exists>e > 0. s = [e])" for s :: "int list"
    by (cases s) auto
  have "verify_args d seen (a # args) = Ok () \<longleftrightarrow>
      targ_ok a \<and> targ_name a \<notin> set seen \<and> verify_args d (seen @ [targ_name a]) args = Ok ()"
    using one [of "tile_shape (targ_ty a)"] by (auto simp: targ_ok_def)
  then show ?case by (auto simp: Cons)
qed simp

lemma sorted_filter_upt: "sorted (filter P [0..<n])"
  by (rule sorted_wrt_filter) simp

lemma run_filter:
  assumes "ws = filter P [0..<n]" and "ws \<noteq> []"
  shows "last ws - hd ws + 1 = length ws \<longleftrightarrow> set ws = {hd ws..last ws}"
proof -
  have sorted: "sorted ws" "distinct ws" using assms(1) by (simp_all add: sorted_filter_upt)
  have le: "hd ws \<le> x \<and> x \<le> last ws" if x: "x \<in> set ws" for x
  proof -
    obtain i where "i < length ws" "x = ws ! i" using x by (auto simp: in_set_conv_nth)
    then show ?thesis using sorted(1) assms(2) sorted_nth_mono [of ws 0 i] sorted_nth_mono [of ws i "length ws - 1"]
      by (simp add: hd_conv_nth last_conv_nth)
  qed
  then have sub: "set ws \<subseteq> {hd ws..last ws}" by auto
  have "hd ws \<le> last ws" using le [of "hd ws"] assms(2) by simp
  then have "card {hd ws..last ws} = last ws - hd ws + 1" by simp
  moreover have "card (set ws) = length ws" using sorted(2) by (rule distinct_card)
  ultimately show ?thesis using sub card_subset_eq [of "{hd ws..last ws}" "set ws"] by auto
qed

lemma written_set: "set (written_indices args) = {i. i < length args \<and> is_written (targ_access (args ! i))}"
  by (auto simp: written_indices_def)

lemma written_run:
  "written_indices args \<noteq> [] \<and> last (written_indices args) - hd (written_indices args) + 1 = length (written_indices args) \<longleftrightarrow>
   (\<exists>pre mid post. args = pre @ mid @ post \<and> mid \<noteq> [] \<and> list_all (\<lambda>a. is_written (targ_access a)) mid \<and>
      list_all (\<lambda>a. \<not> is_written (targ_access a)) (pre @ post))" (is "?ws \<noteq> [] \<and> ?run \<longleftrightarrow> ?split")
proof
  assume run: "?ws \<noteq> [] \<and> ?run"
  then have set: "set ?ws = {hd ?ws..last ?ws}" using run_filter [OF written_indices_def [of args]] by blast
  let ?i = "hd ?ws" and ?j = "last ?ws"
  have w: "is_written (targ_access (args ! k)) \<longleftrightarrow> ?i \<le> k \<and> k \<le> ?j" if "k < length args" for k
    using that set written_set [of args] by auto
  have ij: "?i \<le> ?j" "?j < length args" using run set written_set [of args] last_in_set [of ?ws] hd_in_set [of ?ws] by auto
  have "args = take ?i args @ take (Suc ?j - ?i) (drop ?i args) @ drop (Suc ?j) args"
    using ij by (metis append_take_drop_id drop_drop le_SucI le_add_diff_inverse2)
  moreover have "list_all (\<lambda>a. is_written (targ_access a)) (take (Suc ?j - ?i) (drop ?i args))"
    using ij w by (auto simp: list_all_length)
  moreover have "list_all (\<lambda>a. \<not> is_written (targ_access a)) (take ?i args @ drop (Suc ?j) args)"
    using ij w by (auto simp: list_all_length nth_append)
  moreover have "take (Suc ?j - ?i) (drop ?i args) \<noteq> []" using ij by auto
  ultimately show ?split by blast
next
  assume ?split
  then obtain pre mid post where s: "args = pre @ mid @ post" "mid \<noteq> []" "list_all (\<lambda>a. is_written (targ_access a)) mid"
    "list_all (\<lambda>a. \<not> is_written (targ_access a)) (pre @ post)" by blast
  have "written_indices args = filter (\<lambda>i. length pre \<le> i \<and> i < length pre + length mid) [0..<length args]"
  proof -
    have "list_all (\<lambda>a. \<not> is_written (targ_access a)) pre" "list_all (\<lambda>a. \<not> is_written (targ_access a)) post"
      using s(4) by simp_all
    then show ?thesis
      unfolding written_indices_def list_all_length using s(1,3) by (intro filter_cong) (auto simp: nth_append list_all_length)
  qed
  also have "\<dots> = [length pre..<length pre + length mid]"
    using s(1) by (intro sorted_distinct_set_unique) (auto simp: sorted_filter_upt)
  finally show "?ws \<noteq> [] \<and> ?run" using s(2) by simp
qed

lemma verify_declaration_Ok: "verify_declaration d = Ok () \<longleftrightarrow> decl_ok d"
proof -
  have "verify_declaration d = Ok () \<longleftrightarrow> is_identifier (decl_name d) \<and> decl_args d \<noteq> [] \<and>
      verify_args d [] (decl_args d) = Ok () \<and> written_indices (decl_args d) \<noteq> [] \<and>
      last (written_indices (decl_args d)) - hd (written_indices (decl_args d)) + 1 = length (written_indices (decl_args d))"
    by (simp add: verify_declaration_def try_let_Ok_iff Let_def)
  also have "\<dots> \<longleftrightarrow> decl_ok d"
    unfolding verify_args_Ok decl_ok_def written_run [symmetric] by (auto simp: written_indices_def)
  finally show ?thesis .
qed

lemma verify_declarations_Ok:
  "verify_declarations names ds = Ok () \<longleftrightarrow>
     list_all decl_ok ds \<and> distinct (map decl_name ds) \<and> set names \<inter> decl_name ` set ds = {}"
  by (induction ds arbitrary: names) (auto simp: try_let_Ok_iff verify_declaration_Ok)

section \<open>Implementations\<close>

lemma three_modes: "length xs = 3 \<Longrightarrow> xs = [xs ! 0, xs ! 1, xs ! 2]"
  by (auto simp: numeral_3_eq_3 length_Suc_conv)

lemma all_positive: "\<not> list_ex (\<lambda>d. d \<le> 0) xs \<longleftrightarrow> list_all (\<lambda>e. e > 0) xs" for xs :: "int list"
  by (auto simp: list_ex_iff list_all_iff)

lemma guard_Ok_iff: "(if c then Err e else m) = Ok x \<longleftrightarrow> \<not> c \<and> m = Ok x"
  by simp

lemma verify_fragment_steps:
  "verify_fragment a sz el promised = Ok () \<longleftrightarrow>
     (let f = farg_fragment a in
      frag_element f = el \<and> frag_shape f \<noteq> [] \<and> list_all (\<lambda>e. e > 0) (frag_shape f) \<and>
      (\<exists>fp. footprint f = Some fp \<and> length (shapes (fragmap f)) = 3 \<and> length (strides (fragmap f)) = 3 \<and>
         shapes (fragmap f) ! 2 = fp \<and> tile_layout_size (fragmap f) = Some sz \<and>
         (promised = 0 \<or> shapes (fragmap f) ! 1 = promised) \<and> length (shapes (mem_layout f)) = length (strides (mem_layout f)) \<and>
         (if shapes (mem_layout f) = [] then fp = 1 \<and> farg_access a = In \<and> memory_space f = Local
          else tile_layout_size (mem_layout f) = Some fp)))"
  unfolding verify_fragment_def Let_def guard_Ok_iff try_let_Ok_iff or_panic_Ok_iff tile_layout_rank_def de_Morgan_disj all_positive
  by (auto simp: guard_Ok_iff try_let_Ok_iff or_panic_Ok_iff)

lemma verify_argument_Ok: "verify_argument imp promised (a, d) = Ok () \<longleftrightarrow> farg_ok promised a d"
proof -
  let ?f = "farg_fragment a"
  have modes: "length (shapes (fragmap ?f)) = 3 \<and> shapes (fragmap ?f) ! 2 = fp \<and> (promised = 0 \<or> shapes (fragmap ?f) ! 1 = promised) \<longleftrightarrow>
      (\<exists>inv par. shapes (fragmap ?f) = [inv, par, fp] \<and> (promised = 0 \<or> par = promised))" for fp
    using three_modes [of "shapes (fragmap ?f)"] by auto
  have "verify_argument imp promised (a, d) = Ok () \<longleftrightarrow>
      (\<exists>sz. tile_size (targ_ty d) = Some sz \<and>
        verify_fragment a sz (tile_element (targ_ty d)) promised = Ok () \<and> farg_access a = targ_access d)"
    by (auto simp: verify_argument_def try_let_Ok_iff or_panic_Ok_iff map_err_Ok_iff)
  then show ?thesis unfolding verify_fragment_steps farg_ok_def Let_def using modes by blast
qed

lemma verify_implementation_Ok: "verify_implementation imp d = Ok () \<longleftrightarrow> imp_ok imp d"
proof -
  have args: "(\<forall>x \<in> set (zip (imp_args imp) (decl_args d)). verify_argument imp p x = Ok ()) \<longleftrightarrow>
      (\<forall>(a, b) \<in> set (zip (imp_args imp) (decl_args d)). farg_ok p a b)" for p
    by (auto simp: verify_argument_Ok)
  have "verify_implementation imp d = Ok () \<longleftrightarrow> is_identifier (imp_symbol imp) \<and> length (imp_args imp) = length (decl_args d) \<and>
      (\<forall>x \<in> set (zip (imp_args imp) (decl_args d)). verify_argument imp (promised_participants imp) x = Ok ()) \<and> [] \<notin> set (arch imp)"
    by (auto simp: verify_implementation_def Let_def try_let_Ok_iff for_each_Ok_iff promised_participants_def)
  then show ?thesis unfolding args by (auto simp: imp_ok_def list_all2_iff)
qed

lemma find_named: "distinct (map decl_name ds) \<Longrightarrow>
    find (\<lambda>d. decl_name d = n) ds = Some d \<longleftrightarrow> d \<in> set ds \<and> decl_name d = n"
  by (induction ds) auto

lemma verify_implementations_Ok:
  assumes "distinct (map decl_name ds)"
  shows "verify_implementations ds symbols imps = Ok () \<longleftrightarrow>
     distinct (map imp_symbol imps) \<and> set symbols \<inter> imp_symbol ` set imps = {} \<and>
     list_all (\<lambda>imp. \<exists>d \<in> set ds. decl_name d = implements imp \<and> imp_ok imp d) imps"
proof (induction imps arbitrary: symbols)
  case (Cons imp imps)
  have "(\<exists>d. find (\<lambda>d. decl_name d = implements imp) ds = Some d \<and> imp_ok imp d) \<longleftrightarrow>
      (\<exists>d \<in> set ds. decl_name d = implements imp \<and> imp_ok imp d)"
    using find_named [OF assms, of "implements imp"] by auto
  then show ?case by (auto simp: try_let_Ok_iff ok_or_Ok_iff verify_implementation_Ok Cons)
qed simp

text \<open>(C32) The verifier is exact: it accepts a library if and only if its name is an identifier, declarations and
  symbols are unique, every declaration has one-dimensional tiles of positive extent with distinct
  identifiers and one contiguous non-empty run of written arguments, and every implementation has an identifier
  as symbol, no empty architecture name, and a declaration whose arguments its fragments match one by one in access
  and element type, with a non-empty shape of positive extents, modes (invocations, participants, footprint) whose
  product is the tile, the participants its synchronization promises (one without a synchronization, any number
  when it promises 0), and a buffer that holds the
  footprint, or a rank-0 buffer for one element read by value from local memory.\<close>

theorem verify_exact: "verify_library lib = Ok () \<longleftrightarrow> library_ok lib"
proof -
  have "verify_library lib = Ok () \<longleftrightarrow> is_identifier (lib_name lib) \<and>
      verify_declarations [] (declarations lib) = Ok () \<and> verify_implementations (declarations lib) [] (implementations lib) = Ok ()"
    by (simp add: verify_library_def try_let_Ok_iff)
  then show ?thesis using verify_implementations_Ok [of "declarations lib" "[]"]
    by (auto simp: library_ok_def verify_declarations_Ok)
qed

end
