(* ===== verification/Ptx_Source.thy ===== *)
theory Ptx_Source
  imports Oxide_Text
begin

text \<open>
  PTX source text, as every module of \<open>ptx-parse\<close> sees it: a \<open>&str\<close> is its list of UTF-8 bytes,
  a span is a half-open byte range, and slicing panics off a character boundary.
\<close>

type_synonym range = "nat \<times> nat"

abbreviation "range_start \<equiv> (fst :: range \<Rightarrow> nat)"
abbreviation "range_end \<equiv> (snd :: range \<Rightarrow> nat)"

text \<open>\<open>Range::is_empty\<close> and \<open>Range::len\<close>.\<close>

definition range_is_empty :: "range \<Rightarrow> bool" where
  "range_is_empty r \<longleftrightarrow> \<not> range_start r < range_end r"

definition range_len :: "range \<Rightarrow> nat" where
  "range_len r = range_end r - range_start r"

definition byte_val :: "char \<Rightarrow> nat" where
  "byte_val c = of_char c"

text \<open>\<open>str::is_char_boundary\<close>: the ends of the text and every byte that is not a continuation byte.\<close>

definition is_cont :: "char \<Rightarrow> bool" where
  "is_cont c \<longleftrightarrow> 0x80 \<le> byte_val c \<and> byte_val c < 0xC0"

definition is_char_boundary :: "string \<Rightarrow> nat \<Rightarrow> bool" where
  "is_char_boundary source off \<longleftrightarrow>
     off = 0 \<or> off = length source \<or> off < length source \<and> \<not> is_cont (source ! off)"

text \<open>\<open>&source[a..b]\<close>, \<open>None\<close> being the panic.\<close>

definition str_slice :: "string \<Rightarrow> nat \<Rightarrow> nat \<Rightarrow> string option" where
  "str_slice source a b =
     (if a \<le> b \<and> b \<le> length source \<and> is_char_boundary source a \<and> is_char_boundary source b
      then Some (take (b - a) (drop a source)) else None)"

text \<open>\<open>char::len_utf8\<close> of the character a lead byte starts.\<close>

definition len_utf8 :: "char \<Rightarrow> nat" where
  "len_utf8 c = (if byte_val c < 0x80 then 1 else if byte_val c < 0xE0 then 2 else if byte_val c < 0xF0 then 3 else 4)"

lemma upt_split: "a \<le> b \<Longrightarrow> b \<le> c \<Longrightarrow> [a..<c] = [a..<b] @ [b..<c]" for a b c :: nat
  by (metis le_Suc_ex upt_add_eq_append)

text \<open>Evaluation of the recursive scanners by rewriting: a continuation waits for its argument.\<close>

lemma try_let_weak: "m = m' \<Longrightarrow> try_let m f = try_let m' f"
  by simp

lemma bind_weak: "m = m' \<Longrightarrow> Option.bind m f = Option.bind m' f"
  by simp

end
