(* ===== verification/Ptx_Edit.thy ===== *)
theory Ptx_Edit
  imports Ptx_Source "HOL-Library.Product_Lexorder"
begin

text \<open>
  Edit scripts of \<open>ptx-parse/src/edit.rs\<close>: collecting non-conflicting replacements against the original
  offsets, applying them in one pass, and the offset map between the two texts.

  Strings that exist in memory together are shorter than \<open>usize::MAX\<close>, so the sums of their lengths
  do not overflow; the differences are checked.
\<close>

section \<open>Data\<close>

datatype MapBias = Left | Right

record Edit =
  edit_range :: range
  replacement :: string

record MappedEdit =
  mapped_original :: range
  mapped_output :: range

record EditMap =
  original_len :: nat
  output_len :: nat
  mapped :: "MappedEdit list"

record AppliedEdits =
  edited_text :: string
  edit_map :: EditMap

datatype EditError =
  InvalidRange range
| Overlap range range
| OutOfBounds range nat
| NonCharacterBoundary nat

type_synonym EditScript = "Edit list"

section \<open>Collecting edits\<close>

definition ranges_conflict :: "range \<Rightarrow> range \<Rightarrow> bool" where
  "ranges_conflict first second =
     (case (range_is_empty first, range_is_empty second) of
        (False, False) \<Rightarrow> range_start first < range_end second \<and> range_start second < range_end first
      | (True, True) \<Rightarrow> range_start first = range_start second
      | (True, False) \<Rightarrow> range_start first \<ge> range_start second \<and> range_start first \<le> range_end second
      | (False, True) \<Rightarrow> range_start second \<ge> range_start first \<and> range_start second \<le> range_end first)"

definition script_new :: EditScript where
  "script_new = []"

definition script_replace :: "EditScript \<Rightarrow> range \<Rightarrow> string \<Rightarrow> (EditScript, EditError) outcome" where
  "script_replace self r text' =
     (if range_start r > range_end r then Err (InvalidRange r)
      else case find (\<lambda>edit. ranges_conflict (edit_range edit) r) self of
             Some existing \<Rightarrow> Err (Overlap (edit_range existing) r)
           | None \<Rightarrow> Ok (self @ [\<lparr>edit_range = r, replacement = text'\<rparr>]))"

definition script_insert :: "EditScript \<Rightarrow> nat \<Rightarrow> string \<Rightarrow> (EditScript, EditError) outcome" where
  "script_insert self off text' = script_replace self (off, off) text'"

definition script_delete :: "EditScript \<Rightarrow> range \<Rightarrow> (EditScript, EditError) outcome" where
  "script_delete self r = script_replace self r ''''"

section \<open>Applying them\<close>

definition check_edit :: "string \<Rightarrow> Edit \<Rightarrow> (unit, EditError) outcome" where
  "check_edit source edit =
     (if range_end (edit_range edit) > length source then Err (OutOfBounds (edit_range edit) (length source))
      else for_each (\<lambda>off. if \<not> is_char_boundary source off then Err (NonCharacterBoundary off) else Ok ())
             [range_start (edit_range edit), range_end (edit_range edit)])"

text \<open>A subtraction of \<open>usize\<close> values that panics below zero.\<close>

definition usize_sub :: "nat \<Rightarrow> nat \<Rightarrow> nat option" where
  "usize_sub a b = (if b \<le> a then Some (a - b) else None)"

fun removed_bytes :: "Edit list \<Rightarrow> nat option" where
  "removed_bytes [] = Some 0"
| "removed_bytes (edit # edits) =
     do { n \<leftarrow> usize_sub (range_end (edit_range edit)) (range_start (edit_range edit));
          rest \<leftarrow> removed_bytes edits; Some (n + rest) }"

fun splice_edits :: "string \<Rightarrow> Edit list \<Rightarrow> nat \<Rightarrow> string \<Rightarrow> (string \<times> MappedEdit list) option" where
  "splice_edits source [] cursor out =
     do { rest \<leftarrow> str_slice source cursor (length source); Some (out @ rest, []) }"
| "splice_edits source (edit # edits) cursor out =
     do { before \<leftarrow> str_slice source cursor (range_start (edit_range edit));
          let output_start = length (out @ before);
          let out' = out @ before @ replacement edit;
          (text', mapped_edits) \<leftarrow> splice_edits source edits (range_end (edit_range edit)) out';
          Some (text', \<lparr>mapped_original = edit_range edit, mapped_output = (output_start, length out')\<rparr> # mapped_edits) }"

definition apply_with_map :: "EditScript \<Rightarrow> string \<Rightarrow> (AppliedEdits, EditError) outcome" where
  "apply_with_map self source =
     (let edits = sort_key edit_range self in
      try_let (for_each (check_edit source) edits) (\<lambda>_.
      let replacement_bytes = sum_list (map (\<lambda>edit. length (replacement edit)) edits) in
      try_let (or_panic (removed_bytes edits)) (\<lambda>removed.
      try_let (or_panic (usize_sub (length source + replacement_bytes) removed)) (\<lambda>capacity.
      try_let (or_panic (splice_edits source edits 0 '''')) (\<lambda>(out, mapped_edits).
      Ok \<lparr>edited_text = out,
          edit_map = \<lparr>original_len = length source, output_len = length out, mapped = mapped_edits\<rparr>\<rparr>)))))"

definition apply_edits :: "EditScript \<Rightarrow> string \<Rightarrow> (string, EditError) outcome" where
  "apply_edits self source = try_let (apply_with_map self source) (\<lambda>applied. Ok (edited_text applied))"

section \<open>The offset map\<close>

datatype Direction = Forward | Reverse

fun source_range :: "MappedEdit \<Rightarrow> Direction \<Rightarrow> range" where
  "source_range edit Forward = mapped_original edit"
| "source_range edit Reverse = mapped_output edit"

fun destination_range :: "MappedEdit \<Rightarrow> Direction \<Rightarrow> range" where
  "destination_range edit Forward = mapped_output edit"
| "destination_range edit Reverse = mapped_original edit"

text \<open>\<open>slice::partition_point\<close> on a slice whose elements with the property come first.\<close>

definition partition_point :: "('a \<Rightarrow> bool) \<Rightarrow> 'a list \<Rightarrow> nat" where
  "partition_point P xs = length (takeWhile P xs)"

fun edge :: "MapBias \<Rightarrow> range \<Rightarrow> nat" where
  "edge Left r = range_start r"
| "edge Right r = range_end r"

text \<open>The edit that contains or touches the offset decides; otherwise the last completed edit gives the shift.
  \<open>edits.get(completed.wrapping_sub(1))\<close> is \<open>None\<close> when no edit is completed, and
  \<open>saturating_add_signed\<close> stops at 0 (the upper end of \<open>usize\<close> is out of reach of an offset in a text).\<close>

definition inside_edit :: "nat \<Rightarrow> MapBias \<Rightarrow> range \<Rightarrow> range \<Rightarrow> nat option" where
  "inside_edit off bias src dest =
     (if off \<ge> range_start src \<and> off \<le> range_end src
      then Some (if range_is_empty src \<and> off = range_start src then edge bias dest
                 else if off = range_start src then range_start dest
                 else if off = range_end src then range_end dest
                 else edge bias dest)
      else None)"

definition map_offset :: "nat \<Rightarrow> MapBias \<Rightarrow> MappedEdit list \<Rightarrow> Direction \<Rightarrow> nat" where
  "map_offset off bias edits direction =
     (let index = partition_point (\<lambda>edit. range_end (source_range edit direction) < off) edits;
          touching = (if index < length edits
                      then inside_edit off bias (source_range (edits ! index) direction)
                             (destination_range (edits ! index) direction)
                      else None) in
      case touching of
        Some v \<Rightarrow> v
      | None \<Rightarrow>
          (let completed = partition_point (\<lambda>edit. range_end (source_range edit direction) \<le> off) edits;
               delta = (if completed = 0 then 0
                        else int (range_end (destination_range (edits ! (completed - 1)) direction)) -
                             int (range_end (source_range (edits ! (completed - 1)) direction))) in
           nat (max 0 (int off + delta))))"

definition original_to_output :: "EditMap \<Rightarrow> nat \<Rightarrow> MapBias \<Rightarrow> nat option" where
  "original_to_output self off bias =
     (if off \<le> original_len self then Some (map_offset off bias (mapped self) Forward) else None)"

definition output_to_original :: "EditMap \<Rightarrow> nat \<Rightarrow> MapBias \<Rightarrow> nat option" where
  "output_to_original self off bias =
     (if off \<le> output_len self then Some (map_offset off bias (mapped self) Reverse) else None)"

text \<open>The two \<open>expect\<close> calls follow the bounds test, so a failing one is a panic of the model too.\<close>

definition range_through :: "(nat \<Rightarrow> MapBias \<Rightarrow> nat option) \<Rightarrow> nat \<Rightarrow> range \<Rightarrow> (range option, unit) outcome" where
  "range_through to len r =
     (if range_start r \<le> range_end r \<and> range_end r \<le> len
      then try_let (or_panic (to (range_start r) Left)) (\<lambda>a.
           try_let (or_panic (to (range_end r) Right)) (\<lambda>b. Ok (Some (a, b))))
      else Ok None)"

definition original_range_to_output :: "EditMap \<Rightarrow> range \<Rightarrow> (range option, unit) outcome" where
  "original_range_to_output self r = range_through (original_to_output self) (original_len self) r"

definition output_range_to_original :: "EditMap \<Rightarrow> range \<Rightarrow> (range option, unit) outcome" where
  "output_range_to_original self r = range_through (output_to_original self) (output_len self) r"

end
