(* ===== verification/Ptx_Edit_Facts.thy ===== *)
theory Ptx_Edit_Facts
  imports Ptx_Edit
begin

text \<open>
  Reference semantics of an edit script and the lemmas on the pass over the sorted edits: the text is the
  pointwise substitution, and the recorded ranges are aligned (the unedited gaps have equal lengths on
  both sides), which is all the offset map relies on.
\<close>

section \<open>The invariant of a script\<close>

definition separate :: "Edit \<Rightarrow> Edit \<Rightarrow> bool" where
  "separate e e' \<longleftrightarrow> \<not> ranges_conflict (edit_range e) (edit_range e')"

definition script_ok :: "EditScript \<Rightarrow> bool" where
  "script_ok self \<longleftrightarrow> (\<forall>e \<in> set self. range_start (edit_range e) \<le> range_end (edit_range e)) \<and> sorted_wrt separate self"

lemmas conflict_defs = separate_def ranges_conflict_def range_is_empty_def

lemma separate_sym: "separate e e' \<longleftrightarrow> separate e' e"
  by (auto simp: conflict_defs split: bool.splits)

lemma script_ok_replace: "script_replace self r t = Ok self' \<Longrightarrow> script_ok self \<Longrightarrow> script_ok self'"
  by (auto simp: script_replace_def script_ok_def sorted_wrt_append separate_def find_None_iff
      split: if_splits option.splits)

text \<open>A script made by a sequence of calls of \<open>replace\<close>, of which \<open>insert\<close> and \<open>delete\<close> are instances.\<close>

fun replace_all :: "(range \<times> string) list \<Rightarrow> EditScript \<Rightarrow> (EditScript, EditError) outcome" where
  "replace_all [] self = Ok self"
| "replace_all ((r, t) # calls) self = try_let (script_replace self r t) (replace_all calls)"

definition build_script :: "(range \<times> string) list \<Rightarrow> (EditScript, EditError) outcome" where
  "build_script calls = replace_all calls script_new"

lemma build_script_ok: "build_script calls = Ok self \<Longrightarrow> script_ok self"
proof -
  have "replace_all calls s = Ok self \<Longrightarrow> script_ok s \<Longrightarrow> script_ok self" for s
    by (induction calls s rule: replace_all.induct) (auto simp: outcome_simps dest: script_ok_replace)
  moreover have "script_ok script_new" by (simp add: script_ok_def script_new_def)
  ultimately show "build_script calls = Ok self \<Longrightarrow> script_ok self" by (simp add: build_script_def)
qed

section \<open>Reference semantics\<close>

definition text_at :: "Edit list \<Rightarrow> nat \<Rightarrow> string" where
  "text_at es i = (case find (\<lambda>e. range_start (edit_range e) = i) es of Some e \<Rightarrow> replacement e | None \<Rightarrow> '''')"

definition kept :: "Edit list \<Rightarrow> nat \<Rightarrow> bool" where
  "kept es i \<longleftrightarrow> list_all (\<lambda>e. \<not> (range_start (edit_range e) \<le> i \<and> i < range_end (edit_range e))) es"

definition piece :: "Edit list \<Rightarrow> string \<Rightarrow> nat \<Rightarrow> string" where
  "piece es source i = text_at es i @ (if kept es i then [source ! i] else '''')"

definition substitution_from :: "Edit list \<Rightarrow> string \<Rightarrow> nat \<Rightarrow> string" where
  "substitution_from es source c = concat (map (piece es source) [c..<length source]) @ text_at es (length source)"

text \<open>Before every original byte the text inserted there, then the byte itself unless an edit covers it.\<close>

definition substitution :: "Edit list \<Rightarrow> string \<Rightarrow> string" where
  "substitution es source = substitution_from es source 0"

definition fits :: "Edit list \<Rightarrow> string \<Rightarrow> bool" where
  "fits es source \<longleftrightarrow> list_all (\<lambda>e. range_end (edit_range e) \<le> length source \<and>
     is_char_boundary source (range_start (edit_range e)) \<and> is_char_boundary source (range_end (edit_range e))) es"

lemma check_edits_Ok:
  "for_each (check_edit source) es = Ok () \<longleftrightarrow> fits es source"
  by (auto simp: outcome_simps fits_def list_all_iff check_edit_def split: if_splits)

lemma check_edits_not_Panic: "for_each (check_edit source) es \<noteq> Panic"
proof -
  have "check_edit source e \<noteq> Panic" for e by (simp add: check_edit_def)
  then show ?thesis by (induction es) (auto simp: outcome_simps)
qed

section \<open>The sorted edits\<close>

definition before :: "range \<Rightarrow> range \<Rightarrow> bool" where
  "before r r' \<longleftrightarrow> range_end r \<le> range_start r' \<and> range_start r < range_start r' \<and>
     (range_is_empty r \<or> range_is_empty r' \<longrightarrow> range_end r < range_start r')"

definition ordered :: "Edit list \<Rightarrow> bool" where
  "ordered es \<longleftrightarrow> (\<forall>e \<in> set es. range_start (edit_range e) \<le> range_end (edit_range e)) \<and>
     sorted_wrt (\<lambda>e e'. before (edit_range e) (edit_range e')) es"

lemma separate_before:
  assumes "separate e e'" and "edit_range e \<le> edit_range e'"
    and "range_start (edit_range e) \<le> range_end (edit_range e)" "range_start (edit_range e') \<le> range_end (edit_range e')"
  shows "before (edit_range e) (edit_range e')"
  using assms by (cases "edit_range e"; cases "edit_range e'") (auto simp: conflict_defs before_def split: bool.splits)

lemma sorted_wrt_separate_sort: "sorted_wrt separate es \<Longrightarrow> sorted_wrt separate (sort_key edit_range es)"
proof -
  have ins: "sorted_wrt separate (insort_key edit_range e xs)" if "sorted_wrt separate xs" "\<forall>x \<in> set xs. separate e x" for e xs
    using that by (induction xs) (auto simp: set_insort_key separate_sym)
  show "sorted_wrt separate es \<Longrightarrow> sorted_wrt separate (sort_key edit_range es)"
    by (induction es) (auto simp: ins)
qed

lemma script_ok_ordered:
  assumes "script_ok self"
  shows "ordered (sort_key edit_range self)"
proof -
  let ?es = "sort_key edit_range self"
  have ok: "\<forall>e \<in> set ?es. range_start (edit_range e) \<le> range_end (edit_range e)" and sep: "sorted_wrt separate ?es"
    using assms by (auto simp: script_ok_def sorted_wrt_separate_sort)
  have "sorted_wrt (\<lambda>e e'. edit_range e \<le> edit_range e') ?es"
    using sorted_sort_key [of edit_range self] by (simp add: sorted_map)
  with sep have "sorted_wrt (\<lambda>e e'. separate e e' \<and> edit_range e \<le> edit_range e') ?es"
    by (simp add: sorted_wrt_iff_nth_less)
  then have "sorted_wrt (\<lambda>e e'. before (edit_range e) (edit_range e')) ?es"
    by (rule sorted_wrt_mono_rel [rotated]) (use ok in \<open>auto intro!: separate_before\<close>)
  with ok show ?thesis unfolding ordered_def by blast
qed

lemma ordered_Cons:
  "ordered (e # es) \<longleftrightarrow> range_start (edit_range e) \<le> range_end (edit_range e) \<and>
     (\<forall>e' \<in> set es. before (edit_range e) (edit_range e')) \<and> ordered es"
  by (auto simp: ordered_def)

definition starts_from :: "nat \<Rightarrow> Edit list \<Rightarrow> bool" where
  "starts_from c es \<longleftrightarrow> (\<forall>e \<in> set es. c \<le> range_start (edit_range e))"

lemma starts_from_tail: "ordered (e # es) \<Longrightarrow> starts_from (range_end (edit_range e)) es"
  by (auto simp: ordered_Cons starts_from_def before_def)

text \<open>A byte below every start is copied.\<close>

lemma text_at_below: "\<forall>e \<in> set es. i < range_start (edit_range e) \<Longrightarrow> text_at es i = ''''"
  by (auto simp: text_at_def find_None_iff split: option.splits dest!: find_Some_iff [THEN iffD1])

lemma kept_below: "\<forall>e \<in> set es. i < range_start (edit_range e) \<Longrightarrow> kept es i"
  by (auto simp: kept_def list_all_iff)

lemma piece_below: "\<forall>e \<in> set es. i < range_start (edit_range e) \<Longrightarrow> piece es source i = [source ! i]"
  by (simp add: piece_def text_at_below kept_below)

lemma copy_pieces:
  assumes "c \<le> d" "d \<le> length source" "\<And>i. c \<le> i \<Longrightarrow> i < d \<Longrightarrow> piece es source i = [source ! i]"
  shows "concat (map (piece es source) [c..<d]) = take (d - c) (drop c source)"
proof -
  have "map (piece es source) [c..<d] = map (\<lambda>i. [source ! i]) [c..<d]" using assms(3) by (intro map_cong) auto
  then have "concat (map (piece es source) [c..<d]) = map ((!) source) [c..<d]" by (simp only: concat_map_singleton)
  also have "\<dots> = take (d - c) (drop c source)" using assms(1,2) by (intro nth_equalityI) auto
  finally show ?thesis .
qed

lemma substitution_Nil: "c \<le> length source \<Longrightarrow> substitution_from [] source c = drop c source"
  unfolding substitution_from_def by (subst copy_pieces) (auto simp: piece_below text_at_below)

text \<open>One edit at a time: copy up to it, put its text, go on behind it.\<close>

lemma piece_cover:
  assumes "ordered (e # es)" "range_start (edit_range e) < i" "i < range_end (edit_range e)"
  shows "piece (e # es) source i = ''''"
proof -
  have "\<forall>e' \<in> set es. i < range_start (edit_range e')"
    using assms by (auto simp: ordered_Cons before_def)
  then have "text_at es i = ''''" by (rule text_at_below)
  then show ?thesis using assms(2,3) by (simp add: piece_def text_at_def kept_def)
qed

lemma piece_later:
  assumes "range_end (edit_range e) \<le> i" "range_start (edit_range e) < i"
  shows "piece (e # es) source i = piece es source i"
  using assms by (simp add: piece_def text_at_def kept_def)

lemma piece_start:
  assumes "ordered (e # es)"
  shows "piece (e # es) source (range_start (edit_range e)) =
    replacement e @ (if range_is_empty (edit_range e) then piece es source (range_start (edit_range e)) else '''')"
proof (cases "range_is_empty (edit_range e)")
  case True
  then have "\<forall>e' \<in> set es. range_start (edit_range e) < range_start (edit_range e')"
    using assms by (auto simp: ordered_Cons before_def)
  then show ?thesis
    using True kept_below [of es "range_start (edit_range e)"]
    by (simp add: piece_below) (simp add: piece_def text_at_def kept_def range_is_empty_def)
next
  case False
  then show ?thesis by (simp add: piece_def text_at_def kept_def range_is_empty_def)
qed

lemma text_at_end:
  assumes "ordered (e # es)" "n \<ge> range_end (edit_range e)" "n > range_start (edit_range e)"
  shows "text_at (e # es) n = text_at es n"
  using assms by (simp add: text_at_def)

lemma pieces_after:
  assumes ord: "ordered (e # es)" and len: "range_end (edit_range e) \<le> length source"
  shows "concat (map (piece (e # es) source) [range_start (edit_range e)..<length source]) @ text_at (e # es) (length source) =
    replacement e @ substitution_from es source (range_end (edit_range e))"
proof -
  let ?a = "range_start (edit_range e)" and ?b = "range_end (edit_range e)" and ?n = "length source"
  have ab: "?a \<le> ?b" using ord by (simp add: ordered_Cons)
  have tail: "concat (map (piece (e # es) source) [Suc ?a..<?n]) = concat (map (piece es source) [Suc ?a..<?n])" if "?a = ?b"
    by (intro arg_cong [of _ _ concat] map_cong piece_later refl) (use that in auto)
  consider (insert_end) "?a = ?b" "?b = ?n" | (insert) "?a = ?b" "?b < ?n" | (cover) "?a < ?b" using ab len by linarith
  then show ?thesis
  proof cases
    case insert_end
    then have "text_at es ?n = ''''" using ord
      by (intro text_at_below) (auto simp: ordered_Cons before_def range_is_empty_def)
    then show ?thesis using insert_end by (simp add: substitution_from_def text_at_def)
  next
    case insert
    then have "[?a..<?n] = ?a # [Suc ?a..<?n]" by (simp add: upt_conv_Cons)
    moreover have "text_at (e # es) ?n = text_at es ?n" using insert by (simp add: text_at_def)
    ultimately show ?thesis
      using insert tail piece_start [OF ord, of source]
      by (simp add: substitution_from_def range_is_empty_def)
  next
    case cover
    have split: "[?a..<?n] = ?a # [Suc ?a..<?b] @ [?b..<?n]"
      using cover len upt_split [of "Suc ?a" ?b ?n] by (simp add: upt_conv_Cons)
    have none: "concat (map (piece (e # es) source) [Suc ?a..<?b]) = ''''"
      using piece_cover [OF ord] by auto
    have rest: "concat (map (piece (e # es) source) [?b..<?n]) = concat (map (piece es source) [?b..<?n])"
      by (intro arg_cong [of _ _ concat] map_cong piece_later refl) (use cover in auto)
    have "text_at (e # es) ?n = text_at es ?n" using cover len by (simp add: text_at_def)
    then show ?thesis
      using cover none rest piece_start [OF ord, of source]
      by (simp add: split substitution_from_def range_is_empty_def)
  qed
qed

lemma substitution_Cons:
  assumes "ordered (e # es)" "c \<le> range_start (edit_range e)" "range_end (edit_range e) \<le> length source"
  shows "substitution_from (e # es) source c =
    take (range_start (edit_range e) - c) (drop c source) @ replacement e @ substitution_from es source (range_end (edit_range e))"
proof -
  let ?a = "range_start (edit_range e)"
  have le: "?a \<le> length source" using assms by (simp add: ordered_Cons)
  have below: "piece (e # es) source i = [source ! i]" if "i < ?a" for i
    using assms(1) that by (intro piece_below) (auto simp: ordered_Cons before_def)
  have "[c..<length source] = [c..<?a] @ [?a..<length source]"
    using assms(2) le by (rule upt_split)
  moreover have "concat (map (piece (e # es) source) [c..<?a]) = take (?a - c) (drop c source)"
    using below assms(2) le by (intro copy_pieces) auto
  ultimately show ?thesis
    using pieces_after [OF assms(1,3)] by (simp add: substitution_from_def)
qed

end
