(* ===== verification/Ptx_Edit_Properties.thy ===== *)
theory Ptx_Edit_Properties
  imports Ptx_Edit_Facts
begin

text \<open>
  Edit scripts are applied exactly: the text is the pointwise substitution, and the offset map moves
  unedited bytes to where they went, monotonically in both directions.
\<close>

section \<open>The pass over the sorted edits\<close>

text \<open>The ranges an edit list records, when the copy starts at offset \<open>c\<close> with \<open>b\<close> bytes written.\<close>

fun recorded :: "nat \<Rightarrow> nat \<Rightarrow> Edit list \<Rightarrow> MappedEdit list" where
  "recorded c b [] = []"
| "recorded c b (e # es) =
     (let d = b + (range_start (edit_range e) - c) in
      \<lparr>mapped_original = edit_range e, mapped_output = (d, d + length (replacement e))\<rparr> #
      recorded (range_end (edit_range e)) (d + length (replacement e)) es)"

lemma fits_Cons:
  "fits (e # es) source \<longleftrightarrow> range_end (edit_range e) \<le> length source \<and>
     is_char_boundary source (range_start (edit_range e)) \<and> is_char_boundary source (range_end (edit_range e)) \<and>
     fits es source"
  by (simp add: fits_def)

lemma str_slice_Some:
  "a \<le> b \<Longrightarrow> b \<le> length source \<Longrightarrow> is_char_boundary source a \<Longrightarrow> is_char_boundary source b \<Longrightarrow>
     str_slice source a b = Some (take (b - a) (drop a source))"
  by (simp add: str_slice_def)

lemma splice_edits_eq:
  assumes "ordered es" "starts_from c es" "fits es source" "is_char_boundary source c" "c \<le> length source"
  shows "splice_edits source es c out = Some (out @ substitution_from es source c, recorded c (length out) es)"
  using assms
proof (induction es arbitrary: c out)
  case Nil
  then show ?case
    by (simp add: str_slice_Some substitution_Nil is_char_boundary_def)
next
  case (Cons e es)
  let ?a = "range_start (edit_range e)" and ?b = "range_end (edit_range e)"
  let ?out = "out @ take (?a - c) (drop c source) @ replacement e"
  have e: "c \<le> ?a" "?a \<le> ?b" "?b \<le> length source" "is_char_boundary source ?a" "is_char_boundary source ?b"
    using Cons.prems by (auto simp: starts_from_def ordered_Cons fits_Cons)
  have len: "length (take (?a - c) (drop c source)) = ?a - c" using e by simp
  have "splice_edits source es ?b ?out = Some (?out @ substitution_from es source ?b, recorded ?b (length ?out) es)"
    using Cons.prems e by (intro Cons.IH starts_from_tail) (auto simp: ordered_Cons fits_Cons)
  moreover have "str_slice source c ?a = Some (take (?a - c) (drop c source))"
    using e Cons.prems by (intro str_slice_Some) auto
  ultimately show ?case
    using e len by (simp add: substitution_Cons [OF Cons.prems(1)] Let_def add.assoc del: length_take)
qed

lemma removed_bytes_bound:
  "ordered es \<Longrightarrow> starts_from c es \<Longrightarrow> fits es source \<Longrightarrow> c \<le> length source \<Longrightarrow>
     \<exists>n. removed_bytes es = Some n \<and> c + n \<le> length source"
proof (induction es arbitrary: c)
  case Nil
  then show ?case by simp
next
  case (Cons e es)
  have "\<exists>n. removed_bytes es = Some n \<and> range_end (edit_range e) + n \<le> length source"
    using Cons.prems by (intro Cons.IH starts_from_tail) (auto simp: ordered_Cons fits_Cons)
  then show ?case using Cons.prems by (auto simp: usize_sub_def ordered_Cons starts_from_def)
qed

lemma find_start_unique:
  assumes "set es = set es'" "\<And>e e'. e \<in> set es \<Longrightarrow> e' \<in> set es \<Longrightarrow> range_start (edit_range e) = range_start (edit_range e') \<Longrightarrow> e = e'"
  shows "text_at es i = text_at es' i"
proof -
  let ?P = "\<lambda>e. range_start (edit_range e) = i"
  have "find ?P es = find ?P es'"
  proof (cases "find ?P es")
    case None
    then have "find ?P es' = None" using assms(1) by (simp add: find_None_iff)
    then show ?thesis using None by simp
  next
    case (Some e)
    then have e: "e \<in> set es" "?P e" by (auto simp: find_Some_iff)
    then have "find ?P es' \<noteq> None" using assms(1) by (auto simp: find_None_iff)
    then obtain e' where f: "find ?P es' = Some e'" by blast
    then have "e' \<in> set es" "?P e'" using assms(1) by (auto simp: find_Some_iff)
    then have "e = e'" using e assms(2) by simp
    then show ?thesis using Some f by simp
  qed
  then show ?thesis by (simp add: text_at_def)
qed

lemma ordered_starts_unique:
  assumes "ordered es" "e \<in> set es" "e' \<in> set es" "range_start (edit_range e) = range_start (edit_range e')"
  shows "e = e'"
  using assms by (induction es) (auto simp: ordered_Cons before_def)

lemma kept_sort: "kept (sort_key edit_range self) i = kept self i"
  by (auto simp: kept_def list_all_iff)

lemma fits_sort: "fits (sort_key edit_range self) source = fits self source"
  by (auto simp: fits_def list_all_iff)

lemma substitution_sort:
  assumes "script_ok self"
  shows "substitution (sort_key edit_range self) source = substitution self source"
proof -
  have "text_at (sort_key edit_range self) i = text_at self i" for i
    using ordered_starts_unique [OF script_ok_ordered [OF assms]] by (intro find_start_unique) auto
  then have "piece (sort_key edit_range self) source = piece self source" "text_at (sort_key edit_range self) = text_at self"
    by (auto simp: piece_def kept_sort)
  then show ?thesis by (simp add: substitution_def substitution_from_def)
qed

text \<open>The outcome of a pass in full.\<close>

lemma apply_with_map_eq:
  assumes "script_ok self"
  shows "apply_with_map self source =
    try_let (for_each (check_edit source) (sort_key edit_range self)) (\<lambda>_.
      Ok \<lparr>edited_text = substitution self source,
          edit_map = \<lparr>original_len = length source, output_len = length (substitution self source),
            mapped = recorded 0 0 (sort_key edit_range self)\<rparr>\<rparr>)"
proof (cases "for_each (check_edit source) (sort_key edit_range self)")
  case (Ok u)
  let ?es = "sort_key edit_range self"
  have fits: "fits ?es source" using Ok check_edits_Ok by simp
  have ord: "ordered ?es" by (rule script_ok_ordered [OF assms])
  have from0: "starts_from 0 ?es" by (simp add: starts_from_def)
  obtain n where n: "removed_bytes ?es = Some n" "n \<le> length source"
    using removed_bytes_bound [OF ord from0 fits] by auto
  have "splice_edits source ?es 0 '''' = Some (substitution self source, recorded 0 0 ?es)"
    using splice_edits_eq [OF ord from0 fits, of "[]"] substitution_sort [OF assms, of source]
    by (simp add: is_char_boundary_def substitution_def)
  then show ?thesis using Ok n by (simp add: apply_with_map_def Let_def usize_sub_def)
qed (simp_all add: apply_with_map_def Let_def)

text \<open>(C12) Applying a script to a text. Whatever the order in which the calls added the edits, the result
  is the pointwise substitution of the source when every edit lies in it on character boundaries, and an error
  otherwise; the pass never panics.\<close>

theorem apply_edits_exact:
  assumes "build_script calls = Ok self"
  shows "if fits self source then apply_edits self source = Ok (substitution self source)
         else \<exists>e. apply_edits self source = Err e"
proof (cases "for_each (check_edit source) (sort_key edit_range self)")
  case (Ok u)
  then have "fits self source" using check_edits_Ok [of source "sort_key edit_range self"] by (simp add: fits_sort)
  then show ?thesis using Ok by (simp add: apply_edits_def apply_with_map_eq [OF build_script_ok [OF assms]])
next
  case (Err e)
  then have "\<not> fits self source" using check_edits_Ok [of source "sort_key edit_range self"] by (simp add: fits_sort)
  then show ?thesis using Err by (simp add: apply_edits_def apply_with_map_eq [OF build_script_ok [OF assms]])
qed (use check_edits_not_Panic in blast)

theorem apply_edits_exact_witness:
  "apply_edits [\<lparr>edit_range = (6, 12), replacement = ''PTX''\<rparr>, \<lparr>edit_range = (0, 0), replacement = ''lossless ''\<rparr>] ''hello source!'' =
     Ok ''lossless hello PTX!''"
proof -
  let ?self = "[\<lparr>edit_range = (6, 12), replacement = ''PTX''\<rparr>, \<lparr>edit_range = (0, 0), replacement = ''lossless ''\<rparr>]"
  have build: "build_script [((6, 12), ''PTX''), ((0, 0), ''lossless '')] = Ok ?self" by code_simp
  have "fits ?self ''hello source!''" by code_simp
  moreover have "substitution ?self ''hello source!'' = ''lossless hello PTX!''" by code_simp
  ultimately show ?thesis using apply_edits_exact [OF build, of "''hello source!''"] by simp
qed

end
