(* ===== verification/Ptx_Edit_Map.thy ===== *)
theory Ptx_Edit_Map
  imports Ptx_Edit_Properties
begin

text \<open>
  The offset map of an applied edit script. Both directions walk over pairs of ranges that are aligned:
  the gaps between consecutive pairs have the same length on the two sides. Alignment does not change when
  the sides are swapped, so each fact is proved once and used for both directions.
\<close>

section \<open>Aligned ranges\<close>

type_synonym pairing = "(range \<times> range) list"

fun aligned :: "nat \<Rightarrow> nat \<Rightarrow> pairing \<Rightarrow> nat \<Rightarrow> nat \<Rightarrow> bool" where
  "aligned a b [] n m \<longleftrightarrow> a \<le> n \<and> b \<le> m \<and> n - a = m - b"
| "aligned a b ((s, d) # xs) n m \<longleftrightarrow>
     a \<le> range_start s \<and> range_start s \<le> range_end s \<and> b \<le> range_start d \<and> range_start d \<le> range_end d \<and>
     range_start s - a = range_start d - b \<and> aligned (range_end s) (range_end d) xs n m"

definition sides :: "Direction \<Rightarrow> MappedEdit list \<Rightarrow> pairing" where
  "sides dir es = map (\<lambda>e. (source_range e dir, destination_range e dir)) es"

definition swap_sides :: "pairing \<Rightarrow> pairing" where
  "swap_sides = map prod.swap"

lemma sides_reverse: "sides Reverse es = swap_sides (sides Forward es)"
  by (simp add: sides_def swap_sides_def)

lemma aligned_swap: "aligned a b xs n m \<Longrightarrow> aligned b a (swap_sides xs) m n"
  by (induction a b xs n m rule: aligned.induct) (auto simp: swap_sides_def)

lemma aligned_bounds: "aligned a b xs n m \<Longrightarrow> a \<le> n \<and> b \<le> m"
  by (induction a b xs n m rule: aligned.induct) auto

text \<open>The map as a walk along the pairs.\<close>

fun walk :: "nat \<Rightarrow> nat \<Rightarrow> pairing \<Rightarrow> nat \<Rightarrow> MapBias \<Rightarrow> nat" where
  "walk a b [] x bias = b + (x - a)"
| "walk a b ((s, d) # xs) x bias =
     (if x < range_start s then b + (x - a)
      else if x \<le> range_end s then the (inside_edit x bias s d)
      else walk (range_end s) (range_end d) xs x bias)"

text \<open>\<open>map_offset\<close> with the shift before the first edit as a parameter.\<close>

definition map_from :: "nat \<Rightarrow> nat \<Rightarrow> pairing \<Rightarrow> nat \<Rightarrow> MapBias \<Rightarrow> nat" where
  "map_from a b xs x bias =
     (let index = partition_point (\<lambda>p. range_end (fst p) < x) xs;
          touching = (if index < length xs then inside_edit x bias (fst (xs ! index)) (snd (xs ! index)) else None) in
      case touching of
        Some v \<Rightarrow> v
      | None \<Rightarrow>
          (let completed = partition_point (\<lambda>p. range_end (fst p) \<le> x) xs;
               delta = (if completed = 0 then int b - int a
                        else int (range_end (snd (xs ! (completed - 1)))) - int (range_end (fst (xs ! (completed - 1))))) in
           nat (max 0 (int x + delta))))"

lemma map_offset_from: "map_offset x bias es dir = map_from 0 0 (sides dir es) x bias"
proof -
  have pp: "partition_point (\<lambda>p. P (fst p)) (sides dir es) = partition_point (\<lambda>e. P (source_range e dir)) es" for P
    by (simp add: partition_point_def sides_def takeWhile_map comp_def)
  have nth: "k < length es \<Longrightarrow> sides dir es ! k = (source_range (es ! k) dir, destination_range (es ! k) dir)" for k
    by (simp add: sides_def)
  have le: "partition_point P es \<le> length es" for P by (simp add: partition_point_def length_takeWhile_le)
  have len: "length (sides dir es) = length es" by (simp add: sides_def)
  have last: "sides dir es ! (partition_point P es - 1) =
      (source_range (es ! (partition_point P es - 1)) dir, destination_range (es ! (partition_point P es - 1)) dir)"
    if "partition_point P es \<noteq> 0" for P
    using that le [of P] by (intro nth) linarith
  show ?thesis
    unfolding map_offset_def map_from_def Let_def
      pp [of "\<lambda>r. range_end r < x"] pp [of "\<lambda>r. range_end r \<le> x"] len
    by (cases "partition_point (\<lambda>e. range_end (source_range e dir) \<le> x) es = 0")
       (simp_all only: nth last fst_conv snd_conv cong: if_cong option.case_cong, simp_all split: option.split)
qed

lemma map_from_walk: "aligned a b xs n m \<Longrightarrow> a \<le> x \<Longrightarrow> map_from a b xs x bias = walk a b xs x bias"
proof (induction a b xs n m rule: aligned.induct)
  case (1 a b n m)
  then show ?case by (simp add: map_from_def partition_point_def nat_diff_distrib)
next
  case (2 a b s d xs n m)
  consider (later) "range_end s < x" | (here) "range_start s \<le> x" "x \<le> range_end s" | (gap) "x < range_start s" by linarith
  then show ?case
  proof cases
    case later
    have "map_from a b ((s, d) # xs) x bias = map_from (range_end s) (range_end d) xs x bias"
      using later by (simp add: map_from_def partition_point_def Let_def nth_Cons' split: option.splits)
    then show ?thesis using later 2 by simp
  next
    case here
    then show ?thesis by (auto simp: map_from_def partition_point_def Let_def inside_edit_def)
  next
    case gap
    then show ?thesis using 2 by (auto simp: map_from_def partition_point_def Let_def inside_edit_def)
  qed
qed

lemma inside_edit_bounds:
  assumes "range_start s \<le> x" "x \<le> range_end s" "range_start d \<le> range_end d"
  shows "range_start d \<le> the (inside_edit x bias s d) \<and> the (inside_edit x bias s d) \<le> range_end d"
  using assms by (cases bias) (auto simp: inside_edit_def)

lemma inside_edit_mono:
  assumes "range_start s \<le> x" "x \<le> y" "y \<le> range_end s" "range_start d \<le> range_end d"
  shows "the (inside_edit x bias s d) \<le> the (inside_edit y bias s d)"
  using assms by (cases bias) (auto simp: inside_edit_def range_is_empty_def)

lemma walk_lower: "aligned a b xs n m \<Longrightarrow> a \<le> x \<Longrightarrow> b \<le> walk a b xs x bias"
proof (induction a b xs n m rule: aligned.induct)
  case (2 a b s d xs n m)
  then have "range_end s < x \<Longrightarrow> range_end d \<le> walk (range_end s) (range_end d) xs x bias" by simp
  then show ?case using 2 inside_edit_bounds [of s x d bias] by (fastforce simp: not_less)
qed simp

lemma walk_upper: "aligned a b xs n m \<Longrightarrow> x \<le> n \<Longrightarrow> walk a b xs x bias \<le> m"
proof (induction a b xs n m rule: aligned.induct)
  case (2 a b s d xs n m)
  have "range_end d \<le> m" using 2(2) by (auto dest: aligned_bounds)
  then show ?case using 2 inside_edit_bounds [of s x d bias] by (fastforce simp: not_less)
qed auto

lemma walk_mono: "aligned a b xs n m \<Longrightarrow> a \<le> x \<Longrightarrow> x \<le> y \<Longrightarrow> walk a b xs x bias \<le> walk a b xs y bias"
proof (induction a b xs n m arbitrary: x y rule: aligned.induct)
  case (2 a b s d xs n m)
  have low: "range_end d \<le> walk (range_end s) (range_end d) xs y bias" if "range_end s \<le> y"
    using 2(2) that by (auto intro: walk_lower)
  consider "x < range_start s" "y < range_start s" | "x < range_start s" "range_start s \<le> y" "y \<le> range_end s"
    | "x < range_start s" "range_end s < y" | "range_start s \<le> x" "y \<le> range_end s"
    | "range_start s \<le> x" "x \<le> range_end s" "range_end s < y" | "range_end s < x"
    by linarith
  then show ?case
  proof cases
    case 6
    then show ?thesis using 2 by simp
  qed (use 2 low inside_edit_bounds [of s x d bias] inside_edit_bounds [of s y d bias] inside_edit_mono [of s x y d bias] in \<open>auto simp: not_less\<close>)
qed simp

lemma walk_bias: "aligned a b xs n m \<Longrightarrow> walk a b xs x Left \<le> walk a b xs x Right"
  by (induction a b xs n m rule: aligned.induct) (auto simp: inside_edit_def)

section \<open>The recorded ranges are aligned\<close>

lemma recorded_aligned:
  "ordered es \<Longrightarrow> starts_from c es \<Longrightarrow> fits es source \<Longrightarrow> c \<le> length source \<Longrightarrow>
     aligned c b (sides Forward (recorded c b es)) (length source) (b + length (substitution_from es source c))"
proof (induction es arbitrary: c b)
  case Nil
  then show ?case by (simp add: sides_def substitution_Nil)
next
  case (Cons e es)
  let ?d = "b + (range_start (edit_range e) - c)"
  have e: "c \<le> range_start (edit_range e)" "range_start (edit_range e) \<le> range_end (edit_range e)"
    "range_end (edit_range e) \<le> length source"
    using Cons.prems by (auto simp: starts_from_def ordered_Cons fits_Cons)
  have "aligned (range_end (edit_range e)) (?d + length (replacement e))
      (sides Forward (recorded (range_end (edit_range e)) (?d + length (replacement e)) es)) (length source)
      (?d + length (replacement e) + length (substitution_from es source (range_end (edit_range e))))"
    using Cons.prems e by (intro Cons.IH starts_from_tail) (auto simp: ordered_Cons fits_Cons)
  moreover have "length (substitution_from (e # es) source c) = (range_start (edit_range e) - c) + length (replacement e) +
      length (substitution_from es source (range_end (edit_range e)))"
    using e by (simp add: substitution_Cons [OF Cons.prems(1) e(1,3)])
  ultimately show ?case using e by (simp add: sides_def Let_def add.assoc) linarith
qed

text \<open>What a map produced by \<open>apply_with_map\<close> satisfies.\<close>

definition map_ok :: "EditMap \<Rightarrow> bool" where
  "map_ok m \<longleftrightarrow> aligned 0 0 (sides Forward (mapped m)) (original_len m) (output_len m)"

lemma apply_map_ok:
  assumes "script_ok self" "apply_with_map self source = Ok applied"
  shows "map_ok (edit_map applied)"
proof -
  let ?es = "sort_key edit_range self"
  have "fits ?es source" using assms check_edits_Ok [of source ?es] by (auto simp: apply_with_map_eq outcome_simps)
  then have "aligned 0 0 (sides Forward (recorded 0 0 ?es)) (length source) (length (substitution ?es source))"
    using recorded_aligned [OF script_ok_ordered [OF assms(1)], of 0 source 0]
    by (simp add: starts_from_def substitution_def)
  then show ?thesis
    using assms by (auto simp: map_ok_def apply_with_map_eq outcome_simps substitution_sort)
qed

lemma forward_walk: "map_ok m \<Longrightarrow> map_offset x bias (mapped m) Forward = walk 0 0 (sides Forward (mapped m)) x bias"
  by (auto simp: map_ok_def map_offset_from intro: map_from_walk)

lemma reverse_walk: "map_ok m \<Longrightarrow> map_offset x bias (mapped m) Reverse = walk 0 0 (sides Reverse (mapped m)) x bias"
  by (auto simp: map_ok_def map_offset_from sides_reverse intro!: map_from_walk aligned_swap)

section \<open>Mapping ranges\<close>

text \<open>What mapping a range relies on: a monotone map between two lengths in which the left bias never lies to the
  right of the right bias.\<close>

locale offset_map =
  fixes ok :: "'m \<Rightarrow> bool" and to_offset :: "'m \<Rightarrow> nat \<Rightarrow> MapBias \<Rightarrow> nat option"
    and from_len :: "'m \<Rightarrow> nat" and to_len :: "'m \<Rightarrow> nat"
  assumes defined: "ok m \<Longrightarrow> x \<le> from_len m \<Longrightarrow> \<exists>y \<le> to_len m. to_offset m x bias = Some y"
    and mono: "ok m \<Longrightarrow> x \<le> x' \<Longrightarrow> x' \<le> from_len m \<Longrightarrow> the (to_offset m x bias) \<le> the (to_offset m x' bias)"
    and bias_order: "ok m \<Longrightarrow> x \<le> from_len m \<Longrightarrow> the (to_offset m x Left) \<le> the (to_offset m x Right)"
begin

lemma sandwich:
  assumes "ok m" "p \<le> x" "x \<le> q" "q \<le> from_len m" "to_offset m x bias = Some y"
  shows "the (to_offset m p Left) \<le> y \<and> y \<le> the (to_offset m q Right)"
proof -
  have "the (to_offset m p Left) \<le> the (to_offset m x Left)" "the (to_offset m x Right) \<le> the (to_offset m q Right)"
    using assms by (auto intro: mono)
  then show ?thesis using assms bias_order [of m x] by (cases bias) auto
qed

lemma range_covers:
  assumes "ok m" "p \<le> q" "q \<le> from_len m"
  shows "\<exists>p' q'. range_through (to_offset m) (from_len m) (p, q) = Ok (Some (p', q')) \<and> p' \<le> q' \<and> q' \<le> to_len m \<and>
    (\<forall>x bias y. p \<le> x \<and> x \<le> q \<and> to_offset m x bias = Some y \<longrightarrow> p' \<le> y \<and> y \<le> q')"
proof -
  obtain p' q' where ends: "to_offset m p Left = Some p'" "to_offset m q Right = Some q'" "q' \<le> to_len m"
    using defined [of m p Left] defined [of m q Right] assms by auto
  have cover: "p' \<le> y \<and> y \<le> q'" if "p \<le> x" "x \<le> q" "to_offset m x bias = Some y" for x bias y
    using sandwich [OF assms(1) that(1,2) assms(3) that(3)] ends by simp
  have "p' \<le> q'" using cover [of p Left p'] assms ends by simp
  then show ?thesis using cover ends assms by (auto simp: range_through_def)
qed

end

interpretation forward: offset_map map_ok original_to_output original_len output_len
  by unfold_locales
    (auto simp: original_to_output_def forward_walk map_ok_def intro: walk_upper walk_mono walk_bias)

interpretation reverse: offset_map map_ok output_to_original output_len original_len
  by unfold_locales
    (auto simp: output_to_original_def reverse_walk map_ok_def sides_reverse
      intro: walk_upper [OF aligned_swap] walk_mono [OF aligned_swap] walk_bias [OF aligned_swap])

section \<open>Unedited bytes\<close>

definition untouched :: "pairing \<Rightarrow> nat \<Rightarrow> bool" where
  "untouched xs i \<longleftrightarrow> (\<forall>p \<in> set xs. \<not> (range_start (fst p) \<le> i \<and> i < range_end (fst p)))"

definition spaced :: "pairing \<Rightarrow> bool" where
  "spaced xs \<longleftrightarrow> sorted_wrt (\<lambda>p p'. before (fst p) (fst p')) xs"

lemma spaced_Cons: "spaced ((s, d) # xs) \<longleftrightarrow> (\<forall>p \<in> set xs. before s (fst p)) \<and> spaced xs"
  by (simp add: spaced_def)

text \<open>An unedited byte just behind an edit lies in front of the next one.\<close>

lemma walk_here: "\<forall>p \<in> set xs. a < range_start (fst p) \<Longrightarrow> walk a b xs a bias = b"
  by (cases xs rule: list.exhaust) auto

lemma next_apart:
  assumes "spaced ((s, d) # xs)" "untouched xs (range_end s)" "p \<in> set xs" "range_start (fst p) \<le> range_end (fst p)"
  shows "range_end s < range_start (fst p)"
proof -
  have "before s (fst p)" using assms(1,3) by (simp add: spaced_Cons)
  moreover have "\<not> (range_start (fst p) \<le> range_end s \<and> range_end s < range_end (fst p))"
    using assms(2,3) by (simp add: untouched_def)
  ultimately show ?thesis using assms(4) by (auto simp: before_def range_is_empty_def)
qed

lemma aligned_ranges: "aligned a b xs n m \<Longrightarrow> p \<in> set xs \<Longrightarrow> range_start (fst p) \<le> range_end (fst p)"
  by (induction a b xs n m rule: aligned.induct) auto

lemma walk_inside_edit:
  assumes "aligned a b ((s, d) # xs) n m" "spaced ((s, d) # xs)" "untouched ((s, d) # xs) i"
    "range_start s \<le> i" "i \<le> range_end s"
  shows "i = range_end s" "the (inside_edit i Right s d) = range_end d"
    "walk (range_end s) (range_end d) xs i Right = range_end d"
proof -
  show i: "i = range_end s" using assms(3-5) by (auto simp: untouched_def)
  show "the (inside_edit i Right s d) = range_end d"
    using i assms(1) by (auto simp: inside_edit_def range_is_empty_def)
  have "\<forall>p \<in> set xs. range_end s < range_start (fst p)"
    using next_apart [OF assms(2)] assms(1,3) i aligned_ranges by (auto simp: untouched_def)
  then show "walk (range_end s) (range_end d) xs i Right = range_end d" using i by (simp add: walk_here)
qed

text \<open>The reverse map keeps the byte inside the image of every range that contains it.\<close>

lemma walk_return:
  "aligned a b xs n m \<Longrightarrow> spaced xs \<Longrightarrow> untouched xs i \<Longrightarrow> a \<le> i \<Longrightarrow> walk a b xs i Right = j \<Longrightarrow>
     walk b a (swap_sides xs) j Left \<le> i \<and> i < walk b a (swap_sides xs) (j + 1) Right"
proof (induction a b xs n m arbitrary: j rule: aligned.induct)
  case (1 a b n m)
  then show ?case by (auto simp: swap_sides_def)
next
  case (2 a b s d xs n m)
  note al = 2(2)
  have rest: "walk (range_end d) (range_end s) (swap_sides xs) j' Left \<le> i \<and>
      i < walk (range_end d) (range_end s) (swap_sides xs) (j' + 1) Right"
    if "walk (range_end s) (range_end d) xs i Right = j'" "range_end s \<le> i" for j'
    using 2 that by (simp add: spaced_Cons untouched_def)
  have swap: "swap_sides ((s, d) # xs) = (d, s) # swap_sides xs" by (simp add: swap_sides_def)
  consider (gap) "i < range_start s" | (here) "range_start s \<le> i" "i \<le> range_end s" | (later) "range_end s < i" by linarith
  then show ?case
  proof cases
    case gap
    then have j: "j = b + (i - a)" "j < range_start d" "i = a + (j - b)" "b \<le> j" using 2 by auto
    have "i < walk b a (swap_sides ((s, d) # xs)) (j + 1) Right"
    proof (cases "j + 1 < range_start d")
      case True
      then show ?thesis using j(3,4) by (simp add: swap)
    next
      case False
      then have "j + 1 = range_start d" using j(2) by simp
      then have "range_start s \<le> the (inside_edit (j + 1) Right d s)"
        using al inside_edit_bounds [of d "j + 1" s Right] by auto
      then show ?thesis using False gap al \<open>j + 1 = range_start d\<close> by (simp add: swap)
    qed
    then show ?thesis using j(2,3) by (simp add: swap)
  next
    case here
    note w = walk_inside_edit [OF 2(2,3,4) here]
    have j: "j = range_end d" using w here 2(6) by simp
    have "the (inside_edit j Left d s) \<le> range_end s" using inside_edit_bounds [of d j s Left] al j by auto
    then show ?thesis using rest [OF w(3)] w(1) j al by (auto simp: swap)
  next
    case later
    then have w: "walk (range_end s) (range_end d) xs i Right = j" using 2 by auto
    have "range_end d \<le> j" using w walk_lower [of "range_end s" "range_end d" xs n m i Right] al later by auto
    moreover have "the (inside_edit j Left d s) \<le> range_end s" if "j = range_end d"
      using inside_edit_bounds [of d j s Left] al that by auto
    ultimately show ?thesis using rest [OF w] later al by (auto simp: swap)
  qed
qed

text \<open>The forward map finds the byte.\<close>

lemma kept_head: "kept es c \<Longrightarrow> text_at es c = '''' \<Longrightarrow> c < length source \<Longrightarrow>
    substitution_from es source c ! 0 = source ! c \<and> substitution_from es source c \<noteq> ''''"
  by (simp add: substitution_from_def upt_conv_Cons piece_def)

lemma untouched_recorded: "untouched (sides Forward (recorded c b es)) i \<longleftrightarrow> kept es i"
  by (induction c b es rule: recorded.induct) (auto simp: sides_def untouched_def kept_def Let_def)

lemma set_recorded: "fst ` set (sides Forward (recorded c b es)) = edit_range ` set es"
  by (induction c b es rule: recorded.induct) (auto simp: sides_def Let_def)

lemma spaced_recorded: "ordered es \<Longrightarrow> spaced (sides Forward (recorded c b es))"
proof (induction c b es rule: recorded.induct)
  case (2 c b e es)
  let ?rest = "sides Forward (recorded (range_end (edit_range e)) (b + (range_start (edit_range e) - c) + length (replacement e)) es)"
  have "\<forall>p \<in> set ?rest. before (edit_range e) (fst p)"
    using 2(2) imageI [of _ "set ?rest" fst] by (fastforce simp: set_recorded ordered_Cons)
  then show ?case using 2 by (auto simp: sides_def Let_def spaced_Cons ordered_Cons)
qed (simp add: sides_def spaced_def)

lemma walk_finds:
  "ordered es \<Longrightarrow> starts_from c es \<Longrightarrow> fits es source \<Longrightarrow> kept es i \<Longrightarrow> c \<le> i \<Longrightarrow> i < length source \<Longrightarrow>
     walk c (length out) (sides Forward (recorded c (length out) es)) i Right = j \<Longrightarrow>
     j < length (out @ substitution_from es source c) \<and> (out @ substitution_from es source c) ! j = source ! i"
proof (induction es arbitrary: c out)
  case Nil
  then show ?case by (auto simp: sides_def substitution_Nil nth_append)
next
  case (Cons e es)
  let ?a = "range_start (edit_range e)" and ?b = "range_end (edit_range e)"
  let ?out = "out @ take (?a - c) (drop c source) @ replacement e"
  have e: "c \<le> ?a" "?a \<le> ?b" "?b \<le> length source" using Cons.prems by (auto simp: starts_from_def ordered_Cons fits_Cons)
  have len: "length ?out = length out + (?a - c) + length (replacement e)" using e by simp
  have text': "out @ substitution_from (e # es) source c = ?out @ substitution_from es source ?b"
    using substitution_Cons [OF Cons.prems(1) e(1,3)] by simp
  have ?case if "?b \<le> i" "walk ?b (length ?out) (sides Forward (recorded ?b (length ?out) es)) i Right = j"
    unfolding text' using Cons.prems that
    by (intro Cons.IH starts_from_tail [OF Cons.prems(1)]) (simp_all add: ordered_Cons fits_Cons kept_def)
  moreover have "?b \<le> i \<and> walk ?b (length ?out) (sides Forward (recorded ?b (length ?out) es)) i Right = j" if "?a \<le> i"
  proof -
    let ?xs = "sides Forward (recorded ?b (length ?out) es)" and ?d = "(length out + (?a - c), length ?out)"
    have cons: "sides Forward (recorded c (length out) (e # es)) = (edit_range e, ?d) # ?xs"
      unfolding len by (simp add: sides_def Let_def)
    have al: "aligned c (length out) ((edit_range e, ?d) # ?xs) (length source)
        (length out + length (substitution_from (e # es) source c))"
      unfolding cons [symmetric] using Cons.prems e by (intro recorded_aligned) auto
    have sp: "spaced ((edit_range e, ?d) # ?xs)" "untouched ((edit_range e, ?d) # ?xs) i"
      using spaced_recorded [OF Cons.prems(1), of c "length out"] untouched_recorded [of c "length out" "e # es" i]
        Cons.prems(4) unfolding cons by auto
    have j: "walk c (length out) ((edit_range e, ?d) # ?xs) i Right = j" using Cons.prems(7) unfolding cons .
    show ?thesis
    proof (cases "i \<le> ?b")
      case True
      note w = walk_inside_edit [OF al sp that True]
      have "j = snd ?d" using j w(2) that True by simp
      then show ?thesis using w(1,3) by simp
    next
      case False
      then show ?thesis using that j by simp
    qed
  qed
  moreover have ?case if "i < ?a"
  proof -
    obtain k where k: "i = c + k" using Cons.prems(5) le_Suc_ex by blast
    have "j = length out + k" using that k Cons.prems(7) by (simp add: sides_def Let_def)
    then show ?thesis using that k e unfolding text' by (simp add: nth_append) linarith
  qed
  ultimately show ?case by linarith
qed

section \<open>Properties\<close>

text \<open>The offset map of an applied script is monotone in both directions, so mapping a range gives a range that
  contains the image of every offset of it under either bias, inside the other text.\<close>

theorem edit_map_ranges:
  assumes "build_script calls = Ok self" and "apply_with_map self source = Ok applied"
  shows "(p \<le> q \<and> q \<le> length source \<longrightarrow>
      (\<exists>p' q'. original_range_to_output (edit_map applied) (p, q) = Ok (Some (p', q')) \<and> p' \<le> q' \<and>
         q' \<le> length (edited_text applied) \<and>
         (\<forall>x bias y. p \<le> x \<and> x \<le> q \<and> original_to_output (edit_map applied) x bias = Some y \<longrightarrow> p' \<le> y \<and> y \<le> q'))) \<and>
    (p \<le> q \<and> q \<le> length (edited_text applied) \<longrightarrow>
      (\<exists>p' q'. output_range_to_original (edit_map applied) (p, q) = Ok (Some (p', q')) \<and> p' \<le> q' \<and> q' \<le> length source \<and>
         (\<forall>x bias y. p \<le> x \<and> x \<le> q \<and> output_to_original (edit_map applied) x bias = Some y \<longrightarrow> p' \<le> y \<and> y \<le> q')))"
    (is "?forward \<and> ?reverse")
proof
  have ok: "map_ok (edit_map applied)" by (rule apply_map_ok [OF build_script_ok [OF assms(1)] assms(2)])
  have lens: "original_len (edit_map applied) = length source" "output_len (edit_map applied) = length (edited_text applied)"
    using assms(2) by (auto simp: apply_with_map_eq [OF build_script_ok [OF assms(1)]] outcome_simps)
  show ?forward using forward.range_covers [OF ok, of p q] unfolding original_range_to_output_def lens by blast
  show ?reverse using reverse.range_covers [OF ok, of p q] unfolding output_range_to_original_def lens by blast
qed

text \<open>(C33) Following an unedited byte. With the right bias the map sends its offset to the place where the same
  byte stands in the edited text, and every output range around that place maps back to an original range around
  the byte.\<close>

theorem edit_map_exact:
  assumes "build_script calls = Ok self" and "apply_with_map self source = Ok applied"
    and "i < length source" and "kept self i"
  shows "\<exists>j. original_to_output (edit_map applied) i Right = Some j \<and> j < length (edited_text applied) \<and>
    edited_text applied ! j = source ! i \<and>
    (\<forall>p q. p \<le> j \<and> j < q \<and> q \<le> length (edited_text applied) \<longrightarrow>
       (\<exists>p' q'. output_range_to_original (edit_map applied) (p, q) = Ok (Some (p', q')) \<and> p' \<le> i \<and> i < q'))"
proof -
  note ok = build_script_ok [OF assms(1)]
  let ?es = "sort_key edit_range self" and ?m = "edit_map applied"
  have fits: "fits ?es source" and applied: "edited_text applied = substitution self source"
    "mapped ?m = recorded 0 0 ?es" "original_len ?m = length source" "output_len ?m = length (substitution self source)"
    using assms(2) check_edits_Ok [of source ?es] by (auto simp: apply_with_map_eq [OF ok] outcome_simps)
  have m: "map_ok ?m" by (rule apply_map_ok [OF ok assms(2)])
  note ord = script_ok_ordered [OF ok]
  define j where "j = walk 0 0 (sides Forward (recorded 0 0 ?es)) i Right"
  have to_j: "original_to_output ?m i Right = Some j"
    using assms(3) forward_walk [OF m, of i Right] by (simp add: original_to_output_def applied j_def)
  have found: "j < length (substitution self source) \<and> substitution self source ! j = source ! i"
    using walk_finds [OF ord _ fits, of 0 i "[]" j] assms(3,4) substitution_sort [OF ok, of source]
    by (simp add: starts_from_def kept_sort j_def substitution_def)
  have return: "walk 0 0 (sides Reverse (mapped ?m)) j Left \<le> i \<and> i < walk 0 0 (sides Reverse (mapped ?m)) (j + 1) Right"
    using m unfolding map_ok_def applied(2) sides_reverse
    by (rule walk_return) (simp_all add: spaced_recorded [OF ord] untouched_recorded kept_sort assms(4) j_def)
  have "\<exists>p' q'. output_range_to_original ?m (p, q) = Ok (Some (p', q')) \<and> p' \<le> i \<and> i < q'"
    if pq: "p \<le> j" "j < q" "q \<le> length (substitution self source)" for p q
  proof -
    have len: "p \<le> q" "q \<le> output_len ?m" using pq applied by simp_all
    obtain p' q' where r: "output_range_to_original ?m (p, q) = Ok (Some (p', q'))"
      and inside: "\<And>x bias y. p \<le> x \<Longrightarrow> x \<le> q \<Longrightarrow> output_to_original ?m x bias = Some y \<Longrightarrow> p' \<le> y \<and> y \<le> q'"
      using reverse.range_covers [OF m len] unfolding output_range_to_original_def by blast
    have "p' \<le> walk 0 0 (sides Reverse (mapped ?m)) j Left" "walk 0 0 (sides Reverse (mapped ?m)) (j + 1) Right \<le> q'"
      using inside [of j Left] inside [of "j + 1" Right] pq len
      by (auto simp: output_to_original_def reverse_walk [OF m])
    then show ?thesis using r return by auto
  qed
  then show ?thesis using to_j found applied by auto
qed

text \<open>Two adjacent deletions: the reverse map stops between them, so it does not give back the offset of the
  unedited byte that follows, under either bias.\<close>

definition two_deletions :: "(range \<times> string) list" where
  "two_deletions = [((2, 4), ''''), ((4, 6), '''')]"

lemma reverse_map_stops_between_deletions:
  "\<exists>self applied. build_script two_deletions = Ok self \<and> apply_with_map self ''abcdefgh'' = Ok applied \<and>
     edited_text applied = ''abgh'' \<and> original_to_output (edit_map applied) 6 Right = Some 2 \<and>
     output_to_original (edit_map applied) 2 Left = Some 2 \<and> output_to_original (edit_map applied) 2 Right = Some 4"
proof -
  let ?self = "[\<lparr>edit_range = (2, 4), replacement = ''''\<rparr>, \<lparr>edit_range = (4, 6), replacement = ''''\<rparr>]"
  have "build_script two_deletions = Ok ?self" by code_simp
  moreover have "apply_with_map ?self ''abcdefgh'' = Ok \<lparr>edited_text = ''abgh'', edit_map =
      \<lparr>original_len = 8, output_len = 4, mapped =
        [\<lparr>mapped_original = (2, 4), mapped_output = (2, 2)\<rparr>, \<lparr>mapped_original = (4, 6), mapped_output = (2, 2)\<rparr>]\<rparr>\<rparr>"
    by code_simp
  ultimately show ?thesis
    by (intro exI conjI) (assumption, assumption, simp_all add: original_to_output_def output_to_original_def map_offset_def
      partition_point_def inside_edit_def range_is_empty_def)
qed

section \<open>Witnesses\<close>

definition demo_calls :: "(range \<times> string) list" where
  "demo_calls = [((2, 4), ''XYZ''), ((0, 0), ''pre-''), ((6, 8), '''')]"

definition demo_script :: EditScript where
  "demo_script = [\<lparr>edit_range = (2, 4), replacement = ''XYZ''\<rparr>, \<lparr>edit_range = (0, 0), replacement = ''pre-''\<rparr>,
     \<lparr>edit_range = (6, 8), replacement = ''''\<rparr>]"

lemma demo_build: "build_script demo_calls = Ok demo_script"
  by code_simp

definition demo_applied :: AppliedEdits where
  "demo_applied = \<lparr>edited_text = ''pre-abXYZef'', edit_map = \<lparr>original_len = 8, output_len = 11, mapped =
     [\<lparr>mapped_original = (0, 0), mapped_output = (0, 4)\<rparr>, \<lparr>mapped_original = (2, 4), mapped_output = (6, 9)\<rparr>,
      \<lparr>mapped_original = (6, 8), mapped_output = (11, 11)\<rparr>]\<rparr>\<rparr>"

lemma demo_apply: "apply_with_map demo_script ''abcdefgh'' = Ok demo_applied"
  by code_simp

theorem edit_map_ranges_witness:
  "\<exists>p' q'. output_range_to_original (edit_map demo_applied) (6, 9) = Ok (Some (p', q')) \<and> p' \<le> q' \<and> q' \<le> 8"
  using edit_map_ranges [OF demo_build demo_apply, of 6 9] by (auto simp: demo_applied_def)

theorem edit_map_exact_witness:
  "\<exists>j. original_to_output (edit_map demo_applied) 4 Right = Some j \<and> edited_text demo_applied ! j = CHR ''e''"
proof -
  have "kept demo_script 4" by code_simp
  then show ?thesis using edit_map_exact [OF demo_build demo_apply, of 4] by auto
qed

end
