(* ===== verification/Ptx_Lexer.thy ===== *)
theory Ptx_Lexer
  imports Ptx_Source
begin

text \<open>
  The lexer of \<open>ptx-parse/src/lexer.rs\<close> and the masking of comments and strings of its \<open>lib.rs\<close>.
  Every loop runs over byte offsets of the source, as in the code; a step over a multi-byte character
  slices the source and panics off a character boundary.
\<close>

section \<open>Tokens\<close>

datatype TokenKind =
  Whitespace | LineComment | BlockComment | QuotedString | Preprocessor | Word | Punctuation | UnknownKind

definition is_trivia :: "TokenKind \<Rightarrow> bool" where
  "is_trivia k \<longleftrightarrow> k \<in> {Whitespace, LineComment, BlockComment}"

record Token =
  token_kind :: TokenKind
  token_start :: nat
  token_end :: nat

definition U32_MAX :: nat where
  "U32_MAX = 4294967295"

definition token_new :: "TokenKind \<Rightarrow> range \<Rightarrow> Token option" where
  "token_new kind span =
     (if range_start span \<le> U32_MAX \<and> range_end span \<le> U32_MAX
      then Some \<lparr>token_kind = kind, token_start = range_start span, token_end = range_end span\<rparr> else None)"

definition token_span :: "Token \<Rightarrow> range" where
  "token_span t = (token_start t, token_end t)"

text \<open>\<open>Token::text\<close>: the slice of the source. The code panics on a span that is not a range of character boundaries of
  the source; here such a text is cut off. The spans of lexed tokens are such ranges (\<open>partitioned\<close>, which every
  result of \<open>lex\<close> has), and the parser and the views take texts of lexed tokens only.\<close>

definition token_text :: "string \<Rightarrow> Token \<Rightarrow> string" where
  "token_text source t = take (token_end t - token_start t) (drop (token_start t) source)"

datatype ParseError =
  SourceTooLarge nat
| UnterminatedBlockComment nat
| UnterminatedQuotedString nat

section \<open>Bytes\<close>

definition is_ascii_whitespace :: "char \<Rightarrow> bool" where
  "is_ascii_whitespace c \<longleftrightarrow> c \<in> {CHR '' '', CHR 0x09, CHR 0x0A, CHR 0x0C, CHR 0x0D}"

definition is_ascii_alphabetic :: "char \<Rightarrow> bool" where
  "is_ascii_alphabetic c \<longleftrightarrow> 65 \<le> byte_val c \<and> byte_val c \<le> 90 \<or> 97 \<le> byte_val c \<and> byte_val c \<le> 122"

definition is_word_byte :: "char \<Rightarrow> bool" where
  "is_word_byte c \<longleftrightarrow> is_ascii_alphabetic c \<or> is_digit c \<or> c \<in> {CHR ''_'', CHR ''$'', CHR ''%'', CHR ''.''}"

text \<open>An ASCII byte that is no control character.\<close>

definition is_graphic :: "char \<Rightarrow> bool" where
  "is_graphic c \<longleftrightarrow> 32 \<le> byte_val c \<and> byte_val c < 127"

definition starts_at :: "string \<Rightarrow> nat \<Rightarrow> string \<Rightarrow> bool" where
  "starts_at source cursor lit \<longleftrightarrow> take (length lit) (drop cursor source) = lit"

text \<open>\<open>while bytes.get(cursor).is_some_and(P) { cursor += 1 }\<close>.\<close>

function skip_while :: "(char \<Rightarrow> bool) \<Rightarrow> string \<Rightarrow> nat \<Rightarrow> nat" where
  "skip_while P source cursor =
     (if cursor < length source \<and> P (source ! cursor) then skip_while P source (cursor + 1) else cursor)"
  by pat_completeness auto
termination by (relation "measure (\<lambda>(_, source, cursor). length source - cursor)") auto

declare skip_while.simps [simp del]

text \<open>\<open>source[cursor..].chars().next().expect(..).len_utf8()\<close>.\<close>

definition char_len_at :: "string \<Rightarrow> nat \<Rightarrow> nat option" where
  "char_len_at source cursor =
     (if cursor < length source \<and> is_char_boundary source cursor then Some (len_utf8 (source ! cursor)) else None)"

lemma len_utf8_pos [simp]: "0 < len_utf8 c"
  by (simp add: len_utf8_def)

lemma char_len_at_Some: "char_len_at source cursor = Some n \<Longrightarrow> cursor < length source \<and> 0 < n"
  by (auto simp: char_len_at_def split: if_splits)

section \<open>Comments, strings, preprocessor lines\<close>

function comment_end :: "string \<Rightarrow> nat \<Rightarrow> nat option" where
  "comment_end source cursor =
     (if cursor < length source \<and> \<not> starts_at source cursor ''*/''
      then do { n \<leftarrow> char_len_at source cursor; comment_end source (cursor + n) }
      else Some cursor)"
  by pat_completeness auto
termination
  by (relation "measure (\<lambda>(source, cursor). length source - cursor)") (auto dest!: char_len_at_Some)

declare comment_end.simps [simp del]

text \<open>Whether the closing quote was met, and the offset behind it.\<close>

function string_end :: "string \<Rightarrow> nat \<Rightarrow> (bool \<times> nat) option" where
  "string_end source cursor =
     (if cursor < length source
      then let b = source ! cursor in
           if b = CHR 0x5C \<and> cursor + 1 < length source
           then do { n \<leftarrow> char_len_at source (cursor + 1); string_end source (cursor + 1 + n) }
           else if b = CHR 0x22 then Some (True, cursor + 1)
           else if b = CHR 0x0A \<or> b = CHR 0x0D then Some (False, cursor)
           else do { n \<leftarrow> char_len_at source cursor; string_end source (cursor + n) }
      else Some (False, cursor))"
  by pat_completeness auto
termination
  by (relation "measure (\<lambda>(source, cursor). length source - cursor)") (auto dest!: char_len_at_Some)

declare string_end.simps [simp del]

definition position :: "char \<Rightarrow> string \<Rightarrow> nat option" where
  "position c s = (let k = length (takeWhile (\<lambda>b. b \<noteq> c) s) in if k < length s then Some k else None)"

text \<open>The offset behind the last newline before \<open>off\<close>: \<open>source[..off].rfind('\n').map_or(0, |n| n + 1)\<close>.\<close>

definition line_start_of :: "string \<Rightarrow> nat \<Rightarrow> nat" where
  "line_start_of source off = off - length (takeWhile (\<lambda>b. b \<noteq> CHR 0x0A) (rev (take off source)))"

definition is_preprocessor_start :: "string \<Rightarrow> nat \<Rightarrow> bool option" where
  "is_preprocessor_start source off =
     do { before \<leftarrow> str_slice source 0 off;
          line \<leftarrow> str_slice source (line_start_of source off) off;
          Some (list_all (\<lambda>b. b \<in> {CHR '' '', CHR 0x09, CHR 0x0D, CHR 0x0C}) line) }"

text \<open>A line that ends in a backslash goes on: the byte before the newline, or before \<open>\r\n\<close>.\<close>

definition line_continues :: "string \<Rightarrow> nat \<Rightarrow> bool" where
  "line_continues source newline =
     (let stop = (if newline \<ge> 1 \<and> source ! (newline - 1) = CHR 0x0D then newline - 1 else newline) in
      stop \<ge> 1 \<and> source ! (stop - 1) = CHR 0x5C)"

lemma position_less: "position c s = Some k \<Longrightarrow> k < length s"
  by (auto simp: position_def Let_def split: if_splits)

function preprocessor_end :: "string \<Rightarrow> nat \<Rightarrow> nat" where
  "preprocessor_end source cursor =
     (case position (CHR 0x0A) (drop cursor source) of
        None \<Rightarrow> length source
      | Some relative_newline \<Rightarrow>
          let newline = cursor + relative_newline in
          if line_continues source newline then preprocessor_end source (newline + 1) else newline)"
  by pat_completeness auto
termination
  by (relation "measure (\<lambda>(source, cursor). length source - cursor)") (auto dest!: position_less)

declare preprocessor_end.simps [simp del]

section \<open>The lexer\<close>

text \<open>The class and the end of the token at \<open>cursor\<close>, which is inside the source.\<close>

definition scan_token :: "string \<Rightarrow> nat \<Rightarrow> (TokenKind \<times> nat, ParseError) outcome" where
  "scan_token source cursor =
     (let c = source ! cursor in
      if is_ascii_whitespace c then Ok (Whitespace, skip_while is_ascii_whitespace source (cursor + 1))
      else if starts_at source cursor ''//'' then Ok (LineComment, skip_while (\<lambda>b. b \<noteq> CHR 0x0A) source (cursor + 2))
      else if starts_at source cursor ''/*''
      then try_let (or_panic (comment_end source (cursor + 2))) (\<lambda>k.
           if k = length source then Err (UnterminatedBlockComment cursor) else Ok (BlockComment, k + 2))
      else if c = CHR 0x22
      then try_let (or_panic (string_end source (cursor + 1))) (\<lambda>(closed, k).
           if \<not> closed then Err (UnterminatedQuotedString cursor) else Ok (QuotedString, k))
      else try_let (if c = CHR ''#'' then or_panic (is_preprocessor_start source cursor) else Ok False) (\<lambda>directive.
           if directive then Ok (Preprocessor, preprocessor_end source (cursor + 1))
           else if is_word_byte c then Ok (Word, skip_while is_word_byte source (cursor + 1))
           else if starts_at source cursor ''::'' then Ok (Punctuation, cursor + 2)
           else if is_graphic c then Ok (Punctuation, cursor + 1)
           else try_let (or_panic (char_len_at source cursor)) (\<lambda>n. Ok (UnknownKind, cursor + n))))"

lemma skip_while_ge: "cursor \<le> skip_while P source cursor"
proof (induction P source cursor rule: skip_while.induct)
  case (1 P source cursor)
  then show ?case unfolding skip_while.simps [of P source cursor] by (auto dest: Suc_leD)
qed

lemma comment_end_ge: "comment_end source cursor = Some k \<Longrightarrow> cursor \<le> k"
proof (induction source cursor rule: comment_end.induct)
  case (1 source cursor)
  from 1(2) show ?case
    unfolding comment_end.simps [of source cursor] by (auto simp: bind_eq_Some_conv split: if_splits dest: 1(1) [OF conjI])
qed

lemma string_end_ge: "string_end source cursor = Some (closed, k) \<Longrightarrow> cursor \<le> k"
proof (induction source cursor rule: string_end.induct)
  case (1 source cursor)
  have escape: "Suc cursor < length source \<Longrightarrow> source ! cursor = CHR 0x5C \<Longrightarrow> char_len_at source (Suc cursor) = Some n \<Longrightarrow>
      string_end source (Suc (cursor + n)) = Some (closed, k) \<Longrightarrow> Suc (cursor + n) \<le> k" for n
    using 1(1) [of "source ! cursor" n] by simp
  from 1(3) show ?case
    unfolding string_end.simps [of source cursor]
    by (auto simp: bind_eq_Some_conv Let_def split: if_splits dest: escape 1(2) [OF _ refl])
qed

lemma preprocessor_end_ge: "cursor \<le> length source \<Longrightarrow> cursor \<le> preprocessor_end source cursor"
proof (induction source cursor rule: preprocessor_end.induct)
  case (1 source cursor)
  show ?case
    by (subst preprocessor_end.simps)
       (use 1 in \<open>fastforce simp: Let_def split: option.splits if_splits dest: position_less\<close>)
qed

lemma scan_token_progress:
  assumes "scan_token source cursor = Ok (kind, k)" "cursor < length source"
  shows "cursor < k"
proof -
  have "cursor + 1 \<le> k \<or> cursor + 2 \<le> k"
    using assms skip_while_ge [of "cursor + 1" is_ascii_whitespace source]
      skip_while_ge [of "cursor + 2" "\<lambda>b. b \<noteq> CHR 0x0A" source] skip_while_ge [of "cursor + 1" is_word_byte source]
      preprocessor_end_ge [of "cursor + 1" source]
    by (auto simp: scan_token_def Let_def outcome_simps split: if_splits
        dest!: comment_end_ge string_end_ge char_len_at_Some)
  then show ?thesis by linarith
qed

function lex_from :: "string \<Rightarrow> nat \<Rightarrow> (Token list, ParseError) outcome" where
  "lex_from source cursor =
     (if cursor < length source
      then try_let (scan_token source cursor) (\<lambda>(kind, k).
           try_let (or_panic (token_new kind (cursor, k))) (\<lambda>token.
           try_let (lex_from source k) (\<lambda>tokens. Ok (token # tokens))))
      else Ok [])"
  by pat_completeness auto
termination
  by (relation "measure (\<lambda>(source, cursor). length source - cursor)")
     (auto dest!: scan_token_progress)

declare lex_from.simps [simp del]

definition lex :: "string \<Rightarrow> (Token list, ParseError) outcome" where
  "lex source = (if length source > U32_MAX then Err (SourceTooLarge (length source)) else lex_from source 0)"

section \<open>Masking what is not code\<close>

definition is_masked :: "TokenKind \<Rightarrow> bool" where
  "is_masked k \<longleftrightarrow> k \<in> {LineComment, BlockComment, QuotedString, Preprocessor}"

definition mask_byte :: "char \<Rightarrow> char" where
  "mask_byte c = (if c \<noteq> CHR 0x0A \<and> c \<noteq> CHR 0x0D then CHR '' '' else c)"

definition mask_span :: "range \<Rightarrow> string \<Rightarrow> string option" where
  "mask_span span masked =
     (if range_start span \<le> range_end span \<and> range_end span \<le> length masked
      then Some (take (range_start span) masked @ map mask_byte (take (range_len span) (drop (range_start span) masked)) @
                 drop (range_end span) masked)
      else None)"

fun mask_tokens :: "Token list \<Rightarrow> string \<Rightarrow> string option" where
  "mask_tokens [] masked = Some masked"
| "mask_tokens (token # tokens) masked =
     (if is_masked (token_kind token)
      then do { masked' \<leftarrow> mask_span (token_span token) masked; mask_tokens tokens masked' }
      else mask_tokens tokens masked)"

text \<open>\<open>String::from_utf8(masked).expect(..)\<close>.\<close>

definition mask_non_code :: "string \<Rightarrow> Token list \<Rightarrow> string option" where
  "mask_non_code source tokens =
     do { masked \<leftarrow> mask_tokens tokens source; if valid_str masked then Some masked else None }"

end
