(* ===== verification/Ptx_Syntax.thy ===== *)
theory Ptx_Syntax
  imports Ptx_Lexer
begin

text \<open>
  The structural parser of \<open>ptx-parse/src/syntax.rs\<close>: statements, lexical scopes, diagnostics and the
  byte accounting. Debug assertions are panics, as in a build that keeps them. The text of a token is the
  slice of the source; on the tokens of the lexer it is never off a character boundary.
\<close>

section \<open>Data\<close>

datatype StatementKind =
  DirectiveStatement | InstructionStatement | CallableHeader | LabelStatement | PreprocessorStatement | UnknownStatement

record Statement =
  st_id :: nat
  st_kind :: StatementKind
  st_scope :: nat
  st_span :: range
  st_tokens :: range

record Scope =
  sc_id :: nat
  sc_parent :: "nat option"
  sc_header :: "nat option"
  sc_span :: range
  sc_open :: "range option"
  sc_close :: "range option"

definition body_span :: "Scope \<Rightarrow> range" where
  "body_span self =
     (case sc_open self of
        None \<Rightarrow> sc_span self
      | Some open \<Rightarrow> (range_end open, case sc_close self of None \<Rightarrow> range_end (sc_span self) | Some close \<Rightarrow> range_start close))"

datatype DiagnosticKind =
  UnknownToken | UnrecognizedSyntax | UnmatchedClosingDelimiter | UnterminatedDelimiter | UnterminatedStatement
| MalformedDirective | MalformedCallable | MalformedInstruction

type_synonym Diagnostic = "DiagnosticKind \<times> range"

record Coverage =
  source_bytes :: nat
  token_bytes :: nat
  non_trivia_bytes :: nat
  recognized_bytes :: nat
  unknown_bytes :: nat
  diagnostic_count :: nat

definition add_diagnostics :: "nat \<Rightarrow> Coverage \<Rightarrow> Coverage" where
  "add_diagnostics count self = self\<lparr>diagnostic_count := diagnostic_count self + count\<rparr>"

definition is_lossless :: "Coverage \<Rightarrow> bool" where
  "is_lossless self \<longleftrightarrow> token_bytes self = source_bytes self"

definition is_complete :: "Coverage \<Rightarrow> bool" where
  "is_complete self \<longleftrightarrow> is_lossless self \<and> recognized_bytes self = non_trivia_bytes self \<and>
     unknown_bytes self = 0 \<and> diagnostic_count self = 0"

datatype Ownership = Unowned | Recognized | UnknownOwner

record ParsedSyntax =
  statements :: "Statement list"
  scopes :: "Scope list"
  diagnostics :: "Diagnostic list"
  coverage :: Coverage

section \<open>Token queries\<close>

definition trivia_at :: "Token list \<Rightarrow> nat \<Rightarrow> bool" where
  "trivia_at tokens i = is_trivia (token_kind (tokens ! i))"

definition significant_indices :: "Token list \<Rightarrow> range \<Rightarrow> nat list" where
  "significant_indices tokens r = filter (\<lambda>i. \<not> trivia_at tokens i) [range_start r..<range_end r]"

definition next_significant :: "Token list \<Rightarrow> nat \<Rightarrow> nat option" where
  "next_significant tokens cursor = find (\<lambda>i. \<not> trivia_at tokens i) [cursor..<length tokens]"

definition token_is :: "string \<Rightarrow> Token list \<Rightarrow> nat \<Rightarrow> string \<Rightarrow> bool" where
  "token_is source tokens i expected \<longleftrightarrow> token_text source (tokens ! i) = expected"

definition is_word :: "Token list \<Rightarrow> nat \<Rightarrow> bool" where
  "is_word tokens i \<longleftrightarrow> token_kind (tokens ! i) = Word"

definition is_instruction_head :: "string \<Rightarrow> bool" where
  "is_instruction_head head \<longleftrightarrow> (case head of [] \<Rightarrow> False | b # _ \<Rightarrow> is_ascii_alphabetic b \<or> b = CHR ''_'')"

definition is_linkage_prefix :: "string \<Rightarrow> bool" where
  "is_linkage_prefix word \<longleftrightarrow> word \<in> {''.visible'', ''.extern'', ''.weak'', ''.common''}"

definition requires_semicolon :: "string \<Rightarrow> bool" where
  "requires_semicolon word \<longleftrightarrow> word \<in> {''.reg'', ''.sreg'', ''.const'', ''.global'', ''.local'', ''.param'', ''.shared'',
     ''.tex'', ''.surf'', ''.branchtargets'', ''.calltargets'', ''.callprototype'', ''.pragma''}"

text \<open>The label prefix \<open>name : name : ...\<close> of the significant tokens: where it ends, or \<open>None\<close> for a stray colon.\<close>

definition label_here :: "string \<Rightarrow> Token list \<Rightarrow> nat list \<Rightarrow> nat \<Rightarrow> bool" where
  "label_here source tokens significant cursor \<longleftrightarrow> cursor + 1 < length significant \<and>
     is_word tokens (significant ! cursor) \<and> token_is source tokens (significant ! (cursor + 1)) '':'' \<and>
     (cursor + 2 = length significant \<or> \<not> token_is source tokens (significant ! (cursor + 2)) '':'')"

function skip_labels :: "string \<Rightarrow> Token list \<Rightarrow> nat list \<Rightarrow> nat \<Rightarrow> nat option" where
  "skip_labels source tokens significant cursor =
     (if label_here source tokens significant cursor then skip_labels source tokens significant (cursor + 2)
      else if cursor < length significant \<and> token_is source tokens (significant ! cursor) '':'' then None
      else Some cursor)"
  by pat_completeness auto
termination
  by (relation "measure (\<lambda>(_, _, significant, cursor). length significant - cursor)") (auto simp: label_here_def)

declare skip_labels.simps [simp del]

definition contains_word :: "string list \<Rightarrow> string \<Rightarrow> Token list \<Rightarrow> range \<Rightarrow> bool" where
  "contains_word keywords source tokens r \<longleftrightarrow>
     list_ex (\<lambda>i. is_word tokens i \<and> token_text source (tokens ! i) \<in> set keywords) (significant_indices tokens r)"

definition contains_scope_header_keyword :: "string \<Rightarrow> Token list \<Rightarrow> range \<Rightarrow> bool" where
  "contains_scope_header_keyword = contains_word [''.entry'', ''.func'', ''.section'']"

definition contains_callable_keyword :: "string \<Rightarrow> Token list \<Rightarrow> range \<Rightarrow> bool" where
  "contains_callable_keyword = contains_word [''.entry'', ''.func'']"

definition is_braced_header :: "string \<Rightarrow> Token list \<Rightarrow> range \<Rightarrow> bool" where
  "is_braced_header source tokens r = contains_scope_header_keyword source tokens r"

definition has_newline :: "string \<Rightarrow> Token list \<Rightarrow> nat \<Rightarrow> bool" where
  "has_newline source tokens i \<longleftrightarrow> CHR 0x0A \<in> set (token_text source (tokens ! i))"

function starts_callable_header :: "string \<Rightarrow> Token list \<Rightarrow> nat \<Rightarrow> bool" where
  "starts_callable_header source tokens cursor =
     (if cursor < length tokens
      then if trivia_at tokens cursor
           then if has_newline source tokens cursor then False else starts_callable_header source tokens (cursor + 1)
           else if \<not> is_word tokens cursor then False
           else let word = token_text source (tokens ! cursor) in
                if word = ''.entry'' \<or> word = ''.func'' then True
                else if is_linkage_prefix word then starts_callable_header source tokens (cursor + 1)
                else False
      else False)"
  by pat_completeness auto
termination by (relation "measure (\<lambda>(_, tokens, cursor). length tokens - cursor)") auto

declare starts_callable_header.simps [simp del]

definition starts_with_dot :: "string \<Rightarrow> bool" where
  "starts_with_dot word \<longleftrightarrow> (case word of [] \<Rightarrow> False | c # _ \<Rightarrow> c = CHR ''.'')"

definition should_end_at_line :: "string \<Rightarrow> Token list \<Rightarrow> range \<Rightarrow> bool" where
  "should_end_at_line source tokens r =
     (let significant = significant_indices tokens r in
      if significant = [] then False
      else if skip_labels source tokens significant 0 = Some (length significant) then True
      else if contains_scope_header_keyword source tokens r then False
      else let words = map (\<lambda>i. token_text source (tokens ! i)) (filter (is_word tokens) significant) in
           case words of
             [] \<Rightarrow> False
           | first # _ \<Rightarrow>
               if \<not> starts_with_dot first then False
               else if list_all is_linkage_prefix words then False
               else \<not> list_ex requires_semicolon words)"

section \<open>One item\<close>

datatype Terminator = Semicolon | Line | Brace | ScopeClose | EndOfFile | Recovery

record ScanOutcome =
  so_end :: nat
  so_terminator :: Terminator
  so_diagnostic :: "DiagnosticKind option"

definition outcome_of :: "nat \<Rightarrow> Terminator \<Rightarrow> DiagnosticKind option \<Rightarrow> ScanOutcome" where
  "outcome_of e t d = \<lparr>so_end = e, so_terminator = t, so_diagnostic = d\<rparr>"

text \<open>One token of an item: return, or go on with the open delimiters (the innermost last) and the last significant token.\<close>

datatype scan_action = Return ScanOutcome | Continue "string list" nat

definition on_trivia :: "string \<Rightarrow> Token list \<Rightarrow> nat \<Rightarrow> nat \<Rightarrow> string list \<Rightarrow> nat \<Rightarrow> scan_action" where
  "on_trivia source tokens start cursor delimiters last_significant =
     (if has_newline source tokens cursor \<and> delimiters = [] \<and> should_end_at_line source tokens (start, cursor)
      then Return (outcome_of (last_significant + 1) Line None)
      else if has_newline source tokens cursor \<and> delimiters \<noteq> [] \<and>
              (case next_significant tokens (cursor + 1) of None \<Rightarrow> False
               | Some nxt \<Rightarrow> starts_callable_header source tokens nxt)
      then Return (outcome_of (last_significant + 1) Recovery (Some UnterminatedDelimiter))
      else Continue delimiters last_significant)"

definition on_punctuation :: "string \<Rightarrow> Token list \<Rightarrow> nat \<Rightarrow> nat \<Rightarrow> string list \<Rightarrow> scan_action" where
  "on_punctuation source tokens start cursor delimiters =
     (let txt = token_text source (tokens ! cursor) in
      if txt = '';''
      then Return (outcome_of (cursor + 1) Semicolon (if delimiters = [] then None else Some UnterminatedDelimiter))
      else if txt = ''{'' \<and> delimiters = [] \<and> is_braced_header source tokens (start, cursor)
      then Return (outcome_of cursor Brace None)
      else if txt = ''{'' then Continue (delimiters @ [''}'']) cursor
      else if txt = ''['' then Continue (delimiters @ ['']'']) cursor
      else if txt = ''('' then Continue (delimiters @ ['')'']) cursor
      else if txt = ''}'' \<or> txt = '']'' \<or> txt = '')''
      then if delimiters \<noteq> [] \<and> last delimiters = txt then Continue (butlast delimiters) cursor
           else if delimiters = [] \<and> txt = ''}'' then Return (outcome_of cursor ScopeClose None)
           else Return (outcome_of (cursor + 1) Recovery (Some UnmatchedClosingDelimiter))
      else Continue delimiters cursor)"

definition scan_one :: "string \<Rightarrow> Token list \<Rightarrow> nat \<Rightarrow> nat \<Rightarrow> string list \<Rightarrow> nat \<Rightarrow> scan_action" where
  "scan_one source tokens start cursor delimiters last_significant =
     (let kind = token_kind (tokens ! cursor) in
      if is_trivia kind then on_trivia source tokens start cursor delimiters last_significant
      else if kind = Preprocessor \<and> cursor \<noteq> start
      then Return (outcome_of cursor Recovery (Some UnterminatedStatement))
      else if kind = UnknownKind then Return (outcome_of (cursor + 1) Recovery (Some UnknownToken))
      else if kind = Punctuation then on_punctuation source tokens start cursor delimiters
      else Continue delimiters cursor)"

function scan_from :: "string \<Rightarrow> Token list \<Rightarrow> nat \<Rightarrow> nat \<Rightarrow> string list \<Rightarrow> nat \<Rightarrow> ScanOutcome" where
  "scan_from source tokens start cursor delimiters last_significant =
     (if cursor < length tokens
      then case scan_one source tokens start cursor delimiters last_significant of
             Return out \<Rightarrow> out
           | Continue delimiters' last_significant' \<Rightarrow>
               scan_from source tokens start (cursor + 1) delimiters' last_significant'
      else outcome_of (last_significant + 1) EndOfFile (if delimiters = [] then None else Some UnterminatedDelimiter))"
  by pat_completeness auto
termination by (relation "measure (\<lambda>(_, tokens, _, cursor, _). length tokens - cursor)") auto

declare scan_from.simps [simp del]

definition scan_item :: "string \<Rightarrow> Token list \<Rightarrow> nat \<Rightarrow> ScanOutcome" where
  "scan_item source tokens start = scan_from source tokens start start [] start"

definition classify :: "string \<Rightarrow> Token list \<Rightarrow> range \<Rightarrow> Terminator \<Rightarrow> StatementKind" where
  "classify source tokens r terminator =
     (let significant = significant_indices tokens r in
      case skip_labels source tokens significant 0 of
        None \<Rightarrow> UnknownStatement
      | Some cursor \<Rightarrow>
          if cursor = length significant
          then if terminator = Line \<or> terminator = ScopeClose then LabelStatement else UnknownStatement
          else
          let guarded = token_is source tokens (significant ! cursor) ''@'';
              negated = (cursor + 1 < length significant \<and> token_is source tokens (significant ! (cursor + 1)) ''!'');
              reg = (if guarded then (if negated then cursor + 2 else cursor + 1) else cursor);
              cursor' = (if guarded then reg + 1 else cursor) in
          if guarded \<and> (reg \<ge> length significant \<or> \<not> is_word tokens (significant ! reg)) then UnknownStatement
          else if cursor' \<ge> length significant then UnknownStatement
          else if \<not> is_word tokens (significant ! cursor') then UnknownStatement
          else let head = token_text source (tokens ! (significant ! cursor')) in
               if starts_with_dot head
               then if contains_callable_keyword source tokens r then CallableHeader else DirectiveStatement
               else if terminator = Semicolon \<and> is_instruction_head head then InstructionStatement
               else UnknownStatement)"

section \<open>The parser\<close>

record parser =
  ps_statements :: "Statement list"
  ps_scopes :: "Scope list"
  ps_stack :: "nat list"
  ps_diagnostics :: "Diagnostic list"
  ps_ownership :: "Ownership list"
  ps_header :: "nat option"
  ps_cursor :: nat

definition parser_init :: "string \<Rightarrow> Token list \<Rightarrow> parser" where
  "parser_init source tokens =
     \<lparr>ps_statements = [],
      ps_scopes = [\<lparr>sc_id = 0, sc_parent = None, sc_header = None, sc_span = (0, length source), sc_open = None, sc_close = None\<rparr>],
      ps_stack = [0], ps_diagnostics = [], ps_ownership = replicate (length tokens) Unowned, ps_header = None, ps_cursor = 0\<rparr>"

text \<open>The \<open>expect\<close> on the scope stack.\<close>

definition current_scope :: "parser \<Rightarrow> nat option" where
  "current_scope st = (if ps_stack st = [] then None else Some (last (ps_stack st)))"

text \<open>Marking the tokens of a statement; the debug assertion demands that nobody owns them yet.\<close>

fun own_tokens :: "Token list \<Rightarrow> Ownership \<Rightarrow> nat list \<Rightarrow> Ownership list \<Rightarrow> Ownership list option" where
  "own_tokens tokens who [] ownership = Some ownership"
| "own_tokens tokens who (i # is) ownership =
     (if \<not> i < length tokens then None
      else if trivia_at tokens i then own_tokens tokens who is ownership
      else if \<not> i < length ownership \<or> ownership ! i \<noteq> Unowned then None
      else own_tokens tokens who is (ownership[i := who]))"

definition push_statement :: "string \<Rightarrow> Token list \<Rightarrow> StatementKind \<Rightarrow> nat \<Rightarrow> range \<Rightarrow> parser \<Rightarrow> (nat \<times> parser) option" where
  "push_statement source tokens kind scope r st =
     (let id' = length (ps_statements st);
          who = (if kind = UnknownStatement then UnknownOwner else Recognized) in
      do { ownership \<leftarrow> own_tokens tokens who [range_start r..<range_end r] (ps_ownership st);
           if range_start r < length tokens \<and> range_end r \<ge> 1 \<and> range_end r - 1 < length tokens
           then let span = (token_start (tokens ! range_start r), token_end (tokens ! (range_end r - 1))) in
                if is_char_boundary source (range_start span) \<and> is_char_boundary source (range_end span)
                then Some (id', st\<lparr>ps_ownership := ownership, ps_statements := ps_statements st @
                       [\<lparr>st_id = id', st_kind = kind, st_scope = scope, st_span = span, st_tokens = r\<rparr>]\<rparr>)
                else None
           else None })"

definition push_diagnostic :: "DiagnosticKind \<Rightarrow> range \<Rightarrow> parser \<Rightarrow> parser" where
  "push_diagnostic kind span st = st\<lparr>ps_diagnostics := ps_diagnostics st @ [(kind, span)]\<rparr>"

text \<open>The branches of the main loop for a preprocessor line, an unknown token, and the two braces.\<close>

definition on_preprocessor :: "string \<Rightarrow> Token list \<Rightarrow> nat \<Rightarrow> parser \<Rightarrow> parser option" where
  "on_preprocessor source tokens start st =
     do { scope \<leftarrow> current_scope st;
          (_, st) \<leftarrow> push_statement source tokens PreprocessorStatement scope (start, start + 1) (st\<lparr>ps_header := None\<rparr>);
          Some (st\<lparr>ps_cursor := start + 1\<rparr>) }"

definition on_unknown :: "string \<Rightarrow> Token list \<Rightarrow> nat \<Rightarrow> parser \<Rightarrow> parser option" where
  "on_unknown source tokens start st =
     do { scope \<leftarrow> current_scope st;
          (_, st) \<leftarrow> push_statement source tokens UnknownStatement scope (start, start + 1) (st\<lparr>ps_header := None\<rparr>);
          Some ((push_diagnostic UnknownToken (token_span (tokens ! start)) st)\<lparr>ps_cursor := start + 1\<rparr>) }"

definition on_open :: "string \<Rightarrow> Token list \<Rightarrow> nat \<Rightarrow> parser \<Rightarrow> parser option" where
  "on_open source tokens start st =
     (let id' = length (ps_scopes st); open_span = token_span (tokens ! start) in
      if start < length (ps_ownership st)
      then Some (st\<lparr>ps_ownership := (ps_ownership st)[start := Recognized],
             ps_scopes := ps_scopes st @ [\<lparr>sc_id = id', sc_parent = current_scope st, sc_header = ps_header st,
               sc_span = (range_start open_span, length source), sc_open = Some open_span, sc_close = None\<rparr>],
             ps_header := None, ps_stack := ps_stack st @ [id'], ps_cursor := start + 1\<rparr>)
      else None)"

definition close_scope :: "nat \<Rightarrow> range \<Rightarrow> Scope list \<Rightarrow> Scope list option" where
  "close_scope scope close_span scs =
     (if scope < length scs
      then Some (scs[scope := (scs ! scope)\<lparr>sc_span := (range_start (sc_span (scs ! scope)), range_end close_span),
             sc_close := Some close_span\<rparr>])
      else None)"

definition on_close :: "string \<Rightarrow> Token list \<Rightarrow> nat \<Rightarrow> parser \<Rightarrow> parser option" where
  "on_close source tokens start st =
     (if length (ps_stack st) = 1
      then do { (_, st) \<leftarrow> push_statement source tokens UnknownStatement 0 (start, start + 1) (st\<lparr>ps_header := None\<rparr>);
                Some ((push_diagnostic UnmatchedClosingDelimiter (token_span (tokens ! start)) st)\<lparr>ps_cursor := start + 1\<rparr>) }
      else if start < length (ps_ownership st)
      then do { scope \<leftarrow> current_scope st;
                scs \<leftarrow> close_scope scope (token_span (tokens ! start)) (ps_scopes st);
                Some (st\<lparr>ps_ownership := (ps_ownership st)[start := Recognized], ps_scopes := scs,
                  ps_stack := butlast (ps_stack st), ps_header := None, ps_cursor := start + 1\<rparr>) }
      else None)"

definition on_item :: "string \<Rightarrow> Token list \<Rightarrow> nat \<Rightarrow> parser \<Rightarrow> parser option" where
  "on_item source tokens start st =
     (let out = scan_item source tokens start;
          r = (if so_end out = start then (start, start + 1) else (start, so_end out));
          kind = (if so_end out = start then UnknownStatement else classify source tokens r (so_terminator out)) in
      do { scope \<leftarrow> current_scope st;
           (id', st) \<leftarrow> push_statement source tokens kind scope r st;
           let span = st_span (ps_statements st ! id');
           let st = (if kind = UnknownStatement
                     then push_diagnostic (case so_diagnostic out of None \<Rightarrow> UnrecognizedSyntax | Some d \<Rightarrow> d) span st
                     else case so_diagnostic out of None \<Rightarrow> st | Some d \<Rightarrow> push_diagnostic d span st);
           Some (st\<lparr>ps_header := (if so_terminator out = Brace then Some id' else None),
             ps_cursor := max (so_end out) (start + 1)\<rparr>) })"

definition parse_step :: "string \<Rightarrow> Token list \<Rightarrow> nat \<Rightarrow> parser \<Rightarrow> parser option" where
  "parse_step source tokens start st =
     (let token = tokens ! start; txt = token_text source token in
      if token_kind token = Preprocessor then on_preprocessor source tokens start st
      else if token_kind token = UnknownKind then on_unknown source tokens start st
      else if token_kind token = Punctuation \<and> txt = ''{'' then on_open source tokens start st
      else if token_kind token = Punctuation \<and> txt = ''}'' then on_close source tokens start st
      else on_item source tokens start st)"

lemma parse_step_progress:
  assumes "parse_step source tokens start st = Some st'"
  shows "start < ps_cursor st'"
  using assms
  by (auto simp: parse_step_def on_preprocessor_def on_unknown_def on_open_def on_close_def on_item_def bind_eq_Some_conv Let_def
      split: if_splits)

lemma next_significant_Some:
  assumes "next_significant tokens cursor = Some i"
  shows "cursor \<le> i \<and> i < length tokens \<and> \<not> trivia_at tokens i \<and> (\<forall>j. cursor \<le> j \<and> j < i \<longrightarrow> trivia_at tokens j)"
proof -
  obtain k where k: "k < length [cursor..<length tokens]" "i = [cursor..<length tokens] ! k"
    "\<not> trivia_at tokens i" "\<forall>j<k. trivia_at tokens ([cursor..<length tokens] ! j)"
    using assms by (auto simp: next_significant_def find_Some_iff)
  have "trivia_at tokens j" if "cursor \<le> j" "j < i" for j
    using k that by (auto dest!: spec [of _ "j - cursor"])
  then show ?thesis using k by auto
qed

function parse_loop :: "string \<Rightarrow> Token list \<Rightarrow> parser \<Rightarrow> parser option" where
  "parse_loop source tokens st =
     (case next_significant tokens (ps_cursor st) of
        None \<Rightarrow> Some st
      | Some start \<Rightarrow> do { st' \<leftarrow> parse_step source tokens start st; parse_loop source tokens st' })"
  by pat_completeness auto
termination
  by (relation "measure (\<lambda>(_, tokens, st). length tokens - ps_cursor st)")
     (auto dest!: parse_step_progress next_significant_Some)

declare parse_loop.simps [simp del]

fun unclosed :: "string \<Rightarrow> Scope list \<Rightarrow> nat list \<Rightarrow> Diagnostic list option" where
  "unclosed source scs [] = Some []"
| "unclosed source scs (i # is) =
     (if i < length scs
      then do { open_span \<leftarrow> sc_open (scs ! i); rest \<leftarrow> unclosed source scs is;
                Some ((UnterminatedDelimiter, (range_start open_span, length source)) # rest) }
      else None)"

definition bytes_of :: "(nat \<Rightarrow> bool) \<Rightarrow> Token list \<Rightarrow> nat" where
  "bytes_of P tokens = sum_list (map (\<lambda>i. range_len (token_span (tokens ! i))) (filter P [0..<length tokens]))"

definition parse :: "string \<Rightarrow> Token list \<Rightarrow> ParsedSyntax option" where
  "parse source tokens =
     do { st \<leftarrow> parse_loop source tokens (parser_init source tokens);
          extra \<leftarrow> unclosed source (ps_scopes st) (tl (ps_stack st));
          let diags = ps_diagnostics st @ extra;
          let non_trivia = bytes_of (\<lambda>i. \<not> trivia_at tokens i) tokens;
          let recognized = bytes_of (\<lambda>i. \<not> trivia_at tokens i \<and> ps_ownership st ! i = Recognized) tokens;
          if recognized \<le> non_trivia \<and>
             (\<forall>i < length tokens. trivia_at tokens i \<or> ps_ownership st ! i \<noteq> Unowned)
          then Some \<lparr>statements = ps_statements st, scopes = ps_scopes st, diagnostics = diags,
                 coverage = \<lparr>source_bytes = length source, token_bytes = bytes_of (\<lambda>_. True) tokens,
                   non_trivia_bytes = non_trivia, recognized_bytes = recognized,
                   unknown_bytes = non_trivia - recognized, diagnostic_count = length diags\<rparr>\<rparr>
          else None }"

end
