(* ===== verification/Ptx_Views.thy ===== *)
theory Ptx_Views
  imports Ptx_Syntax Ptx_Edit
begin

text \<open>
  The typed views of \<open>ptx-parse/src/lib.rs\<close>: labels, directives, callables, instructions and register
  declarations projected from the statements of the structural parser, the document with its lookup tables, and the
  queries over it. A view holds spans; the source it borrows is a parameter. Slices, \<open>expect\<close> and debug
  assertions are panics.
\<close>

section \<open>Trimming and splitting\<close>

definition trim_end :: "string \<Rightarrow> string" where
  "trim_end s = rev (trim_back (rev s))"

definition trim_span :: "string \<Rightarrow> range \<Rightarrow> range option" where
  "trim_span source span =
     do { txt \<leftarrow> str_slice source (range_start span) (range_end span);
          if trim txt = [] then Some (range_end span, range_end span)
          else Some (range_start span + (length txt - length (trim_start txt)), range_start span + length (trim_end txt)) }"

text \<open>The loop over the bytes of an operand list. The stack of delimiters has its top first; \<open>Err\<close> is the
  early return of \<open>None\<close>.\<close>

fun split_loop :: "string \<Rightarrow> nat \<Rightarrow> string \<Rightarrow> nat \<Rightarrow> string \<Rightarrow> nat \<Rightarrow> range list \<Rightarrow> (string \<times> nat \<times> range list, unit) outcome" where
  "split_loop source base [] index delimiters operand_start operands = Ok (delimiters, operand_start, operands)"
| "split_loop source base (b # bs) index delimiters operand_start operands =
     (if b = CHR ''{'' then split_loop source base bs (index + 1) (CHR ''}'' # delimiters) operand_start operands
      else if b = CHR ''['' then split_loop source base bs (index + 1) (CHR '']'' # delimiters) operand_start operands
      else if b = CHR ''('' then split_loop source base bs (index + 1) (CHR '')'' # delimiters) operand_start operands
      else if b = CHR ''}'' \<or> b = CHR '']'' \<or> b = CHR '')''
      then (case delimiters of
              [] \<Rightarrow> Err ()
            | d # ds \<Rightarrow> if d = b then split_loop source base bs (index + 1) ds operand_start operands else Err ())
      else if b = CHR '','' \<and> delimiters = []
      then try_let (or_panic (trim_span source (operand_start, index))) (\<lambda>span.
             if range_is_empty span then Err ()
             else split_loop source base bs (index + 1) delimiters (index + 1)
                    (operands @ [(base + range_start span, base + range_end span)]))
      else split_loop source base bs (index + 1) delimiters operand_start operands)"

definition split_top_level_spans :: "string \<Rightarrow> nat \<Rightarrow> (range list, unit) outcome" where
  "split_top_level_spans source base =
     (let leading = length source - length (trim_start source); source = trim source; base = base + leading in
      if source = [] then Ok []
      else try_let (split_loop source base source 0 [] 0 []) (\<lambda>(delimiters, operand_start, operands).
        if delimiters \<noteq> [] then Err ()
        else try_let (or_panic (trim_span source (operand_start, length source))) (\<lambda>span.
          if range_is_empty span then Err ()
          else Ok (operands @ [(base + range_start span, base + range_end span)]))))"

definition slice_all :: "string \<Rightarrow> range list \<Rightarrow> string list option" where
  "slice_all source spans = those (map (\<lambda>r. str_slice source (range_start r) (range_end r)) spans)"

definition split_top_level :: "string \<Rightarrow> (string list, unit) outcome" where
  "split_top_level source = try_let (split_top_level_spans source 0) (\<lambda>spans. or_panic (slice_all source spans))"

section \<open>Token helpers\<close>

definition significant_token_indices :: "Token list \<Rightarrow> Statement \<Rightarrow> nat list" where
  "significant_token_indices tokens q = filter (\<lambda>i. \<not> trivia_at tokens i) [range_start (st_tokens q)..<range_end (st_tokens q)]"

record LabelSpans =
  ls_span :: range
  ls_name :: range

function label_spans_from :: "string \<Rightarrow> Token list \<Rightarrow> nat list \<Rightarrow> nat \<Rightarrow> LabelSpans list \<Rightarrow> nat \<times> LabelSpans list" where
  "label_spans_from source tokens significant cursor spans =
     (if label_here source tokens significant cursor
      then let name_span = token_span (tokens ! (significant ! cursor));
               span = (range_start name_span, token_end (tokens ! (significant ! (cursor + 1)))) in
           label_spans_from source tokens significant (cursor + 2) (spans @ [\<lparr>ls_span = span, ls_name = name_span\<rparr>])
      else (cursor, spans))"
  by pat_completeness auto
termination by (relation "measure (\<lambda>(_, _, significant, cursor, _). length significant - cursor)") (auto simp: label_here_def)

declare label_spans_from.simps [simp del]

definition leading_label_spans :: "string \<Rightarrow> Token list \<Rightarrow> nat list \<Rightarrow> nat \<times> LabelSpans list" where
  "leading_label_spans source tokens significant = label_spans_from source tokens significant 0 []"

fun balanced_from :: "string \<Rightarrow> Token list \<Rightarrow> string \<Rightarrow> string \<Rightarrow> nat list \<Rightarrow> nat \<Rightarrow> nat \<Rightarrow> nat option" where
  "balanced_from source tokens open_text close_text [] cursor depth = None"
| "balanced_from source tokens open_text close_text (i # is) cursor depth =
     (let txt = token_text source (tokens ! i) in
      if txt = open_text then balanced_from source tokens open_text close_text is (cursor + 1) (depth + 1)
      else if txt = close_text
      then if depth = 0 then None
           else if depth = 1 then Some (cursor + 1)
           else balanced_from source tokens open_text close_text is (cursor + 1) (depth - 1)
      else balanced_from source tokens open_text close_text is (cursor + 1) depth)"

definition skip_balanced_tokens :: "string \<Rightarrow> Token list \<Rightarrow> nat list \<Rightarrow> nat \<Rightarrow> string \<Rightarrow> string \<Rightarrow> nat option" where
  "skip_balanced_tokens source tokens significant start open_text close_text =
     balanced_from source tokens open_text close_text (drop start significant) start 0"

text \<open>The text of the significant token at a cursor, when there is one.\<close>

definition sig_is :: "string \<Rightarrow> Token list \<Rightarrow> nat list \<Rightarrow> nat \<Rightarrow> string \<Rightarrow> bool" where
  "sig_is source tokens significant cursor txt \<longleftrightarrow>
     cursor < length significant \<and> token_text source (tokens ! (significant ! cursor)) = txt"

definition physical_line_span :: "string \<Rightarrow> nat \<Rightarrow> range option" where
  "physical_line_span source off =
     do { _ \<leftarrow> str_slice source 0 off;
          rest \<leftarrow> str_slice source off (length source);
          Some (line_start_of source off,
            case position (CHR 0x0A) rest of None \<Rightarrow> length source | Some newline \<Rightarrow> off + newline + 1) }"

definition ranges_overlap :: "range \<Rightarrow> range \<Rightarrow> bool" where
  "ranges_overlap left right \<longleftrightarrow> range_start left < range_end right \<and> range_start right < range_end left"

section \<open>Projecting statements\<close>

text \<open>The loops that collect views and diagnostics from the statements of one kind. A projection returns its view, or the
  diagnostics for a statement it cannot read.\<close>

fun project :: "(Statement \<Rightarrow> ('v, Diagnostic list) outcome) \<Rightarrow> Statement list \<Rightarrow> ('v list \<times> Diagnostic list) option" where
  "project f [] = Some ([], [])"
| "project f (q # qs) =
     (case f q of
        Ok v \<Rightarrow> do { (vs, ds) \<leftarrow> project f qs; Some (v # vs, ds) }
      | Err d \<Rightarrow> do { (vs, ds) \<leftarrow> project f qs; Some (vs, d @ ds) }
      | Panic \<Rightarrow> None)"

definition of_kind :: "StatementKind \<Rightarrow> Statement list \<Rightarrow> Statement list" where
  "of_kind kind stmts = filter (\<lambda>q. st_kind q = kind) stmts"

subsection \<open>Labels\<close>

record Label =
  lb_id :: nat
  lb_statement :: nat
  lb_scope :: nat
  lb_span :: range
  lb_name :: range

fun push_labels :: "Statement \<Rightarrow> LabelSpans list \<Rightarrow> Label list \<Rightarrow> Label list" where
  "push_labels q [] labels = labels"
| "push_labels q (sp # sps) labels =
     push_labels q sps (labels @ [\<lparr>lb_id = length labels, lb_statement = st_id q, lb_scope = st_scope q,
       lb_span = ls_span sp, lb_name = ls_name sp\<rparr>])"

definition statement_labels :: "string \<Rightarrow> Token list \<Rightarrow> Statement \<Rightarrow> LabelSpans list" where
  "statement_labels source tokens q = snd (leading_label_spans source tokens (significant_token_indices tokens q))"

definition discover_labels :: "string \<Rightarrow> Token list \<Rightarrow> Statement list \<Rightarrow> Label list" where
  "discover_labels source tokens stmts = fold (\<lambda>q. push_labels q (statement_labels source tokens q)) stmts []"

subsection \<open>Directives\<close>

record Directive =
  dr_statement :: nat
  dr_scope :: nat
  dr_span :: range
  dr_line :: range
  dr_name :: range
  dr_arguments :: range
  dr_labels :: "range list"

definition directive_of :: "string \<Rightarrow> Token list \<Rightarrow> Statement \<Rightarrow> (Directive, Diagnostic list) outcome" where
  "directive_of source tokens q =
     (let significant = significant_token_indices tokens q;
          (cursor, label_spans) = leading_label_spans source tokens significant;
          name = tokens ! (significant ! cursor); span = st_span q in
      if cursor < length significant \<and> token_kind name = Word \<and> starts_with_dot (token_text source name)
      then try_let (or_panic (physical_line_span source (range_start span))) (\<lambda>line.
           try_let (or_panic (trim_span source (token_end name, range_end span))) (\<lambda>arguments.
           Ok \<lparr>dr_statement = st_id q, dr_scope = st_scope q, dr_span = span, dr_line = line, dr_name = token_span name,
               dr_arguments = arguments, dr_labels = map ls_name label_spans\<rparr>))
      else Err [(MalformedDirective, span)])"

definition discover_directives :: "string \<Rightarrow> Token list \<Rightarrow> Statement list \<Rightarrow> (Directive list \<times> Diagnostic list) option" where
  "discover_directives source tokens stmts = project (directive_of source tokens) (of_kind DirectiveStatement stmts)"

subsection \<open>Callables\<close>

datatype CallableKind = Entry | Function

record Callable =
  cl_statement :: nat
  cl_scope :: nat
  cl_definition_scope :: "nat option"
  cl_kind :: CallableKind
  cl_span :: range
  cl_header :: range
  cl_body :: "range option"
  cl_name :: range
  cl_extern :: bool

fun callable_keyword :: "string \<Rightarrow> Token list \<Rightarrow> nat list \<Rightarrow> nat \<Rightarrow> (nat \<times> CallableKind) option" where
  "callable_keyword source tokens [] cursor = None"
| "callable_keyword source tokens (i # is) cursor =
     (if token_text source (tokens ! i) = ''.entry'' then Some (cursor, Entry)
      else if token_text source (tokens ! i) = ''.func'' then Some (cursor, Function)
      else callable_keyword source tokens is (cursor + 1))"

text \<open>Where the name of a callable stands: behind the keyword and, for a function, its return parameters.\<close>

definition name_cursor :: "string \<Rightarrow> Token list \<Rightarrow> nat list \<Rightarrow> nat \<times> CallableKind \<Rightarrow> nat option" where
  "name_cursor source tokens significant = (\<lambda>(keyword, kind).
     if kind = Function \<and> sig_is source tokens significant (keyword + 1) ''(''
     then skip_balanced_tokens source tokens significant (keyword + 1) ''('' '')''
     else Some (keyword + 1))"

definition definition_scope_of :: "Scope list \<Rightarrow> Statement \<Rightarrow> nat option" where
  "definition_scope_of scs q = map_option sc_id (find (\<lambda>sc. sc_header sc = Some (st_id q)) scs)"

definition closed_definition :: "Scope list \<Rightarrow> Statement \<Rightarrow> Scope option" where
  "closed_definition scs q =
     (case definition_scope_of scs q of
        None \<Rightarrow> None
      | Some k \<Rightarrow> if k < length scs \<and> sc_close (scs ! k) \<noteq> None then Some (scs ! k) else None)"

definition callable_of :: "string \<Rightarrow> Token list \<Rightarrow> Scope list \<Rightarrow> Statement \<Rightarrow> (Callable, Diagnostic list) outcome" where
  "callable_of source tokens scs q =
     (let significant = significant_token_indices tokens q; malformed = Err [(MalformedCallable, st_span q)] in
      case callable_keyword source tokens significant 0 of
        None \<Rightarrow> malformed
      | Some (keyword, kind) \<Rightarrow>
          case name_cursor source tokens significant (keyword, kind) of
            None \<Rightarrow> malformed
          | Some cursor \<Rightarrow>
              if cursor < length significant \<and> is_word tokens (significant ! cursor)
              then let name = tokens ! (significant ! cursor); def = closed_definition scs q in
                   Ok \<lparr>cl_statement = st_id q, cl_scope = st_scope q, cl_definition_scope = definition_scope_of scs q,
                       cl_kind = kind,
                       cl_span = (case def of None \<Rightarrow> st_span q | Some sc \<Rightarrow> (range_start (st_span q), range_end (sc_span sc))),
                       cl_header = (range_start (st_span q), token_end name), cl_body = map_option body_span def,
                       cl_name = token_span name,
                       cl_extern = list_ex (\<lambda>i. token_text source (tokens ! i) = ''.extern'') (take keyword significant)\<rparr>
              else malformed)"

definition discover_callables ::
  "string \<Rightarrow> Token list \<Rightarrow> Statement list \<Rightarrow> Scope list \<Rightarrow> (Callable list \<times> Diagnostic list) option" where
  "discover_callables source tokens stmts scs = project (callable_of source tokens scs) (of_kind CallableHeader stmts)"

text \<open>\<open>Callable::definition_header_span\<close>, whose debug assertion looks at the byte in front of the body.\<close>

definition definition_header_span :: "string \<Rightarrow> Callable \<Rightarrow> (range option) option" where
  "definition_header_span source self =
     (case cl_body self of
        None \<Rightarrow> Some None
      | Some body \<Rightarrow>
          if 1 \<le> range_start body \<and> range_start body - 1 < length source \<and> source ! (range_start body - 1) = CHR ''{''
          then Some (Some (range_start (cl_span self), range_start body - 1)) else None)"

subsection \<open>Instructions\<close>

record GuardPredicate =
  pr_start :: nat
  pr_register :: string
  pr_register_start :: nat
  pr_register_end :: nat
  pr_negated :: bool

record Instruction =
  in_statement :: nat
  in_scope :: nat
  in_span :: range
  in_prefix :: range
  in_head :: range
  in_operands :: "range list"
  in_labels :: "range list"
  in_predicate :: "GuardPredicate option"

text \<open>\<open>usize::try_into\<close> for \<open>u32\<close>, with its \<open>expect\<close>.\<close>

definition to_u32 :: "nat \<Rightarrow> nat option" where
  "to_u32 n = (if n \<le> U32_MAX then Some n else None)"

text \<open>The guard \<open>@p\<close> or \<open>@!p\<close> at a cursor, and the cursor behind it; \<open>Err\<close> is the early return of \<open>None\<close>.\<close>

definition guard_at :: "string \<Rightarrow> Token list \<Rightarrow> nat list \<Rightarrow> nat \<Rightarrow> (GuardPredicate option \<times> nat, unit) outcome" where
  "guard_at source tokens significant cursor =
     (if sig_is source tokens significant cursor ''@''
      then let start = token_start (tokens ! (significant ! cursor));
               reg = (if sig_is source tokens significant (cursor + 1) ''!'' then cursor + 2 else cursor + 1) in
           if \<not> reg < length significant \<or> \<not> significant ! reg < length tokens then Err ()
           else let register = tokens ! (significant ! reg) in
                if token_kind register \<noteq> Word then Err ()
                else try_let (or_panic (to_u32 start)) (\<lambda>start.
                     try_let (or_panic (to_u32 (token_start register))) (\<lambda>register_start.
                     try_let (or_panic (to_u32 (token_end register))) (\<lambda>register_end.
                     Ok (Some \<lparr>pr_start = start, pr_register = token_text source register, pr_register_start = register_start,
                           pr_register_end = register_end, pr_negated = sig_is source tokens significant (reg - 1) ''!''\<rparr>,
                         reg + 1))))
      else Ok (None, cursor))"

text \<open>The opcode continues over \<open>::word\<close> suffixes.\<close>

function head_end_from :: "string \<Rightarrow> Token list \<Rightarrow> nat list \<Rightarrow> nat \<Rightarrow> nat \<Rightarrow> nat" where
  "head_end_from source tokens significant cursor head_end =
     (if cursor + 2 < length significant \<and> sig_is source tokens significant (cursor + 1) ''::'' \<and>
         is_word tokens (significant ! (cursor + 2))
      then head_end_from source tokens significant (cursor + 2) (token_end (tokens ! (significant ! (cursor + 2))))
      else head_end)"
  by pat_completeness auto
termination by (relation "measure (\<lambda>(_, _, significant, cursor, _). length significant - cursor)") auto

declare head_end_from.simps [simp del]

definition instruction_from_statement :: "string \<Rightarrow> string \<Rightarrow> Token list \<Rightarrow> Statement \<Rightarrow> (Instruction, unit) outcome" where
  "instruction_from_statement source masked tokens q =
     (let significant = significant_token_indices tokens q;
          (cursor, label_spans) = leading_label_spans source tokens significant in
      try_let (guard_at source tokens significant cursor) (\<lambda>(predicate, cursor).
      if \<not> cursor < length significant \<or> \<not> significant ! cursor < length tokens \<or> \<not> last significant < length tokens then Err ()
      else let head_start = tokens ! (significant ! cursor);
               head_end = head_end_from source tokens significant cursor (token_end head_start);
               semicolon = tokens ! last significant;
               head_span = (token_start head_start, head_end) in
           if token_kind head_start \<noteq> Word \<or> token_text source semicolon \<noteq> '';'' then Err ()
           else try_let (or_panic (trim_span masked (range_start (st_span q), range_start head_span))) (\<lambda>prefix_span.
                try_let (or_panic (trim_span masked (range_end head_span, token_start semicolon))) (\<lambda>operands.
                try_let (if range_is_empty operands then Ok []
                         else try_let (or_panic (str_slice masked (range_start operands) (range_end operands)))
                                (\<lambda>txt. split_top_level_spans txt (range_start operands))) (\<lambda>operand_spans.
                Ok \<lparr>in_statement = st_id q, in_scope = st_scope q, in_span = st_span q, in_prefix = prefix_span,
                    in_head = head_span, in_operands = operand_spans, in_labels = map ls_name label_spans,
                    in_predicate = predicate\<rparr>)))))"

definition instruction_of ::
  "string \<Rightarrow> string \<Rightarrow> Token list \<Rightarrow> Diagnostic list \<Rightarrow> Statement \<Rightarrow> (Instruction, Diagnostic list) outcome" where
  "instruction_of source masked tokens diags q =
     map_err (\<lambda>_. if list_ex (\<lambda>d. ranges_overlap (snd d) (st_span q)) diags then [] else [(MalformedInstruction, st_span q)])
       (instruction_from_statement source masked tokens q)"

definition discover_instructions ::
  "string \<Rightarrow> string \<Rightarrow> Token list \<Rightarrow> Statement list \<Rightarrow> Diagnostic list \<Rightarrow> (Instruction list \<times> Diagnostic list) option" where
  "discover_instructions source masked tokens stmts diags =
     project (instruction_of source masked tokens diags) (of_kind InstructionStatement stmts)"

text \<open>\<open>Instruction::base_opcode\<close>.\<close>

definition base_opcode :: "string \<Rightarrow> string" where
  "base_opcode head = takeWhile (\<lambda>c. c \<noteq> CHR ''.'') head"

section \<open>Register declarations\<close>

record RegisterBinding =
  rb_span :: range
  rb_name :: range
  rb_bank_size :: "nat option"

datatype RegisterDeclarationErrorKind = MissingQualifier | MissingBinding | UnexpectedToken | InvalidBankSize

record RegisterDeclarationError =
  re_statement :: nat
  re_offset :: nat
  re_kind :: RegisterDeclarationErrorKind

record RegisterDeclaration =
  rd_statement :: nat
  rd_scope :: nat
  rd_span :: range
  rd_qualifiers :: "range list"
  rd_bindings :: "RegisterBinding list"

text \<open>\<open>u32::from_str\<close>: an optional plus sign and at least one digit, in range.\<close>

definition u32_from_str :: "string \<Rightarrow> nat option" where
  "u32_from_str s =
     (let ds = (case s of [] \<Rightarrow> [] | c # r \<Rightarrow> if c = CHR ''+'' then r else s) in
      if ds \<noteq> [] \<and> list_all is_digit ds \<and> digits_value ds \<le> int U32_MAX then Some (nat (digits_value ds)) else None)"

definition is_qualifier :: "string \<Rightarrow> Token \<Rightarrow> bool" where
  "is_qualifier source t \<longleftrightarrow> token_kind t = Word \<and> starts_with_dot (token_text source t)"

definition is_binding_name :: "string \<Rightarrow> Token \<Rightarrow> bool" where
  "is_binding_name source t \<longleftrightarrow> token_kind t = Word \<and> \<not> starts_with_dot (token_text source t)"

definition register_error :: "nat \<Rightarrow> nat \<Rightarrow> RegisterDeclarationErrorKind \<Rightarrow> ('a, RegisterDeclarationError) outcome" where
  "register_error statement off kind = Err \<lparr>re_statement = statement, re_offset = off, re_kind = kind\<rparr>"

text \<open>The optional bank size \<open><n>\<close> behind a name: the size, where the binding ends, and the tokens that follow.\<close>

fun bank_size_of :: "string \<Rightarrow> nat \<Rightarrow> nat \<Rightarrow> Token list \<Rightarrow> (nat option \<times> nat \<times> Token list, RegisterDeclarationError) outcome" where
  "bank_size_of source statement binding_end [] = Ok (None, binding_end, [])"
| "bank_size_of source statement binding_end (t # ts) =
     (if token_text source t = ''<''
      then case ts of
             [] \<Rightarrow> register_error statement binding_end InvalidBankSize
           | size_token # rest \<Rightarrow>
               case rest of
                 [] \<Rightarrow> register_error statement (token_start size_token) InvalidBankSize
               | close # rest' \<Rightarrow>
                   if token_text source close = ''>''
                   then case u32_from_str (token_text source size_token) of
                          None \<Rightarrow> register_error statement (token_start size_token) InvalidBankSize
                        | Some n \<Rightarrow> if n > 0 then Ok (Some n, token_end close, rest')
                                    else register_error statement (token_start size_token) InvalidBankSize
                   else register_error statement (token_start size_token) InvalidBankSize
      else Ok (None, binding_end, t # ts))"

lemma bank_size_length:
  "bank_size_of source statement e ts = Ok (n, e', ts') \<Longrightarrow> length ts' \<le> length ts"
  by (cases ts) (auto simp: register_error_def split: if_splits list.splits option.splits)

text \<open>The bindings from a cursor on, the cursor being the list of the tokens that are left.\<close>

function bindings_from ::
  "string \<Rightarrow> nat \<Rightarrow> Token \<Rightarrow> Token list \<Rightarrow> RegisterBinding list \<Rightarrow> (RegisterBinding list, RegisterDeclarationError) outcome" where
  "bindings_from source statement semicolon [] bindings = register_error statement (token_start semicolon) MissingBinding"
| "bindings_from source statement semicolon (name # ts) bindings =
     (if \<not> is_binding_name source name then register_error statement (token_start name) MissingBinding
      else try_let (bank_size_of source statement (token_end name) ts) (\<lambda>(n, e, rest).
        let bindings = bindings @ [\<lparr>rb_span = (token_start name, e), rb_name = token_span name, rb_bank_size = n\<rparr>] in
        case rest of
          [] \<Rightarrow> Ok bindings
        | c # rest' \<Rightarrow>
            if token_text source c = '',''
            then if rest' \<noteq> [] then bindings_from source statement semicolon rest' bindings
                 else register_error statement (token_end c) MissingBinding
            else register_error statement (token_start c) UnexpectedToken))"
  by pat_completeness auto
termination
  by (relation "measure (\<lambda>(_, _, _, ts, _). length ts)") (auto dest!: bank_size_length)

definition argument_tokens :: "Token list \<Rightarrow> range \<Rightarrow> Token list" where
  "argument_tokens tokens r =
     filter (\<lambda>t. range_start r \<le> token_start t \<and> token_end t \<le> range_end r \<and> \<not> is_trivia (token_kind t))
       (takeWhile (\<lambda>t. token_start t < range_end r)
          (drop (partition_point (\<lambda>t. token_end t \<le> range_start r) tokens) tokens))"

definition register_declaration_from_directive ::
  "string \<Rightarrow> Token list \<Rightarrow> Directive \<Rightarrow> (RegisterDeclaration, RegisterDeclarationError) outcome" where
  "register_declaration_from_directive source tokens d =
     (let significant = argument_tokens tokens (dr_arguments d); statement = dr_statement d in
      if significant = [] \<or> token_text source (last significant) \<noteq> '';''
      then register_error statement (range_end (dr_arguments d)) UnexpectedToken
      else let semicolon = last significant; body = butlast significant;
               qualifiers = takeWhile (is_qualifier source) body; rest = dropWhile (is_qualifier source) body in
           if qualifiers = []
           then register_error statement (case body of [] \<Rightarrow> token_start semicolon | t # _ \<Rightarrow> token_start t) MissingQualifier
           else if rest = [] then register_error statement (token_start semicolon) MissingBinding
           else try_let (bindings_from source statement semicolon rest []) (\<lambda>bindings.
                Ok \<lparr>rd_statement = statement, rd_scope = dr_scope d, rd_span = dr_span d,
                    rd_qualifiers = map token_span qualifiers, rd_bindings = bindings\<rparr>))"

section \<open>The document\<close>

record Document =
  doc_source :: string
  doc_tokens :: "Token list"
  doc_statements :: "Statement list"
  doc_scopes :: "Scope list"
  doc_diagnostics :: "Diagnostic list"
  doc_coverage :: Coverage
  doc_labels :: "Label list"
  doc_directives :: "Directive list"
  doc_callables :: "Callable list"
  doc_instructions :: "Instruction list"
  statements_by_scope :: "nat list list"
  labels_by_statement :: "nat list list"
  directive_by_statement :: "nat option list"
  callable_by_statement :: "nat option list"
  instruction_by_statement :: "nat option list"

text \<open>The loops that fill the lookup tables: push a value under a key, or set the slot of a key. Indexing out of range
  panics.\<close>

fun push_under :: "(nat \<times> nat) list \<Rightarrow> nat list list \<Rightarrow> nat list list option" where
  "push_under [] table = Some table"
| "push_under ((k, v) # kvs) table =
     (if k < length table then push_under kvs (table[k := table ! k @ [v]]) else None)"

fun set_slots :: "(nat \<times> nat) list \<Rightarrow> nat option list \<Rightarrow> nat option list option" where
  "set_slots [] table = Some table"
| "set_slots ((k, v) # kvs) table =
     (if k < length table then set_slots kvs (table[k := Some v]) else None)"

definition slots_of :: "('v \<Rightarrow> nat) \<Rightarrow> 'v list \<Rightarrow> nat \<Rightarrow> nat option list option" where
  "slots_of statement_of views n =
     set_slots (map (\<lambda>i. (statement_of (views ! i), i)) [0..<length views]) (replicate n None)"

definition document_parse :: "string \<Rightarrow> (Document, ParseError) outcome" where
  "document_parse source =
     try_let (lex source) (\<lambda>tokens. or_panic (
       do { masked \<leftarrow> mask_non_code source tokens;
            parsed \<leftarrow> parse source tokens;
            let labels = discover_labels source tokens (statements parsed);
            (directives, directive_diags) \<leftarrow> discover_directives source tokens (statements parsed);
            (callables, callable_diags) \<leftarrow> discover_callables source tokens (statements parsed) (scopes parsed);
            (instructions, instruction_diags) \<leftarrow>
              discover_instructions source masked tokens (statements parsed) (diagnostics parsed);
            by_scope \<leftarrow> push_under (map (\<lambda>q. (st_scope q, st_id q)) (statements parsed)) (replicate (length (scopes parsed)) []);
            labels_by \<leftarrow> push_under (map (\<lambda>l. (lb_statement l, lb_id l)) labels) (replicate (length (statements parsed)) []);
            directive_by \<leftarrow> slots_of dr_statement directives (length (statements parsed));
            callable_by \<leftarrow> slots_of cl_statement callables (length (statements parsed));
            instruction_by \<leftarrow> slots_of in_statement instructions (length (statements parsed));
            Some \<lparr>doc_source = source, doc_tokens = tokens, doc_statements = statements parsed, doc_scopes = scopes parsed,
              doc_diagnostics = diagnostics parsed @ directive_diags @ callable_diags @ instruction_diags,
              doc_coverage = add_diagnostics (length directive_diags + length callable_diags + length instruction_diags)
                (coverage parsed),
              doc_labels = labels, doc_directives = directives, doc_callables = callables, doc_instructions = instructions,
              statements_by_scope = by_scope, labels_by_statement = labels_by, directive_by_statement = directive_by,
              callable_by_statement = callable_by, instruction_by_statement = instruction_by\<rparr> }))"

section \<open>Queries\<close>

text \<open>The elements of a source-ordered list that a span contains, found from the first that starts in it.\<close>

definition contained :: "('v \<Rightarrow> range) \<Rightarrow> 'v list \<Rightarrow> range \<Rightarrow> 'v list" where
  "contained span_of xs span =
     filter (\<lambda>x. range_end (span_of x) \<le> range_end span)
       (takeWhile (\<lambda>x. range_start (span_of x) < range_end span)
          (drop (partition_point (\<lambda>x. range_start (span_of x) < range_start span) xs) xs))"

definition labels_in :: "Document \<Rightarrow> range \<Rightarrow> Label list" where
  "labels_in doc = contained lb_span (doc_labels doc)"

definition directives_in :: "Document \<Rightarrow> range \<Rightarrow> Directive list" where
  "directives_in doc = contained dr_span (doc_directives doc)"

definition instructions_in :: "Document \<Rightarrow> range \<Rightarrow> Instruction list" where
  "instructions_in doc = contained in_span (doc_instructions doc)"

text \<open>The lookups by statement and by scope. An index in a table selects from the list it was made from.\<close>

definition table_get :: "nat list list \<Rightarrow> 'v list \<Rightarrow> nat \<Rightarrow> 'v list" where
  "table_get table views key = (if key < length table then map (\<lambda>i. views ! i) (table ! key) else [])"

definition slot_get :: "nat option list \<Rightarrow> 'v list \<Rightarrow> nat \<Rightarrow> 'v option" where
  "slot_get table views key = (if key < length table then map_option (\<lambda>i. views ! i) (table ! key) else None)"

definition statements_in_scope :: "Document \<Rightarrow> nat \<Rightarrow> Statement list" where
  "statements_in_scope doc = table_get (statements_by_scope doc) (doc_statements doc)"

definition labels_for_statement :: "Document \<Rightarrow> nat \<Rightarrow> Label list" where
  "labels_for_statement doc = table_get (labels_by_statement doc) (doc_labels doc)"

definition directive_for_statement :: "Document \<Rightarrow> nat \<Rightarrow> Directive option" where
  "directive_for_statement doc = slot_get (directive_by_statement doc) (doc_directives doc)"

definition callable_for_statement :: "Document \<Rightarrow> nat \<Rightarrow> Callable option" where
  "callable_for_statement doc = slot_get (callable_by_statement doc) (doc_callables doc)"

definition instruction_for_statement :: "Document \<Rightarrow> nat \<Rightarrow> Instruction option" where
  "instruction_for_statement doc = slot_get (instruction_by_statement doc) (doc_instructions doc)"

definition span_text :: "Document \<Rightarrow> range \<Rightarrow> string option" where
  "span_text doc r = str_slice (doc_source doc) (range_start r) (range_end r)"

definition register_declarations :: "Document \<Rightarrow> (RegisterDeclaration, RegisterDeclarationError) outcome list option" where
  "register_declarations doc =
     do { named \<leftarrow> those (map (\<lambda>d. map_option (\<lambda>name. (name, d)) (span_text doc (dr_name d))) (doc_directives doc));
          Some (map (\<lambda>(_, d). register_declaration_from_directive (doc_source doc) (doc_tokens doc) d)
                  (filter (\<lambda>(name, _). name = ''.reg'') named)) }"

definition callables_named :: "Document \<Rightarrow> string \<Rightarrow> Callable list option" where
  "callables_named doc wanted =
     do { named \<leftarrow> those (map (\<lambda>c. map_option (\<lambda>name. (name, c)) (span_text doc (cl_name c))) (doc_callables doc));
          Some (map snd (filter (\<lambda>(name, _). name = wanted) named)) }"

definition definitions_of :: "Document \<Rightarrow> Callable list" where
  "definitions_of doc = filter (\<lambda>c. cl_body c \<noteq> None) (doc_callables doc)"

text \<open>\<open>CallableDefinition::instructions\<close>: the instructions inside the outer braces.\<close>

definition definition_instructions :: "Document \<Rightarrow> Callable \<Rightarrow> Instruction list option" where
  "definition_instructions doc c = map_option (instructions_in doc) (cl_body c)"

end
