(* ===== verification/Ptx_Lexer_Facts.thy ===== *)
theory Ptx_Lexer_Facts
  imports Ptx_Lexer
begin

text \<open>
  The loops of the lexer on valid UTF-8: they stay on character boundaries, do not panic, and stop where they
  should.
\<close>

section \<open>Character boundaries of valid text\<close>

lemma unat_byte: "unat (word_of_nat (of_char c) :: byte) = byte_val c"
  by (simp add: byte_val_def unat_of_nat)

lemma as_bytes_empty [simp]: "as_bytes [] = []"
  by (simp add: as_bytes_def)

lemma as_bytes_Cons [simp]: "as_bytes (c # s) = word_of_nat (of_char c) # as_bytes s"
  by (simp add: as_bytes_def)

lemma as_bytes_append [simp]: "as_bytes (s @ t) = as_bytes s @ as_bytes t"
  by (simp add: as_bytes_def)

lemma as_bytes_drop: "as_bytes (drop k s) = drop k (as_bytes s)"
  by (simp add: as_bytes_def drop_map)

lemma byte_order:
  "(0x80::byte) \<le> word_of_nat (of_char d) \<longleftrightarrow> 0x80 \<le> byte_val d"
  "word_of_nat (of_char d) \<le> (0xBF::byte) \<longleftrightarrow> byte_val d \<le> 0xBF"
  "word_of_nat (of_char d) \<le> (0x7F::byte) \<longleftrightarrow> byte_val d \<le> 0x7F"
  "(0xC2::byte) \<le> word_of_nat (of_char d) \<longleftrightarrow> 0xC2 \<le> byte_val d"
  "word_of_nat (of_char d) \<le> (0xDF::byte) \<longleftrightarrow> byte_val d \<le> 0xDF"
  "(0xE0::byte) \<le> word_of_nat (of_char d) \<longleftrightarrow> 0xE0 \<le> byte_val d"
  "word_of_nat (of_char d) \<le> (0xEF::byte) \<longleftrightarrow> byte_val d \<le> 0xEF"
  "(0xF0::byte) \<le> word_of_nat (of_char d) \<longleftrightarrow> 0xF0 \<le> byte_val d"
  "word_of_nat (of_char d) \<le> (0xF4::byte) \<longleftrightarrow> byte_val d \<le> 0xF4"
  "(0xA0::byte) \<le> word_of_nat (of_char d) \<longleftrightarrow> 0xA0 \<le> byte_val d"
  "word_of_nat (of_char d) \<le> (0x9F::byte) \<longleftrightarrow> byte_val d \<le> 0x9F"
  "(0x90::byte) \<le> word_of_nat (of_char d) \<longleftrightarrow> 0x90 \<le> byte_val d"
  "word_of_nat (of_char d) \<le> (0x8F::byte) \<longleftrightarrow> byte_val d \<le> 0x8F"
  by (simp_all add: word_le_nat_alt unat_byte)

text \<open>The first character of a valid text: its length, its continuation bytes, and the valid rest.\<close>

lemma valid_head:
  assumes "valid_str (c # s)"
  shows "\<not> is_cont c \<and> len_utf8 c \<le> length (c # s) \<and> (\<forall>i. 0 < i \<and> i < len_utf8 c \<longrightarrow> is_cont ((c # s) ! i)) \<and>
    valid_str (drop (len_utf8 c) (c # s))"
proof -
  note u = byte_order
  have idx: "(0 < i \<and> i < 2) \<longleftrightarrow> i = 1" "(0 < i \<and> i < 3) \<longleftrightarrow> i = 1 \<or> i = 2" "(0 < i \<and> i < 4) \<longleftrightarrow> i = 1 \<or> i = 2 \<or> i = 3" for i :: nat
    by auto
  consider "byte_val c \<le> 0x7F" | "0xC2 \<le> byte_val c" "byte_val c \<le> 0xDF" | "0xE0 \<le> byte_val c" "byte_val c \<le> 0xEF"
    | "0xF0 \<le> byte_val c" "byte_val c \<le> 0xF4"
    using assms by (auto simp: valid_str_def u split: if_splits)
  then show ?thesis
  proof cases
    case 1
    then show ?thesis using assms by (simp add: valid_str_def u is_cont_def len_utf8_def)
  next
    case 2
    then obtain d t where "s = d # t" using assms by (cases s) (auto simp: valid_str_def u)
    then show ?thesis using assms 2 by (auto simp: valid_str_def u is_cont_def len_utf8_def cont_byte_def idx)
  next
    case 3
    then obtain d e t where "s = d # e # t"
      using assms by (cases s; cases "tl s") (auto simp: valid_str_def u)
    then show ?thesis using assms 3
      by (auto simp: valid_str_def u is_cont_def len_utf8_def cont_byte_def idx split: if_splits)
  next
    case 4
    then obtain d e f t where "s = d # e # f # t"
      using assms by (cases s; cases "tl s"; cases "tl (tl s)") (auto simp: valid_str_def u)
    then show ?thesis using assms 4
      by (auto simp: valid_str_def u is_cont_def len_utf8_def cont_byte_def idx split: if_splits)
  qed
qed

text \<open>That character in front of any valid text.\<close>

lemma valid_first:
  assumes "valid_str (c # s)" "valid_str t"
  shows "valid_str (take (len_utf8 c) (c # s) @ t)"
proof -
  note u = byte_order
  consider "byte_val c \<le> 0x7F" | "0xC2 \<le> byte_val c" "byte_val c \<le> 0xDF" | "0xE0 \<le> byte_val c" "byte_val c \<le> 0xEF"
    | "0xF0 \<le> byte_val c" "byte_val c \<le> 0xF4"
    using assms(1) by (auto simp: valid_str_def u split: if_splits)
  then show ?thesis
  proof cases
    case 1
    then show ?thesis using assms by (simp add: valid_str_def u len_utf8_def)
  next
    case 2
    then obtain d r where "s = d # r" using assms(1) by (cases s) (auto simp: valid_str_def u)
    then show ?thesis using assms 2 by (auto simp: valid_str_def u len_utf8_def)
  next
    case 3
    then obtain d e r where "s = d # e # r"
      using assms(1) by (cases s; cases "tl s") (auto simp: valid_str_def u)
    then show ?thesis using assms 3 by (auto simp: valid_str_def u len_utf8_def split: if_splits)
  next
    case 4
    then obtain d e f r where "s = d # e # f # r"
      using assms(1) by (cases s; cases "tl s"; cases "tl (tl s)") (auto simp: valid_str_def u)
    then show ?thesis using assms 4 by (auto simp: valid_str_def u len_utf8_def split: if_splits)
  qed
qed

lemma valid_append: "valid_str s \<Longrightarrow> valid_str t \<Longrightarrow> valid_str (s @ t)"
proof (induction "length s" arbitrary: s rule: less_induct)
  case less
  show ?case
  proof (cases s)
    case (Cons c r)
    let ?n = "len_utf8 c"
    have "valid_str (drop ?n s)" "length (drop ?n s) < length s"
      using valid_head [OF less.prems(1) [unfolded Cons]] Cons by (auto simp: len_utf8_def)
    then have "valid_str (take ?n s @ drop ?n s @ t)"
      using valid_first [OF less.prems(1) [unfolded Cons]] less.hyps less.prems(2) Cons by simp
    then show ?thesis by (metis append_assoc append_take_drop_id)
  qed (use less.prems in simp)
qed

definition bd :: "string \<Rightarrow> nat \<Rightarrow> bool" where
  "bd s k \<longleftrightarrow> k \<le> length s \<and> (k < length s \<longrightarrow> \<not> is_cont (s ! k))"

lemma bd_drop:
  assumes "valid_str s" "bd s k"
  shows "valid_str (drop k s)"
  using assms
proof (induction "length s" arbitrary: s k rule: less_induct)
  case less
  show ?case
  proof (cases "s = '''' \<or> k = 0")
    case True
    then show ?thesis using less.prems by auto
  next
    case False
    then obtain c r where s: "s = c # r" "0 < k" by (cases s) auto
    note h = valid_head [OF less.prems(1) [unfolded s(1)]]
    have "len_utf8 c \<le> k"
    proof (rule ccontr)
      assume "\<not> len_utf8 c \<le> k"
      then have "is_cont (s ! k)" "k < length s" using h s by auto
      then show False using less.prems(2) by (simp add: bd_def)
    qed
    moreover have "valid_str (drop (len_utf8 c) s)" "length (drop (len_utf8 c) s) < length s"
      using h s by (auto simp: len_utf8_def)
    moreover have "bd (drop (len_utf8 c) s) (k - len_utf8 c)" if "len_utf8 c \<le> k"
      using less.prems(2) that by (auto simp: bd_def)
    ultimately have "valid_str (drop (k - len_utf8 c) (drop (len_utf8 c) s))"
      using less.hyps [of "drop (len_utf8 c) s" "k - len_utf8 c"] by blast
    then show ?thesis using \<open>len_utf8 c \<le> k\<close> by simp
  qed
qed

lemma valid_take: "valid_str s \<Longrightarrow> bd s k \<Longrightarrow> valid_str (take k s)"
proof (induction "length s" arbitrary: s k rule: less_induct)
  case less
  show ?case
  proof (cases "s = '''' \<or> k = 0")
    case True
    then show ?thesis by (auto simp: valid_str_def)
  next
    case False
    then obtain c r where s: "s = c # r" "0 < k" by (cases s) auto
    note h = valid_head [OF less.prems(1) [unfolded s(1)]]
    have n: "len_utf8 c \<le> k"
    proof (rule ccontr)
      assume "\<not> len_utf8 c \<le> k"
      then have "is_cont (s ! k)" "k < length s" using h s by auto
      then show False using less.prems(2) by (simp add: bd_def)
    qed
    have "valid_str (drop (len_utf8 c) s)" "length (drop (len_utf8 c) s) < length s"
      using h s by (auto simp: len_utf8_def)
    moreover have "bd (drop (len_utf8 c) s) (k - len_utf8 c)" using less.prems(2) n by (auto simp: bd_def)
    ultimately have "valid_str (take (k - len_utf8 c) (drop (len_utf8 c) s))" using less.hyps by blast
    then have "valid_str (take (len_utf8 c) s @ take (k - len_utf8 c) (drop (len_utf8 c) s))"
      using valid_first [OF less.prems(1) [unfolded s(1)]] s by simp
    moreover have "take k s = take (len_utf8 c) s @ take (k - len_utf8 c) (drop (len_utf8 c) s)"
      using n by (metis le_add_diff_inverse take_add)
    ultimately show ?thesis by simp
  qed
qed

lemma bd_step:
  assumes "valid_str s" "bd s k" "k < length s"
  shows "bd s (k + len_utf8 (s ! k))" "\<And>i. k < i \<Longrightarrow> i < k + len_utf8 (s ! k) \<Longrightarrow> is_cont (s ! i)"
    "k + len_utf8 (s ! k) \<le> length s"
proof -
  have d: "drop k s = s ! k # drop (Suc k) s" using assms(3) by (simp add: Cons_nth_drop_Suc)
  note h = valid_head [OF bd_drop [OF assms(1,2), unfolded d]]
  show len: "k + len_utf8 (s ! k) \<le> length s" using h assms(3) by auto
  show "is_cont (s ! i)" if "k < i" "i < k + len_utf8 (s ! k)" for i
  proof -
    have "\<forall>j. 0 < j \<and> j < len_utf8 (s ! k) \<longrightarrow> is_cont (drop k s ! j)" using h unfolding d by blast
    then have "is_cont (drop k s ! (i - k))" using that by simp
    then show ?thesis using that len by simp
  qed
  show "bd s (k + len_utf8 (s ! k))"
  proof (cases "k + len_utf8 (s ! k) < length s")
    case True
    have "valid_str (drop (len_utf8 (s ! k)) (drop k s))" using h d by simp
    then have "valid_str (s ! (k + len_utf8 (s ! k)) # drop (Suc (k + len_utf8 (s ! k))) s)"
      using True by (simp add: Cons_nth_drop_Suc add.commute)
    then show ?thesis using valid_head len by (auto simp: bd_def)
  qed (use len in \<open>simp add: bd_def\<close>)
qed

lemma bd_char_boundary: "valid_str s \<Longrightarrow> is_char_boundary s k \<longleftrightarrow> bd s k"
  using valid_head [of "hd s" "tl s"] by (cases s) (auto simp: is_char_boundary_def bd_def)

lemma ascii_not_cont: "byte_val c < 128 \<Longrightarrow> \<not> is_cont c"
  by (simp add: is_cont_def)

lemma bd_ascii: "k < length s \<Longrightarrow> byte_val (s ! k) < 128 \<Longrightarrow> bd s k"
  by (simp add: bd_def ascii_not_cont)

lemma bd_after_ascii:
  assumes "valid_str s" "k < length s" "byte_val (s ! k) < 128"
  shows "bd s (k + 1)"
  using bd_step(1) [OF assms(1) bd_ascii [OF assms(2,3)] assms(2)] assms(3) by (simp add: len_utf8_def)

lemma bd_zero: "valid_str s \<Longrightarrow> bd s 0"
  using bd_char_boundary [of s 0] by (simp add: is_char_boundary_def)

lemma char_len_at_bd:
  assumes "valid_str s" "bd s k" "k < length s"
  shows "char_len_at s k = Some (len_utf8 (s ! k))"
  using assms bd_char_boundary [OF assms(1)] by (simp add: char_len_at_def)

section \<open>The loops\<close>

lemma skip_while_spec:
  "cursor \<le> length s \<Longrightarrow> skip_while P s cursor \<le> length s \<and>
     (\<forall>i. cursor \<le> i \<and> i < skip_while P s cursor \<longrightarrow> P (s ! i)) \<and>
     (skip_while P s cursor < length s \<longrightarrow> \<not> P (s ! skip_while P s cursor))"
proof (induction P s cursor rule: skip_while.induct)
  case (1 P s cursor)
  show ?case
  proof (cases "cursor < length s \<and> P (s ! cursor)")
    case True
    then have e: "skip_while P s cursor = skip_while P s (cursor + 1)" by (simp add: skip_while.simps [of P s cursor])
    have "P (s ! i)" if "cursor \<le> i" "i < skip_while P s (cursor + 1)" for i
      using 1(1) [OF True] True that by (cases "i = cursor") auto
    then show ?thesis using 1(1) [OF True] True unfolding e by auto
  qed (use 1(2) in \<open>auto simp: skip_while.simps [of P s cursor]\<close>)
qed

lemma starts_at_two: "starts_at s k [a, b] \<longleftrightarrow> k + 1 < length s \<and> s ! k = a \<and> s ! (k + 1) = b"
proof (cases "k + 1 < length s")
  case True
  then have "drop k s = s ! k # s ! (k + 1) # drop (k + 2) s"
    by (metis Cons_nth_drop_Suc Suc_eq_plus1 Suc_lessD add_2_eq_Suc')
  then show ?thesis using True by (simp add: starts_at_def)
next
  case False
  then show ?thesis by (auto simp: starts_at_def dest!: arg_cong [of _ _ length])
qed

lemma byte_val_simps [simp]:
  "byte_val (CHR 0x22) = 34" "byte_val (CHR 0x5C) = 92" "byte_val (CHR 0x0A) = 10" "byte_val (CHR 0x0D) = 13"
  "byte_val (CHR ''/'') = 47" "byte_val (CHR ''*'') = 42" "byte_val (CHR ''#'') = 35" "byte_val (CHR '':'') = 58"
  by (simp_all add: byte_val_def)

lemma comment_end_spec:
  "valid_str s \<Longrightarrow> bd s cursor \<Longrightarrow> \<exists>k. comment_end s cursor = Some k \<and> cursor \<le> k \<and> k \<le> length s \<and> bd s k \<and>
     (\<forall>i. cursor \<le> i \<and> i < k \<longrightarrow> \<not> starts_at s i ''*/'') \<and> (k = length s \<or> starts_at s k ''*/'')"
proof (induction s cursor rule: comment_end.induct)
  case (1 s cursor)
  show ?case
  proof (cases "cursor < length s \<and> \<not> starts_at s cursor ''*/''")
    case True
    let ?n = "len_utf8 (s ! cursor)"
    have len: "char_len_at s cursor = Some ?n" using char_len_at_bd [OF 1(2,3)] True by simp
    have next_bd: "bd s (cursor + ?n)" using bd_step(1) [OF 1(2,3)] True by simp
    obtain k where k: "comment_end s (cursor + ?n) = Some k" "cursor + ?n \<le> k" "k \<le> length s" "bd s k"
      "\<forall>i. cursor + ?n \<le> i \<and> i < k \<longrightarrow> \<not> starts_at s i ''*/''" "k = length s \<or> starts_at s k ''*/''"
      using 1(1) [OF True len 1(2) next_bd] by blast
    have "\<not> starts_at s i ''*/''" if "cursor \<le> i" "i < k" for i
    proof (cases "i < cursor + ?n \<and> i \<noteq> cursor")
      case True
      then have "is_cont (s ! i)" using bd_step(2) [OF 1(2,3)] that \<open>cursor < length s \<and> _\<close> by auto
      then show ?thesis using ascii_not_cont [of "CHR ''*''"] by (auto simp: starts_at_two)
    qed (use that True k(5) in auto)
    then show ?thesis using k True len by (auto simp: comment_end.simps [of s cursor])
  next
    case False
    then show ?thesis using 1(3) by (auto simp: comment_end.simps [of s cursor] bd_def)
  qed
qed

text \<open>What stands between the quotes of a string: escapes, and bytes that end nothing.\<close>

fun string_body :: "string \<Rightarrow> bool" where
  "string_body [] = True"
| "string_body (c # s) =
     (if c = CHR 0x5C then (case s of [] \<Rightarrow> False | d # s' \<Rightarrow> string_body s')
      else c \<notin> {CHR 0x22, CHR 0x0A, CHR 0x0D} \<and> string_body s)"

definition plain_byte :: "char \<Rightarrow> bool" where
  "plain_byte c \<longleftrightarrow> c \<notin> {CHR 0x5C, CHR 0x22, CHR 0x0A, CHR 0x0D}"

lemma cont_plain: "is_cont c \<Longrightarrow> plain_byte c"
  by (auto simp: plain_byte_def is_cont_def byte_val_def)

lemma string_body_plain: "list_all plain_byte xs \<Longrightarrow> string_body (xs @ s) = string_body s"
  by (induction xs) (auto simp: plain_byte_def)

definition between :: "string \<Rightarrow> nat \<Rightarrow> nat \<Rightarrow> string" where
  "between s a b = take (b - a) (drop a s)"

lemma between_split:
  assumes "a \<le> b" "b \<le> c"
  shows "between s a c = between s a b @ between s b c"
proof -
  obtain i j where "b = a + i" "c = b + j" using assms le_Suc_ex by metis
  then show ?thesis by (simp add: between_def take_add add.commute)
qed

lemma between_Cons: "a < b \<Longrightarrow> a < length s \<Longrightarrow> between s a b = s ! a # between s (Suc a) b"
  by (simp add: between_def Cons_nth_drop_Suc [symmetric] take_Cons' Suc_diff_Suc)

lemma between_all: "b \<le> length s \<Longrightarrow> list_all P (between s a b) \<longleftrightarrow> (\<forall>i. a \<le> i \<and> i < b \<longrightarrow> P (s ! i))"
proof -
  assume b: "b \<le> length s"
  have "list_all P (between s a b) \<longleftrightarrow> (\<forall>j < b - a. P (s ! (a + j)))" using b by (auto simp: between_def list_all_length)
  also have "\<dots> \<longleftrightarrow> (\<forall>i. a \<le> i \<and> i < b \<longrightarrow> P (s ! i))" 
    by (auto simp: less_diff_conv add.commute) (metis le_Suc_ex add.commute less_diff_conv)
  finally show ?thesis .
qed

lemma between_self [simp]: "between s a a = []"
  by (simp add: between_def)

end
