(* ===== verification/Ptx_Lexer_Properties.thy ===== *)
theory Ptx_Lexer_Properties
  imports Ptx_Lexer_Facts
begin

text \<open>
  The lexer on valid UTF-8 text: it never panics, its tokens partition the source on character boundaries,
  every token has the shape of its class, and an error names an unterminated comment or string.
\<close>

section \<open>Strings\<close>

text \<open>What the string loop returns: the end of a closed string, or the proof that no quote closes it.\<close>

definition string_outcome :: "string \<Rightarrow> nat \<Rightarrow> bool \<Rightarrow> nat \<Rightarrow> bool" where
  "string_outcome s cursor closed k \<longleftrightarrow> cursor \<le> k \<and> k \<le> length s \<and>
     (if closed then bd s k \<and> cursor < k \<and> s ! (k - 1) = CHR 0x22 \<and> string_body (between s cursor (k - 1))
      else \<forall>b. cursor \<le> b \<and> b < length s \<and> s ! b = CHR 0x22 \<longrightarrow> \<not> string_body (between s cursor b))"

text \<open>Consuming a prefix that changes nothing about what is a body.\<close>

lemma string_outcome_step:
  assumes "string_outcome s m closed k" "cursor < m" "m \<le> length s"
    and "\<And>b. m \<le> b \<Longrightarrow> b \<le> length s \<Longrightarrow> string_body (between s cursor b) \<longleftrightarrow> string_body (between s m b)"
    and "\<And>b. cursor \<le> b \<Longrightarrow> b < m \<Longrightarrow> s ! b = CHR 0x22 \<Longrightarrow> \<not> string_body (between s cursor b)"
  shows "string_outcome s cursor closed k"
proof (cases closed)
  case True
  then have "m \<le> k - 1" "k - 1 \<le> length s" using assms(1) by (auto simp: string_outcome_def)
  then show ?thesis using assms True by (auto simp: string_outcome_def)
next
  case False
  have "\<not> string_body (between s cursor b)" if "cursor \<le> b" "b < length s" "s ! b = CHR 0x22" for b
    using assms that False by (cases "b < m") (auto simp: string_outcome_def)
  then show ?thesis using assms(1,2) False by (auto simp: string_outcome_def)
qed

lemma char_body:
  assumes "valid_str s" "bd s c" "c < length s" "plain_byte (s ! c)" "c + len_utf8 (s ! c) \<le> b" "b \<le> length s"
  shows "string_body (between s c b) \<longleftrightarrow> string_body (between s (c + len_utf8 (s ! c)) b)"
proof -
  let ?m = "c + len_utf8 (s ! c)"
  have "plain_byte (s ! i)" if "c \<le> i" "i < ?m" for i
    using that assms(4) bd_step(2) [OF assms(1-3)] by (cases "i = c") (auto intro: cont_plain)
  then have "list_all plain_byte (between s c ?m)"
    using assms(5,6) by (subst between_all) auto
  then show ?thesis using assms(5) by (simp add: between_split [of c ?m b] string_body_plain)
qed

lemma escape_body:
  assumes "valid_str s" "bd s (Suc c)" "Suc c < length s" "s ! c = CHR 0x5C"
    and "Suc c + len_utf8 (s ! Suc c) \<le> b" "b \<le> length s"
  shows "string_body (between s c b) \<longleftrightarrow> string_body (between s (Suc c + len_utf8 (s ! Suc c)) b)"
proof -
  let ?d = "Suc c" and ?m = "Suc c + len_utf8 (s ! Suc c)"
  have lt: "?d < ?m" by simp
  have "list_all plain_byte (between s (Suc ?d) ?m)"
    using assms(5,6) bd_step(2) [OF assms(1-3)] by (subst between_all) (auto intro: cont_plain)
  then have "string_body (between s (Suc ?d) b) \<longleftrightarrow> string_body (between s ?m b)"
    using between_split [of "Suc ?d" ?m b s] assms(5) lt
    by (simp add: string_body_plain del: add_Suc add_Suc_right)
  moreover have "between s c b = CHR 0x5C # s ! ?d # between s (Suc ?d) b"
    using assms(3-5) less_le_trans [OF lt assms(5)] by (simp add: between_Cons)
  ultimately show ?thesis by simp
qed

lemma byte_cases: "plain_byte c \<or> c = CHR 0x5C \<or> c = CHR 0x22 \<or> c = CHR 0x0A \<or> c = CHR 0x0D"
  by (auto simp: plain_byte_def)

lemma string_end_spec:
  "valid_str s \<Longrightarrow> bd s cursor \<Longrightarrow> \<exists>closed k. string_end s cursor = Some (closed, k) \<and> string_outcome s cursor closed k"
proof (induction s cursor rule: string_end.induct)
  case (1 s cursor)
  note valid = 1(3) and at = 1(4)
  have "\<not> cursor < length s \<or> cursor + 1 < length s \<or> cursor + 1 = length s" by linarith
  then consider (over) "\<not> cursor < length s" | (escape) "cursor + 1 < length s" "s ! cursor = CHR 0x5C"
    | (quote) "cursor < length s" "s ! cursor = CHR 0x22"
    | (newline) "cursor < length s" "s ! cursor = CHR 0x0A \<or> s ! cursor = CHR 0x0D"
    | (last) "cursor + 1 = length s" "s ! cursor = CHR 0x5C" | (plain) "cursor < length s" "plain_byte (s ! cursor)"
    using byte_cases [of "s ! cursor"] by fast
  then show ?case
  proof cases
    case over
    then have "string_end s cursor = Some (False, cursor)" by (simp add: string_end.simps [of s cursor])
    moreover have "string_outcome s cursor False cursor" using at over by (simp add: string_outcome_def bd_def) (meson leD)
    ultimately show ?thesis by blast
  next
    case escape
    let ?m = "Suc cursor + len_utf8 (s ! Suc cursor)"
    have bd1: "bd s (Suc cursor)" using bd_after_ascii [OF valid, of cursor] escape by simp
    have step: "char_len_at s (Suc cursor) = Some (len_utf8 (s ! Suc cursor))" "bd s ?m" "?m \<le> length s"
      using char_len_at_bd [OF valid bd1] bd_step(1,3) [OF valid bd1] escape by auto
    obtain closed k where k: "string_end s ?m = Some (closed, k)" "string_outcome s ?m closed k"
      using 1(1) [of "s ! cursor"] escape step valid by auto
    have none: "\<not> string_body (between s cursor b)" if "cursor \<le> b" "b < ?m" "s ! b = CHR 0x22" for b
    proof -
      have "\<not> Suc cursor < b"
        using bd_step(2) [OF valid bd1, of b] cont_plain [of "s ! b"] that(2,3) escape(1) by (auto simp: plain_byte_def)
      moreover have "b \<noteq> cursor" using that escape by auto
      ultimately have "b = Suc cursor" using that(1) by linarith
      then show ?thesis using escape by (simp add: between_Cons)
    qed
    have "string_outcome s cursor closed k"
      using string_outcome_step [OF k(2) _ step(3)] escape_body [OF valid bd1] escape none by simp
    then show ?thesis using k(1) escape step by (simp add: string_end.simps [of s cursor])
  next
    case quote
    then have "string_end s cursor = Some (True, cursor + 1)" by (simp add: string_end.simps [of s cursor])
    moreover have "string_outcome s cursor True (cursor + 1)"
      using bd_after_ascii [OF valid, of cursor] quote by (simp add: string_outcome_def)
    ultimately show ?thesis by blast
  next
    case newline
    have "\<not> string_body (between s cursor b)" if "cursor \<le> b" "s ! b = CHR 0x22" for b
      using that newline by (cases "b = cursor") (auto simp: between_Cons)
    then have "string_outcome s cursor False cursor" using newline(1) by (simp add: string_outcome_def)
    moreover have "string_end s cursor = Some (False, cursor)" using newline by (auto simp: string_end.simps [of s cursor])
    ultimately show ?thesis by blast
  next
    case last
    then have "len_utf8 (s ! cursor) = 1" by (simp add: len_utf8_def)
    moreover have "string_end s (Suc cursor) = Some (False, Suc cursor)"
      using last unfolding string_end.simps [of s "Suc cursor"] by simp
    ultimately have "string_end s cursor = Some (False, Suc cursor)"
      using last char_len_at_bd [OF valid at] by (simp add: string_end.simps [of s cursor])
    moreover have "s ! b \<noteq> CHR 0x22" if "cursor \<le> b" "b < length s" for b
    proof -
      have "b = cursor" using that last by linarith
      then show ?thesis using last by simp
    qed
    then have "string_outcome s cursor False (Suc cursor)" using last by (simp add: string_outcome_def) blast
    ultimately show ?thesis by blast
  next
    case plain
    let ?m = "cursor + len_utf8 (s ! cursor)"
    have step: "char_len_at s cursor = Some (len_utf8 (s ! cursor))" "bd s ?m" "?m \<le> length s"
      using char_len_at_bd [OF valid at] bd_step(1,3) [OF valid at] plain by auto
    obtain closed k where k: "string_end s ?m = Some (closed, k)" "string_outcome s ?m closed k"
      using 1(2) [of "s ! cursor"] plain step valid by (auto simp: plain_byte_def)
    have none: "s ! b \<noteq> CHR 0x22" if "cursor \<le> b" "b < ?m" for b
      using that plain bd_step(2) [OF valid at] cont_plain [of "s ! b"] by (cases "b = cursor") (auto simp: plain_byte_def)
    have "string_outcome s cursor closed k"
      using string_outcome_step [OF k(2) _ step(3), of cursor] char_body [OF valid at plain] none by auto
    then show ?thesis using k(1) plain step by (simp add: string_end.simps [of s cursor] plain_byte_def)
  qed
qed

section \<open>Preprocessor lines\<close>

lemma preprocessor_end_spec:
  "valid_str s \<Longrightarrow> cursor \<le> length s \<Longrightarrow> cursor \<le> preprocessor_end s cursor \<and> preprocessor_end s cursor \<le> length s \<and>
     (preprocessor_end s cursor < length s \<longrightarrow>
        s ! preprocessor_end s cursor = CHR 0x0A \<and> \<not> line_continues s (preprocessor_end s cursor))"
proof (induction s cursor rule: preprocessor_end.induct)
  case (1 s cursor)
  show ?case
  proof (cases "position (CHR 0x0A) (drop cursor s)")
    case None
    then show ?thesis using 1(3) by (simp add: preprocessor_end.simps [of s cursor])
  next
    case (Some r)
    then have r: "cursor + r < length s" "s ! (cursor + r) = CHR 0x0A"
      using nth_length_takeWhile [of "\<lambda>b. b \<noteq> CHR 0x0A" "drop cursor s"]
      by (auto simp: position_def Let_def split: if_splits)
    show ?thesis
    proof (cases "line_continues s (cursor + r)")
      case True
      then show ?thesis using 1(1) [OF Some refl True 1(2)] Some r by (simp add: preprocessor_end.simps [of s cursor])
    next
      case False
      then show ?thesis using Some r by (simp add: preprocessor_end.simps [of s cursor])
    qed
  qed
qed

lemma line_start_spec:
  assumes "off \<le> length s"
  shows "line_start_of s off \<le> off \<and> (line_start_of s off = 0 \<or> s ! (line_start_of s off - 1) = CHR 0x0A)"
proof -
  let ?r = "rev (take off s)" and ?n = "length (takeWhile (\<lambda>b. b \<noteq> CHR 0x0A) (rev (take off s)))"
  have len: "length ?r = off" using assms by simp
  have "?n \<le> off" using length_takeWhile_le [of "\<lambda>b. b \<noteq> CHR 0x0A" ?r] len by simp
  moreover have "s ! (off - ?n - 1) = CHR 0x0A" if "?n < off"
  proof -
    have "?r ! ?n = CHR 0x0A" using nth_length_takeWhile [of "\<lambda>b. b \<noteq> CHR 0x0A" ?r] that len by simp
    moreover have "?r ! ?n = s ! (off - ?n - 1)" using that assms by (simp add: rev_nth)
    ultimately show ?thesis by simp
  qed
  ultimately show ?thesis by (cases "?n < off") (auto simp: line_start_of_def)
qed

lemma preprocessor_start_spec:
  assumes "valid_str s" "bd s off"
  shows "is_preprocessor_start s off = Some (list_all (\<lambda>b. b \<in> {CHR '' '', CHR 0x09, CHR 0x0D, CHR 0x0C})
    (between s (line_start_of s off) off))"
proof -
  have le: "off \<le> length s" using assms(2) by (simp add: bd_def)
  let ?l = "line_start_of s off"
  have "bd s ?l"
  proof (cases "?l = 0")
    case True
    then show ?thesis using bd_zero [OF assms(1)] by simp
  next
    case False
    then show ?thesis
      using line_start_spec [OF le] bd_after_ascii [OF assms(1), of "?l - 1"] le by auto
  qed
  then have "str_slice s ?l off = Some (between s ?l off)" "str_slice s 0 off = Some (take off s)"
    using line_start_spec [OF le] assms le bd_zero [OF assms(1)]
    by (auto simp: str_slice_def bd_char_boundary between_def)
  then show ?thesis by (simp add: is_preprocessor_start_def)
qed

section \<open>One token\<close>

text \<open>The shape of a token of each class between two offsets.\<close>

definition token_shape :: "string \<Rightarrow> TokenKind \<Rightarrow> nat \<Rightarrow> nat \<Rightarrow> bool" where
  "token_shape s kind a b \<longleftrightarrow>
     (case kind of
        Whitespace \<Rightarrow> list_all is_ascii_whitespace (between s a b) \<and> (b < length s \<longrightarrow> \<not> is_ascii_whitespace (s ! b))
      | LineComment \<Rightarrow> starts_at s a ''//'' \<and> a + 2 \<le> b \<and> list_all (\<lambda>c. c \<noteq> CHR 0x0A) (between s a b) \<and>
          (b < length s \<longrightarrow> s ! b = CHR 0x0A)
      | BlockComment \<Rightarrow> starts_at s a ''/*'' \<and> a + 4 \<le> b \<and> starts_at s (b - 2) ''*/'' \<and>
          (\<forall>i. a + 2 \<le> i \<and> i < b - 2 \<longrightarrow> \<not> starts_at s i ''*/'')
      | QuotedString \<Rightarrow> a + 2 \<le> b \<and> s ! a = CHR 0x22 \<and> s ! (b - 1) = CHR 0x22 \<and> string_body (between s (a + 1) (b - 1))
      | Preprocessor \<Rightarrow> s ! a = CHR ''#'' \<and>
          list_all (\<lambda>c. c \<in> {CHR '' '', CHR 0x09, CHR 0x0D, CHR 0x0C}) (between s (line_start_of s a) a) \<and>
          (b < length s \<longrightarrow> s ! b = CHR 0x0A \<and> \<not> line_continues s b)
      | Word \<Rightarrow> list_all is_word_byte (between s a b) \<and> (b < length s \<longrightarrow> \<not> is_word_byte (s ! b))
      | Punctuation \<Rightarrow> between s a b = ''::'' \<or> b = a + 1 \<and> is_graphic (s ! a) \<and> \<not> is_word_byte (s ! a)
      | UnknownKind \<Rightarrow> b = a + len_utf8 (s ! a) \<and> \<not> is_graphic (s ! a) \<and> \<not> is_ascii_whitespace (s ! a))"

text \<open>What an error says: a comment opens there and nothing closes it, or a string does.\<close>

definition error_shape :: "string \<Rightarrow> ParseError \<Rightarrow> bool" where
  "error_shape s e \<longleftrightarrow>
     (case e of
        SourceTooLarge n \<Rightarrow> n = length s \<and> n > U32_MAX
      | UnterminatedBlockComment off \<Rightarrow> starts_at s off ''/*'' \<and> (\<forall>i \<ge> off + 2. \<not> starts_at s i ''*/'')
      | UnterminatedQuotedString off \<Rightarrow> off < length s \<and> s ! off = CHR 0x22 \<and>
          (\<forall>b. off < b \<and> b < length s \<and> s ! b = CHR 0x22 \<longrightarrow> \<not> string_body (between s (off + 1) b)))"

lemma ascii_classes:
  "is_ascii_whitespace c \<Longrightarrow> byte_val c < 128" "is_word_byte c \<Longrightarrow> byte_val c < 128" "is_graphic c \<Longrightarrow> byte_val c < 128"
  by (auto simp: is_ascii_whitespace_def is_word_byte_def is_ascii_alphabetic_def is_digit_def is_graphic_def byte_val_def)

text \<open>A run of ASCII bytes ends on a boundary.\<close>

lemma bd_run:
  assumes "valid_str s" "a < b" "b \<le> length s" "byte_val (s ! (b - 1)) < 128"
  shows "bd s b"
  using bd_after_ascii [OF assms(1), of "b - 1"] assms by simp

text \<open>The token at an offset, class by class.\<close>

definition token_ok :: "string \<Rightarrow> nat \<Rightarrow> TokenKind \<times> nat \<Rightarrow> bool" where
  "token_ok s a = (\<lambda>(kind, b). a < b \<and> b \<le> length s \<and> bd s b \<and> token_shape s kind a b)"

lemma scan_run:
  assumes "valid_str s" "a < length s" "P (s ! a)" "\<And>c. P c \<Longrightarrow> byte_val c < 128"
  defines "b \<equiv> skip_while P s (a + 1)"
  shows "a < b \<and> b \<le> length s \<and> bd s b \<and> list_all P (between s a b) \<and> (b < length s \<longrightarrow> \<not> P (s ! b))"
proof -
  have sk: "b \<le> length s" "\<forall>i. a + 1 \<le> i \<and> i < b \<longrightarrow> P (s ! i)" "b < length s \<longrightarrow> \<not> P (s ! b)"
    using skip_while_spec [of "a + 1" s P] assms(2) by (auto simp: b_def)
  have ab: "a < b" using skip_while_ge [of "a + 1" P s] by (simp add: b_def)
  have all: "P (s ! i)" if "a \<le> i" "i < b" for i using that sk(2) assms(3) by (cases "i = a") auto
  have "bd s b" using bd_run [OF assms(1) ab sk(1)] all [of "b - 1"] ab assms(4) by auto
  then show ?thesis using sk ab all by (simp add: between_all)
qed

lemma scan_line_comment:
  assumes "valid_str s" "starts_at s a ''//''"
  shows "token_ok s a (LineComment, skip_while (\<lambda>b. b \<noteq> CHR 0x0A) s (a + 2))"
proof -
  let ?P = "\<lambda>b. b \<noteq> CHR 0x0A" and ?b = "skip_while (\<lambda>b. b \<noteq> CHR 0x0A) s (a + 2)"
  have a: "a + 1 < length s" "s ! a = CHR ''/''" "s ! (a + 1) = CHR ''/''" using assms(2) by (auto simp: starts_at_two)
  have sk: "?b \<le> length s" "\<forall>i. a + 2 \<le> i \<and> i < ?b \<longrightarrow> ?P (s ! i)" "?b < length s \<longrightarrow> s ! ?b = CHR 0x0A"
    using skip_while_spec [of "a + 2" s ?P] a(1) by auto
  have "a + 2 \<le> ?b" by (rule skip_while_ge)
  moreover have "?P (s ! i)" if "a \<le> i" "i < ?b" for i
    using a sk(2) that by (cases "i = a"; cases "i = a + 1") auto
  moreover have "bd s ?b"
    using sk(1,3) bd_ascii [of ?b s] by (cases "?b < length s") (auto simp: bd_def)
  ultimately show ?thesis using assms(2) sk by (auto simp: token_ok_def token_shape_def between_all)
qed

lemma scan_block_comment:
  assumes "valid_str s" "starts_at s a ''/*''"
  shows "\<exists>k. comment_end s (a + 2) = Some k \<and>
    (if k = length s then error_shape s (UnterminatedBlockComment a) else token_ok s a (BlockComment, k + 2))"
proof -
  have a: "a + 1 < length s" "byte_val (s ! (a + 1)) < 128" using assms(2) by (auto simp: starts_at_two)
  have "bd s (a + 2)" using bd_after_ascii [OF assms(1) a] by simp
  then obtain k where k: "comment_end s (a + 2) = Some k" "a + 2 \<le> k" "k \<le> length s"
    "\<forall>i. a + 2 \<le> i \<and> i < k \<longrightarrow> \<not> starts_at s i ''*/''" "k = length s \<or> starts_at s k ''*/''"
    using comment_end_spec [OF assms(1)] by blast
  show ?thesis
  proof (cases "k = length s")
    case True
    have "\<not> starts_at s i ''*/''" if "a + 2 \<le> i" for i
    proof (cases "i < k")
      case False
      then show ?thesis using True unfolding starts_at_two by linarith
    qed (use k that in simp)
    then show ?thesis using True k(1) assms(2) by (simp add: error_shape_def)
  next
    case False
    then have e: "starts_at s k ''*/''" "k + 1 < length s" "byte_val (s ! (k + 1)) < 128" using k(5) by (auto simp: starts_at_two)
    have "bd s (k + 2)" using bd_after_ascii [OF assms(1) e(2,3)] by simp
    then show ?thesis using False k e assms(2) by (simp add: token_ok_def token_shape_def)
  qed
qed

lemma scan_string:
  assumes "valid_str s" "a < length s" "s ! a = CHR 0x22"
  shows "\<exists>closed k. string_end s (a + 1) = Some (closed, k) \<and>
    (if closed then token_ok s a (QuotedString, k) else error_shape s (UnterminatedQuotedString a))"
proof -
  have "bd s (a + 1)" using bd_after_ascii [OF assms(1,2)] assms(3) by simp
  then obtain closed k where k: "string_end s (a + 1) = Some (closed, k)" "string_outcome s (a + 1) closed k"
    using string_end_spec [OF assms(1)] by blast
  have "if closed then token_ok s a (QuotedString, k) else error_shape s (UnterminatedQuotedString a)"
    using k(2) assms by (cases closed) (simp_all add: string_outcome_def token_ok_def token_shape_def error_shape_def Suc_le_eq)
  then show ?thesis using k(1) by blast
qed

lemma scan_preprocessor:
  assumes "valid_str s" "a < length s" "s ! a = CHR ''#''" "is_preprocessor_start s a = Some True"
  shows "token_ok s a (Preprocessor, preprocessor_end s (a + 1))"
proof -
  have at: "bd s a" using bd_ascii [OF assms(2)] assms(3) by simp
  let ?b = "preprocessor_end s (a + 1)"
  have b: "a + 1 \<le> ?b" "?b \<le> length s" "?b < length s \<longrightarrow> s ! ?b = CHR 0x0A \<and> \<not> line_continues s ?b"
    using preprocessor_end_spec [OF assms(1), of "a + 1"] assms(2) by auto
  moreover have "bd s ?b" using b(2,3) bd_ascii [of ?b s] by (cases "?b < length s") (auto simp: bd_def)
  ultimately show ?thesis
    using assms(3,4) preprocessor_start_spec [OF assms(1) at] by (simp add: token_ok_def token_shape_def)
qed

lemma scan_token_spec:
  assumes "valid_str s" "bd s a" "a < length s"
  shows "case scan_token s a of Ok t \<Rightarrow> token_ok s a t | Err e \<Rightarrow> error_shape s e | Panic \<Rightarrow> False"
proof -
  let ?c = "s ! a"
  have pre: "\<exists>d. is_preprocessor_start s a = Some d" using preprocessor_start_spec [OF assms(1,2)] by blast
  have step: "char_len_at s a = Some (len_utf8 ?c)" "bd s (a + len_utf8 ?c)" "a + len_utf8 ?c \<le> length s"
    using char_len_at_bd [OF assms] bd_step(1,3) [OF assms] by auto
  have word: "token_ok s a (Word, skip_while is_word_byte s (a + 1))" if "is_word_byte ?c"
    using scan_run [where P = is_word_byte, OF assms(1,3) that] ascii_classes by (simp add: token_ok_def token_shape_def)
  have colons: "token_ok s a (Punctuation, a + 2)" if "starts_at s a ''::''"
    using that bd_after_ascii [OF assms(1), of "a + 1"] by (auto simp: starts_at_two token_ok_def token_shape_def between_Cons)
  have punct: "token_ok s a (Punctuation, a + 1)" if "is_graphic ?c" "\<not> is_word_byte ?c"
    using that bd_after_ascii [OF assms(1,3)] ascii_classes assms(3) by (simp add: token_ok_def token_shape_def)
  have unknown: "token_ok s a (UnknownKind, a + len_utf8 ?c)" if "\<not> is_graphic ?c" "\<not> is_ascii_whitespace ?c"
    using that step by (simp add: token_ok_def token_shape_def)
  consider (ws) "is_ascii_whitespace ?c" | (line) "\<not> is_ascii_whitespace ?c" "starts_at s a ''//''"
    | (block) "\<not> is_ascii_whitespace ?c" "\<not> starts_at s a ''//''" "starts_at s a ''/*''"
    | (quote) "\<not> is_ascii_whitespace ?c" "\<not> starts_at s a ''//''" "\<not> starts_at s a ''/*''" "?c = CHR 0x22"
    | (other) "\<not> is_ascii_whitespace ?c" "\<not> starts_at s a ''//''" "\<not> starts_at s a ''/*''" "?c \<noteq> CHR 0x22"
    by blast
  then show ?thesis
  proof cases
    case ws
    then show ?thesis using scan_run [where P = is_ascii_whitespace, OF assms(1,3) ws] ascii_classes
      by (simp add: scan_token_def token_ok_def token_shape_def)
  next
    case line
    then show ?thesis using scan_line_comment [OF assms(1)] by (simp add: scan_token_def)
  next
    case block
    then show ?thesis using scan_block_comment [OF assms(1) block(3)] by (auto simp: scan_token_def)
  next
    case quote
    then show ?thesis using scan_string [OF assms(1,3)] by (auto simp: scan_token_def)
  next
    case other
    obtain d where "is_preprocessor_start s a = Some d" using pre by blast
    then show ?thesis
      using other word colons punct unknown step(1) scan_preprocessor [OF assms(1,3)] by (auto simp: scan_token_def Let_def)
  qed
qed

section \<open>The whole source\<close>

fun partitioned :: "string \<Rightarrow> nat \<Rightarrow> Token list \<Rightarrow> bool" where
  "partitioned s a [] \<longleftrightarrow> a = length s"
| "partitioned s a (t # ts) \<longleftrightarrow> token_start t = a \<and> a < token_end t \<and> token_end t \<le> length s \<and>
     is_char_boundary s (token_end t) \<and> token_shape s (token_kind t) a (token_end t) \<and> partitioned s (token_end t) ts"

lemma lex_from_spec:
  "valid_str s \<Longrightarrow> bd s a \<Longrightarrow> length s \<le> U32_MAX \<Longrightarrow>
     case lex_from s a of Ok ts \<Rightarrow> partitioned s a ts | Err e \<Rightarrow> error_shape s e | Panic \<Rightarrow> False"
proof (induction s a rule: lex_from.induct)
  case (1 s a)
  show ?case
  proof (cases "a < length s")
    case False
    then have "lex_from s a = Ok []" by (simp add: lex_from.simps [of s a])
    then show ?thesis using 1(3) False by (simp add: bd_def)
  next
    case True
    note t = scan_token_spec [OF 1(2,3) True]
    show ?thesis
    proof (cases "scan_token s a")
      case (Ok p)
      then obtain kind b where p: "scan_token s a = Ok (kind, b)" and ok: "a < b" "b \<le> length s" "bd s b" "token_shape s kind a b"
        using t by (cases p) (auto simp: token_ok_def)
      let ?t = "\<lparr>token_kind = kind, token_start = a, token_end = b\<rparr>"
      have new: "token_new kind (a, b) = Some ?t" using ok 1(4) by (simp add: token_new_def)
      have "case lex_from s b of Ok ts \<Rightarrow> partitioned s b ts | Err e \<Rightarrow> error_shape s e | Panic \<Rightarrow> False"
        using 1(1) [OF True p refl _ 1(2) ok(3) 1(4), of ?t] new by simp
      then show ?thesis
        using p new True ok bd_char_boundary [OF 1(2)]
        by (simp add: lex_from.simps [of s a] split: outcome.splits)
    qed (use t True in \<open>simp_all add: lex_from.simps [of s a]\<close>)
  qed
qed

lemma partitioned_concat: "partitioned s a ts \<Longrightarrow> a \<le> length s \<Longrightarrow> concat (map (token_text s) ts) = drop a s"
proof (induction s a ts rule: partitioned.induct)
  case (2 s a t ts)
  have "token_text s t @ drop (token_end t) s = drop a s"
    using 2(2) by (simp add: token_text_def) (metis append_take_drop_id drop_drop le_add_diff_inverse2 less_imp_le)
  then show ?case using 2 by simp
qed simp

lemma lex_partitioned: "valid_str source \<Longrightarrow> lex source = Ok tokens \<Longrightarrow> partitioned source 0 tokens"
  using lex_from_spec [OF _ bd_zero, of source] by (auto simp: lex_def split: if_splits)

text \<open>(C13) Lexing is lossless and exact. On valid UTF-8 the lexer does not panic; its tokens are non-empty, follow each other
  without gaps from the first byte to the last, end on character boundaries, have the shape of their class, and
  their texts put together are the source. Otherwise the error names a comment or a string that is opened at
  that offset and never closed, or a source too large to index.\<close>

theorem lex_lossless:
  assumes "valid_str source"
  shows "case lex source of
      Ok tokens \<Rightarrow> partitioned source 0 tokens \<and> concat (map (token_text source) tokens) = source
    | Err e \<Rightarrow> error_shape source e
    | Panic \<Rightarrow> False"
proof (cases "length source > U32_MAX")
  case True
  then show ?thesis by (simp add: lex_def error_shape_def)
next
  case False
  then show ?thesis
    using lex_from_spec [OF assms bd_zero [OF assms]] partitioned_concat [of source 0]
    by (auto simp: lex_def split: outcome.splits)
qed

section \<open>Masking\<close>

lemma valid_ascii: "list_all (\<lambda>c. byte_val c < 128) s \<Longrightarrow> valid_str s"
  by (induction s) (auto simp: valid_str_def byte_order)

lemma valid_between:
  assumes "valid_str s" "bd s a" "bd s b" "a \<le> b"
  shows "valid_str (between s a b)"
proof -
  have "bd (drop a s) (b - a)" using assms by (auto simp: bd_def)
  then show ?thesis using valid_take [OF bd_drop [OF assms(1,2)]] by (simp add: between_def)
qed

definition mask_token :: "string \<Rightarrow> Token \<Rightarrow> string" where
  "mask_token s t = (if is_masked (token_kind t) then map mask_byte (token_text s t) else token_text s t)"

lemma token_text_between: "token_text s t = between s (token_start t) (token_end t)"
  by (simp add: token_text_def between_def)

lemma length_token_text: "partitioned s a (t # ts) \<Longrightarrow> length (token_text s t) = token_end t - a"
  by (auto simp: token_text_def)

lemma length_mask_token: "partitioned s a (t # ts) \<Longrightarrow> length (mask_token s t) = token_end t - a"
  by (simp add: mask_token_def length_token_text del: partitioned.simps)

lemma mask_tokens_spec:
  "partitioned s a ts \<Longrightarrow> length pre = a \<Longrightarrow> a \<le> length s \<Longrightarrow>
     mask_tokens ts (pre @ drop a s) = Some (pre @ concat (map (mask_token s) ts))"
proof (induction s a ts arbitrary: pre rule: partitioned.induct)
  case (2 s a t ts)
  let ?b = "token_end t"
  have split: "drop a s = token_text s t @ drop ?b s"
    using 2(2) by (simp add: token_text_def) (metis append_take_drop_id drop_drop le_add_diff_inverse2 less_imp_le)
  have len: "length (token_text s t) = ?b - a" by (rule length_token_text [OF 2(2)])
  have "mask_span (token_span t) (pre @ drop a s) = Some (pre @ map mask_byte (token_text s t) @ drop ?b s)"
    using 2(2,3) len by (simp add: mask_span_def token_span_def range_len_def split)
  then have "mask_tokens (t # ts) (pre @ drop a s) = mask_tokens ts ((pre @ mask_token s t) @ drop ?b s)"
    by (simp add: mask_token_def split)
  also have "\<dots> = Some ((pre @ mask_token s t) @ concat (map (mask_token s) ts))"
    using 2(2,3) length_mask_token [OF 2(2)] by (intro 2(1)) auto
  finally show ?case by simp
qed simp

lemma valid_mask_token:
  assumes "valid_str s" "bd s (token_start t)" "bd s (token_end t)" "token_start t \<le> token_end t"
  shows "valid_str (mask_token s t)"
proof (cases "is_masked (token_kind t)")
  case True
  have "byte_val (mask_byte c) < 128" for c by (simp add: mask_byte_def byte_val_def)
  then have "valid_str (map mask_byte (token_text s t))" by (intro valid_ascii) (simp add: list_all_iff)
  then show ?thesis using True by (simp add: mask_token_def)
next
  case False
  then show ?thesis using valid_between [OF assms] by (simp add: mask_token_def token_text_between)
qed

lemma valid_masked: "valid_str s \<Longrightarrow> bd s a \<Longrightarrow> partitioned s a ts \<Longrightarrow> valid_str (concat (map (mask_token s) ts))"
proof (induction s a ts rule: partitioned.induct)
  case (1 s a)
  then show ?case by (simp add: valid_str_def)
next
  case (2 s a t ts)
  then have "bd s (token_end t)" by (simp add: bd_char_boundary)
  then show ?case using 2 by (auto intro!: valid_append valid_mask_token)
qed

lemma mask_non_code_spec:
  assumes "valid_str source" "lex source = Ok tokens"
  shows "mask_non_code source tokens = Some (concat (map (mask_token source) tokens))"
  using mask_tokens_spec [OF lex_partitioned [OF assms], of "[]"]
    valid_masked [OF assms(1) bd_zero [OF assms(1)] lex_partitioned [OF assms]]
  by (simp add: mask_non_code_def)

lemma length_masked:
  assumes "valid_str source" "lex source = Ok tokens"
  shows "length (concat (map (mask_token source) tokens)) = length source"
proof -
  have "length (mask_token source t) = length (token_text source t)" for t
    by (simp add: mask_token_def)
  then show ?thesis
    using arg_cong [OF partitioned_concat [OF lex_partitioned [OF assms], simplified], of length] by (simp add: length_concat comp_def)
qed

text \<open>Masking comments, strings and preprocessor lines replaces their bytes by spaces, token by token, and keeps line
  ends, length and everything else; in particular the \<open>expect\<close> that the result is UTF-8 never fails.\<close>

theorem masking_exact:
  assumes "valid_str source" and "lex source = Ok tokens"
  shows "mask_non_code source tokens = Some (concat (map (mask_token source) tokens)) \<and>
    length (concat (map (mask_token source) tokens)) = length source"
  using mask_non_code_spec [OF assms] length_masked [OF assms] by simp

section \<open>Witnesses\<close>

text \<open>\<open>"a;" // x\<close> with a Greek letter in the comment, and its tokens.\<close>

definition demo_source :: string where
  "demo_source = [CHR 0x22, CHR ''a'', CHR '';'', CHR 0x22] @ '' // '' @ [CHR 0xCE, CHR 0xBB, CHR 0x0A] @ ''mov;''"

definition demo_tokens :: "Token list" where
  "demo_tokens =
     [\<lparr>token_kind = QuotedString, token_start = 0, token_end = 4\<rparr>, \<lparr>token_kind = Whitespace, token_start = 4, token_end = 5\<rparr>,
      \<lparr>token_kind = LineComment, token_start = 5, token_end = 10\<rparr>, \<lparr>token_kind = Whitespace, token_start = 10, token_end = 11\<rparr>,
      \<lparr>token_kind = Word, token_start = 11, token_end = 14\<rparr>, \<lparr>token_kind = Punctuation, token_start = 14, token_end = 15\<rparr>]"

lemma demo_valid: "valid_str demo_source"
  by (simp add: demo_source_def valid_str_def byte_order byte_val_def cont_byte_def)

lemmas lex_eval = lex_def lex_from.simps scan_token_def skip_while.simps comment_end.simps string_end.simps
  token_new_def U32_MAX_def char_len_at_def is_char_boundary_def is_cont_def len_utf8_def is_ascii_whitespace_def
  is_word_byte_def is_ascii_alphabetic_def is_digit_def is_graphic_def starts_at_def byte_val_def

lemma demo_lex: "lex demo_source = Ok demo_tokens"
  unfolding demo_source_def demo_tokens_def by (simp add: lex_eval cong: try_let_weak bind_weak)

theorem lex_lossless_witness: "concat (map (token_text demo_source) demo_tokens) = demo_source"
  using lex_lossless [OF demo_valid] demo_lex by simp

theorem masking_exact_witness:
  "mask_non_code demo_source demo_tokens = Some (replicate 4 (CHR '' '') @ '' '' @ replicate 5 (CHR '' '') @ [CHR 0x0A] @ ''mov;'')"
proof -
  have "concat (map (mask_token demo_source) demo_tokens) =
      replicate 4 (CHR '' '') @ '' '' @ replicate 5 (CHR '' '') @ [CHR 0x0A] @ ''mov;''"
    by code_simp
  then show ?thesis using masking_exact [OF demo_valid demo_lex] by simp
qed

end
