(* ===== verification/Ptx_Trim.thy ===== *)
theory Ptx_Trim
  imports Ptx_Views Ptx_Lexer_Properties
begin

text \<open>
  Trimming valid text, character by character. A valid text is a sequence of encoded characters; trimming drops the
  white ones from its ends, and a trimmed span lies on character boundaries.
\<close>

section \<open>Characters of a text\<close>

definition utf8_char :: "string \<Rightarrow> bool" where
  "utf8_char c \<longleftrightarrow> c \<noteq> [] \<and> valid_str c \<and> length c = len_utf8 (hd c)"

definition white :: "string \<Rightarrow> bool" where
  "white c \<longleftrightarrow> (case c of [a] \<Rightarrow> space1 a | [a, b] \<Rightarrow> space2 a b | [a, b, d] \<Rightarrow> space3 a b d | _ \<Rightarrow> False)"

lemma utf8_chars:
  assumes "valid_str s"
  obtains cs where "list_all utf8_char cs" "s = concat cs"
  using assms
proof (induction "length s" arbitrary: s thesis rule: less_induct)
  case less
  show ?case
  proof (cases s)
    case Nil
    then show ?thesis using less.prems(1) [of "[]"] by simp
  next
    case (Cons a r)
    note h = valid_head [OF less.prems(2) [unfolded Cons], folded Cons]
    let ?n = "len_utf8 a"
    have "0 < ?n" by (simp add: len_utf8_def)
    then have "length (drop ?n s) < length s" using Cons by simp
    then obtain cs where cs: "list_all utf8_char cs" "drop ?n s = concat cs" using less.hyps h by blast
    have "valid_str (take ?n s)"
      using valid_first [OF less.prems(2) [unfolded Cons], of "[]"] Cons by (simp add: valid_str_def)
    then have "utf8_char (take ?n s)" using h Cons \<open>0 < ?n\<close> by (simp add: utf8_char_def min_def)
    moreover have "s = concat (take ?n s # cs)" using append_take_drop_id [of ?n s] cs(2) by simp
    ultimately show ?thesis using less.prems(1) [of "take ?n s # cs"] cs(1) by simp
  qed
qed

lemma valid_empty [simp]: "valid_str []"
  by (simp add: valid_str_def)

lemma concat_valid: "list_all utf8_char cs \<Longrightarrow> valid_str (concat cs)"
  by (induction cs) (auto simp: utf8_char_def valid_append)

text \<open>The bytes of one character.\<close>

lemma utf8_cases:
  assumes "utf8_char c"
  obtains (one) a where "c = [a]" "byte_val a < 0x80"
    | (two) a b where "c = [a, b]" "0xC0 \<le> byte_val a" "byte_val a < 0xE0" "is_cont b"
    | (three) a b d where "c = [a, b, d]" "0xE0 \<le> byte_val a" "byte_val a < 0xF0" "is_cont b" "is_cont d"
    | (four) a b d e where "c = [a, b, d, e]" "0xF0 \<le> byte_val a" "is_cont b" "is_cont d" "is_cont e"
proof -
  obtain a r where c: "c = a # r" using assms by (cases c) (auto simp: utf8_char_def)
  have h: "\<not> is_cont a" "length c = len_utf8 a" "\<forall>i. 0 < i \<and> i < len_utf8 a \<longrightarrow> is_cont (c ! i)"
    using valid_head [of a r] assms c by (auto simp: utf8_char_def)
  have lead: "byte_val a < 0x80 \<or> 0xC0 \<le> byte_val a" using h(1) by (auto simp: is_cont_def)
  show ?thesis
  proof (cases "byte_val a < 0x80")
    case True
    then show ?thesis using one [of a] h c by (simp add: len_utf8_def)
  next
    case False
    then have ge: "0xC0 \<le> byte_val a" using lead by simp
    consider "byte_val a < 0xE0" | "0xE0 \<le> byte_val a" "byte_val a < 0xF0" | "0xF0 \<le> byte_val a" by linarith
    then show ?thesis
    proof cases
      case 1
      then have "length r = 1" using h c False by (simp add: len_utf8_def)
      then obtain b where "r = [b]" by (auto simp: length_Suc_conv)
      then show ?thesis using two [of a b] 1 ge h c by (auto simp: len_utf8_def)
    next
      case 2
      then have l: "length r = 2" "len_utf8 a = 3" using h c by (auto simp: len_utf8_def)
      then obtain b d where "r = [b, d]" by (auto simp: length_Suc_conv numeral_2_eq_2)
      moreover have "is_cont (c ! 1)" "is_cont (c ! 2)" using h(3) l by auto
      ultimately show ?thesis using three [of a b d] 2 c by simp
    next
      case 3
      then have l: "length r = 3" "len_utf8 a = 4" using h c by (auto simp: len_utf8_def)
      then obtain b d e where "r = [b, d, e]" by (auto simp: length_Suc_conv numeral_3_eq_3)
      moreover have "is_cont (c ! 1)" "is_cont (c ! 2)" "is_cont (c ! 3)" using h(3) l by auto
      ultimately show ?thesis using four [of a b d e] 3 c by simp
    qed
  qed
qed

text \<open>Where the bytes of the three kinds of white characters lie.\<close>

lemma space_bytes:
  "space1 a \<Longrightarrow> byte_val a < 0x80" "space2 a b \<Longrightarrow> byte_val a = 0xC2 \<and> is_cont b"
  "space3 a b c \<Longrightarrow> 0xE0 \<le> byte_val a \<and> byte_val a < 0xF0 \<and> is_cont b \<and> is_cont c"
  by (auto simp: space1_def space2_def space3_def is_cont_def byte_val_def)

lemma trim_start_char:
  assumes "utf8_char c"
  shows "trim_start (c @ s) = (if white c then trim_start s else c @ s)"
  using assms
proof (cases rule: utf8_cases)
  case (one a)
  then have "\<not> space2 a b" "\<not> space3 a b d" for b d using space_bytes(2,3) [of a b] space_bytes(3) [of a b d] by auto
  then show ?thesis using one by (cases "a # s" rule: trim_start.cases) (auto simp: white_def)
next
  case (two a b)
  then have "\<not> space1 a" "\<not> space3 a b d" for d using space_bytes(1) [of a] space_bytes(3) [of a b d] by auto
  then show ?thesis using two by (cases s) (auto simp: white_def)
next
  case (three a b d)
  then have "\<not> space1 a" "\<not> space2 a b" using space_bytes(1) [of a] space_bytes(2) [of a b] by auto
  then show ?thesis using three by (auto simp: white_def)
next
  case (four a b d e)
  then have "\<not> space1 a" "\<not> space2 a b" "\<not> space3 a b d"
    using space_bytes(1) [of a] space_bytes(2) [of a b] space_bytes(3) [of a b d] by auto
  then show ?thesis using four by (auto simp: white_def)
qed

lemma trim_back_char:
  assumes "utf8_char c"
  shows "trim_back (rev c @ s) = (if white c then trim_back s else rev c @ s)"
  using assms
proof (cases rule: utf8_cases)
  case (one a)
  then have "\<not> space2 b a" "\<not> space3 d b a" for b d
    using space_bytes(2) [of b a] space_bytes(3) [of d b a] by (auto simp: is_cont_def)
  then show ?thesis using one by (cases "a # s" rule: trim_back.cases) (auto simp: white_def)
next
  case (two a b)
  then have "\<not> space1 b" "\<not> space3 d a b" for d
    using space_bytes(1) [of b] space_bytes(3) [of d a b] by (auto simp: is_cont_def)
  then show ?thesis using two by (cases s) (auto simp: white_def)
next
  case (three a b d)
  then have "\<not> space1 d" "\<not> space2 b d"
    using space_bytes(1) [of d] space_bytes(2) [of b d] by (auto simp: is_cont_def)
  then show ?thesis using three by (auto simp: white_def)
next
  case (four a b d e)
  then have "\<not> space1 e" "\<not> space2 d e" "\<not> space3 b d e"
    using space_bytes(1) [of e] space_bytes(2) [of d e] space_bytes(3) [of b d e] by (auto simp: is_cont_def)
  then show ?thesis using four by (auto simp: white_def)
qed

lemma trim_start_chars: "list_all utf8_char cs \<Longrightarrow> trim_start (concat cs) = concat (dropWhile white cs)"
  by (induction cs) (auto simp: trim_start_char)

lemma trim_back_chars: "list_all utf8_char cs \<Longrightarrow> trim_back (rev (concat cs)) = rev (concat (rev (dropWhile white (rev cs))))"
proof (induction cs rule: rev_induct)
  case (snoc c cs)
  then show ?case using trim_back_char [of c "rev (concat cs)"] by simp
qed simp

lemma trim_end_chars: "list_all utf8_char cs \<Longrightarrow> trim_end (concat cs) = concat (rev (dropWhile white (rev cs)))"
  by (simp add: trim_end_def trim_back_chars)

section \<open>Trimmed text\<close>

text \<open>A text whose first and last bytes are no ASCII white space.\<close>

definition dark_ends :: "string \<Rightarrow> bool" where
  "dark_ends t \<longleftrightarrow> t \<noteq> [] \<and> \<not> space1 (hd t) \<and> \<not> space1 (last t)"

lemma dark_char: "utf8_char c \<Longrightarrow> \<not> white c \<Longrightarrow> dark_ends c"
  by (cases rule: utf8_cases) (auto simp: dark_ends_def white_def is_cont_def dest: space_bytes(1))

lemma dark_concat:
  assumes "cs \<noteq> []" "dark_ends (hd cs)" "dark_ends (last cs)"
  shows "dark_ends (concat cs)"
proof -
  have "concat cs = hd cs @ concat (tl cs)" using assms(1) by (cases cs) auto
  moreover have "concat cs = concat (butlast cs) @ last cs"
    using append_butlast_last_id [OF assms(1)] by (metis append_Nil2 concat.simps concat_append)
  ultimately show ?thesis using assms(2,3) by (metis append_is_Nil_conv dark_ends_def hd_append2 last_appendR)
qed

text \<open>White characters, a core that starts and ends with characters that are not white, white characters.\<close>

lemma trim_parts:
  assumes "valid_str s" "trim s \<noteq> []"
  obtains w w' where "s = w @ trim s @ w'" "trim_start s = trim s @ w'" "trim_end s = w @ trim s"
    "valid_str w" "valid_str (trim s)" "valid_str w'" "dark_ends (trim s)"
proof -
  obtain cs where cs: "list_all utf8_char cs" "s = concat cs" using utf8_chars [OF assms(1)] .
  let ?w = "takeWhile white cs" and ?d = "dropWhile white cs"
  let ?core = "rev (dropWhile white (rev ?d))" and ?w' = "rev (takeWhile white (rev ?d))"
  have d: "?d = ?core @ ?w'" by (metis rev_append rev_rev_ident takeWhile_dropWhile_id)
  have split: "cs = ?w @ ?core @ ?w'" using takeWhile_dropWhile_id [of white cs] d by simp
  have ok: "list_all utf8_char ?w" "list_all utf8_char ?core" "list_all utf8_char ?w'" "list_all utf8_char ?d"
    using cs(1) split d by (metis list_all_append)+
  have start: "trim_start s = concat ?d" using trim_start_chars [OF cs(1)] cs(2) by simp
  have trim: "trim s = concat ?core"
    using trim_end_chars [OF ok(4)] start by (simp add: trim_def trim_end_def)
  have "concat ?core \<noteq> []" using assms(2) unfolding trim .
  then have "?core \<noteq> []" by (metis concat.simps(1))
  then have "dropWhile white (rev cs) = rev ?core @ rev ?w"
    using split by (metis (no_types, lifting) dropWhile_append1 dropWhile_eq_Nil_conv rev_append rev_is_Nil_conv rev_rev_ident takeWhile_dropWhile_id append.assoc)
  then have "trim_end s = concat ?w @ concat ?core" using trim_end_chars [OF cs(1)] cs(2) by simp
  moreover have "s = concat ?w @ concat ?core @ concat ?w'" using cs(2) split by (metis concat_append)
  moreover have "trim_start s = concat ?core @ concat ?w'" using start d by (metis concat_append)
  moreover have "dark_ends (trim s)"
  proof -
    have dark: "dark_ends c" if "c \<in> set ?core" "\<not> white c" for c
      using dark_char that ok(2) by (auto simp: list_all_iff)
    have "hd ?core = hd ?d" using \<open>?core \<noteq> []\<close> d by (metis hd_append2)
    moreover have "?d \<noteq> []" using \<open>?core \<noteq> []\<close> d by (metis append_is_Nil_conv)
    ultimately have "\<not> white (hd ?core)" using hd_dropWhile [of white cs] by simp
    moreover have "\<not> white (last ?core)" using \<open>?core \<noteq> []\<close> hd_dropWhile [of white "rev ?d"] by (simp add: last_rev)
    ultimately show ?thesis unfolding trim using \<open>?core \<noteq> []\<close> by (intro dark_concat dark hd_in_set last_in_set)
  qed
  ultimately show ?thesis using that [of "concat ?w" "concat ?w'"] trim concat_valid ok by simp
qed

lemma bd_append: "valid_str u \<Longrightarrow> valid_str v \<Longrightarrow> bd (u @ v) (length u)"
  using valid_head [of "hd v" "tl v"] by (cases v) (auto simp: bd_def nth_append)

lemma bd_shift: "valid_str s \<Longrightarrow> bd s a \<Longrightarrow> bd s b \<Longrightarrow> a \<le> b \<Longrightarrow> bd (between s a b) k \<Longrightarrow> bd s (a + k)"
  by (cases "a + k = b") (auto simp: bd_def between_def)

lemma between_between: "i \<le> j \<Longrightarrow> a + j \<le> b \<Longrightarrow> between (between s a b) i j = between s (a + i) (a + j)"
  by (simp add: between_def drop_take add.commute min_absorb1)

lemma slice_between:
  assumes "valid_str s" "bd s a" "bd s b" "a \<le> b"
  shows "str_slice s a b = Some (between s a b)"
  using assms bd_char_boundary [OF assms(1)] by (auto simp: str_slice_def between_def bd_def)

text \<open>A trimmed span of valid text lies on character boundaries inside the span and holds the trimmed text.\<close>

lemma trim_span_spec:
  assumes "valid_str s" "bd s a" "bd s b" "a \<le> b"
  obtains a' b' where "trim_span s (a, b) = Some (a', b')" "a \<le> a'" "a' \<le> b'" "b' \<le> b" "bd s a'" "bd s b'"
    "between s a' b' = trim (between s a b)" "a' < b' \<longrightarrow> dark_ends (between s a' b')"
proof (cases "trim (between s a b) = []")
  case True
  then show ?thesis using that [of b b] assms by (simp add: trim_span_def slice_between)
next
  case False
  let ?t = "between s a b"
  have len: "length ?t = b - a" using assms(3,4) by (auto simp: between_def bd_def)
  obtain w w' where w: "?t = w @ trim ?t @ w'" "trim_start ?t = trim ?t @ w'" "trim_end ?t = w @ trim ?t"
    "valid_str w" "valid_str (trim ?t)" "valid_str w'" "dark_ends (trim ?t)"
    using trim_parts [OF valid_between [OF assms] False] .
  let ?i = "length w" and ?j = "length w + length (trim ?t)"
  have lens: "length ?t = ?i + length (trim ?t) + length w'" using w(1) by (metis add.assoc length_append)
  have "trim_span s (a, b) = Some (a + ?i, a + ?j)"
    using False slice_between [OF assms] lens w(2,3) by (simp add: trim_span_def)
  moreover have "bd ?t ?i" using bd_append [of w "trim ?t @ w'"] w(1,4-6) valid_append by metis
  moreover have "bd ?t ?j"
    using bd_append [of "w @ trim ?t" w'] w(1,4-6) valid_append by (metis append.assoc length_append)
  moreover have "between ?t ?i ?j = trim ?t" by (subst w(1)) (simp add: between_def)
  ultimately show ?thesis
    using that [of "a + ?i" "a + ?j"] bd_shift [OF assms] between_between [of ?i ?j a b s] lens len assms(4) w(7) by auto
qed

end
