(* ===== verification/Ptx_Split.thy ===== *)
theory Ptx_Split
  imports Ptx_Trim
begin

text \<open>
  Splitting an operand list at its top-level commas: the loop over byte offsets against a recursion over the text.
\<close>

section \<open>Reference\<close>

definition closer_of :: "char \<Rightarrow> char option" where
  "closer_of b = (if b = CHR ''{'' then Some (CHR ''}'') else if b = CHR ''['' then Some (CHR '']'')
     else if b = CHR ''('' then Some (CHR '')'') else None)"

definition is_closer :: "char \<Rightarrow> bool" where
  "is_closer b \<longleftrightarrow> b = CHR ''}'' \<or> b = CHR '']'' \<or> b = CHR '')''"

fun grow :: "char \<Rightarrow> string list \<Rightarrow> string list" where
  "grow b [] = [[b]]"
| "grow b (p # ps) = (b # p) # ps"

text \<open>The pieces between the commas that no bracket encloses, if the brackets match.\<close>

fun pieces :: "string \<Rightarrow> string \<Rightarrow> string list option" where
  "pieces ds [] = (if ds = [] then Some [[]] else None)"
| "pieces ds (b # bs) =
     (case closer_of b of
        Some d \<Rightarrow> map_option (grow b) (pieces (d # ds) bs)
      | None \<Rightarrow>
          if is_closer b
          then (case ds of [] \<Rightarrow> None | d # ds' \<Rightarrow> if d = b then map_option (grow b) (pieces ds' bs) else None)
          else if b = CHR '','' \<and> ds = [] then map_option (Cons []) (pieces [] bs)
          else map_option (grow b) (pieces ds bs))"

definition trimmed :: "string list \<Rightarrow> string list option" where
  "trimmed ps = (if list_ex (\<lambda>p. trim p = []) ps then None else Some (map trim ps))"

definition split_reference :: "string \<Rightarrow> string list option" where
  "split_reference s = (if trim s = [] then Some [] else Option.bind (pieces [] (trim s)) trimmed)"

lemma pieces_nonempty: "pieces ds s = Some ps \<Longrightarrow> ps \<noteq> []"
  by (induction ds s arbitrary: ps rule: pieces.induct)
     (auto split: if_splits option.splits list.splits elim: grow.elims)

section \<open>The loop\<close>

text \<open>What is left to do at an index: the rest of the loop and the last operand.\<close>

definition finish_split :: "string \<Rightarrow> nat \<Rightarrow> string \<times> nat \<times> range list \<Rightarrow> (range list, unit) outcome" where
  "finish_split source base = (\<lambda>(delimiters, operand_start, operands).
     if delimiters \<noteq> [] then Err ()
     else try_let (or_panic (trim_span source (operand_start, length source))) (\<lambda>span.
       if range_is_empty span then Err ()
       else Ok (operands @ [(base + range_start span, base + range_end span)])))"

definition split_rest :: "string \<Rightarrow> nat \<Rightarrow> string \<Rightarrow> nat \<Rightarrow> string \<Rightarrow> nat \<Rightarrow> range list \<Rightarrow> (range list, unit) outcome" where
  "split_rest source base bs index ds st ops = try_let (split_loop source base bs index ds st ops) (finish_split source base)"

definition shift :: "nat \<Rightarrow> range \<Rightarrow> range" where
  "shift base r = (base + range_start r, base + range_end r)"

text \<open>Spans that hold the given texts, in order, from an offset on.\<close>

definition spans_at :: "string \<Rightarrow> nat \<Rightarrow> range list \<Rightarrow> string list \<Rightarrow> bool" where
  "spans_at s a spans ts \<longleftrightarrow>
     list_all2 (\<lambda>r t. bd s (range_start r) \<and> bd s (range_end r) \<and> range_start r < range_end r \<and> a \<le> range_start r \<and>
       between s (range_start r) (range_end r) = t \<and> dark_ends t) spans ts \<and>
     sorted_wrt (\<lambda>r r'. range_end r < range_start r') spans"

lemma spans_at_mono: "spans_at s a spans ts \<Longrightarrow> a' \<le> a \<Longrightarrow> spans_at s a' spans ts"
  unfolding spans_at_def by (auto elim!: list_all2_mono)

lemma spans_at_Cons:
  assumes "bd s x" "bd s y" "x < y" "a \<le> x" "y < a'" "spans_at s a' spans ts" "dark_ends (between s x y)"
  shows "spans_at s a ((x, y) # spans) (between s x y # ts)"
proof -
  have "y < range_start r" if "r \<in> set spans" for r
    using that assms(5,6) by (fastforce simp: spans_at_def list_all2_conv_all_nth in_set_conv_nth)
  then show ?thesis using assms spans_at_mono [OF assms(6), of a] by (simp add: spans_at_def)
qed

text \<open>The answer the rest of the loop has to give, \<open>cur\<close> being the operand read so far.\<close>

definition rest_ok :: "string \<Rightarrow> nat \<Rightarrow> nat \<Rightarrow> range list \<Rightarrow> string list option \<Rightarrow> (range list, unit) outcome \<Rightarrow> bool" where
  "rest_ok source base st ops ps out \<longleftrightarrow>
     (case Option.bind ps trimmed of
        None \<Rightarrow> out = Err ()
      | Some ts \<Rightarrow> \<exists>spans. out = Ok (ops @ map (shift base) spans) \<and> spans_at source st spans ts)"

lemma rest_ok_None [simp]: "rest_ok source base st ops None out \<longleftrightarrow> out = Err ()"
  by (simp add: rest_ok_def)

fun attach :: "string \<Rightarrow> string list \<Rightarrow> string list" where
  "attach cur [] = []"
| "attach cur (p # ps) = (cur @ p) # ps"

lemma attach_grow: "ps \<noteq> [] \<Longrightarrow> attach cur (grow b ps) = attach (cur @ [b]) ps"
  by (cases ps) auto

text \<open>A byte that belongs to the current operand.\<close>

lemma rest_step:
  assumes "rest_ok source base st ops (map_option (attach (cur @ [b])) (pieces ds' bs)) out"
  shows "rest_ok source base st ops (map_option (attach cur) (map_option (grow b) (pieces ds' bs))) out"
  using assms pieces_nonempty [of ds' bs] by (cases "pieces ds' bs") (auto simp: attach_grow)

lemma between_snoc: "st \<le> i \<Longrightarrow> i < length s \<Longrightarrow> between s st (Suc i) = between s st i @ [s ! i]"
  using between_split [of st i "Suc i" s] between_Cons [of i "Suc i" s] by simp

lemma trim_span_blank:
  assumes "valid_str s" "bd s a" "bd s b" "a \<le> b"
  obtains a' b' where "trim_span s (a, b) = Some (a', b')" "a \<le> a'" "b' \<le> b" "bd s a'" "bd s b'"
    "between s a' b' = trim (between s a b)" "range_is_empty (a', b') \<longleftrightarrow> trim (between s a b) = []" "a' \<le> b'" "a' < b' \<longrightarrow> dark_ends (between s a' b')"
proof -
  obtain a' b' where ab: "trim_span s (a, b) = Some (a', b')" "a \<le> a'" "a' \<le> b'" "b' \<le> b" "bd s a'" "bd s b'"
    "between s a' b' = trim (between s a b)" "a' < b' \<longrightarrow> dark_ends (between s a' b')"
    using trim_span_spec [OF assms] .
  have "length (between s a' b') = b' - a'" using ab(6) by (auto simp: between_def bd_def)
  then have "range_is_empty (a', b') \<longleftrightarrow> trim (between s a b) = []" using ab(7) by (auto simp: range_is_empty_def)
  then show ?thesis using that ab by blast
qed

text \<open>A comma that ends an operand.\<close>

lemma rest_comma:
  assumes xy: "bd source x" "bd source y" "st \<le> x" "y < a" "between source x y = trim cur" "x < y \<longleftrightarrow> trim cur \<noteq> []"
    and dark: "x < y \<longrightarrow> dark_ends (between source x y)"
    and rest: "rest_ok source base a (ops @ [shift base (x, y)]) (pieces [] bs) out"
  shows "rest_ok source base st ops (map_option (attach cur) (map_option (Cons []) (pieces [] bs))) (if trim cur = [] then Err () else out)"
proof (cases "trim cur = [] \<or> Option.bind (pieces [] bs) trimmed = None")
  case True
  then show ?thesis using rest by (cases "pieces [] bs") (auto simp: rest_ok_def trimmed_def split: if_splits)
next
  case False
  then obtain ps where ps: "pieces [] bs = Some ps" "\<not> list_ex (\<lambda>p. trim p = []) ps"
    by (cases "pieces [] bs") (auto simp: trimmed_def split: if_splits)
  then obtain spans where spans: "out = Ok (ops @ [shift base (x, y)] @ map (shift base) spans)" "spans_at source a spans (map trim ps)"
    using rest by (auto simp: rest_ok_def trimmed_def)
  then have "spans_at source st ((x, y) # spans) (trim cur # map trim ps)"
    using spans_at_Cons [OF xy(1,2) _ xy(3,4) spans(2)] xy(5,6) dark False by simp
  then show ?thesis using spans(1) False ps by (auto simp: rest_ok_def trimmed_def intro!: exI [of _ "(x, y) # spans"])
qed

lemma attach_empty: "map_option (attach []) (pieces ds bs) = pieces ds bs"
  using pieces_nonempty [of ds bs] by (cases "pieces ds bs") (auto simp: neq_Nil_conv)

lemma rest_end:
  assumes "valid_str source" "bd source st"
  shows "rest_ok source base st ops (map_option (attach (between source st (length source))) (pieces ds []))
    (split_rest source base [] (length source) ds st ops)"
proof (cases "ds = []")
  case True
  have "bd source (length source)" "st \<le> length source" using assms(2) by (auto simp: bd_def)
  then obtain a b where "trim_span source (st, length source) = Some (a, b)" "st \<le> a" "bd source a" "bd source b"
    "between source a b = trim (between source st (length source))"
    "range_is_empty (a, b) \<longleftrightarrow> trim (between source st (length source)) = []" "a < b \<longrightarrow> dark_ends (between source a b)"
    using trim_span_blank [OF assms] by metis
  then show ?thesis using True
    by (auto simp: rest_ok_def split_rest_def finish_split_def trimmed_def shift_def spans_at_def range_is_empty_def
        intro!: exI [of _ "[(a, b)]"])
qed (simp add: rest_ok_def split_rest_def finish_split_def)

text \<open>One step of the loop at a closing bracket.\<close>

lemma split_rest_closer:
  assumes "is_closer b"
  shows "split_rest source base (b # bs) i ds st ops =
    (if ds \<noteq> [] \<and> hd ds = b then split_rest source base bs (Suc i) (tl ds) st ops else Err ())"
  using assms by (cases ds) (auto simp: is_closer_def split_rest_def)

lemma split_rest_ok:
  assumes "valid_str source" "bs = drop i source" "i \<le> length source" "st \<le> i" "bd source st"
  shows "rest_ok source base st ops (map_option (attach (between source st i)) (pieces ds bs)) (split_rest source base bs i ds st ops)"
  using assms(2-)
proof (induction bs arbitrary: i ds st ops)
  case Nil
  then show ?case using rest_end [OF assms(1) Nil(4)] by simp
next
  case (Cons b bs)
  have i: "i < length source" "b = source ! i" "bs = drop (Suc i) source"
    using Cons.prems(1,2) by (metis Cons_nth_drop_Suc drop_eq_Nil linorder_not_less list.distinct(1) list.inject)+
  let ?cur = "between source st i"
  have snoc: "between source st (Suc i) = ?cur @ [b]" using between_snoc [OF Cons.prems(3) i(1)] i(2) by simp
  have IH: "rest_ok source base st ops (map_option (attach ?cur) (map_option (grow b) (pieces ds' bs)))
      (split_rest source base bs (Suc i) ds' st ops)" for ds'
    using Cons.IH [of "Suc i" st ops ds'] i Cons.prems(3,4) rest_step [of source base st ops ?cur b] by (simp add: snoc)
  consider (comma) "b = CHR '',''" "ds = []" | (opener) d where "closer_of b = Some d" | (closer) "closer_of b = None" "is_closer b"
    | (other) "closer_of b = None" "\<not> is_closer b" "\<not> (b = CHR '','' \<and> ds = [])" by auto
  then show ?case
  proof cases
    case comma
    have ascii: "byte_val (source ! i) < 128" unfolding i(2) [symmetric] comma(1) by (simp add: byte_val_def)
    then have bds: "bd source i" "bd source (Suc i)" using bd_ascii [OF i(1)] bd_after_ascii [OF assms(1) i(1)] by auto
    obtain x y where xy: "trim_span source (st, i) = Some (x, y)" "st \<le> x" "y \<le> i" "bd source x" "bd source y"
      "between source x y = trim ?cur" "range_is_empty (x, y) \<longleftrightarrow> trim ?cur = []" "x < y \<longrightarrow> dark_ends (between source x y)"
      using trim_span_blank [OF assms(1) Cons.prems(4) bds(1) Cons.prems(3)] by metis
    have eq: "split_rest source base (b # bs) i ds st ops =
        (if trim ?cur = [] then Err () else split_rest source base bs (Suc i) [] (Suc i) (ops @ [shift base (x, y)]))"
      using comma xy(1,7) by (simp add: split_rest_def shift_def)
    have rest: "rest_ok source base (Suc i) (ops @ [shift base (x, y)]) (pieces [] bs)
        (split_rest source base bs (Suc i) [] (Suc i) (ops @ [shift base (x, y)]))"
      using Cons.IH [of "Suc i" "Suc i" "ops @ [shift base (x, y)]" "[]"] i bds(2) by (simp add: attach_empty)
    have ps: "pieces ds (b # bs) = map_option (Cons []) (pieces [] bs)" using comma by (simp add: closer_of_def is_closer_def)
    have "y < Suc i" "x < y \<longleftrightarrow> trim ?cur \<noteq> []" using xy(3,7) by (auto simp: range_is_empty_def)
    then show ?thesis unfolding eq ps by (rule rest_comma [OF xy(4,5,2) _ xy(6) _ xy(8) rest])
  next
    case opener
    then show ?thesis using IH [of "d # ds"] by (auto simp: closer_of_def split_rest_def split: if_splits)
  next
    case closer
    then show ?thesis
      unfolding split_rest_closer [OF closer(2)] using IH [of "tl ds"] by (cases ds) simp_all
  next
    case other
    then show ?thesis using IH [of ds] by (auto simp: closer_of_def is_closer_def split_rest_def split: if_splits)
  qed
qed

section \<open>Exactness\<close>

lemma split_spans_unfold:
  assumes "trim s \<noteq> []"
  shows "split_top_level_spans s base =
    split_rest (trim s) (base + (length s - length (trim_start s))) (trim s) 0 [] 0 []"
  using assms by (simp add: split_top_level_spans_def split_rest_def finish_split_def Let_def)

lemma bd_middle: "valid_str w \<Longrightarrow> valid_str c \<Longrightarrow> valid_str w' \<Longrightarrow> bd c k \<Longrightarrow> bd (w @ c @ w') (length w + k)"
  using bd_append [of "w @ c" w'] valid_append [of w c] by (cases "k = length c") (auto simp: bd_def nth_append)

lemma between_middle: "j \<le> length c \<Longrightarrow> between (w @ c @ w') (length w + i) (length w + j) = between c i j"
  by (simp add: between_def)

text \<open>The spans of the operands of a valid text, as the parser of instructions uses them.\<close>

lemma split_top_level_spans_spec:
  assumes "valid_str s"
  shows "case split_reference s of
      None \<Rightarrow> split_top_level_spans s base = Err ()
    | Some ts \<Rightarrow> \<exists>spans. split_top_level_spans s base = Ok (map (shift base) spans) \<and> spans_at s 0 spans ts"
proof (cases "trim s = []")
  case True
  then show ?thesis by (simp add: split_reference_def split_top_level_spans_def spans_at_def)
next
  case False
  obtain w w' where w: "s = w @ trim s @ w'" "trim_start s = trim s @ w'" "valid_str w" "valid_str (trim s)" "valid_str w'"
    using trim_parts [OF assms False] by metis
  let ?c = "trim s"
  have "length s - length (trim_start s) = length w"
    using arg_cong [OF w(1), of length] arg_cong [OF w(2), of length] by simp
  then have unf: "split_top_level_spans s base = split_rest ?c (base + length w) ?c 0 [] 0 []"
    using split_spans_unfold [OF False] by simp
  have ok: "rest_ok ?c (base + length w) 0 [] (pieces [] ?c) (split_top_level_spans s base)"
    using split_rest_ok [OF w(4), of ?c 0 0 "base + length w" "[]" "[]"] bd_zero [OF w(4)] unfolding unf by (simp add: attach_empty)
  show ?thesis
  proof (cases "split_reference s")
    case None
    then show ?thesis using ok False by (simp add: rest_ok_def split_reference_def)
  next
    case (Some ts)
    then obtain spans where spans: "split_top_level_spans s base = Ok (map (shift (base + length w)) spans)" "spans_at ?c 0 spans ts"
      using ok False by (auto simp: rest_ok_def split_reference_def)
    have "spans_at s 0 (map (shift (length w)) spans) ts"
      using spans(2) bd_middle [OF w(3-5), folded w(1)] between_middle [of _ ?c w w', folded w(1)]
      by (auto simp: spans_at_def list_all2_conv_all_nth shift_def sorted_wrt_map bd_def)
    moreover have "map (shift (base + length w)) spans = map (shift base) (map (shift (length w)) spans)"
      by (simp add: shift_def add.assoc)
    ultimately show ?thesis using Some spans(1) by (simp only: option.simps(5)) blast
  qed
qed

lemma slice_spans:
  assumes "valid_str s" "spans_at s a spans ts"
  shows "slice_all s spans = Some ts"
proof -
  have "map (\<lambda>r. str_slice s (range_start r) (range_end r)) spans = map Some ts"
    using assms(2) slice_between [OF assms(1)] by (intro nth_equalityI) (auto simp: spans_at_def list_all2_conv_all_nth)
  moreover have "those (map Some ts) = Some ts" by (induction ts) auto
  ultimately show ?thesis by (simp add: slice_all_def)
qed

text \<open>(C17) Splitting an operand list is exact: on valid text it never panics, it fails exactly when the brackets do not match or an
  operand is blank, and otherwise returns the trimmed texts between the commas that no bracket encloses.\<close>

theorem split_top_level_exact:
  assumes "valid_str s"
  shows "split_top_level s = (case split_reference s of None \<Rightarrow> Err () | Some ts \<Rightarrow> Ok ts)"
proof (cases "split_reference s")
  case None
  then show ?thesis using split_top_level_spans_spec [OF assms, of 0] by (simp add: split_top_level_def)
next
  case (Some ts)
  then obtain spans where "split_top_level_spans s 0 = Ok (map (shift 0) spans)" "spans_at s 0 spans ts"
    using split_top_level_spans_spec [OF assms, of 0] by auto
  moreover have "map (shift 0) spans = spans" by (intro map_idI) (simp add: shift_def)
  ultimately show ?thesis using Some slice_spans [OF assms] by (simp add: split_top_level_def)
qed

theorem split_top_level_exact_witness:
  "split_top_level ''{%r1, %r2}, [%rd3+4]'' = Ok [''{%r1, %r2}'', ''[%rd3+4]'']"
proof -
  have "valid_str ''{%r1, %r2}, [%rd3+4]''" by code_simp
  from split_top_level_exact [OF this] show ?thesis
    by (simp add: split_reference_def pieces.simps closer_of_def is_closer_def trimmed_def trim_def space1_def space2_def space3_def)
qed

end
