(* ===== verification/Ptx_Syntax_Facts.thy ===== *)
theory Ptx_Syntax_Facts
  imports Ptx_Syntax Ptx_Lexer_Properties
begin

text \<open>
  The parser on the tokens of the lexer: an item scan stays inside the token list, marking tokens touches exactly the
  significant ones, and pushing a statement succeeds.
\<close>

section \<open>Tokens of a partition\<close>

lemma partitioned_nth:
  assumes "partitioned s a ts" "i < length ts" "is_char_boundary s a"
  shows "a \<le> token_start (ts ! i) \<and> token_start (ts ! i) < token_end (ts ! i) \<and> token_end (ts ! i) \<le> length s \<and>
    is_char_boundary s (token_start (ts ! i)) \<and> is_char_boundary s (token_end (ts ! i))"
  using assms
proof (induction s a ts arbitrary: i rule: partitioned.induct)
  case (2 s a t ts)
  show ?case
  proof (cases i)
    case 0
    then show ?thesis using 2 by auto
  next
    case (Suc j)
    then have "token_end t \<le> token_start (ts ! j) \<and> token_start (ts ! j) < token_end (ts ! j) \<and> token_end (ts ! j) \<le> length s \<and>
        is_char_boundary s (token_start (ts ! j)) \<and> is_char_boundary s (token_end (ts ! j))"
      using 2 by (intro 2(1)) auto
    then show ?thesis using 2(2) Suc by auto
  qed
qed simp

lemma partitioned_order:
  assumes "partitioned s a ts" "i < j" "j < length ts" "is_char_boundary s a"
  shows "token_end (ts ! i) \<le> token_start (ts ! j)"
  using assms
proof (induction s a ts arbitrary: i j rule: partitioned.induct)
  case (2 s a t ts)
  then obtain j' where j: "j = Suc j'" by (cases j) auto
  show ?case
  proof (cases i)
    case 0
    then show ?thesis using partitioned_nth [of s "token_end t" ts j'] 2 j by auto
  next
    case (Suc i')
    have "token_end (ts ! i') \<le> token_start (ts ! j')" using 2 j Suc by (intro 2(1)) auto
    then show ?thesis using j Suc by simp
  qed
qed simp

text \<open>The token list of a source: what the lexer guarantees.\<close>

definition lexed :: "string \<Rightarrow> Token list \<Rightarrow> bool" where
  "lexed s ts \<longleftrightarrow> partitioned s 0 ts"

lemma lexed_nth:
  assumes "lexed s ts" "i < length ts"
  shows "token_start (ts ! i) < token_end (ts ! i)" "token_end (ts ! i) \<le> length s"
    "is_char_boundary s (token_start (ts ! i))" "is_char_boundary s (token_end (ts ! i))"
  using partitioned_nth [OF assms(1) [unfolded lexed_def] assms(2)] by (auto simp: is_char_boundary_def)

lemma lexed_order: "lexed s ts \<Longrightarrow> i < j \<Longrightarrow> j < length ts \<Longrightarrow> token_end (ts ! i) \<le> token_start (ts ! j)"
  using partitioned_order [of s 0 ts i j] by (simp add: lexed_def is_char_boundary_def)

lemma lexed_span_inj:
  assumes "lexed s ts" "i < length ts" "j < length ts" "token_span (ts ! i) = token_span (ts ! j)"
  shows "i = j"
proof (rule ccontr)
  assume "i \<noteq> j"
  then consider "i < j" | "j < i" by linarith
  then show False
    by cases (use lexed_order [OF assms(1)] lexed_nth(1) [OF assms(1)] assms in \<open>fastforce simp: token_span_def\<close>)+
qed

section \<open>Scanning an item\<close>

lemma scan_one_bounds:
  assumes "start \<le> sig" "sig \<le> cursor" "sig < length tokens" "start \<le> cursor" "cursor < length tokens"
  shows "case scan_one source tokens start cursor delimiters sig of
      Return out \<Rightarrow> start \<le> so_end out \<and> so_end out \<le> length tokens
    | Continue ds sig' \<Rightarrow> start \<le> sig' \<and> sig' \<le> cursor"
  using assms by (auto simp: scan_one_def on_trivia_def on_punctuation_def outcome_of_def Let_def split: option.splits)

lemma scan_from_bounds:
  "start \<le> sig \<Longrightarrow> sig \<le> cursor \<Longrightarrow> sig < length tokens \<Longrightarrow> start \<le> cursor \<Longrightarrow> cursor \<le> length tokens \<Longrightarrow>
     start \<le> so_end (scan_from source tokens start cursor delimiters sig) \<and>
     so_end (scan_from source tokens start cursor delimiters sig) \<le> length tokens"
proof (induction source tokens start cursor delimiters sig rule: scan_from.induct)
  case (1 source tokens start cursor delimiters sig)
  show ?case
  proof (cases "cursor < length tokens")
    case True
    note b = scan_one_bounds [OF 1(2-5) True, of source delimiters]
    show ?thesis
    proof (cases "scan_one source tokens start cursor delimiters sig")
      case (Return out)
      then show ?thesis using b True by (simp add: scan_from.simps [of source tokens start cursor])
    next
      case (Continue ds sig')
      then have "start \<le> sig'" "sig' \<le> cursor" using b by auto
      then show ?thesis
        using 1(1) [OF True Continue] Continue True by (simp add: scan_from.simps [of source tokens start cursor])
    qed
  next
    case False
    then have "scan_from source tokens start cursor delimiters sig =
        outcome_of (sig + 1) EndOfFile (if delimiters = [] then None else Some UnterminatedDelimiter)"
      by (simp add: scan_from.simps [of source tokens start cursor])
    then show ?thesis using 1(2-6) by (simp add: outcome_of_def)
  qed
qed

lemma scan_item_bounds:
  "start < length tokens \<Longrightarrow> start \<le> so_end (scan_item source tokens start) \<and> so_end (scan_item source tokens start) \<le> length tokens"
  unfolding scan_item_def by (rule scan_from_bounds) auto

section \<open>Marking tokens\<close>

lemma own_tokens_spec:
  assumes "distinct is" "\<forall>i \<in> set is. i < length tokens \<and> ownership ! i = Unowned" "length ownership = length tokens"
  shows "own_tokens tokens who is ownership =
    Some (map (\<lambda>i. if i \<in> set is \<and> \<not> trivia_at tokens i then who else ownership ! i) [0..<length tokens])"
  using assms
proof (induction "is" arbitrary: ownership)
  case Nil
  then show ?case by (simp add: map_nth) (metis map_nth)
next
  case (Cons i "is")
  show ?case
  proof (cases "trivia_at tokens i")
    case True
    have "(k = i \<or> k \<in> set is) \<and> \<not> trivia_at tokens k \<longleftrightarrow> k \<in> set is \<and> \<not> trivia_at tokens k" for k
      using True by auto
    then show ?thesis using Cons True by simp
  next
    case False
    have "own_tokens tokens who is (ownership[i := who]) =
        Some (map (\<lambda>k. if k \<in> set is \<and> \<not> trivia_at tokens k then who else ownership[i := who] ! k) [0..<length tokens])"
      using Cons.prems by (intro Cons.IH) (auto simp: nth_list_update)
    moreover have "(if k \<in> set is \<and> \<not> trivia_at tokens k then who else ownership[i := who] ! k) =
        (if (k = i \<or> k \<in> set is) \<and> \<not> trivia_at tokens k then who else ownership ! k)" if "k < length tokens" for k
      using that False Cons.prems by (auto simp: nth_list_update)
    ultimately show ?thesis using Cons.prems False by simp
  qed
qed

definition marked :: "Token list \<Rightarrow> range \<Rightarrow> Ownership \<Rightarrow> Ownership list \<Rightarrow> Ownership list" where
  "marked tokens r who ownership =
     map (\<lambda>i. if range_start r \<le> i \<and> i < range_end r \<and> \<not> trivia_at tokens i then who else ownership ! i) [0..<length tokens]"

definition owner_for :: "StatementKind \<Rightarrow> Ownership" where
  "owner_for kind = (if kind = UnknownStatement then UnknownOwner else Recognized)"

definition statement_at :: "Token list \<Rightarrow> nat \<Rightarrow> StatementKind \<Rightarrow> nat \<Rightarrow> range \<Rightarrow> Statement" where
  "statement_at tokens k kind scope r = \<lparr>st_id = k, st_kind = kind, st_scope = scope,
     st_span = (token_start (tokens ! range_start r), token_end (tokens ! (range_end r - 1))), st_tokens = r\<rparr>"

lemma push_statement_spec:
  assumes "lexed source tokens" "length (ps_ownership st) = length tokens" "range_start r < range_end r"
    "range_end r \<le> length tokens" "\<forall>i. range_start r \<le> i \<and> i < range_end r \<longrightarrow> ps_ownership st ! i = Unowned"
  shows "push_statement source tokens kind scope r st = Some (length (ps_statements st),
    st\<lparr>ps_ownership := marked tokens r (owner_for kind) (ps_ownership st),
       ps_statements := ps_statements st @ [statement_at tokens (length (ps_statements st)) kind scope r]\<rparr>)"
proof -
  have "own_tokens tokens (owner_for kind) [range_start r..<range_end r] (ps_ownership st) =
      Some (marked tokens r (owner_for kind) (ps_ownership st))"
    using assms(2-5) by (subst own_tokens_spec) (auto simp: marked_def intro!: map_cong)
  then show ?thesis
    using assms(3,4) lexed_nth(3) [OF assms(1), of "range_start r"] lexed_nth(4) [OF assms(1), of "range_end r - 1"]
    by (simp add: push_statement_def Let_def owner_for_def statement_at_def)
qed

end
