(* ===== verification/Ptx_Syntax_Invariant.thy ===== *)
theory Ptx_Syntax_Invariant
  imports Ptx_Syntax_Facts
begin

text \<open>
  The invariant of the main loop of the parser: which tokens are owned and by whom, the order of the statements,
  and the nesting of the scopes. It is stated over the parts of the parser state that matter and kept by the
  three things the loop does: push a statement, open a scope, close a scope.
\<close>

section \<open>Definition\<close>

text \<open>The byte offset of a token position; everything consumed ends at or before the offset of the cursor.\<close>

definition pos :: "string \<Rightarrow> Token list \<Rightarrow> nat \<Rightarrow> nat" where
  "pos source tokens c = (if c < length tokens then token_start (tokens ! c) else length source)"

definition covers :: "range \<Rightarrow> nat \<Rightarrow> bool" where
  "covers r i \<longleftrightarrow> range_start r \<le> i \<and> i < range_end r"

definition is_brace :: "Token list \<Rightarrow> Scope list \<Rightarrow> nat \<Rightarrow> bool" where
  "is_brace tokens scs i \<longleftrightarrow>
     (\<exists>sc \<in> set scs. sc_open sc = Some (token_span (tokens ! i)) \<or> sc_close sc = Some (token_span (tokens ! i)))"

definition owned_by :: "Token list \<Rightarrow> Statement list \<Rightarrow> Scope list \<Rightarrow> Ownership \<Rightarrow> nat \<Rightarrow> bool" where
  "owned_by tokens stmts scs who i \<longleftrightarrow>
     (\<exists>q \<in> set stmts. covers (st_tokens q) i \<and> who = owner_for (st_kind q)) \<or>
     who = Recognized \<and> is_brace tokens scs i \<and> (\<forall>q \<in> set stmts. \<not> covers (st_tokens q) i)"

definition inv_own :: "Token list \<Rightarrow> Statement list \<Rightarrow> Scope list \<Rightarrow> Ownership list \<Rightarrow> nat \<Rightarrow> bool" where
  "inv_own tokens stmts scs own c \<longleftrightarrow> c \<le> length tokens \<and> length own = length tokens \<and>
     (\<forall>i < length tokens. if i < c \<and> \<not> trivia_at tokens i then owned_by tokens stmts scs (own ! i) i else own ! i = Unowned)"

definition inv_statements :: "Token list \<Rightarrow> Statement list \<Rightarrow> nat \<Rightarrow> bool" where
  "inv_statements tokens stmts c \<longleftrightarrow>
     (\<forall>k < length stmts. stmts ! k = statement_at tokens k (st_kind (stmts ! k)) (st_scope (stmts ! k)) (st_tokens (stmts ! k)) \<and>
        range_start (st_tokens (stmts ! k)) < range_end (st_tokens (stmts ! k)) \<and> range_end (st_tokens (stmts ! k)) \<le> c) \<and>
     sorted_wrt (\<lambda>q q'. range_end (st_tokens q) \<le> range_start (st_tokens q')) stmts"

text \<open>A scope \<open>k\<close> under its parent \<open>p\<close>.\<close>

definition scope_in :: "string \<Rightarrow> Scope list \<Rightarrow> nat list \<Rightarrow> nat \<Rightarrow> nat \<Rightarrow> nat \<Rightarrow> bool" where
  "scope_in source scs stack P k p \<longleftrightarrow> p < k \<and>
     (\<exists>o'. sc_open (scs ! k) = Some o' \<and> range_start o' < range_end o' \<and> range_end o' \<le> P \<and>
        range_start (sc_span (scs ! k)) = range_start o' \<and> range_start (body_span (scs ! p)) \<le> range_start o' \<and>
        (case sc_close (scs ! k) of
           None \<Rightarrow> k \<in> set stack \<and> range_end (sc_span (scs ! k)) = length source
         | Some c' \<Rightarrow> k \<notin> set stack \<and> range_end o' \<le> range_start c' \<and> range_start c' < range_end c' \<and> range_end c' \<le> P \<and>
             range_end (sc_span (scs ! k)) = range_end c' \<and> range_end c' \<le> range_end (body_span (scs ! p))))"

definition inv_scopes :: "string \<Rightarrow> Scope list \<Rightarrow> nat list \<Rightarrow> nat \<Rightarrow> bool" where
  "inv_scopes source scs stack P \<longleftrightarrow>
     scs \<noteq> [] \<and> sc_parent (scs ! 0) = None \<and> sc_open (scs ! 0) = None \<and> sc_close (scs ! 0) = None \<and>
     sc_span (scs ! 0) = (0, length source) \<and> (\<forall>k < length scs. sc_id (scs ! k) = k) \<and>
     (\<forall>k. 0 < k \<and> k < length scs \<longrightarrow> (\<exists>p. sc_parent (scs ! k) = Some p \<and> scope_in source scs stack P k p)) \<and>
     stack \<noteq> [] \<and> stack ! 0 = 0 \<and> distinct stack \<and> (\<forall>k \<in> set stack. k < length scs) \<and>
     (\<forall>i. Suc i < length stack \<longrightarrow> sc_parent (scs ! (stack ! Suc i)) = Some (stack ! i))"

text \<open>Statements lie inside the body of their scope.\<close>

definition inv_inside :: "Statement list \<Rightarrow> Scope list \<Rightarrow> bool" where
  "inv_inside stmts scs \<longleftrightarrow> (\<forall>q \<in> set stmts. st_scope q < length scs \<and>
     range_start (body_span (scs ! st_scope q)) \<le> range_start (st_span q) \<and>
     range_end (st_span q) \<le> range_end (body_span (scs ! st_scope q)))"

definition parser_inv :: "string \<Rightarrow> Token list \<Rightarrow> parser \<Rightarrow> bool" where
  "parser_inv source tokens st \<longleftrightarrow>
     inv_own tokens (ps_statements st) (ps_scopes st) (ps_ownership st) (ps_cursor st) \<and>
     inv_statements tokens (ps_statements st) (ps_cursor st) \<and>
     inv_scopes source (ps_scopes st) (ps_stack st) (pos source tokens (ps_cursor st)) \<and>
     inv_inside (ps_statements st) (ps_scopes st)"

section \<open>Positions\<close>

lemma pos_past: "lexed s ts \<Longrightarrow> i < c \<Longrightarrow> c \<le> length ts \<Longrightarrow> token_end (ts ! i) \<le> pos s ts c"
  using lexed_order [of s ts i c] lexed_nth(2) [of s ts i] by (auto simp: pos_def)

lemma pos_future: "lexed s ts \<Longrightarrow> c \<le> i \<Longrightarrow> i < length ts \<Longrightarrow> pos s ts c \<le> token_start (ts ! i)"
  using lexed_order [of s ts c i] lexed_nth(1) [of s ts c] by (cases "c = i") (auto simp: pos_def)

lemma pos_mono: "lexed s ts \<Longrightarrow> c \<le> d \<Longrightarrow> d \<le> length ts \<Longrightarrow> pos s ts c \<le> pos s ts d"
  using pos_future [of s ts c d] lexed_nth(1,2) [of s ts c] by (auto simp: pos_def)

lemma scope_in_mono: "scope_in source scs stack P k p \<Longrightarrow> P \<le> Q \<Longrightarrow> scope_in source scs stack Q k p"
  unfolding scope_in_def by (force split: option.splits)

lemma inv_scopes_mono: "inv_scopes source scs stack P \<Longrightarrow> P \<le> Q \<Longrightarrow> inv_scopes source scs stack Q"
  unfolding inv_scopes_def using scope_in_mono by blast

text \<open>A scope on the stack is open: its body reaches to the end of the source.\<close>

lemma stack_body:
  assumes "inv_scopes source scs stack P" "k \<in> set stack"
  shows "k < length scs \<and> range_start (body_span (scs ! k)) \<le> P \<and> range_end (body_span (scs ! k)) = length source"
proof (cases "k = 0")
  case True
  then show ?thesis using assms by (auto simp: inv_scopes_def body_span_def)
next
  case False
  have k: "k < length scs" using assms unfolding inv_scopes_def by blast
  with False obtain p where "scope_in source scs stack P k p" using assms(1) unfolding inv_scopes_def by blast
  then obtain o' where "sc_open (scs ! k) = Some o'" "range_end o' \<le> P"
    "case sc_close (scs ! k) of None \<Rightarrow> range_end (sc_span (scs ! k)) = length source | Some _ \<Rightarrow> k \<notin> set stack"
    unfolding scope_in_def by (auto split: option.splits)
  then show ?thesis using k assms(2) by (simp add: body_span_def split: option.splits)
qed

section \<open>Pushing a statement\<close>

lemma owned_push:
  assumes "owned_by tokens stmts scs who i" "\<not> covers (st_tokens q) i"
  shows "owned_by tokens (stmts @ [q]) scs who i"
  using assms by (auto simp: owned_by_def)

lemma inv_own_push:
  assumes "inv_own tokens stmts scs own c" "c \<le> start" "start < e" "e \<le> length tokens"
    "\<forall>j. c \<le> j \<and> j < start \<longrightarrow> trivia_at tokens j" "st_tokens q = (start, e)"
  shows "inv_own tokens (stmts @ [q]) scs (marked tokens (start, e) (owner_for (st_kind q)) own) e"
proof -
  let ?own = "marked tokens (start, e) (owner_for (st_kind q)) own"
  have "if i < e \<and> \<not> trivia_at tokens i then owned_by tokens (stmts @ [q]) scs (?own ! i) i else ?own ! i = Unowned"
    if i: "i < length tokens" for i
  proof -
    have mk: "?own ! i = (if start \<le> i \<and> i < e \<and> \<not> trivia_at tokens i then owner_for (st_kind q) else own ! i)"
      using i by (simp add: marked_def)
    have old: "if i < c \<and> \<not> trivia_at tokens i then owned_by tokens stmts scs (own ! i) i else own ! i = Unowned"
      using assms(1) i by (simp add: inv_own_def)
    consider "i < start" | "start \<le> i" "i < e" | "e \<le> i" by linarith
    then show ?thesis
    proof cases
      case 1
      then have "i < e \<and> \<not> trivia_at tokens i \<longleftrightarrow> i < c \<and> \<not> trivia_at tokens i"
        using assms(2,3,5) by (cases "i < c") auto
      then show ?thesis using old mk 1 assms(6) owned_push [of tokens stmts scs "own ! i" i q] by (auto simp: covers_def)
    next
      case 2
      have "own ! i = Unowned" using old 2 assms(2) by auto
      then show ?thesis using mk 2 assms(6) by (auto simp: owned_by_def covers_def)
    next
      case 3
      then show ?thesis using old mk assms(2,3) by auto
    qed
  qed
  moreover have "length ?own = length tokens" by (simp add: marked_def)
  ultimately show ?thesis using assms(4) unfolding inv_own_def by blast
qed

lemma inv_statements_push:
  assumes "inv_statements tokens stmts c" "c \<le> start" "start < e"
  shows "inv_statements tokens (stmts @ [statement_at tokens (length stmts) kind scope (start, e)]) e"
  using assms by (fastforce simp: inv_statements_def nth_append sorted_wrt_append less_Suc_eq statement_at_def in_set_conv_nth)

lemma inv_inside_push:
  assumes "inv_inside stmts scs" "inv_scopes source scs stack P" "scope \<in> set stack" "P \<le> range_start (st_span q)"
    "range_end (st_span q) \<le> length source" "st_scope q = scope"
  shows "inv_inside (stmts @ [q]) scs"
  using assms stack_body [OF assms(2,3)] by (auto simp: inv_inside_def)

lemma parser_inv_push:
  assumes inv: "parser_inv source tokens st" and lexed: "lexed source tokens" and top: "current_scope st = Some scope"
    and r: "ps_cursor st \<le> start" "start < e" "e \<le> length tokens"
    and skip: "\<forall>j. ps_cursor st \<le> j \<and> j < start \<longrightarrow> trivia_at tokens j"
  shows "\<exists>st'. push_statement source tokens kind scope (start, e) st = Some (length (ps_statements st), st') \<and>
    ps_stack st' = ps_stack st \<and> ps_scopes st' = ps_scopes st \<and> length (ps_statements st') = Suc (length (ps_statements st)) \<and>
    parser_inv source tokens (st'\<lparr>ps_cursor := e\<rparr>)"
proof -
  let ?q = "statement_at tokens (length (ps_statements st)) kind scope (start, e)"
  let ?st = "st\<lparr>ps_ownership := marked tokens (start, e) (owner_for kind) (ps_ownership st),
       ps_statements := ps_statements st @ [?q]\<rparr>"
  note i = inv [unfolded parser_inv_def]
  have len: "length (ps_ownership st) = length tokens" using i by (simp add: inv_own_def)
  have free: "ps_ownership st ! j = Unowned" if "start \<le> j" "j < e" for j
    using i r that by (auto simp: inv_own_def dest!: spec [of _ j])
  have "push_statement source tokens kind scope (start, e) st = Some (length (ps_statements st), ?st)"
    using push_statement_spec [OF lexed len, of "(start, e)" kind scope] r free by simp
  moreover have "inv_own tokens (ps_statements ?st) (ps_scopes ?st) (ps_ownership ?st) e"
    using inv_own_push [of tokens "ps_statements st" "ps_scopes st" "ps_ownership st" "ps_cursor st" start e ?q] i r skip
    by (simp add: statement_at_def)
  moreover have "inv_statements tokens (ps_statements ?st) e"
    using inv_statements_push [of tokens "ps_statements st" "ps_cursor st" start e kind scope] i r by simp
  moreover have "inv_scopes source (ps_scopes ?st) (ps_stack ?st) (pos source tokens e)"
    using i inv_scopes_mono [OF _ pos_mono [OF lexed, of "ps_cursor st" e]] r by simp
  moreover have "inv_inside (ps_statements ?st) (ps_scopes ?st)"
    using i top r pos_future [OF lexed r(1)] lexed_nth(2) [OF lexed, of "e - 1"]
    by (auto simp: current_scope_def statement_at_def split: if_splits intro!: inv_inside_push [where stack = "ps_stack st"])
  ultimately show ?thesis by (auto simp: parser_inv_def)
qed

section \<open>Opening and closing a scope\<close>

lemma inv_own_brace:
  assumes "inv_own tokens stmts scs own c" "inv_statements tokens stmts c" "c \<le> start" "start < length tokens"
    "\<forall>j. c \<le> j \<and> j < start \<longrightarrow> trivia_at tokens j" "\<not> trivia_at tokens start"
    "is_brace tokens scs' start" "\<And>i. is_brace tokens scs i \<Longrightarrow> is_brace tokens scs' i"
  shows "inv_own tokens stmts scs' (own[start := Recognized]) (start + 1)"
proof -
  have none: "\<forall>q \<in> set stmts. \<not> covers (st_tokens q) start"
    using assms(2,3) by (fastforce simp: inv_statements_def covers_def in_set_conv_nth)
  have len: "length own = length tokens" using assms(1) by (simp add: inv_own_def)
  have "if i < start + 1 \<and> \<not> trivia_at tokens i then owned_by tokens stmts scs' (own[start := Recognized] ! i) i
      else own[start := Recognized] ! i = Unowned" if i: "i < length tokens" for i
  proof (cases "i = start")
    case True
    then show ?thesis using none assms(4,6,7) len by (auto simp: owned_by_def)
  next
    case False
    have old: "if i < c \<and> \<not> trivia_at tokens i then owned_by tokens stmts scs (own ! i) i else own ! i = Unowned"
      using assms(1) i by (simp add: inv_own_def)
    have "i < start + 1 \<and> \<not> trivia_at tokens i \<longleftrightarrow> i < c \<and> \<not> trivia_at tokens i"
      using assms(3,5) False by (cases "i < c") auto
    moreover have "owned_by tokens stmts scs w i \<Longrightarrow> owned_by tokens stmts scs' w i" for w
      using assms(8) by (auto simp: owned_by_def)
    ultimately show ?thesis using old False by auto
  qed
  then show ?thesis using assms(4) len unfolding inv_own_def by simp
qed

lemma inv_statements_mono: "inv_statements tokens stmts c \<Longrightarrow> c \<le> d \<Longrightarrow> inv_statements tokens stmts d"
  unfolding inv_statements_def by (meson le_trans)

lemma scope_in_cong:
  assumes "scope_in source scs stack P k p" "k \<in> set stack \<longleftrightarrow> k \<in> set stack'" "scs' ! k = scs ! k"
    "range_start (body_span (scs' ! p)) \<le> range_start (body_span (scs ! p))"
    "\<And>c'. sc_close (scs ! k) = Some c' \<Longrightarrow> range_end c' \<le> range_end (body_span (scs' ! p))"
  shows "scope_in source scs' stack' P k p"
  using assms unfolding scope_in_def by (force split: option.splits)

lemma inv_scopes_open:
  assumes inv: "inv_scopes source scs stack P" and o: "P \<le> range_start o'" "range_start o' < range_end o'"
    and sc: "sc = \<lparr>sc_id = length scs, sc_parent = Some (last stack), sc_header = h, sc_span = (range_start o', length source),
      sc_open = Some o', sc_close = None\<rparr>"
  shows "inv_scopes source (scs @ [sc]) (stack @ [length scs]) (range_end o')"
proof -
  let ?scs = "scs @ [sc]" and ?stack = "stack @ [length scs]"
  have st: "stack \<noteq> []" "last stack \<in> set stack" "length scs \<notin> set stack" using inv by (auto simp: inv_scopes_def)
  have "\<exists>p. sc_parent (?scs ! k) = Some p \<and> scope_in source ?scs ?stack (range_end o') k p" if k: "0 < k" "k < length ?scs" for k
  proof (cases "k < length scs")
    case True
    then obtain p where p: "sc_parent (scs ! k) = Some p" "scope_in source scs stack P k p" using inv k unfolding inv_scopes_def by blast
    have "p < length scs" using p(2) True by (simp add: scope_in_def)
    then have "scope_in source ?scs ?stack P k p"
      using True p(2) by (intro scope_in_cong [OF p(2)]) (auto simp: nth_append scope_in_def)
    then show ?thesis using p(1) True scope_in_mono o by (auto simp: nth_append)
  next
    case False
    then have "k = length scs" using k by simp
    then show ?thesis using stack_body [OF inv st(2)] o sc st by (auto simp: scope_in_def nth_append)
  qed
  moreover have "sc_parent (?scs ! (?stack ! Suc i)) = Some (?stack ! i)" if "Suc i < length ?stack" for i
  proof (cases "Suc i < length stack")
    case True
    then have "stack ! Suc i < length scs" using inv by (auto simp: inv_scopes_def)
    then show ?thesis using True inv by (auto simp: inv_scopes_def nth_append)
  next
    case False
    then have "Suc i = length stack" using that by simp
    then have "last stack = stack ! i" using st(1) by (simp add: last_conv_nth flip: \<open>Suc i = length stack\<close>)
    then show ?thesis using \<open>Suc i = length stack\<close> sc by (auto simp: nth_append)
  qed
  ultimately show ?thesis using inv st sc unfolding inv_scopes_def by (auto simp: nth_append less_Suc_eq)
qed

lemma inv_scopes_close:
  assumes inv: "inv_scopes source scs stack P" and top: "1 < length stack" "j = last stack"
    and c: "P \<le> range_start c'" "range_start c' < range_end c'" "range_end c' \<le> length source"
    and scs: "scs' = scs[j := (scs ! j)\<lparr>sc_span := (range_start (sc_span (scs ! j)), range_end c'), sc_close := Some c'\<rparr>]"
  shows "inv_scopes source scs' (butlast stack) (range_end c')"
proof -
  note I = inv [unfolded inv_scopes_def]
  have st: "stack \<noteq> []" "distinct stack" "stack ! 0 = 0" using I by auto
  have j: "j \<in> set stack" "j < length scs" "j = stack ! (length stack - 1)" using I st top(2) by (auto simp: last_conv_nth)
  have j0: "j \<noteq> 0" using st top(1) j(3) nth_eq_iff_index_eq [OF st(2), of "length stack - 1" 0] by auto
  obtain ys where ys: "stack = ys @ [j]" using append_butlast_last_id [OF st(1)] top(2) by metis
  have bl: "set (butlast stack) = set stack - {j}" using st(2) unfolding ys by auto
  have same: "k \<noteq> j \<Longrightarrow> scs' ! k = scs ! k" for k using scs by simp
  have body: "range_start (body_span (scs' ! j)) = range_start (body_span (scs ! j))" "range_end (body_span (scs' ! j)) = range_start c'"
  proof -
    obtain p where "scope_in source scs stack P j p" using I j j0 by blast
    then show "range_start (body_span (scs' ! j)) = range_start (body_span (scs ! j))" "range_end (body_span (scs' ! j)) = range_start c'"
      using j(2) scs by (auto simp: scope_in_def body_span_def)
  qed
  have no_child: "sc_parent (scs ! k) \<noteq> Some j" if k: "k \<in> set stack" "k \<noteq> 0" for k
  proof
    assume par: "sc_parent (scs ! k) = Some j"
    obtain i where i: "i < length stack" "k = stack ! i" using k(1) by (auto simp: in_set_conv_nth)
    then obtain i' where i': "i = Suc i'" using k(2) st(3) by (cases i) auto
    then have "stack ! i' = stack ! (length stack - 1)" using I i par j(3) by auto
    then have "i' = length stack - 1" using nth_eq_iff_index_eq [OF st(2)] i i' by simp
    then show False using i i' by linarith
  qed
  have "\<exists>p. sc_parent (scs' ! k) = Some p \<and> scope_in source scs' (butlast stack) (range_end c') k p" if k: "0 < k" "k < length scs'" for k
  proof -
    have "k < length scs" using k scs by simp
    then obtain p where p: "sc_parent (scs ! k) = Some p" "scope_in source scs stack P k p" using I k(1) by blast
    show ?thesis
    proof (cases "k = j")
      case True
      have pk: "p < k" using p(2) by (simp add: scope_in_def)
      let ?i = "length stack - 2"
      have "Suc ?i < length stack" "Suc ?i = length stack - 1" using top(1) by auto
      then have "sc_parent (scs ! j) = Some (stack ! ?i)" using I j(3) by metis
      then have "p = stack ! ?i" using p(1) True by simp
      then have "p \<in> set stack" using top(1) by simp
      then have "range_end (body_span (scs ! p)) = length source" using stack_body [OF inv] by blast
      then show ?thesis
        using p True pk bl c j(2) same [of p] scs unfolding scope_in_def by (auto split: option.splits)
    next
      case False
      have "scope_in source scs' (butlast stack) P k p"
      proof (rule scope_in_cong [OF p(2)])
        show "k \<in> set stack \<longleftrightarrow> k \<in> set (butlast stack)" using bl False by blast
        show "scs' ! k = scs ! k" by (rule same [OF False])
        show "range_start (body_span (scs' ! p)) \<le> range_start (body_span (scs ! p))"
          using body(1) same [of p] by (cases "p = j") auto
        show "range_end d \<le> range_end (body_span (scs' ! p))" if "sc_close (scs ! k) = Some d" for d
          using p(2) that body(2) same [of p] c(1) by (cases "p = j") (auto simp: scope_in_def)
      qed
      then show ?thesis using p(1) same [OF False] scope_in_mono c by auto
    qed
  qed
  moreover have "sc_parent (scs' ! (butlast stack ! Suc i)) = Some (butlast stack ! i)" if "Suc i < length (butlast stack)" for i
  proof -
    have "sc_parent (scs ! (stack ! Suc i)) = Some (stack ! i)" using I that by simp
    moreover have "sc_parent (scs' ! k) = sc_parent (scs ! k)" for k using scs j(2) by (cases "k = j") auto
    ultimately show ?thesis using that by (simp add: nth_butlast)
  qed
  moreover have "sc_id (scs' ! k) = k" if "k < length scs'" for k using I scs j(2) that by (cases "k = j") auto
  moreover have "butlast stack \<noteq> []" "butlast stack ! 0 = 0" "distinct (butlast stack)" "\<forall>k \<in> set (butlast stack). k < length scs'"
    using I top(1) st bl scs by (auto simp: nth_butlast distinct_butlast simp flip: length_greater_0_conv)
  moreover have "scs' ! 0 = scs ! 0" "scs' \<noteq> []" using same [of 0] j0 I scs by auto
  ultimately show ?thesis using I unfolding inv_scopes_def by auto
qed

section \<open>One turn of the loop\<close>

definition turn :: "Token list \<Rightarrow> parser \<Rightarrow> nat \<Rightarrow> bool" where
  "turn tokens st start \<longleftrightarrow> next_significant tokens (ps_cursor st) = Some start"

lemma turnD:
  "turn tokens st start \<Longrightarrow> ps_cursor st \<le> start \<and> start < length tokens \<and> \<not> trivia_at tokens start \<and>
     (\<forall>j. ps_cursor st \<le> j \<and> j < start \<longrightarrow> trivia_at tokens j)"
  unfolding turn_def by (rule next_significant_Some)

lemma parser_inv_ignore:
  "parser_inv source tokens (st\<lparr>ps_header := h\<rparr>) = parser_inv source tokens st"
  "parser_inv source tokens (push_diagnostic d r st) = parser_inv source tokens st"
  "parser_inv source tokens (st\<lparr>ps_header := h, ps_cursor := c\<rparr>) = parser_inv source tokens (st\<lparr>ps_cursor := c\<rparr>)"
  "parser_inv source tokens ((push_diagnostic d r st)\<lparr>ps_cursor := c\<rparr>) = parser_inv source tokens (st\<lparr>ps_cursor := c\<rparr>)"
  "parser_inv source tokens ((push_diagnostic d r st)\<lparr>ps_header := h, ps_cursor := c\<rparr>) = parser_inv source tokens (st\<lparr>ps_cursor := c\<rparr>)"
  by (simp_all add: parser_inv_def push_diagnostic_def)

lemma inv_current: "parser_inv source tokens st \<Longrightarrow> \<exists>scope. current_scope st = Some scope"
  by (auto simp: parser_inv_def inv_scopes_def current_scope_def)

lemma current_scope_header [simp]: "current_scope (st\<lparr>ps_header := h\<rparr>) = current_scope st"
  unfolding current_scope_def by (cases "ps_stack st") simp_all

lemma push_turn:
  assumes "parser_inv source tokens st" "lexed source tokens" "turn tokens st start" "current_scope st = Some scope"
    "start < e" "e \<le> length tokens"
  shows "\<exists>st'. push_statement source tokens kind scope (start, e) (st\<lparr>ps_header := h\<rparr>) = Some (length (ps_statements st), st') \<and>
    parser_inv source tokens (st'\<lparr>ps_cursor := e\<rparr>)"
  using parser_inv_push [of source tokens "st\<lparr>ps_header := h\<rparr>" scope start e kind] assms turnD [OF assms(3)]
  by (auto simp: parser_inv_ignore)

lemma on_preprocessor_inv:
  assumes "parser_inv source tokens st" "lexed source tokens" "turn tokens st start"
  shows "\<exists>st'. on_preprocessor source tokens start st = Some st' \<and> parser_inv source tokens st'"
proof -
  obtain scope where scope: "current_scope st = Some scope" using inv_current [OF assms(1)] by blast
  then show ?thesis
    using push_turn [OF assms scope, of "start + 1" PreprocessorStatement None] turnD [OF assms(3)]
    by (auto simp: on_preprocessor_def)
qed

lemma on_unknown_inv:
  assumes "parser_inv source tokens st" "lexed source tokens" "turn tokens st start"
  shows "\<exists>st'. on_unknown source tokens start st = Some st' \<and> parser_inv source tokens st'"
proof -
  obtain scope where scope: "current_scope st = Some scope" using inv_current [OF assms(1)] by blast
  then show ?thesis
    using push_turn [OF assms scope, of "start + 1" UnknownStatement None] turnD [OF assms(3)]
    by (auto simp: on_unknown_def parser_inv_ignore)
qed

lemma on_item_inv:
  assumes "parser_inv source tokens st" "lexed source tokens" "turn tokens st start"
  shows "\<exists>st'. on_item source tokens start st = Some st' \<and> parser_inv source tokens st'"
proof -
  obtain scope where scope: "current_scope st = Some scope" using inv_current [OF assms(1)] by blast
  let ?out = "scan_item source tokens start"
  let ?e = "if so_end ?out = start then start + 1 else so_end ?out"
  let ?kind = "if so_end ?out = start then UnknownStatement else classify source tokens (start, ?e) (so_terminator ?out)"
  have e: "start < ?e" "?e \<le> length tokens" "max (so_end ?out) (start + 1) = ?e"
    using scan_item_bounds [of start tokens source] turnD [OF assms(3)] by auto
  have pair: "(if so_end ?out = start then (start, start + 1) else (start, so_end ?out)) = (start, ?e)" by simp
  obtain st' where st': "push_statement source tokens ?kind scope (start, ?e) st = Some (length (ps_statements st), st')"
    "parser_inv source tokens (st'\<lparr>ps_cursor := ?e\<rparr>)"
    using push_turn [OF assms scope e(1,2), of ?kind "ps_header st"] by auto
  show ?thesis
    unfolding on_item_def Let_def pair e(3) using scope st'
    by (cases "so_end ?out = start") (auto simp: parser_inv_ignore split: option.splits)
qed

lemma inv_inside_open:
  "inv_inside stmts scs \<Longrightarrow> inv_inside stmts (scs @ [sc])"
  by (auto simp: inv_inside_def nth_append)

lemma on_open_inv:
  assumes "parser_inv source tokens st" "lexed source tokens" "turn tokens st start"
  shows "\<exists>st'. on_open source tokens start st = Some st' \<and> parser_inv source tokens st'"
proof -
  note i = assms(1) [unfolded parser_inv_def] and t = turnD [OF assms(3)]
  let ?span = "token_span (tokens ! start)"
  let ?sc = "\<lparr>sc_id = length (ps_scopes st), sc_parent = Some (last (ps_stack st)), sc_header = ps_header st,
    sc_span = (range_start ?span, length source), sc_open = Some ?span, sc_close = None\<rparr>"
  have top: "current_scope st = Some (last (ps_stack st))" using i by (simp add: current_scope_def inv_scopes_def)
  have len: "start < length (ps_ownership st)" using i t by (simp add: inv_own_def)
  have own: "inv_own tokens (ps_statements st) (ps_scopes st @ [?sc]) ((ps_ownership st)[start := Recognized]) (start + 1)"
    using i t by (intro inv_own_brace [where scs = "ps_scopes st" and c = "ps_cursor st"]) (auto simp: is_brace_def)
  have scopes: "inv_scopes source (ps_scopes st @ [?sc]) (ps_stack st @ [length (ps_scopes st)]) (range_end ?span)"
    using i t pos_future [OF assms(2)] lexed_nth(1) [OF assms(2)]
    by (intro inv_scopes_open [where P = "pos source tokens (ps_cursor st)" and h = "ps_header st"]) (auto simp: token_span_def)
  have "range_end ?span \<le> pos source tokens (start + 1)"
    using pos_past [OF assms(2), of start "start + 1"] t by (simp add: token_span_def)
  then have "parser_inv source tokens (st\<lparr>ps_ownership := (ps_ownership st)[start := Recognized],
      ps_scopes := ps_scopes st @ [?sc], ps_header := None, ps_stack := ps_stack st @ [length (ps_scopes st)], ps_cursor := start + 1\<rparr>)"
    using own inv_scopes_mono [OF scopes] i t inv_statements_mono [of tokens "ps_statements st" "ps_cursor st" "start + 1"]
    by (simp add: parser_inv_def inv_inside_open)
  then show ?thesis using len top by (simp add: on_open_def Let_def)
qed

end
