(* ===== verification/Ptx_Syntax_Properties.thy ===== *)
theory Ptx_Syntax_Properties
  imports Ptx_Syntax_Invariant
begin

text \<open>
  What the parser promises on the tokens of a lexed source: it never panics (its debug assertions included), accounts for
  every significant token exactly once, keeps the statements in source order inside their scopes, delimits a scope by the
  braces of the source, and nests the scopes.
\<close>

section \<open>The loop\<close>

text \<open>The innermost scope of a stack with more than the root.\<close>

lemma top_open:
  assumes "inv_scopes source scs stack P" "1 < length stack"
  shows "last stack < length scs" "last stack \<noteq> 0" "sc_close (scs ! last stack) = None" "sc_open (scs ! last stack) \<noteq> None"
proof -
  note I = assms(1) [unfolded inv_scopes_def]
  have top: "last stack = stack ! (length stack - 1)" "last stack \<in> set stack" using assms(2) by (cases stack; simp add: last_conv_nth)+
  show lt: "last stack < length scs" using I top(2) by blast
  have "distinct stack" "stack ! 0 = 0" "stack \<noteq> []" using I by auto
  then show nz: "last stack \<noteq> 0"
    using assms(2) top(1) nth_eq_iff_index_eq [of stack "length stack - 1" 0] by auto
  then obtain p where "scope_in source scs stack P (last stack) p" using I lt by blast
  then show "sc_close (scs ! last stack) = None" "sc_open (scs ! last stack) \<noteq> None"
    using top(2) by (cases "sc_close (scs ! last stack)"; auto simp: scope_in_def)+
qed

definition closed_at :: "Scope list \<Rightarrow> nat \<Rightarrow> range \<Rightarrow> Scope list" where
  "closed_at scs j span = scs[j := (scs ! j)\<lparr>sc_span := (range_start (sc_span (scs ! j)), range_end span), sc_close := Some span\<rparr>]"

lemma is_brace_closed:
  assumes "j < length scs" "sc_close (scs ! j) = None" "is_brace tokens scs k \<or> token_span (tokens ! k) = span"
  shows "is_brace tokens (closed_at scs j span) k"
proof -
  have "\<exists>m < length scs. sc_open (closed_at scs j span ! m) = Some (token_span (tokens ! k)) \<or>
      sc_close (closed_at scs j span ! m) = Some (token_span (tokens ! k))"
  proof (cases "token_span (tokens ! k) = span")
    case True
    then show ?thesis using assms(1) by (intro exI [of _ j]) (simp add: closed_at_def)
  next
    case False
    then obtain m where "m < length scs"
      "sc_open (scs ! m) = Some (token_span (tokens ! k)) \<or> sc_close (scs ! m) = Some (token_span (tokens ! k))"
      using assms(3) by (auto simp: is_brace_def in_set_conv_nth)
    then show ?thesis using assms(1,2) by (intro exI [of _ m]) (cases "m = j"; auto simp: closed_at_def)
  qed
  then show ?thesis unfolding is_brace_def closed_at_def by (metis length_list_update nth_mem)
qed

lemma inv_inside_closed:
  assumes "inv_inside stmts scs" "j < length scs" "sc_open (scs ! j) \<noteq> None" "\<forall>q \<in> set stmts. range_end (st_span q) \<le> range_start span"
  shows "inv_inside stmts (closed_at scs j span)"
proof -
  have j: "range_start (body_span (closed_at scs j span ! j)) = range_start (body_span (scs ! j))"
    "range_end (body_span (closed_at scs j span ! j)) = range_start span"
    using assms(2,3) by (auto simp: closed_at_def body_span_def)
  have other: "closed_at scs j span ! k = scs ! k" if "k \<noteq> j" for k using that by (simp add: closed_at_def)
  have len: "length (closed_at scs j span) = length scs" by (simp add: closed_at_def)
  show ?thesis
    unfolding inv_inside_def len
  proof
    fix q assume q: "q \<in> set stmts"
    have "st_scope q < length scs \<and> range_start (body_span (scs ! st_scope q)) \<le> range_start (st_span q) \<and>
        range_end (st_span q) \<le> range_end (body_span (scs ! st_scope q))"
      using assms(1) q by (simp add: inv_inside_def)
    then show "st_scope q < length scs \<and> range_start (body_span (closed_at scs j span ! st_scope q)) \<le> range_start (st_span q) \<and>
        range_end (st_span q) \<le> range_end (body_span (closed_at scs j span ! st_scope q))"
      using assms(4) q j other [of "st_scope q"] by (cases "st_scope q = j") auto
  qed
qed

lemma statements_past:
  assumes "inv_statements tokens stmts c" "c \<le> length tokens" "lexed source tokens" "q \<in> set stmts"
  shows "range_end (st_span q) \<le> pos source tokens c"
proof -
  obtain k where k: "k < length stmts" "q = stmts ! k" using assms(4) by (auto simp: in_set_conv_nth)
  then have "range_end (st_span q) = token_end (tokens ! (range_end (st_tokens q) - 1))" "range_end (st_tokens q) - 1 < c"
    using assms(1) by (auto simp: inv_statements_def statement_at_def dest!: spec [of _ k])
      (metis Statement.select_convs(4) snd_conv)
  then show ?thesis using pos_past [OF assms(3) _ assms(2)] by simp
qed

lemma on_close_inv:
  assumes "parser_inv source tokens st" "lexed source tokens" "turn tokens st start"
  shows "\<exists>st'. on_close source tokens start st = Some st' \<and> parser_inv source tokens st'"
proof (cases "length (ps_stack st) = 1")
  case True
  then have "current_scope st = Some 0"
    using assms(1) by (cases "ps_stack st") (auto simp: parser_inv_def inv_scopes_def current_scope_def)
  then show ?thesis
    using True push_turn [OF assms, of 0 "start + 1" UnknownStatement None] turnD [OF assms(3)]
    by (auto simp: on_close_def parser_inv_ignore)
next
  case False
  note i = assms(1) [unfolded parser_inv_def] and t = turnD [OF assms(3)]
  let ?span = "token_span (tokens ! start)" and ?j = "last (ps_stack st)" and ?scs = "ps_scopes st"
  have stack: "1 < length (ps_stack st)" "current_scope st = Some ?j"
    using i False by (cases "ps_stack st"; auto simp: inv_scopes_def current_scope_def)+
  note top = top_open [OF _ stack(1), of source ?scs "pos source tokens (ps_cursor st)"]
  have P: "pos source tokens (ps_cursor st) \<le> range_start ?span" "range_start ?span < range_end ?span"
    "range_end ?span \<le> length source" "range_end ?span \<le> pos source tokens (start + 1)"
    using pos_future [OF assms(2)] lexed_nth [OF assms(2)] pos_past [OF assms(2), of start "start + 1"] t
    by (auto simp: token_span_def)
  have scopes: "inv_scopes source (closed_at ?scs ?j ?span) (butlast (ps_stack st)) (pos source tokens (start + 1))"
    using inv_scopes_mono [OF inv_scopes_close [OF _ stack(1) refl P(1-3) closed_at_def] P(4)] i by blast
  have own: "inv_own tokens (ps_statements st) (closed_at ?scs ?j ?span) ((ps_ownership st)[start := Recognized]) (start + 1)"
    using i t top is_brace_closed [of ?j ?scs tokens]
    by (intro inv_own_brace [where scs = ?scs and c = "ps_cursor st"]) auto
  have "\<forall>q \<in> set (ps_statements st). range_end (st_span q) \<le> range_start ?span"
    using statements_past [OF _ _ assms(2)] i P(1) by (fastforce simp: inv_own_def)
  then have "inv_inside (ps_statements st) (closed_at ?scs ?j ?span)"
    using i top by (intro inv_inside_closed) auto
  then have "parser_inv source tokens (st\<lparr>ps_ownership := (ps_ownership st)[start := Recognized],
      ps_scopes := closed_at ?scs ?j ?span, ps_stack := butlast (ps_stack st), ps_header := None, ps_cursor := start + 1\<rparr>)"
    using own scopes i t inv_statements_mono [of tokens "ps_statements st" "ps_cursor st" "start + 1"] by (simp add: parser_inv_def)
  moreover have "start < length (ps_ownership st)" using i t by (simp add: inv_own_def)
  ultimately show ?thesis using False stack(2) top i by (simp add: on_close_def close_scope_def closed_at_def)
qed

lemma parse_step_inv:
  assumes "parser_inv source tokens st" "lexed source tokens" "turn tokens st start"
  shows "\<exists>st'. parse_step source tokens start st = Some st' \<and> parser_inv source tokens st'"
  unfolding parse_step_def Let_def
  using on_preprocessor_inv [OF assms] on_unknown_inv [OF assms] on_open_inv [OF assms] on_close_inv [OF assms] on_item_inv [OF assms]
  by auto

lemma parse_loop_inv:
  "parser_inv source tokens st \<Longrightarrow> lexed source tokens \<Longrightarrow>
     \<exists>st'. parse_loop source tokens st = Some st' \<and> parser_inv source tokens st' \<and> next_significant tokens (ps_cursor st') = None"
proof (induction source tokens st rule: parse_loop.induct)
  case (1 source tokens st)
  show ?case
  proof (cases "next_significant tokens (ps_cursor st)")
    case None
    then show ?thesis using 1(2) by (simp add: parse_loop.simps [of source tokens st])
  next
    case (Some start)
    then obtain st' where st': "parse_step source tokens start st = Some st'" "parser_inv source tokens st'"
      using parse_step_inv [OF 1(2,3)] by (auto simp: turn_def)
    then show ?thesis using 1(1) [OF Some st' 1(3)] Some by (simp add: parse_loop.simps [of source tokens st])
  qed
qed

lemma parser_init_inv: "lexed source tokens \<Longrightarrow> parser_inv source tokens (parser_init source tokens)"
  by (auto simp: parser_inv_def parser_init_def inv_own_def inv_statements_def inv_scopes_def inv_inside_def)

section \<open>The braces of a scope\<close>

definition brace_at :: "string \<Rightarrow> char \<Rightarrow> range \<Rightarrow> bool" where
  "brace_at source c r \<longleftrightarrow> range_start r < length source \<and> source ! range_start r = c \<and> range_end r = range_start r + 1"

definition scope_braces :: "string \<Rightarrow> Statement list \<Rightarrow> Scope \<Rightarrow> bool" where
  "scope_braces source stmts sc \<longleftrightarrow>
     (\<forall>r. sc_open sc = Some r \<longrightarrow> brace_at source (CHR ''{'') r) \<and> (\<forall>r. sc_close sc = Some r \<longrightarrow> brace_at source (CHR ''}'') r) \<and>
     (\<forall>h. sc_header sc = Some h \<longrightarrow> h < length stmts \<and>
        (\<exists>r. sc_open sc = Some r \<and> range_end (st_span (stmts ! h)) \<le> range_start r))"

definition brace_inv :: "string \<Rightarrow> parser \<Rightarrow> bool" where
  "brace_inv source st \<longleftrightarrow> (\<forall>sc \<in> set (ps_scopes st). scope_braces source (ps_statements st) sc) \<and>
     (\<forall>h. ps_header st = Some h \<longrightarrow> h < length (ps_statements st))"

lemma brace_token:
  assumes "lexed source tokens" "i < length tokens" "token_text source (tokens ! i) = [c]"
  shows "brace_at source c (token_span (tokens ! i))"
proof -
  let ?a = "token_start (tokens ! i)" and ?b = "token_end (tokens ! i)"
  have ab: "?a < ?b" "?b \<le> length source" using lexed_nth(1,2) [OF assms(1,2)] .
  have "between source ?a ?b = [c]" using assms(3) by (simp add: token_text_between)
  moreover have "between source ?a ?b = source ! ?a # between source (Suc ?a) ?b" using between_Cons [of ?a ?b source] ab by simp
  moreover have "length (between source ?a ?b) = ?b - ?a" using ab by (auto simp: between_def)
  ultimately show ?thesis using ab by (auto simp: brace_at_def token_span_def)
qed

lemma scope_braces_more: "scope_braces source stmts sc \<Longrightarrow> scope_braces source (stmts @ xs) sc"
  by (auto simp: scope_braces_def nth_append)

lemma push_statement_frame:
  assumes "push_statement source tokens kind scope r st = Some (k, st')"
  shows "ps_scopes st' = ps_scopes st" "ps_header st' = ps_header st" "k < length (ps_statements st')" "\<exists>xs. ps_statements st' = ps_statements st @ xs"
  using assms by (auto simp: push_statement_def Let_def bind_eq_Some_conv split: if_splits)

text \<open>Pushing a statement keeps the invariant for any header that is a statement.\<close>

lemma push_braces:
  assumes "push_statement source tokens kind scope r st = Some (k, st')" "brace_inv source st"
  shows "\<forall>sc \<in> set (ps_scopes st'). scope_braces source (ps_statements st') sc"
  using push_statement_frame [OF assms(1)] assms(2) scope_braces_more by (auto simp: brace_inv_def)

lemma on_item_frame:
  assumes "on_item source tokens start st = Some st'"
  obtains kind scope r k s1 where "push_statement source tokens kind scope r st = Some (k, s1)"
    "ps_scopes st' = ps_scopes s1" "ps_statements st' = ps_statements s1" "ps_header st' = None \<or> ps_header st' = Some k"
proof -
  let ?out = "scan_item source tokens start"
  define r where "r = (if so_end ?out = start then (start, start + 1) else (start, so_end ?out))"
  define kind where "kind = (if so_end ?out = start then UnknownStatement else classify source tokens r (so_terminator ?out))"
  obtain scope k s1 where p: "push_statement source tokens kind scope r st = Some (k, s1)"
    "st' = (if kind = UnknownStatement
        then push_diagnostic (case so_diagnostic ?out of None \<Rightarrow> UnrecognizedSyntax | Some d \<Rightarrow> d) (st_span (ps_statements s1 ! k)) s1
        else case so_diagnostic ?out of None \<Rightarrow> s1 | Some d \<Rightarrow> push_diagnostic d (st_span (ps_statements s1 ! k)) s1)
      \<lparr>ps_header := (if so_terminator ?out = Brace then Some k else None), ps_cursor := max (so_end ?out) (start + 1)\<rparr>"
    using assms unfolding on_item_def Let_def r_def [symmetric] kind_def [symmetric] by (force simp: bind_eq_Some_conv)
  have "ps_scopes st' = ps_scopes s1" "ps_statements st' = ps_statements s1" "ps_header st' = None \<or> ps_header st' = Some k"
    unfolding p(2) by (simp_all add: push_diagnostic_def split: option.splits)
  then show ?thesis using that p(1) by blast
qed

lemma close_scope_braces:
  assumes "close_scope j span scs = Some scs'" "\<forall>sc \<in> set scs. scope_braces source stmts sc" "brace_at source (CHR ''}'') span"
  shows "\<forall>sc \<in> set scs'. scope_braces source stmts sc"
proof
  fix sc assume sc: "sc \<in> set scs'"
  have j: "j < length scs" "scs' = scs[j := (scs ! j)\<lparr>sc_span := (range_start (sc_span (scs ! j)), range_end span), sc_close := Some span\<rparr>]"
    using assms(1) by (auto simp: close_scope_def split: if_splits)
  then consider "sc \<in> set scs" | "sc = (scs ! j)\<lparr>sc_span := (range_start (sc_span (scs ! j)), range_end span), sc_close := Some span\<rparr>"
    using sc set_update_subset_insert by fastforce
  then show "scope_braces source stmts sc"
  proof cases
    case 2
    have "scope_braces source stmts (scs ! j)" using assms(2) j(1) by simp
    then show ?thesis using 2 assms(3) by (simp add: scope_braces_def)
  qed (use assms(2) in blast)
qed

lemma brace_step:
  assumes "parser_inv source tokens st" "lexed source tokens" "turn tokens st start" "brace_inv source st"
    "parse_step source tokens start st = Some st'"
  shows "brace_inv source st'"
proof -
  note t = turnD [OF assms(3)]
  let ?tok = "tokens ! start"
  have none: "brace_inv source (st\<lparr>ps_header := None\<rparr>)" using assms(4) by (simp add: brace_inv_def)
  have past: "range_end (st_span q) \<le> token_start ?tok" if "q \<in> set (ps_statements st)" for q
  proof -
    have i: "inv_statements tokens (ps_statements st) (ps_cursor st)" "ps_cursor st \<le> length tokens"
      using assms(1) by (auto simp: parser_inv_def inv_own_def)
    show ?thesis using statements_past [OF i(1,2) assms(2) that] pos_future [OF assms(2), of "ps_cursor st" start] t by simp
  qed
  consider (pre) "on_preprocessor source tokens start st = Some st'" | (unknown) "on_unknown source tokens start st = Some st'"
    | (op) "token_text source ?tok = ''{''" "on_open source tokens start st = Some st'"
    | (cl) "token_text source ?tok = ''}''" "on_close source tokens start st = Some st'"
    | (item) "on_item source tokens start st = Some st'"
    using assms(5) by (auto simp: parse_step_def Let_def split: if_splits)
  then show ?thesis
  proof cases
    case pre
    then show ?thesis using push_braces [OF _ none] push_statement_frame(2)
      by (fastforce simp: on_preprocessor_def bind_eq_Some_conv brace_inv_def)
  next
    case unknown
    then show ?thesis using push_braces [OF _ none] push_statement_frame(2)
      by (fastforce simp: on_unknown_def bind_eq_Some_conv brace_inv_def push_diagnostic_def)
  next
    case op
    have "brace_at source (CHR ''{'') (token_span ?tok)" using brace_token [OF assms(2)] t op(1) by simp
    moreover have "h < length (ps_statements st) \<and> range_end (st_span (ps_statements st ! h)) \<le> token_start ?tok" if "ps_header st = Some h" for h
      using assms(4) that past by (simp add: brace_inv_def)
    ultimately show ?thesis
      using op(2) assms(4) by (auto simp: on_open_def Let_def brace_inv_def scope_braces_def token_span_def split: if_splits)
  next
    case cl
    have b: "brace_at source (CHR ''}'') (token_span ?tok)" using brace_token [OF assms(2)] t cl(1) by simp
    show ?thesis
    proof (cases "length (ps_stack st) = 1")
      case True
      then show ?thesis using cl(2) push_braces [OF _ none] push_statement_frame(2)
        by (fastforce simp: on_close_def bind_eq_Some_conv brace_inv_def push_diagnostic_def)
    next
      case False
      then obtain j scs where "close_scope j (token_span ?tok) (ps_scopes st) = Some scs" "ps_scopes st' = scs"
        "ps_statements st' = ps_statements st" "ps_header st' = None"
        using cl(2) by (auto simp: on_close_def bind_eq_Some_conv split: if_splits)
      then show ?thesis using close_scope_braces [OF _ _ b] assms(4) by (simp add: brace_inv_def)
    qed
  next
    case item
    obtain kind scope r k s1 where p: "push_statement source tokens kind scope r st = Some (k, s1)"
      "ps_scopes st' = ps_scopes s1" "ps_statements st' = ps_statements s1" "ps_header st' = None \<or> ps_header st' = Some k"
      using on_item_frame [OF item] .
    then show ?thesis using push_braces [OF p(1) assms(4)] push_statement_frame(3) [OF p(1)] by (auto simp: brace_inv_def)
  qed
qed

lemma parse_loop_braces:
  "parser_inv source tokens st \<Longrightarrow> lexed source tokens \<Longrightarrow> brace_inv source st \<Longrightarrow> parse_loop source tokens st = Some st' \<Longrightarrow> brace_inv source st'"
proof (induction source tokens st rule: parse_loop.induct)
  case (1 source tokens st)
  show ?case
  proof (cases "next_significant tokens (ps_cursor st)")
    case None
    then show ?thesis using 1(4,5) by (simp add: parse_loop.simps [of source tokens st])
  next
    case (Some start)
    then obtain s1 where s1: "parse_step source tokens start st = Some s1" "parse_loop source tokens s1 = Some st'"
      using 1(5) by (auto simp: parse_loop.simps [of source tokens st] bind_eq_Some_conv)
    have turn: "turn tokens st start" using Some by (simp add: turn_def)
    have "parser_inv source tokens s1" using parse_step_inv [OF 1(2,3) turn] s1(1) by auto
    then show ?thesis using 1(1) [OF Some s1(1) _ 1(3) brace_step [OF 1(2,3) turn 1(4) s1(1)] s1(2)] by blast
  qed
qed

lemma parse_Some:
  assumes "parse source tokens = Some p"
  obtains st where "parse_loop source tokens (parser_init source tokens) = Some st" "statements p = ps_statements st" "scopes p = ps_scopes st"
  using assms by (auto simp: parse_def bind_eq_Some_conv Let_def split: if_splits)

lemma brace_init: "brace_inv source (parser_init source tokens)"
  by (simp add: brace_inv_def parser_init_def scope_braces_def)

lemma parse_braces:
  assumes "lexed source tokens" "parse source tokens = Some p"
  shows "\<forall>sc \<in> set (scopes p). scope_braces source (statements p) sc"
proof -
  obtain st where "parse_loop source tokens (parser_init source tokens) = Some st" "statements p = ps_statements st" "scopes p = ps_scopes st"
    using parse_Some [OF assms(2)] .
  then show ?thesis using parse_loop_braces [OF parser_init_inv [OF assms(1)] assms(1) brace_init] by (simp add: brace_inv_def)
qed

lemma is_brace_char:
  assumes "is_brace tokens scs i" "\<forall>sc \<in> set scs. scope_braces source stmts sc"
  shows "brace_at source (CHR ''{'') (token_span (tokens ! i)) \<or> brace_at source (CHR ''}'') (token_span (tokens ! i))"
proof -
  obtain sc where "sc \<in> set scs" "sc_open sc = Some (token_span (tokens ! i)) \<or> sc_close sc = Some (token_span (tokens ! i))"
    using assms(1) by (auto simp: is_brace_def)
  then show ?thesis using assms(2) unfolding scope_braces_def by blast
qed

section \<open>The result\<close>

lemma bytes_of_split: "bytes_of P tokens = bytes_of (\<lambda>i. P i \<and> Q i) tokens + bytes_of (\<lambda>i. P i \<and> \<not> Q i) tokens"
proof -
  have "sum_list (map f (filter P xs)) = sum_list (map f (filter (\<lambda>i. P i \<and> Q i) xs)) + sum_list (map f (filter (\<lambda>i. P i \<and> \<not> Q i) xs))"
    for f :: "nat \<Rightarrow> nat" and xs by (induction xs) auto
  then show ?thesis by (simp add: bytes_of_def)
qed

lemma bytes_of_cong: "(\<And>i. i < length tokens \<Longrightarrow> P i = Q i) \<Longrightarrow> bytes_of P tokens = bytes_of Q tokens"
  unfolding bytes_of_def by (metis (mono_tags, lifting) atLeastLessThan_iff filter_cong set_upt)

lemma bytes_of_all:
  assumes "lexed source tokens"
  shows "bytes_of (\<lambda>_. True) tokens = length source"
proof -
  have "length (concat (map (token_text source) tokens)) = length source"
    using partitioned_concat [of source 0 tokens] assms by (simp add: lexed_def)
  moreover have "length (token_text source (tokens ! i)) = range_len (token_span (tokens ! i))" if "i < length tokens" for i
    using lexed_nth [OF assms that] by (auto simp: token_text_def range_len_def token_span_def)
  then have "map (length \<circ> token_text source) tokens = map (\<lambda>i. range_len (token_span (tokens ! i))) [0..<length tokens]"
    by (intro nth_equalityI) auto
  ultimately show ?thesis by (simp add: bytes_of_def length_concat comp_def)
qed

lemma unclosed_Some:
  "\<forall>k \<in> set is. k < length scs \<and> sc_open (scs ! k) \<noteq> None \<Longrightarrow> \<exists>ds. unclosed source scs is = Some ds"
  by (induction "is") auto

text \<open>The final state of the loop and the syntax built from it.\<close>

lemma parse_result:
  assumes "lexed source tokens"
  obtains st p where "parse source tokens = Some p" "parser_inv source tokens st"
    "\<forall>i < length tokens. \<not> trivia_at tokens i \<longrightarrow> i < ps_cursor st"
    "statements p = ps_statements st" "scopes p = ps_scopes st"
    "coverage p = \<lparr>source_bytes = length source, token_bytes = length source,
       non_trivia_bytes = bytes_of (\<lambda>i. \<not> trivia_at tokens i) tokens,
       recognized_bytes = bytes_of (\<lambda>i. \<not> trivia_at tokens i \<and> ps_ownership st ! i = Recognized) tokens,
       unknown_bytes = bytes_of (\<lambda>i. \<not> trivia_at tokens i \<and> ps_ownership st ! i \<noteq> Recognized) tokens,
       diagnostic_count = length (diagnostics p)\<rparr>"
proof -
  obtain st where st: "parse_loop source tokens (parser_init source tokens) = Some st" "parser_inv source tokens st"
    "next_significant tokens (ps_cursor st) = None"
    using parse_loop_inv [OF parser_init_inv [OF assms] assms] by blast
  have "\<forall>i. ps_cursor st \<le> i \<and> i < length tokens \<longrightarrow> trivia_at tokens i"
    using st(3) by (auto simp: next_significant_def find_None_iff)
  then have past: "\<forall>i < length tokens. \<not> trivia_at tokens i \<longrightarrow> i < ps_cursor st" by (meson not_le)
  note i = st(2) [unfolded parser_inv_def]
  have owned: "\<forall>i < length tokens. trivia_at tokens i \<or> ps_ownership st ! i \<noteq> Unowned"
  proof (intro allI impI)
    fix k assume "k < length tokens"
    then have "trivia_at tokens k \<or> owned_by tokens (ps_statements st) (ps_scopes st) (ps_ownership st ! k) k"
      using i past by (cases "trivia_at tokens k") (simp_all add: inv_own_def)
    then show "trivia_at tokens k \<or> ps_ownership st ! k \<noteq> Unowned" by (auto simp: owned_by_def owner_for_def split: if_splits)
  qed
  have "\<exists>ds. unclosed source (ps_scopes st) (tl (ps_stack st)) = Some ds"
  proof (rule unclosed_Some, rule ballI)
    fix k assume k: "k \<in> set (tl (ps_stack st))"
    have s: "ps_stack st ! 0 = 0" "distinct (ps_stack st)" "\<forall>k \<in> set (ps_stack st). k < length (ps_scopes st)"
      using i unfolding inv_scopes_def by blast+
    obtain ys where ys: "ps_stack st = 0 # ys" using s(1) k by (cases "ps_stack st") auto
    have "k \<in> set (ps_stack st)" "0 < k" using k s(2) unfolding ys by (auto intro: gr0I)
    then obtain p where "scope_in source (ps_scopes st) (ps_stack st) (pos source tokens (ps_cursor st)) k p"
      using i s(3) unfolding inv_scopes_def by blast
    then show "k < length (ps_scopes st) \<and> sc_open (ps_scopes st ! k) \<noteq> None"
      using s(3) \<open>k \<in> set (ps_stack st)\<close> by (auto simp: scope_in_def)
  qed
  then obtain ds where ds: "unclosed source (ps_scopes st) (tl (ps_stack st)) = Some ds" by blast
  note split = bytes_of_split [of "\<lambda>i. \<not> trivia_at tokens i" tokens "\<lambda>i. ps_ownership st ! i = Recognized"]
  define p where "p = \<lparr>statements = ps_statements st, scopes = ps_scopes st, diagnostics = ps_diagnostics st @ ds,
    coverage = \<lparr>source_bytes = length source, token_bytes = length source,
      non_trivia_bytes = bytes_of (\<lambda>i. \<not> trivia_at tokens i) tokens,
      recognized_bytes = bytes_of (\<lambda>i. \<not> trivia_at tokens i \<and> ps_ownership st ! i = Recognized) tokens,
      unknown_bytes = bytes_of (\<lambda>i. \<not> trivia_at tokens i \<and> ps_ownership st ! i \<noteq> Recognized) tokens,
      diagnostic_count = length (ps_diagnostics st @ ds)\<rparr>\<rparr>"
  have "parse source tokens = Some p"
    using st(1) ds owned split bytes_of_all [OF assms] by (simp add: parse_def Let_def p_def)
  then show thesis by (rule that [OF _ st(2) past]) (simp_all add: p_def)
qed

lemma statement_unique:
  assumes "inv_statements tokens stmts c" "k < length stmts" "k' < length stmts"
    "covers (st_tokens (stmts ! k)) i" "covers (st_tokens (stmts ! k')) i"
  shows "k = k'"
proof (rule ccontr)
  assume "k \<noteq> k'"
  then consider "k < k'" | "k' < k" by linarith
  then show False
    using assms by cases (fastforce simp: inv_statements_def sorted_wrt_iff_nth_less covers_def)+
qed

text \<open>(C14) Parsing a lexed source never panics and accounts for every byte. Each significant token belongs to exactly one
  statement, or to none and is the opening or closing brace of a scope (one byte, \<open>{\<close> or \<open>}\<close>); the token bytes are the source bytes;
  the recognized and unknown bytes add up to the significant ones, and the unknown bytes are those of the statements
  of unknown kind.\<close>

theorem parse_accounts_tokens:
  assumes "valid_str source" and "lex source = Ok tokens"
  shows "\<exists>p. parse source tokens = Some p \<and>
    (\<forall>i < length tokens. \<not> trivia_at tokens i \<longrightarrow>
       (\<exists>!k. k < length (statements p) \<and> covers (st_tokens (statements p ! k)) i) \<or>
       (\<forall>k < length (statements p). \<not> covers (st_tokens (statements p ! k)) i) \<and> is_brace tokens (scopes p) i \<and>
         (brace_at source (CHR ''{'') (token_span (tokens ! i)) \<or> brace_at source (CHR ''}'') (token_span (tokens ! i)))) \<and>
    is_lossless (coverage p) \<and>
    recognized_bytes (coverage p) + unknown_bytes (coverage p) = non_trivia_bytes (coverage p) \<and>
    unknown_bytes (coverage p) = bytes_of (\<lambda>i. \<not> trivia_at tokens i \<and>
      (\<exists>q \<in> set (statements p). st_kind q = UnknownStatement \<and> covers (st_tokens q) i)) tokens"
proof -
  have lexed: "lexed source tokens" using lex_partitioned [OF assms] by (simp add: lexed_def)
  obtain st p where p: "parse source tokens = Some p" "parser_inv source tokens st"
    "\<forall>i < length tokens. \<not> trivia_at tokens i \<longrightarrow> i < ps_cursor st" "statements p = ps_statements st" "scopes p = ps_scopes st"
    "coverage p = \<lparr>source_bytes = length source, token_bytes = length source,
       non_trivia_bytes = bytes_of (\<lambda>i. \<not> trivia_at tokens i) tokens,
       recognized_bytes = bytes_of (\<lambda>i. \<not> trivia_at tokens i \<and> ps_ownership st ! i = Recognized) tokens,
       unknown_bytes = bytes_of (\<lambda>i. \<not> trivia_at tokens i \<and> ps_ownership st ! i \<noteq> Recognized) tokens,
       diagnostic_count = length (diagnostics p)\<rparr>"
    using parse_result [OF lexed] .
  have sts: "inv_statements tokens (statements p) (ps_cursor st)" using p by (simp add: parser_inv_def)
  have owned: "owned_by tokens (statements p) (scopes p) (ps_ownership st ! i) i" if "i < length tokens" "\<not> trivia_at tokens i" for i
    using p(2,3) that unfolding p(4,5) by (simp add: parser_inv_def inv_own_def)
  have one: "(\<exists>!k. k < length (statements p) \<and> covers (st_tokens (statements p ! k)) i) \<or>
      (\<forall>k < length (statements p). \<not> covers (st_tokens (statements p ! k)) i) \<and> is_brace tokens (scopes p) i \<and>
         (brace_at source (CHR ''{'') (token_span (tokens ! i)) \<or> brace_at source (CHR ''}'') (token_span (tokens ! i)))"
    if "i < length tokens" "\<not> trivia_at tokens i" for i
  proof (cases "\<exists>k < length (statements p). covers (st_tokens (statements p ! k)) i")
    case True
    then show ?thesis using statement_unique [OF sts] by blast
  next
    case False
    then have "is_brace tokens (scopes p) i" using owned [OF that] by (auto simp: owned_by_def in_set_conv_nth)
    then show ?thesis using False is_brace_char [OF _ parse_braces [OF lexed p(1)]] by blast
  qed
  have who: "ps_ownership st ! i \<noteq> Recognized \<longleftrightarrow> (\<exists>q \<in> set (statements p). st_kind q = UnknownStatement \<and> covers (st_tokens q) i)"
    if "i < length tokens" "\<not> trivia_at tokens i" for i
  proof -
    have "q = q'" if "q \<in> set (statements p)" "q' \<in> set (statements p)" "covers (st_tokens q) i" "covers (st_tokens q') i" for q q'
      using that statement_unique [OF sts] by (metis in_set_conv_nth)
    then show ?thesis using owned [OF that] unfolding owned_by_def owner_for_def by (metis Ownership.distinct(5))
  qed
  have "bytes_of (\<lambda>i. \<not> trivia_at tokens i \<and> ps_ownership st ! i \<noteq> Recognized) tokens =
      bytes_of (\<lambda>i. \<not> trivia_at tokens i \<and> (\<exists>q \<in> set (statements p). st_kind q = UnknownStatement \<and> covers (st_tokens q) i)) tokens"
    using who by (intro bytes_of_cong) blast
  then show ?thesis
    using p(1,6) one bytes_of_split [of "\<lambda>i. \<not> trivia_at tokens i" tokens "\<lambda>i. ps_ownership st ! i = Recognized"]
    by (auto simp: is_lossless_def)
qed

lemma scope_nested:
  assumes inv: "inv_scopes source scs stack P" and k: "0 < k" "k < length scs"
  shows "\<exists>j o'. sc_parent (scs ! k) = Some j \<and> j < k \<and> sc_open (scs ! k) = Some o' \<and>
      range_start (sc_span (scs ! k)) = range_start o' \<and> range_start (body_span (scs ! j)) \<le> range_start o' \<and>
      range_end (sc_span (scs ! k)) \<le> range_end (body_span (scs ! j)) \<and>
      (case sc_close (scs ! k) of
         None \<Rightarrow> range_end (sc_span (scs ! k)) = length source
       | Some c' \<Rightarrow> range_end o' \<le> range_start c' \<and> range_end (sc_span (scs ! k)) = range_end c')"
proof -
  note I = inv [unfolded inv_scopes_def]
  obtain j where j: "sc_parent (scs ! k) = Some j" "scope_in source scs stack P k j" using I k by blast
  show ?thesis
  proof (cases "sc_close (scs ! k)")
    case None
    then have "k \<in> set stack" using j(2) by (auto simp: scope_in_def)
    then obtain i where i: "i < length stack" "k = stack ! i" by (auto simp: in_set_conv_nth)
    moreover from this obtain i' where "i = Suc i'" using k(1) I by (cases i) auto
    ultimately have "j \<in> set stack" using I j(1) by auto
    then have "range_end (body_span (scs ! j)) = length source" using stack_body [OF inv] by blast
    then show ?thesis using j None by (auto simp: scope_in_def)
  next
    case (Some c)
    then show ?thesis using j by (auto simp: scope_in_def)
  qed
qed

lemma statement_bytes:
  assumes "inv_statements tokens stmts c" "lexed source tokens" "c \<le> length tokens" "k < length stmts"
  shows "st_id (stmts ! k) = k" "range_start (st_span (stmts ! k)) = token_start (tokens ! range_start (st_tokens (stmts ! k)))"
    "range_end (st_span (stmts ! k)) = token_end (tokens ! (range_end (st_tokens (stmts ! k)) - 1))"
    "range_start (st_span (stmts ! k)) < range_end (st_span (stmts ! k))"
proof -
  let ?q = "stmts ! k"
  have q: "?q = statement_at tokens k (st_kind ?q) (st_scope ?q) (st_tokens ?q)" "range_start (st_tokens ?q) < range_end (st_tokens ?q)"
    "range_end (st_tokens ?q) \<le> c"
    using assms(1,4) by (auto simp: inv_statements_def)
  show "st_id ?q = k" by (subst q(1)) (simp add: statement_at_def)
  show a: "range_start (st_span ?q) = token_start (tokens ! range_start (st_tokens ?q))" by (subst q(1)) (simp add: statement_at_def)
  show b: "range_end (st_span ?q) = token_end (tokens ! (range_end (st_tokens ?q) - 1))" by (subst q(1)) (simp add: statement_at_def)
  let ?a = "range_start (st_tokens ?q)" and ?b = "range_end (st_tokens ?q) - 1"
  have ab: "?a \<le> ?b" "?a < length tokens" "?b < length tokens" using q assms(3) by auto
  note lt = lexed_nth(1) [OF assms(2) ab(2)] lexed_nth(1) [OF assms(2) ab(3)]
  show "range_start (st_span ?q) < range_end (st_span ?q)"
    unfolding a b
  proof (cases "?a = ?b")
    case True
    then show "token_start (tokens ! ?a) < token_end (tokens ! ?b)" using lt(1) by simp
  next
    case False
    then show "token_start (tokens ! ?a) < token_end (tokens ! ?b)"
      using lexed_order [OF assms(2), of ?a ?b] ab lt by linarith
  qed
qed

lemma statements_sorted:
  assumes "inv_statements tokens stmts c" "lexed source tokens" "c \<le> length tokens"
  shows "sorted_wrt (\<lambda>q q'. range_end (st_span q) \<le> range_start (st_span q')) stmts"
  unfolding sorted_wrt_iff_nth_less
proof (intro allI impI)
  fix k k' assume kk: "k < k'" "k' < length stmts"
  let ?b = "range_end (st_tokens (stmts ! k))" and ?a = "range_start (st_tokens (stmts ! k'))"
  have "?b \<le> ?a" using assms(1) kk by (auto simp: inv_statements_def sorted_wrt_iff_nth_less)
  moreover have "range_start (st_tokens (stmts ! k)) < ?b" using assms(1) kk by (simp add: inv_statements_def)
  then have "0 < ?b" by linarith
  moreover have "?a < length tokens"
    using assms(1,3) kk(2) unfolding inv_statements_def by (meson less_le_trans)
  ultimately show "range_end (st_span (stmts ! k)) \<le> range_start (st_span (stmts ! k'))"
    using \<open>0 < ?b\<close> lexed_order [OF assms(2), of "?b - 1" ?a] statement_bytes [OF assms] kk by simp
qed

text \<open>(C15) The statements and scopes of a lexed source. Statements are numbered and stand in source order without overlap, each
  inside the body of its scope. The root scope is the whole source; every other scope has an earlier parent, opens with a
  \<open>{\<close> of the source inside the body of its parent, is closed by a later \<open>}\<close> or runs to the end of the source, and lies
  inside the body of its parent.\<close>

theorem parse_structure:
  assumes "valid_str source" and "lex source = Ok tokens"
  shows "\<exists>p. parse source tokens = Some p \<and>
    (\<forall>k < length (statements p). st_id (statements p ! k) = k \<and> st_scope (statements p ! k) < length (scopes p) \<and>
       range_start (st_span (statements p ! k)) < range_end (st_span (statements p ! k)) \<and>
       range_start (body_span (scopes p ! st_scope (statements p ! k))) \<le> range_start (st_span (statements p ! k)) \<and>
       range_end (st_span (statements p ! k)) \<le> range_end (body_span (scopes p ! st_scope (statements p ! k)))) \<and>
    sorted_wrt (\<lambda>q q'. range_end (st_span q) \<le> range_start (st_span q')) (statements p) \<and>
    (\<exists>root. scopes p \<noteq> [] \<and> scopes p ! 0 = root \<and> sc_parent root = None \<and> sc_span root = (0, length source)) \<and>
    (\<forall>k < length (scopes p). sc_id (scopes p ! k) = k) \<and>
    (\<forall>sc \<in> set (scopes p). (\<forall>r. sc_open sc = Some r \<longrightarrow> brace_at source (CHR ''{'') r) \<and>
       (\<forall>r. sc_close sc = Some r \<longrightarrow> brace_at source (CHR ''}'') r)) \<and>
    (\<forall>k. 0 < k \<and> k < length (scopes p) \<longrightarrow>
       (\<exists>j o'. sc_parent (scopes p ! k) = Some j \<and> j < k \<and> sc_open (scopes p ! k) = Some o' \<and>
          range_start (sc_span (scopes p ! k)) = range_start o' \<and> range_start (body_span (scopes p ! j)) \<le> range_start o' \<and>
          range_end (sc_span (scopes p ! k)) \<le> range_end (body_span (scopes p ! j)) \<and>
          (case sc_close (scopes p ! k) of
             None \<Rightarrow> range_end (sc_span (scopes p ! k)) = length source
           | Some c' \<Rightarrow> range_end o' \<le> range_start c' \<and> range_end (sc_span (scopes p ! k)) = range_end c')))"
proof -
  have lexed: "lexed source tokens" using lex_partitioned [OF assms] by (simp add: lexed_def)
  obtain st p where p: "parse source tokens = Some p" "parser_inv source tokens st" "statements p = ps_statements st"
    "scopes p = ps_scopes st"
    using parse_result [OF lexed] by metis
  note i = p(2) [unfolded parser_inv_def, folded p(3,4)]
  have c: "ps_cursor st \<le> length tokens" using i by (simp add: inv_own_def)
  have braces: "\<forall>sc \<in> set (scopes p). (\<forall>r. sc_open sc = Some r \<longrightarrow> brace_at source (CHR ''{'') r) \<and>
       (\<forall>r. sc_close sc = Some r \<longrightarrow> brace_at source (CHR ''}'') r)"
    using parse_braces [OF lexed p(1)] by (simp add: scope_braces_def)
  have inside: "st_scope (statements p ! k) < length (scopes p) \<and>
       range_start (body_span (scopes p ! st_scope (statements p ! k))) \<le> range_start (st_span (statements p ! k)) \<and>
       range_end (st_span (statements p ! k)) \<le> range_end (body_span (scopes p ! st_scope (statements p ! k)))"
    if "k < length (statements p)" for k
    using i that by (simp add: inv_inside_def)
  have root: "scopes p \<noteq> [] \<and> sc_parent (scopes p ! 0) = None \<and> sc_span (scopes p ! 0) = (0, length source) \<and>
      (\<forall>k < length (scopes p). sc_id (scopes p ! k) = k)"
    using i unfolding inv_scopes_def by blast
  note sts = conjunct1 [OF conjunct2 [OF i]]
  show ?thesis
    using p(1) inside statement_bytes(1,4) [OF sts lexed c] statements_sorted [OF sts lexed c] root braces
      scope_nested [OF conjunct1 [OF conjunct2 [OF conjunct2 [OF i]]]]
    by (intro exI [of _ p]) simp
qed

section \<open>Witnesses\<close>

text \<open>\<open>.entry k(){L: ret;}\<close>: a callable header, its scope, and a labelled instruction.\<close>

definition entry_source :: string where
  "entry_source = ''.entry k(){L: ret;}''"

definition entry_tokens :: "Token list" where
  "entry_tokens =
     [\<lparr>token_kind = Word, token_start = 0, token_end = 6\<rparr>, \<lparr>token_kind = Whitespace, token_start = 6, token_end = 7\<rparr>,
      \<lparr>token_kind = Word, token_start = 7, token_end = 8\<rparr>, \<lparr>token_kind = Punctuation, token_start = 8, token_end = 9\<rparr>,
      \<lparr>token_kind = Punctuation, token_start = 9, token_end = 10\<rparr>, \<lparr>token_kind = Punctuation, token_start = 10, token_end = 11\<rparr>,
      \<lparr>token_kind = Word, token_start = 11, token_end = 12\<rparr>, \<lparr>token_kind = Punctuation, token_start = 12, token_end = 13\<rparr>,
      \<lparr>token_kind = Whitespace, token_start = 13, token_end = 14\<rparr>, \<lparr>token_kind = Word, token_start = 14, token_end = 17\<rparr>,
      \<lparr>token_kind = Punctuation, token_start = 17, token_end = 18\<rparr>, \<lparr>token_kind = Punctuation, token_start = 18, token_end = 19\<rparr>]"

lemma entry_valid: "valid_str entry_source"
  by (intro valid_ascii) (simp add: entry_source_def byte_val_def)

lemma entry_lex: "lex entry_source = Ok entry_tokens"
  unfolding entry_source_def entry_tokens_def by (simp add: lex_eval cong: try_let_weak bind_weak)

theorem parse_accounts_tokens_witness:
  "\<exists>p. parse entry_source entry_tokens = Some p \<and> is_lossless (coverage p) \<and>
     recognized_bytes (coverage p) + unknown_bytes (coverage p) = non_trivia_bytes (coverage p)"
  using parse_accounts_tokens [OF entry_valid entry_lex] by blast

theorem parse_structure_witness:
  "\<exists>p. parse entry_source entry_tokens = Some p \<and> scopes p \<noteq> [] \<and> sc_span (scopes p ! 0) = (0, length entry_source)"
  using parse_structure [OF entry_valid entry_lex] by blast

end
