(* ===== verification/Ptx_Views_Facts.thy ===== *)
theory Ptx_Views_Facts
  imports Ptx_Split Ptx_Syntax_Properties
begin

text \<open>
  The projections on the statements of a parsed source: no projection panics, every span of a view lies on character
  boundaries inside its statement, and views stand in the order of their statements.
\<close>

section \<open>Tokens and the masked text\<close>

lemma lexed_shape:
  assumes "lexed s ts" "i < length ts"
  shows "token_shape s (token_kind (ts ! i)) (token_start (ts ! i)) (token_end (ts ! i))"
proof -
  have "partitioned s a ts \<Longrightarrow> i < length ts \<Longrightarrow>
      token_shape s (token_kind (ts ! i)) (token_start (ts ! i)) (token_end (ts ! i))" for a
    by (induction s a ts arbitrary: i rule: partitioned.induct) (auto simp: nth_Cons split: nat.splits)
  then show ?thesis using assms by (simp add: lexed_def)
qed

lemma lexed_bd:
  assumes "valid_str s" "lexed s ts" "i < length ts"
  shows "bd s (token_start (ts ! i))" "bd s (token_end (ts ! i))"
  using lexed_nth(3,4) [OF assms(2,3)] bd_char_boundary [OF assms(1)] by auto

text \<open>A semicolon is not a word.\<close>

lemma word_not_semicolon:
  assumes "lexed s ts" "i < length ts" "is_word ts i"
  shows "token_text s (ts ! i) \<noteq> '';''"
proof -
  have "\<not> is_word_byte (CHR '';'')" by code_simp
  moreover have "list_all is_word_byte (token_text s (ts ! i))"
    using lexed_shape [OF assms(1,2)] assms(3) by (simp add: token_text_between is_word_def token_shape_def)
  ultimately show ?thesis by auto
qed

abbreviation masked_text :: "string \<Rightarrow> Token list \<Rightarrow> string" where
  "masked_text s ts \<equiv> concat (map (mask_token s) ts)"

lemma bd_prefix: "valid_str u \<Longrightarrow> valid_str v \<Longrightarrow> bd v k \<Longrightarrow> bd (u @ v) (length u + k)"
  using bd_middle [of u v "[]" k] by simp

text \<open>Token boundaries are character boundaries of the masked text.\<close>

lemma masked_bd:
  assumes "valid_str s" "lexed s ts" "i < length ts"
  shows "bd (masked_text s ts) (token_start (ts ! i))" "bd (masked_text s ts) (token_end (ts ! i))"
proof -
  have "partitioned s a ts \<Longrightarrow> bd s a \<Longrightarrow> i < length ts \<Longrightarrow>
      bd (masked_text s ts) (token_start (ts ! i) - a) \<and> bd (masked_text s ts) (token_end (ts ! i) - a)" for a
  proof (induction ts arbitrary: a i)
    case (Cons t ts)
    have bds: "bd s (token_end t)" "token_start t = a" "partitioned s (token_end t) ts"
      using Cons.prems(1) bd_char_boundary [OF assms(1)] by auto
    have v: "valid_str (mask_token s t)" "valid_str (masked_text s ts)"
      using valid_mask_token [OF assms(1), of t] valid_masked [OF assms(1) bds(1,3)] bds Cons.prems by auto
    note len = length_mask_token [OF Cons.prems(1)]
    show ?case
    proof (cases i)
      case 0
      then show ?thesis
        using bd_zero [OF valid_append [OF v]] bd_append [OF v] len bds(2) by simp
    next
      case (Suc j)
      then have j: "j < length ts" using Cons.prems(3) by simp
      have b: "bd (masked_text s ts) (token_start (ts ! j) - token_end t)" "bd (masked_text s ts) (token_end (ts ! j) - token_end t)"
        using Cons.IH [OF bds(3,1) j] by auto
      have "token_end t \<le> token_start (ts ! j)" "token_start (ts ! j) < token_end (ts ! j)" "a < token_end t"
        using partitioned_nth [OF bds(3) j] bds(1) bd_char_boundary [OF assms(1)] Cons.prems(1) by auto
      then show ?thesis using bd_prefix [OF v b(1)] bd_prefix [OF v b(2)] len Suc by simp
    qed
  qed simp
  from this [of 0] show "bd (masked_text s ts) (token_start (ts ! i))" "bd (masked_text s ts) (token_end (ts ! i))"
    using assms bd_zero [OF assms(1)] by (auto simp: lexed_def)
qed

text \<open>Offset by offset, the masked text is the source or white space; so a boundary next to text that is not white is a
  boundary of the source.\<close>

lemma masked_nth:
  assumes "lexed s ts" "x < length s"
  obtains i where "i < length ts" "token_start (ts ! i) \<le> x" "x < token_end (ts ! i)"
    "\<forall>z. token_start (ts ! i) \<le> z \<and> z < token_end (ts ! i) \<longrightarrow>
       masked_text s ts ! z = (if is_masked (token_kind (ts ! i)) then mask_byte (s ! z) else s ! z)"
proof -
  have "partitioned s a ts \<Longrightarrow> a \<le> x \<Longrightarrow> \<exists>i < length ts. a \<le> token_start (ts ! i) \<and> token_start (ts ! i) \<le> x \<and> x < token_end (ts ! i) \<and>
      (\<forall>z. token_start (ts ! i) \<le> z \<and> z < token_end (ts ! i) \<longrightarrow>
        masked_text s ts ! (z - a) = (if is_masked (token_kind (ts ! i)) then mask_byte (s ! z) else s ! z))" for a
  proof (induction ts arbitrary: a)
    case (Cons t ts)
    note len = length_mask_token [OF Cons.prems(1)]
    show ?case
    proof (cases "x < token_end t")
      case True
      have "masked_text s (t # ts) ! (z - a) = (if is_masked (token_kind t) then mask_byte (s ! z) else s ! z)"
        if "a \<le> z" "z < token_end t" for z
      proof -
        have "z - a < token_end t - a" using that by linarith
        then show ?thesis using that len Cons.prems(1) by (auto simp: nth_append mask_token_def token_text_def)
      qed
      then show ?thesis using True Cons.prems by (intro exI [of _ 0]) auto
    next
      case False
      then obtain i where i: "i < length ts" "token_end t \<le> token_start (ts ! i)" "token_start (ts ! i) \<le> x" "x < token_end (ts ! i)"
        "\<forall>z. token_start (ts ! i) \<le> z \<and> z < token_end (ts ! i) \<longrightarrow>
          masked_text s ts ! (z - token_end t) = (if is_masked (token_kind (ts ! i)) then mask_byte (s ! z) else s ! z)"
        using Cons.IH [of "token_end t"] Cons.prems by auto
      have "masked_text s (t # ts) ! (z - a) = masked_text s ts ! (z - token_end t)" if "token_end t \<le> z" for z
        using that len Cons.prems(1) by (auto simp: nth_append)
      then show ?thesis using i Cons.prems(1) by (intro exI [of _ "Suc i"]) auto
    qed
  qed (use assms(2) in simp)
  from this [of 0] show ?thesis using that assms(1) by (auto simp: lexed_def)
qed

lemma masked_white: "space1 (mask_byte c)"
  by (simp add: mask_byte_def space1_def)

lemma unmask_start:
  assumes "lexed s ts" "length (masked_text s ts) = length s" "bd (masked_text s ts) x" "x < length s" "\<not> space1 (masked_text s ts ! x)"
  shows "bd s x"
proof -
  obtain i where "masked_text s ts ! x = (if is_masked (token_kind (ts ! i)) then mask_byte (s ! x) else s ! x)"
    using masked_nth [OF assms(1,4)] by metis
  then have "masked_text s ts ! x = s ! x" using assms(5) masked_white by (metis (full_types))
  then show ?thesis using assms(2-4) by (simp add: bd_def)
qed

lemma unmask_end:
  assumes "valid_str s" "lexed s ts" "length (masked_text s ts) = length s" "bd (masked_text s ts) y" "0 < y"
    "\<not> space1 (masked_text s ts ! (y - 1))"
  shows "bd s y"
proof (cases "y < length s")
  case True
  obtain i where i: "i < length ts" "token_start (ts ! i) \<le> y" "y < token_end (ts ! i)"
    "\<forall>z. token_start (ts ! i) \<le> z \<and> z < token_end (ts ! i) \<longrightarrow>
       masked_text s ts ! z = (if is_masked (token_kind (ts ! i)) then mask_byte (s ! z) else s ! z)"
    using masked_nth [OF assms(2) True] .
  show ?thesis
  proof (cases "y = token_start (ts ! i)")
    case True
    then show ?thesis using lexed_bd [OF assms(1,2) i(1)] by simp
  next
    case False
    then have "\<not> is_masked (token_kind (ts ! i))" using i(2,3) i(4) [rule_format, of "y - 1"] assms(5,6) masked_white by fastforce
    then show ?thesis using i(2,3) i(4) [rule_format, of y] assms(3,4) True by (simp add: bd_def)
  qed
next
  case False
  then show ?thesis using assms(3,4) by (simp add: bd_def)
qed

section \<open>Statements and their significant tokens\<close>

definition statement_ok :: "Token list \<Rightarrow> Statement \<Rightarrow> bool" where
  "statement_ok tokens q \<longleftrightarrow> range_start (st_tokens q) < range_end (st_tokens q) \<and> range_end (st_tokens q) \<le> length tokens \<and>
     st_span q = (token_start (tokens ! range_start (st_tokens q)), token_end (tokens ! (range_end (st_tokens q) - 1)))"

lemma sig_nth:
  assumes "statement_ok tokens q" "c < length (significant_token_indices tokens q)"
  shows "range_start (st_tokens q) \<le> significant_token_indices tokens q ! c"
    "significant_token_indices tokens q ! c < range_end (st_tokens q)"
    "significant_token_indices tokens q ! c < length tokens"
  using assms nth_mem [OF assms(2)] by (auto simp: significant_token_indices_def statement_ok_def)

lemma sig_mono:
  assumes "c < c'" "c' < length (significant_token_indices tokens q)"
  shows "significant_token_indices tokens q ! c < significant_token_indices tokens q ! c'"
  using assms sorted_wrt_nth_less [of "(<)" "significant_token_indices tokens q" c c']
  by (simp add: significant_token_indices_def sorted_wrt_filter)

lemma sig_span:
  assumes "statement_ok tokens q" "lexed source tokens" "c < length (significant_token_indices tokens q)"
  defines "t \<equiv> tokens ! (significant_token_indices tokens q ! c)"
  shows "range_start (st_span q) \<le> token_start t" "token_start t < token_end t" "token_end t \<le> range_end (st_span q)"
proof -
  let ?i = "significant_token_indices tokens q ! c"
  note i = sig_nth [OF assms(1,3)] and q = assms(1) [unfolded statement_ok_def]
  have o: "i \<le> j \<Longrightarrow> j < length tokens \<Longrightarrow> token_start (tokens ! i) \<le> token_start (tokens ! j) \<and> token_end (tokens ! i) \<le> token_end (tokens ! j)" for i j
    using lexed_order [OF assms(2), of i j] lexed_nth(1) [OF assms(2), of i] lexed_nth(1) [OF assms(2), of j] by (cases "i = j") auto
  show "token_start t < token_end t" unfolding t_def using lexed_nth(1) [OF assms(2) i(3)] .
  show "range_start (st_span q) \<le> token_start t" unfolding t_def using o [OF i(1,3)] q by simp
  have "?i \<le> range_end (st_tokens q) - 1" "range_end (st_tokens q) - 1 < length tokens" using i q by linarith+
  then show "token_end t \<le> range_end (st_span q)" unfolding t_def using o [of ?i "range_end (st_tokens q) - 1"] q by simp
qed

lemma sig_order:
  assumes "statement_ok tokens q" "lexed source tokens" "c < c'" "c' < length (significant_token_indices tokens q)"
  shows "token_end (tokens ! (significant_token_indices tokens q ! c)) \<le> token_start (tokens ! (significant_token_indices tokens q ! c'))"
  using lexed_order [OF assms(2) sig_mono [OF assms(3,4)]] sig_nth(3) [OF assms(1,4)] by simp

lemma sig_bd:
  assumes "statement_ok tokens q" "lexed source tokens" "valid_str source" "c < length (significant_token_indices tokens q)"
  defines "t \<equiv> tokens ! (significant_token_indices tokens q ! c)"
  shows "bd source (token_start t)" "bd source (token_end t)"
    "bd (masked_text source tokens) (token_start t)" "bd (masked_text source tokens) (token_end t)"
  using lexed_bd [OF assms(3,2) sig_nth(3) [OF assms(1,4)]] masked_bd [OF assms(3,2) sig_nth(3) [OF assms(1,4)]]
  by (auto simp: t_def)

lemma statement_bd:
  assumes "statement_ok tokens q" "lexed source tokens" "valid_str source"
  shows "bd source (range_start (st_span q))" "bd source (range_end (st_span q))" "bd (masked_text source tokens) (range_start (st_span q))"
    "range_start (st_span q) < range_end (st_span q)"
proof -
  have i: "range_start (st_tokens q) < length tokens" "range_end (st_tokens q) - 1 < length tokens"
    and le: "range_start (st_tokens q) \<le> range_end (st_tokens q) - 1"
    using assms(1) by (auto simp: statement_ok_def)
  show "bd source (range_start (st_span q))" "bd source (range_end (st_span q))" "bd (masked_text source tokens) (range_start (st_span q))"
    using lexed_bd [OF assms(3,2)] masked_bd [OF assms(3,2)] i assms(1) by (simp_all add: statement_ok_def)
  show "range_start (st_span q) < range_end (st_span q)"
    using lexed_order [OF assms(2), of "range_start (st_tokens q)" "range_end (st_tokens q) - 1"] le i lexed_nth(1) [OF assms(2)] assms(1)
    by (cases "range_start (st_tokens q) = range_end (st_tokens q) - 1")
       (auto simp: statement_ok_def intro: less_trans less_le_trans)
qed

section \<open>Spans of views\<close>

text \<open>A span inside another one, on character boundaries of the source, so that slicing it never panics.\<close>

definition inside :: "string \<Rightarrow> range \<Rightarrow> range \<Rightarrow> bool" where
  "inside source outer r \<longleftrightarrow> range_start outer \<le> range_start r \<and> range_start r \<le> range_end r \<and> range_end r \<le> range_end outer \<and>
     bd source (range_start r) \<and> bd source (range_end r)"

lemma inside_slice: "valid_str source \<Longrightarrow> inside source outer r \<Longrightarrow> \<exists>t. str_slice source (range_start r) (range_end r) = Some t"
  using slice_between by (auto simp: inside_def)

text \<open>A statement of a lexed source.\<close>

definition statement_in :: "string \<Rightarrow> Token list \<Rightarrow> Statement \<Rightarrow> bool" where
  "statement_in source tokens q \<longleftrightarrow> valid_str source \<and> lexed source tokens \<and> length source \<le> U32_MAX \<and>
     length (masked_text source tokens) = length source \<and> statement_ok tokens q"

lemma sig_inside:
  assumes "statement_in source tokens q" "c < length (significant_token_indices tokens q)"
  shows "inside source (st_span q) (token_span (tokens ! (significant_token_indices tokens q ! c)))"
  using assms sig_span [of tokens q source c] sig_bd(1,2) [of tokens q source c]
  by (simp add: statement_in_def inside_def token_span_def)

subsection \<open>Labels\<close>

text \<open>The \<open>k\<close>-th leading label is made of the significant tokens \<open>2 * k\<close> and \<open>2 * k + 1\<close>.\<close>

definition label_at :: "Token list \<Rightarrow> nat list \<Rightarrow> nat \<Rightarrow> LabelSpans \<Rightarrow> bool" where
  "label_at tokens significant k sp \<longleftrightarrow> 2 * k + 1 < length significant \<and> ls_name sp = token_span (tokens ! (significant ! (2 * k))) \<and>
     ls_span sp = (token_start (tokens ! (significant ! (2 * k))), token_end (tokens ! (significant ! (2 * k + 1))))"

lemma label_spans_from_spec:
  "cursor = 2 * length spans \<Longrightarrow> cursor \<le> length significant \<Longrightarrow> (\<forall>k < length spans. label_at tokens significant k (spans ! k)) \<Longrightarrow>
     label_spans_from source tokens significant cursor spans = (c, out) \<Longrightarrow>
     c = 2 * length out \<and> c \<le> length significant \<and> (\<forall>k < length out. label_at tokens significant k (out ! k))"
proof (induction source tokens significant cursor spans rule: label_spans_from.induct)
  case (1 source tokens significant cursor spans)
  show ?case
  proof (cases "label_here source tokens significant cursor")
    case True
    let ?sp = "\<lparr>ls_span = (token_start (tokens ! (significant ! cursor)), token_end (tokens ! (significant ! (cursor + 1)))),
        ls_name = token_span (tokens ! (significant ! cursor))\<rparr>"
    have lt: "cursor + 1 < length significant" using True by (simp add: label_here_def)
    have "\<forall>k < length (spans @ [?sp]). label_at tokens significant k ((spans @ [?sp]) ! k)"
      using 1(2,4) lt by (auto simp: nth_append less_Suc_eq label_at_def)
    moreover have "label_spans_from source tokens significant (cursor + 2) (spans @ [?sp]) = (c, out)"
      using 1(5) True by (subst (asm) label_spans_from.simps) (simp add: Let_def token_span_def)
    ultimately show ?thesis using 1(1) [OF True refl refl] 1(2) lt by (simp add: token_span_def)
  next
    case False
    then have "c = cursor" "out = spans" using 1(5) label_spans_from.simps [of source tokens significant cursor spans] by auto
    then show ?thesis using 1(2-4) by simp
  qed
qed

lemma leading_label_spans_spec:
  assumes "leading_label_spans source tokens significant = (c, out)"
  shows "c = 2 * length out" "c \<le> length significant" "\<And>k. k < length out \<Longrightarrow> label_at tokens significant k (out ! k)"
  using label_spans_from_spec [of 0 "[]" significant tokens source c out] assms by (auto simp: leading_label_spans_def)

lemma label_names_inside:
  assumes "statement_in source tokens q" "leading_label_spans source tokens (significant_token_indices tokens q) = (c, out)" "r \<in> set (map ls_name out)"
  shows "inside source (st_span q) r"
proof -
  obtain k where k: "k < length out" "r = ls_name (out ! k)" using assms(3) by (auto simp: in_set_conv_nth)
  then show ?thesis
    using leading_label_spans_spec(3) [OF assms(2) k(1)] sig_inside [OF assms(1), of "2 * k"] by (simp add: label_at_def)
qed

subsection \<open>Directives\<close>

lemma physical_line_span_spec:
  assumes "valid_str source" "bd source off" "off < length source"
  obtains l e where "physical_line_span source off = Some (l, e)" "l \<le> off" "off < e" "e \<le> length source" "bd source l" "bd source e"
    "l = 0 \<or> source ! (l - 1) = CHR 0x0A" "e = length source \<or> source ! (e - 1) = CHR 0x0A"
    "\<forall>z. off \<le> z \<and> z + 1 < e \<longrightarrow> source ! z \<noteq> CHR 0x0A"
proof -
  let ?l = "line_start_of source off" and ?rest = "drop off source"
  have end_bd: "bd source (length source)" by (simp add: bd_def)
  have slices: "str_slice source 0 off \<noteq> None" "str_slice source off (length source) = Some ?rest"
    using slice_between [OF assms(1) bd_zero [OF assms(1)] assms(2)] slice_between [OF assms(1,2) end_bd] assms(3)
    by (auto simp: between_def)
  have l: "?l \<le> off" "?l = 0 \<or> source ! (?l - 1) = CHR 0x0A" using line_start_spec [of off source] assms(3) by auto
  have lbd: "bd source ?l"
  proof (cases "?l = 0")
    case False
    then show ?thesis using bd_after_ascii [OF assms(1), of "?l - 1"] l assms(3) by simp
  qed (use bd_zero [OF assms(1)] in simp)
  have no: "source ! z \<noteq> CHR 0x0A" if "off \<le> z" "z < off + length (takeWhile (\<lambda>b. b \<noteq> CHR 0x0A) ?rest)" for z
    using set_takeWhileD [of "?rest ! (z - off)" "\<lambda>b. b \<noteq> CHR 0x0A" ?rest] that takeWhile_nth [of "z - off" "\<lambda>b. b \<noteq> CHR 0x0A" ?rest]
      nth_mem [of "z - off" "takeWhile (\<lambda>b. b \<noteq> CHR 0x0A) ?rest"] assms(3) by auto
  show ?thesis
  proof (cases "position (CHR 0x0A) ?rest")
    case None
    then have "length (takeWhile (\<lambda>b. b \<noteq> CHR 0x0A) ?rest) = length ?rest"
      using length_takeWhile_le [of "\<lambda>b. b \<noteq> CHR 0x0A" ?rest] by (auto simp: position_def Let_def split: if_splits)
    then show ?thesis
      using that [of ?l "length source"] None slices l lbd end_bd no assms(3) by (auto simp: physical_line_span_def)
  next
    case (Some k)
    then have k: "k = length (takeWhile (\<lambda>b. b \<noteq> CHR 0x0A) ?rest)" "off + k < length source" "source ! (off + k) = CHR 0x0A"
      using nth_length_takeWhile [of "\<lambda>b. b \<noteq> CHR 0x0A" ?rest] by (auto simp: position_def Let_def split: if_splits)
    then have "bd source (off + k + 1)" using bd_after_ascii [OF assms(1), of "off + k"] by simp
    then show ?thesis
      using that [of ?l "off + k + 1"] Some slices l lbd k no by (auto simp: physical_line_span_def)
  qed
qed

text \<open>What a directive says of its statement.\<close>

definition directive_fits :: "string \<Rightarrow> Statement \<Rightarrow> Directive \<Rightarrow> bool" where
  "directive_fits source q d \<longleftrightarrow> dr_statement d = st_id q \<and> dr_scope d = st_scope q \<and> dr_span d = st_span q \<and>
     inside source (st_span q) (dr_name d) \<and> starts_with_dot (between source (range_start (dr_name d)) (range_end (dr_name d))) \<and>
     inside source (range_end (dr_name d), range_end (st_span q)) (dr_arguments d) \<and>
     inside source (0, length source) (dr_line d) \<and> range_start (dr_line d) \<le> range_start (st_span q) \<and>
     range_start (st_span q) < range_end (dr_line d) \<and> (\<forall>r \<in> set (dr_labels d). inside source (st_span q) r)"

lemma statement_offset:
  assumes "statement_in source tokens q"
  shows "range_start (st_span q) < length source"
  using statement_bd [of tokens q source] assms by (auto simp: statement_in_def bd_def)

lemma directive_of_spec:
  assumes "statement_in source tokens q"
  shows "case directive_of source tokens q of Ok d \<Rightarrow> directive_fits source q d | Err ds \<Rightarrow> ds = [(MalformedDirective, st_span q)] | Panic \<Rightarrow> False"
proof -
  note s = assms [unfolded statement_in_def]
  let ?sig = "significant_token_indices tokens q"
  obtain c out where lab: "leading_label_spans source tokens ?sig = (c, out)" by fastforce
  let ?name = "tokens ! (?sig ! c)"
  show ?thesis
  proof (cases "c < length ?sig \<and> token_kind ?name = Word \<and> starts_with_dot (token_text source ?name)")
    case True
    then have c: "c < length ?sig" by simp
    obtain l e where line: "physical_line_span source (range_start (st_span q)) = Some (l, e)" "l \<le> range_start (st_span q)"
      "range_start (st_span q) < e" "e \<le> length source" "bd source l" "bd source e"
      using physical_line_span_spec [of source "range_start (st_span q)"] s statement_bd(1) statement_offset [OF assms] by metis
    note name = sig_inside [OF assms c, unfolded inside_def token_span_def, simplified]
    obtain a b where args: "trim_span source (token_end ?name, range_end (st_span q)) = Some (a, b)" "token_end ?name \<le> a" "a \<le> b"
      "b \<le> range_end (st_span q)" "bd source a" "bd source b"
      using trim_span_spec [of source "token_end ?name" "range_end (st_span q)"] s name statement_bd(2) [of tokens q source] by metis
    then show ?thesis
      using True lab line name label_names_inside [OF assms lab] sig_inside [OF assms c]
      by (simp add: directive_of_def Let_def directive_fits_def inside_def token_span_def token_text_between)
  next
    case False
    then show ?thesis using lab by (auto simp: directive_of_def Let_def)
  qed
qed

subsection \<open>Instructions\<close>

lemma guard_at_spec:
  assumes "statement_in source tokens q" "c \<le> length (significant_token_indices tokens q)"
  shows "case guard_at source tokens (significant_token_indices tokens q) c of
      Ok (pr, c') \<Rightarrow> c \<le> c' \<and> (\<forall>g. pr = Some g \<longrightarrow> c < c' \<and> inside source (st_span q) (pr_start g, pr_register_end g) \<and>
        inside source (st_span q) (pr_register_start g, pr_register_end g) \<and>
        pr_register g = between source (pr_register_start g) (pr_register_end g))
    | Err _ \<Rightarrow> True | Panic \<Rightarrow> False"
proof (cases "sig_is source tokens (significant_token_indices tokens q) c ''@''")
  case True
  let ?sig = "significant_token_indices tokens q"
  define reg where "reg = (if sig_is source tokens ?sig (c + 1) ''!'' then c + 2 else c + 1)"
  note s = assms(1) [unfolded statement_in_def]
  show ?thesis
  proof (cases "reg < length ?sig \<and> token_kind (tokens ! (?sig ! reg)) = Word")
    case ok: True
    let ?r = "tokens ! (?sig ! reg)" and ?g = "tokens ! (?sig ! c)"
    have c: "c < length ?sig" "c < reg" using True by (auto simp: sig_is_def reg_def)
    note r = sig_inside [OF assms(1), of reg] and g = sig_inside [OF assms(1), of c]
    have ends: "token_end ?r \<le> U32_MAX" "token_start ?r \<le> U32_MAX" "token_start ?g \<le> U32_MAX"
      using r g ok c s by (auto simp: inside_def token_span_def bd_def)
    have "token_start ?g \<le> token_end ?r"
      using sig_order [of tokens q source c reg] sig_span(2) [of tokens q source] s ok c by (meson less_imp_le order.trans)
    moreover have "guard_at source tokens ?sig c =
        Ok (Some \<lparr>pr_start = token_start ?g, pr_register = token_text source ?r, pr_register_start = token_start ?r,
              pr_register_end = token_end ?r, pr_negated = sig_is source tokens ?sig (reg - 1) ''!''\<rparr>, reg + 1)"
      unfolding guard_at_def Let_def reg_def [symmetric] using True ok ends sig_nth(3) [of tokens q reg] s by (simp add: to_u32_def)
    ultimately show ?thesis using r g ok c by (simp add: inside_def token_span_def token_text_between)
  next
    case False
    have "guard_at source tokens ?sig c = Err ()"
      unfolding guard_at_def Let_def reg_def [symmetric] using True False by auto
    then show ?thesis by simp
  qed
qed (simp add: guard_at_def)

text \<open>The head ends with a word, so in front of the terminal semicolon.\<close>

lemma head_end_spec:
  assumes "c < length significant" "is_word tokens (significant ! c)" "e = token_end (tokens ! (significant ! c))"
  obtains c' where "c \<le> c'" "c' < length significant" "is_word tokens (significant ! c')"
    "head_end_from source tokens significant c e = token_end (tokens ! (significant ! c'))"
  using assms
proof (induction source tokens significant c e arbitrary: thesis rule: head_end_from.induct)
  case (1 source tokens significant cursor head_end)
  show ?case
  proof (cases "cursor + 2 < length significant \<and> sig_is source tokens significant (cursor + 1) ''::'' \<and>
      is_word tokens (significant ! (cursor + 2))")
    case True
    then obtain c' where "cursor + 2 \<le> c'" "c' < length significant" "is_word tokens (significant ! c')"
      "head_end_from source tokens significant (cursor + 2) (token_end (tokens ! (significant ! (cursor + 2)))) =
        token_end (tokens ! (significant ! c'))"
      using 1(1) [OF True] by blast
    then show ?thesis using 1(2) [of c'] True by (simp add: head_end_from.simps [of source tokens significant cursor])
  next
    case False
    then have "head_end_from source tokens significant cursor head_end = head_end"
      unfolding head_end_from.simps [of source tokens significant cursor] by (simp only: if_False)
    then show ?thesis using 1(2) [of cursor] 1(3-5) by simp
  qed
qed

definition instruction_fits :: "string \<Rightarrow> Statement \<Rightarrow> Instruction \<Rightarrow> bool" where
  "instruction_fits source q i \<longleftrightarrow> in_statement i = st_id q \<and> in_scope i = st_scope q \<and> in_span i = st_span q \<and>
     inside source (st_span q) (in_head i) \<and> range_start (in_head i) < range_end (in_head i) \<and>
     inside source (range_start (st_span q), range_start (in_head i)) (in_prefix i) \<and>
     (\<forall>r \<in> set (in_operands i). range_start r < range_end r \<and> inside source (range_end (in_head i), range_end (st_span q) - 1) r) \<and>
     sorted_wrt (\<lambda>r r'. range_end r < range_start r') (in_operands i) \<and>
     (\<forall>r \<in> set (in_labels i). inside source (st_span q) r) \<and>
     (\<forall>g. in_predicate i = Some g \<longrightarrow> inside source (st_span q) (pr_start g, pr_register_end g) \<and>
        inside source (st_span q) (pr_register_start g, pr_register_end g) \<and>
        pr_register g = between source (pr_register_start g) (pr_register_end g))"

text \<open>Text with dark ends in the masked source lies on boundaries of the source.\<close>

lemma unmask_dark:
  assumes "statement_in source tokens q" "bd (masked_text source tokens) x" "bd (masked_text source tokens) y" "x < y"
    "dark_ends (between (masked_text source tokens) x y)"
  shows "bd source x" "bd source y"
proof -
  let ?m = "masked_text source tokens"
  note s = assms(1) [unfolded statement_in_def]
  have y: "y \<le> length ?m" using assms(3) by (simp add: bd_def)
  then have "hd (between ?m x y) = ?m ! x" using assms(4) between_Cons [of x y ?m] by simp
  moreover have "last (between ?m x y) = ?m ! (y - 1)" using assms(4) y between_snoc [of x "y - 1" ?m] by simp
  ultimately have dark: "\<not> space1 (?m ! x)" "\<not> space1 (?m ! (y - 1))" using assms(5) by (auto simp: dark_ends_def)
  show "bd source x" using unmask_start [of source tokens x] s dark(1) assms(2,4) y by simp
  show "bd source y" using unmask_end [of source tokens y] s dark(2) assms(3,4) by simp
qed

lemma masked_trim:
  assumes "statement_in source tokens q" "bd (masked_text source tokens) a" "bd (masked_text source tokens) b" "a \<le> b" "bd source b"
  obtains x y where "trim_span (masked_text source tokens) (a, b) = Some (x, y)" "a \<le> x" "x \<le> y" "y \<le> b" "bd source x" "bd source y"
    "bd (masked_text source tokens) x" "bd (masked_text source tokens) y"
proof -
  let ?m = "masked_text source tokens"
  have v: "valid_str ?m"
    using assms(1) valid_masked [of source 0 tokens] bd_zero [of source] by (simp add: statement_in_def lexed_def)
  obtain x y where xy: "trim_span ?m (a, b) = Some (x, y)" "a \<le> x" "x \<le> y" "y \<le> b" "bd ?m x" "bd ?m y"
    "between ?m x y = trim (between ?m a b)" "x < y \<longrightarrow> dark_ends (between ?m x y)"
    using trim_span_spec [OF v assms(2-4)] .
  show ?thesis
  proof (cases "x < y")
    case True
    then show ?thesis using that [OF xy(1-4) unmask_dark [OF assms(1) xy(5,6)] xy(5,6)] xy(8) by blast
  next
    case False
    then have "trim (between ?m a b) = []" using xy(3,7) by simp
    then have "trim_span ?m (a, b) = Some (b, b)" using slice_between [OF v assms(2-4)] by (simp add: trim_span_def)
    then show ?thesis using that [of b b] assms(3-5) by simp
  qed
qed

text \<open>The operand spans between the head and the semicolon.\<close>

definition operand_spans :: "string \<Rightarrow> nat \<Rightarrow> nat \<Rightarrow> (range list, unit) outcome" where
  "operand_spans masked a b = try_let (or_panic (trim_span masked (a, b))) (\<lambda>operands.
     if range_is_empty operands then Ok []
     else try_let (or_panic (str_slice masked (range_start operands) (range_end operands)))
            (\<lambda>txt. split_top_level_spans txt (range_start operands)))"

lemma operand_spans_spec:
  assumes "statement_in source tokens q" "bd (masked_text source tokens) a" "bd (masked_text source tokens) b" "a \<le> b" "bd source b"
  shows "case operand_spans (masked_text source tokens) a b of
      Ok rs \<Rightarrow> (\<forall>r \<in> set rs. range_start r < range_end r \<and> inside source (a, b) r) \<and> sorted_wrt (\<lambda>r r'. range_end r < range_start r') rs
    | Err _ \<Rightarrow> True | Panic \<Rightarrow> False"
proof -
  let ?m = "masked_text source tokens"
  have v: "valid_str ?m"
    using assms(1) valid_masked [of source 0 tokens] bd_zero [of source] by (simp add: statement_in_def lexed_def)
  obtain x y where xy: "trim_span ?m (a, b) = Some (x, y)" "a \<le> x" "x \<le> y" "y \<le> b" "bd ?m x" "bd ?m y"
    using masked_trim [OF assms] by metis
  let ?t = "between ?m x y"
  show ?thesis
  proof (cases "x < y")
    case True
    have slice: "str_slice ?m x y = Some ?t" "valid_str ?t" using slice_between [OF v xy(5,6,3)] valid_between [OF v xy(5,6,3)] .
    have len: "length ?t = y - x" using xy(6) by (auto simp: between_def bd_def)
    have eq: "operand_spans ?m a b = split_top_level_spans ?t x"
      using xy(1) True slice(1) by (simp add: operand_spans_def range_is_empty_def)
    show ?thesis
    proof (cases "split_reference ?t")
      case None
      then show ?thesis using split_top_level_spans_spec [OF slice(2), of x] eq by simp
    next
      case (Some ts)
      then obtain spans where sp: "operand_spans ?m a b = Ok (map (shift x) spans)" "spans_at ?t 0 spans ts"
        using split_top_level_spans_spec [OF slice(2), of x] eq by auto
      have "range_start r < range_end r \<and> inside source (a, b) (shift x r)" if r: "r \<in> set spans" for r
      proof -
        have b: "bd ?t (range_start r)" "bd ?t (range_end r)" "range_start r < range_end r"
          "dark_ends (between ?t (range_start r) (range_end r))"
          using sp(2) r by (auto simp: spans_at_def list_all2_conv_all_nth in_set_conv_nth)
        have le: "x + range_end r \<le> y" using b(2) len xy(3) by (auto simp: bd_def)
        have mb: "bd ?m (x + range_start r)" "bd ?m (x + range_end r)" using bd_shift [OF v xy(5,6,3)] b(1,2) by auto
        have "between ?t (range_start r) (range_end r) = between ?m (x + range_start r) (x + range_end r)"
          using between_between [of "range_start r" "range_end r" x y ?m] b(3) le by simp
        then have "bd source (x + range_start r)" "bd source (x + range_end r)"
          using unmask_dark [OF assms(1) mb] b(3,4) by auto
        then show ?thesis using b(3) le xy(2,4) by (simp add: inside_def shift_def)
      qed
      moreover have "sorted_wrt (\<lambda>r r'. range_end r < range_start r') (map (shift x) spans)"
        using sp(2) by (simp add: spans_at_def sorted_wrt_map shift_def)
      ultimately show ?thesis unfolding sp(1) by (auto simp: shift_def)
    qed
  next
    case False
    then show ?thesis using xy(1) by (simp add: operand_spans_def range_is_empty_def)
  qed
qed

text \<open>The head of an instruction, from its first word to the end of its last, lies between the start of the statement and the
  semicolon.\<close>

lemma head_layout:
  assumes "statement_in source tokens q"
  defines "sig \<equiv> significant_token_indices tokens q"
  defines "h \<equiv> \<lambda>c. tokens ! (sig ! c)" and "semi \<equiv> tokens ! last sig"
  assumes c: "c < length sig" "token_kind (h c) = Word" "token_text source semi = '';''"
  defines "e \<equiv> head_end_from source tokens sig c (token_end (h c))"
  shows "range_start (st_span q) \<le> token_start (h c)" "token_start (h c) < e" "e \<le> token_start semi" "token_start semi < range_end (st_span q)"
    "bd (masked_text source tokens) e" "bd source e" "bd (masked_text source tokens) (token_start semi)" "bd source (token_start semi)"
    "last sig < length tokens"
proof -
  note s = assms(1) [unfolded statement_in_def]
  have last: "last sig = sig ! (length sig - 1)" "length sig - 1 < length sig" using c(1) by (cases sig; simp add: last_conv_nth)+
  obtain c' where h: "c \<le> c'" "c' < length sig" "is_word tokens (sig ! c')" "e = token_end (h c')"
    using head_end_spec [of c sig tokens "token_end (h c)" source] c by (auto simp: is_word_def h_def e_def)
  have sane: "sig ! c' < length tokens" "last sig < length tokens"
    using sig_nth(3) [of tokens q] s h(2) last by (auto simp: sig_def)
  have "c' \<noteq> length sig - 1" using word_not_semicolon [of source tokens "sig ! c'"] s h(3) sane(1) c(3) last(1) by (auto simp: semi_def)
  then have lt: "c' < length sig - 1" using h(2) by linarith
  show "last sig < length tokens" using sane(2) .
  show "bd (masked_text source tokens) e" "bd source e" "bd (masked_text source tokens) (token_start semi)" "bd source (token_start semi)"
    using sig_bd [of tokens q source c'] sig_bd [of tokens q source "length sig - 1"] s h(2,4) last
    by (auto simp: sig_def h_def semi_def)
  show "range_start (st_span q) \<le> token_start (h c)" using sig_span(1) [of tokens q source c] s c(1) by (simp add: sig_def h_def)
  have "token_end (h c) \<le> e"
    using sig_order [of tokens q source c c'] sig_span(2) [of tokens q source c'] s h by (cases "c = c'") (auto simp: sig_def h_def)
  then show "token_start (h c) < e" using sig_span(2) [of tokens q source c] s c(1) by (simp add: sig_def h_def)
  show "e \<le> token_start semi" using sig_order [of tokens q source c' "length sig - 1"] s lt h(4) last by (simp add: sig_def h_def semi_def)
  show "token_start semi < range_end (st_span q)"
    using sig_span(2,3) [of tokens q source "length sig - 1"] s last by (simp add: sig_def semi_def)
qed

lemma instruction_from_statement_spec:
  assumes "statement_in source tokens q"
  shows "case instruction_from_statement source (masked_text source tokens) tokens q of
    Ok i \<Rightarrow> instruction_fits source q i | Err _ \<Rightarrow> True | Panic \<Rightarrow> False"
proof -
  let ?sig = "significant_token_indices tokens q" and ?m = "masked_text source tokens"
  note s = assms [unfolded statement_in_def]
  obtain c out where lab: "leading_label_spans source tokens ?sig = (c, out)" by fastforce
  note g = guard_at_spec [OF assms leading_label_spans_spec(2) [OF lab]]
  show ?thesis
  proof (cases "guard_at source tokens ?sig c")
    case (Ok res)
    obtain pr c' where res: "res = (pr, c')" by fastforce
    let ?h = "tokens ! (?sig ! c')" and ?semi = "tokens ! last ?sig"
    let ?e = "head_end_from source tokens ?sig c' (token_end ?h)"
    show ?thesis
    proof (cases "c' < length ?sig \<and> token_kind ?h = Word \<and> token_text source ?semi = '';''")
      case True
      note L = head_layout [OF assms, of c'] and t = conjunct1 [OF True] conjunct1 [OF conjunct2 [OF True]] conjunct2 [OF conjunct2 [OF True]]
      have hb: "bd ?m (token_start ?h)" "bd source (token_start ?h)" "?sig ! c' < length tokens"
        using sig_bd [of tokens q source c'] sig_nth(3) [of tokens q c'] s t(1) by auto
      obtain x y where pre: "trim_span ?m (range_start (st_span q), token_start ?h) = Some (x, y)" "range_start (st_span q) \<le> x" "x \<le> y"
        "y \<le> token_start ?h" "bd source x" "bd source y"
        using masked_trim [OF assms _ hb(1) L(1) [OF t] hb(2)] statement_bd(3) [of tokens q source] s by metis
      have eq: "instruction_from_statement source ?m tokens q = try_let (operand_spans ?m ?e (token_start ?semi)) (\<lambda>rs.
          Ok \<lparr>in_statement = st_id q, in_scope = st_scope q, in_span = st_span q, in_prefix = (x, y), in_head = (token_start ?h, ?e),
              in_operands = rs, in_labels = map ls_name out, in_predicate = pr\<rparr>)"
        using lab Ok res True hb(3) L(9) [OF t] pre(1)
        by (cases "trim_span ?m (?e, token_start ?semi)") (simp_all add: instruction_from_statement_def Let_def operand_spans_def)
      have opin: "inside source (?e, range_end (st_span q) - 1) r" if "inside source (?e, token_start ?semi) r" for r
        using that L(4) [OF t] by (auto simp: inside_def)
      have hd: "inside source (st_span q) (token_start ?h, ?e)"
        using L(1-4,6) [OF t] hb(2) by (simp add: inside_def)
      show ?thesis
        using operand_spans_spec [OF assms L(5,7) [OF t] L(3,8) [OF t]] g Ok res pre L(2) [OF t] hd label_names_inside [OF assms lab] opin
        unfolding eq by (cases "operand_spans ?m ?e (token_start ?semi)") (auto simp: instruction_fits_def inside_def)
    next
      case False
      then show ?thesis using lab Ok res by (auto simp: instruction_from_statement_def Let_def)
    qed
  next
    case (Err x)
    then show ?thesis using lab by (simp add: instruction_from_statement_def)
  next
    case Panic
    then show ?thesis using g by simp
  qed
qed

end
