(* ===== verification/Ptx_Document_Facts.thy ===== *)
theory Ptx_Document_Facts
  imports Ptx_Views_Facts
begin

text \<open>
  From statements to documents: the collecting loops, the lookup tables, and the braces around the body of a callable
  definition.
\<close>

section \<open>Collecting loops\<close>

lemma project_total: "(\<And>q. q \<in> set qs \<Longrightarrow> f q \<noteq> Panic) \<Longrightarrow> \<exists>vs ds. project f qs = Some (vs, ds)"
proof (induction qs)
  case (Cons q qs)
  then obtain vs ds where "project f qs = Some (vs, ds)" by auto
  then show ?case using Cons.prems [of q] by (cases "f q") auto
qed simp

lemma project_member:
  assumes "project f qs = Some (vs, ds)" "v \<in> set vs"
  obtains q where "q \<in> set qs" "f q = Ok v"
  using assms
proof (induction qs arbitrary: vs ds thesis)
  case (Cons q qs)
  show ?case
  proof (cases "f q")
    case (Ok w)
    then obtain vs' where "project f qs = Some (vs', ds)" "vs = w # vs'" using Cons.prems(2) by (auto simp: bind_eq_Some_conv)
    then show ?thesis using Cons Ok by (metis list.set_intros(1,2) set_ConsD)
  next
    case (Err d)
    then obtain ds' where "project f qs = Some (vs, ds')" using Cons.prems(2) by (auto simp: bind_eq_Some_conv)
    then show ?thesis using Cons by (metis list.set_intros(2))
  qed (use Cons in simp)
qed simp

lemma project_sorted:
  assumes "project f qs = Some (vs, ds)" "sorted_wrt R qs"
    and "\<And>q q' v v'. q \<in> set qs \<Longrightarrow> q' \<in> set qs \<Longrightarrow> R q q' \<Longrightarrow> f q = Ok v \<Longrightarrow> f q' = Ok v' \<Longrightarrow> S v v'"
  shows "sorted_wrt S vs"
  using assms
proof (induction qs arbitrary: vs ds)
  case (Cons q qs)
  show ?case
  proof (cases "f q")
    case (Ok w)
    then obtain vs' where vs': "project f qs = Some (vs', ds)" "vs = w # vs'" using Cons.prems(1) by (auto simp: bind_eq_Some_conv)
    have "sorted_wrt S vs'" using Cons.prems(2,3) by (intro Cons.IH [OF vs'(1)]) auto
    moreover have "S w v" if v: "v \<in> set vs'" for v
    proof -
      obtain q' where "q' \<in> set qs" "f q' = Ok v" using project_member [OF vs'(1) v] .
      then show ?thesis using Cons.prems(2,3) Ok by (metis list.set_intros(1,2) sorted_wrt.simps(2))
    qed
    ultimately show ?thesis using vs'(2) by simp
  next
    case (Err d)
    then obtain ds' where "project f qs = Some (vs, ds')" using Cons.prems(1) by (auto simp: bind_eq_Some_conv)
    then show ?thesis using Cons.prems(2,3) by (intro Cons.IH) auto
  qed (use Cons in simp)
qed simp

section \<open>Lookup tables\<close>

lemma push_under_spec:
  "\<forall>(k, v) \<in> set kvs. k < length table \<Longrightarrow>
     push_under kvs table = Some (map (\<lambda>k. table ! k @ map snd (filter (\<lambda>(k', _). k' = k) kvs)) [0..<length table])"
proof (induction kvs arbitrary: table)
  case Nil
  then show ?case by (simp add: map_nth)
next
  case (Cons kv kvs)
  obtain k v where kv: "kv = (k, v)" by fastforce
  then have k: "k < length table" using Cons.prems by auto
  have "push_under (kv # kvs) table = push_under kvs (table[k := table ! k @ [v]])" using kv k by simp
  also have "\<dots> = Some (map (\<lambda>j. table[k := table ! k @ [v]] ! j @ map snd (filter (\<lambda>(k', _). k' = j) kvs)) [0..<length table])"
    using Cons.IH [of "table[k := table ! k @ [v]]"] Cons.prems by auto
  also have "\<dots> = Some (map (\<lambda>j. table ! j @ map snd (filter (\<lambda>(k', _). k' = j) (kv # kvs))) [0..<length table])"
    using k kv by (auto simp: nth_list_update)
  finally show ?case .
qed

lemma set_slots_spec:
  "\<forall>(k, v) \<in> set kvs. k < length table \<Longrightarrow> distinct (map fst kvs) \<Longrightarrow>
     set_slots kvs table = Some (map (\<lambda>k. case map_of kvs k of None \<Rightarrow> table ! k | Some v \<Rightarrow> Some v) [0..<length table])"
proof (induction kvs arbitrary: table)
  case Nil
  then show ?case by (simp add: map_nth)
next
  case (Cons kv kvs)
  obtain k v where kv: "kv = (k, v)" by fastforce
  then have k: "k < length table" "k \<notin> fst ` set kvs" using Cons.prems by auto
  then have none: "map_of kvs k = None" by (simp add: map_of_eq_None_iff)
  have "set_slots (kv # kvs) table = set_slots kvs (table[k := Some v])" using kv k by simp
  also have "\<dots> = Some (map (\<lambda>j. case map_of kvs j of None \<Rightarrow> table[k := Some v] ! j | Some v \<Rightarrow> Some v) [0..<length table])"
    using Cons.IH [of "table[k := Some v]"] Cons.prems by auto
  also have "\<dots> = Some (map (\<lambda>j. case map_of (kv # kvs) j of None \<Rightarrow> table ! j | Some v \<Rightarrow> Some v) [0..<length table])"
    using k kv none by (auto simp: nth_list_update split: option.splits)
  finally show ?case .
qed

text \<open>A list of keyed elements, each at the index it carries: the table of a key selects the elements with that key.\<close>

lemma table_get_spec:
  assumes "\<forall>x \<in> set xs. key x < n \<and> xs ! idx x = x"
  obtains table where "push_under (map (\<lambda>x. (key x, idx x)) xs) (replicate n []) = Some table"
    "\<And>k. table_get table xs k = filter (\<lambda>x. key x = k) xs"
proof -
  let ?t = "map (\<lambda>k. map snd (filter (\<lambda>(k', _). k' = k) (map (\<lambda>x. (key x, idx x)) xs))) [0..<n]"
  have "push_under (map (\<lambda>x. (key x, idx x)) xs) (replicate n []) = Some ?t"
    using assms by (subst push_under_spec) auto
  moreover have "table_get ?t xs k = filter (\<lambda>x. key x = k) xs" for k
  proof (cases "k < n")
    case True
    moreover have "map (\<lambda>x. xs ! idx x) (filter (\<lambda>x. key x = k) xs) = filter (\<lambda>x. key x = k) xs"
      using assms by (intro map_idI) auto
    ultimately show ?thesis by (simp add: table_get_def filter_map comp_def)
  next
    case False
    then have "filter (\<lambda>x. key x = k) xs = []" using assms by (auto simp: filter_empty_conv)
    then show ?thesis using False by (simp add: table_get_def)
  qed
  ultimately show ?thesis using that by blast
qed

text \<open>Elements with different keys: the slot of a key holds the element with that key.\<close>

lemma slot_get_spec:
  assumes "\<forall>x \<in> set xs. key x < n" "distinct (map key xs)"
  obtains table where "slots_of key xs n = Some table" "\<And>k. slot_get table xs k = find (\<lambda>x. key x = k) xs"
proof -
  let ?kvs = "map (\<lambda>i. (key (xs ! i), i)) [0..<length xs]"
  have fst: "map fst ?kvs = map key xs" by (intro nth_equalityI) auto
  let ?t = "map (\<lambda>k. case map_of ?kvs k of None \<Rightarrow> None | Some v \<Rightarrow> Some v) [0..<n]"
  have "slots_of key xs n = Some ?t"
    unfolding slots_of_def using assms fst by (subst set_slots_spec) (auto split: option.splits)
  moreover have "slot_get ?t xs k = find (\<lambda>x. key x = k) xs" for k
  proof (cases "find (\<lambda>x. key x = k) xs")
    case None
    then have "\<forall>x \<in> set xs. key x \<noteq> k" by (auto simp: find_None_iff)
    then have "map_of ?kvs k = None" by (auto simp: map_of_eq_None_iff)
    then show ?thesis using None by (auto simp: slot_get_def)
  next
    case (Some x)
    then obtain i where i: "i < length xs" "xs ! i = x" "key x = k" by (auto simp: find_Some_iff)
    then have "map_of ?kvs k = Some i" using assms(2) fst by (intro map_of_is_SomeI) auto
    then show ?thesis using Some i assms(1) nth_mem [OF i(1)] by (auto simp: slot_get_def)
  qed
  ultimately show ?thesis using that by blast
qed

section \<open>Labels in order\<close>

definition label_key :: "Label \<Rightarrow> nat \<times> nat \<times> range \<times> range" where
  "label_key l = (lb_statement l, lb_scope l, lb_span l, lb_name l)"

definition label_keys :: "string \<Rightarrow> Token list \<Rightarrow> Statement \<Rightarrow> (nat \<times> nat \<times> range \<times> range) list" where
  "label_keys source tokens q = map (\<lambda>sp. (st_id q, st_scope q, ls_span sp, ls_name sp)) (statement_labels source tokens q)"

lemma push_labels_spec:
  "map label_key (push_labels q sps ls) = map label_key ls @ map (\<lambda>sp. (st_id q, st_scope q, ls_span sp, ls_name sp)) sps"
  "(\<forall>k < length ls. lb_id (ls ! k) = k) \<Longrightarrow> \<forall>k < length (push_labels q sps ls). lb_id (push_labels q sps ls ! k) = k"
proof (induction sps arbitrary: ls)
  case (Cons sp sps)
  case 1
  then show ?case using Cons.IH(1) by (simp add: label_key_def)
  case 2
  then show ?case by (simp only: push_labels.simps) (rule Cons.IH(2), auto simp: nth_append less_Suc_eq)
qed auto

lemma discover_labels_spec:
  "map label_key (discover_labels source tokens stmts) = concat (map (label_keys source tokens) stmts)"
  "k < length (discover_labels source tokens stmts) \<Longrightarrow> lb_id (discover_labels source tokens stmts ! k) = k"
proof -
  let ?f = "\<lambda>q. push_labels q (statement_labels source tokens q)"
  have "map label_key (fold ?f stmts ls) = map label_key ls @ concat (map (label_keys source tokens) stmts)" for ls
    by (induction stmts arbitrary: ls) (simp_all add: push_labels_spec(1) label_keys_def)
  then show "map label_key (discover_labels source tokens stmts) = concat (map (label_keys source tokens) stmts)"
    by (simp add: discover_labels_def)
  have "(\<forall>k < length ls. lb_id (ls ! k) = k) \<Longrightarrow> \<forall>k < length (fold ?f stmts ls). lb_id (fold ?f stmts ls ! k) = k" for ls
  proof (induction stmts arbitrary: ls)
    case (Cons q qs)
    then show ?case using Cons.IH [OF push_labels_spec(2) [OF Cons.prems]] by simp
  qed simp
  then show "k < length (discover_labels source tokens stmts) \<Longrightarrow> lb_id (discover_labels source tokens stmts ! k) = k"
    by (simp add: discover_labels_def)
qed

lemma sorted_wrt_concat:
  assumes "\<forall>xs \<in> set xss. sorted_wrt R xs" "sorted_wrt (\<lambda>xs ys. \<forall>x \<in> set xs. \<forall>y \<in> set ys. R x y) xss"
  shows "sorted_wrt R (concat xss)"
  using assms by (induction xss) (auto simp: sorted_wrt_append)

text \<open>A label as its statement has it.\<close>

definition label_fits :: "string \<Rightarrow> Statement \<Rightarrow> Label \<Rightarrow> bool" where
  "label_fits source q l \<longleftrightarrow> lb_statement l = st_id q \<and> lb_scope l = st_scope q \<and> inside source (st_span q) (lb_span l) \<and>
     range_start (lb_span l) < range_end (lb_span l) \<and> inside source (lb_span l) (lb_name l) \<and> range_start (lb_name l) = range_start (lb_span l)"

lemma statement_labels_spec:
  assumes "statement_in source tokens q" "k < length (statement_labels source tokens q)"
  shows "label_at tokens (significant_token_indices tokens q) k (statement_labels source tokens q ! k)"
  using leading_label_spans_spec(3) [of source tokens "significant_token_indices tokens q" _ _ k] assms(2)
  by (metis prod.collapse statement_labels_def)

lemma label_spans_fit:
  assumes "statement_in source tokens q" "sp \<in> set (statement_labels source tokens q)"
  shows "inside source (st_span q) (ls_span sp) \<and> range_start (ls_span sp) < range_end (ls_span sp) \<and>
    inside source (ls_span sp) (ls_name sp) \<and> range_start (ls_name sp) = range_start (ls_span sp)"
proof -
  let ?sig = "significant_token_indices tokens q"
  obtain k where k: "k < length (statement_labels source tokens q)" "sp = statement_labels source tokens q ! k"
    using assms(2) by (auto simp: in_set_conv_nth)
  then have at: "2 * k + 1 < length ?sig" "ls_name sp = token_span (tokens ! (?sig ! (2 * k)))"
    "ls_span sp = (token_start (tokens ! (?sig ! (2 * k))), token_end (tokens ! (?sig ! (2 * k + 1))))"
    using statement_labels_spec [OF assms(1) k(1)] by (simp_all add: label_at_def)
  have "token_end (tokens ! (?sig ! (2 * k))) \<le> token_start (tokens ! (?sig ! (2 * k + 1)))"
    using sig_order [of tokens q source "2 * k" "2 * k + 1"] assms(1) at(1) by (simp add: statement_in_def)
  moreover have "token_start (tokens ! (?sig ! (2 * k))) < token_end (tokens ! (?sig ! (2 * k)))"
    using sig_span(2) [of tokens q source "2 * k"] assms(1) at(1) by (simp add: statement_in_def)
  ultimately show ?thesis
    using sig_inside [OF assms(1), of "2 * k"] sig_inside [OF assms(1), of "2 * k + 1"] at by (auto simp: inside_def token_span_def)
qed

lemma label_spans_sorted:
  assumes "statement_in source tokens q"
  shows "sorted_wrt (\<lambda>sp sp'. range_end (ls_span sp) \<le> range_start (ls_span sp')) (statement_labels source tokens q)"
  unfolding sorted_wrt_iff_nth_less
proof (intro allI impI)
  fix i j assume ij: "i < j" "j < length (statement_labels source tokens q)"
  let ?sig = "significant_token_indices tokens q"
  have "label_at tokens ?sig i (statement_labels source tokens q ! i)" "label_at tokens ?sig j (statement_labels source tokens q ! j)"
    using statement_labels_spec [OF assms] ij by auto
  then show "range_end (ls_span (statement_labels source tokens q ! i)) \<le> range_start (ls_span (statement_labels source tokens q ! j))"
    using sig_order [of tokens q source "2 * i + 1" "2 * j"] assms ij(1) by (simp add: label_at_def statement_in_def)
qed

lemma discovered_label:
  assumes "l \<in> set (discover_labels source tokens stmts)" "\<forall>q \<in> set stmts. statement_in source tokens q"
  obtains q where "q \<in> set stmts" "label_fits source q l"
proof -
  have "label_key l \<in> set (concat (map (label_keys source tokens) stmts))"
    using assms(1) discover_labels_spec(1) [of source tokens stmts] by (metis image_eqI set_map)
  then obtain q sp where q: "q \<in> set stmts" "sp \<in> set (statement_labels source tokens q)"
    "label_key l = (st_id q, st_scope q, ls_span sp, ls_name sp)" by (auto simp: label_keys_def)
  then show ?thesis using that label_spans_fit [of source tokens q sp] assms(2) by (auto simp: label_fits_def label_key_def)
qed

lemma discovered_sorted:
  assumes "\<forall>q \<in> set stmts. statement_in source tokens q" "sorted_wrt (\<lambda>q q'. range_end (st_span q) \<le> range_start (st_span q')) stmts"
  shows "sorted_wrt (\<lambda>l l'. range_end (lb_span l) \<le> range_start (lb_span l')) (discover_labels source tokens stmts)"
proof -
  let ?R = "\<lambda>(_, _, r, _) (_, _, r', _). range_end r \<le> (range_start r' :: nat)"
  have "sorted_wrt ?R (concat (map (label_keys source tokens) stmts))"
  proof (rule sorted_wrt_concat)
    show "\<forall>xs \<in> set (map (label_keys source tokens) stmts). sorted_wrt ?R xs"
      using assms(1) label_spans_sorted by (auto simp: label_keys_def sorted_wrt_map)
    have "range_end r \<le> range_start r'"
      if "q \<in> set stmts" "q' \<in> set stmts" "range_end (st_span q) \<le> range_start (st_span q')"
        "(a, b, r, c) \<in> set (label_keys source tokens q)" "(a', b', r', c') \<in> set (label_keys source tokens q')" for q q' a b r c a' b' r' c'
      using that label_spans_fit [of source tokens q] label_spans_fit [of source tokens q'] assms(1)
      by (fastforce simp: label_keys_def inside_def)
    then show "sorted_wrt (\<lambda>xs ys. \<forall>x \<in> set xs. \<forall>y \<in> set ys. ?R x y) (map (label_keys source tokens) stmts)"
      unfolding sorted_wrt_map by (intro sorted_wrt_mono_rel [OF _ assms(2)]) blast
  qed
  then show ?thesis
    unfolding discover_labels_spec(1) [symmetric] sorted_wrt_map by (simp add: label_key_def)
qed

end
