(* ===== verification/Ptx_Callables.thy ===== *)
theory Ptx_Callables
  imports Ptx_Document_Facts
begin

text \<open>
  Callable definitions. The delimiters of a scope are the braces of the source and its header stands in front of its opening
  brace, so the text of a callable definition is its header, its body, and the two braces.
\<close>

section \<open>What a parse returns\<close>

text \<open>The facts about a parsed source the views rest on.\<close>

definition parsed_ok :: "string \<Rightarrow> Token list \<Rightarrow> ParsedSyntax \<Rightarrow> bool" where
  "parsed_ok source tokens p \<longleftrightarrow>
     (\<forall>q \<in> set (statements p). statement_in source tokens q \<and> st_scope q < length (scopes p) \<and> st_id q < length (statements p) \<and>
        statements p ! st_id q = q) \<and>
     sorted_wrt (\<lambda>q q'. range_end (st_span q) \<le> range_start (st_span q')) (statements p) \<and>
     sorted_wrt (\<lambda>q q'. st_id q < st_id q') (statements p) \<and>
     (\<forall>k < length (scopes p). sc_id (scopes p ! k) = k \<and> scope_braces source (statements p) (scopes p ! k) \<and>
        (\<forall>a b. sc_open (scopes p ! k) = Some a \<and> sc_close (scopes p ! k) = Some b \<longrightarrow>
           range_end a \<le> range_start b \<and> range_end (sc_span (scopes p ! k)) = range_end b) \<and>
        (sc_open (scopes p ! k) = None \<longrightarrow> sc_close (scopes p ! k) = None))"

lemma lex_small: "lex source = Ok tokens \<Longrightarrow> length source \<le> U32_MAX"
  by (simp add: lex_def split: if_splits)

lemma scope_delimiters:
  assumes "inv_scopes source scs stack P" "k < length scs"
  shows "(\<forall>a b. sc_open (scs ! k) = Some a \<and> sc_close (scs ! k) = Some b \<longrightarrow> range_end a \<le> range_start b \<and> range_end (sc_span (scs ! k)) = range_end b) \<and>
    (sc_open (scs ! k) = None \<longrightarrow> sc_close (scs ! k) = None)"
proof (cases "k = 0")
  case True
  then show ?thesis using assms by (simp add: inv_scopes_def)
next
  case False
  then obtain p where "scope_in source scs stack P k p" using assms unfolding inv_scopes_def by blast
  then show ?thesis by (auto simp: scope_in_def)
qed

lemma parse_ok:
  assumes "valid_str source" "lex source = Ok tokens"
  obtains p where "parse source tokens = Some p" "parsed_ok source tokens p"
proof -
  have lexed: "lexed source tokens" using lex_partitioned [OF assms] by (simp add: lexed_def)
  note init = parser_init_inv [OF lexed]
  obtain p where p: "parse source tokens = Some p" using parse_result [OF lexed] by metis
  obtain st where st: "parse_loop source tokens (parser_init source tokens) = Some st" "statements p = ps_statements st" "scopes p = ps_scopes st"
    using parse_Some [OF p] .
  have inv: "parser_inv source tokens st" using parse_loop_inv [OF init lexed] st(1) by auto
  note i = inv [unfolded parser_inv_def, folded st(2,3)]
  have c: "ps_cursor st \<le> length tokens" using i by (simp add: inv_own_def)
  note sts = conjunct1 [OF conjunct2 [OF i]] and scs = conjunct1 [OF conjunct2 [OF conjunct2 [OF i]]]
  have ids: "st_id (statements p ! k) = k" if "k < length (statements p)" for k using statement_bytes(1) [OF sts lexed c that] .
  have "statement_in source tokens q \<and> st_scope q < length (scopes p) \<and> st_id q < length (statements p) \<and> statements p ! st_id q = q"
    if q: "q \<in> set (statements p)" for q
  proof -
    obtain k where k: "k < length (statements p)" "q = statements p ! k" using q by (auto simp: in_set_conv_nth)
    have "range_start (st_tokens q) < range_end (st_tokens q)" "range_end (st_tokens q) \<le> length tokens"
      using sts k c by (auto simp: inv_statements_def intro: order.trans)
    then have "statement_ok tokens q" using statement_bytes(2,3) [OF sts lexed c k(1)] k(2) by (simp add: statement_ok_def prod_eq_iff)
    then show ?thesis
      using i q k ids assms lexed lex_small [OF assms(2)] length_masked [OF assms] by (auto simp: statement_in_def inv_inside_def)
  qed
  moreover have "sorted_wrt (\<lambda>q q'. st_id q < st_id q') (statements p)" by (simp add: sorted_wrt_iff_nth_less ids)
  moreover have "\<forall>k < length (scopes p). scope_braces source (statements p) (scopes p ! k)" using parse_braces [OF lexed p] by simp
  moreover have "\<forall>k < length (scopes p). sc_id (scopes p ! k) = k" using scs unfolding inv_scopes_def by blast
  ultimately show ?thesis
    using that [OF p] statements_sorted [OF sts lexed c] scope_delimiters [OF scs] by (simp add: parsed_ok_def)
qed

section \<open>Callables\<close>

text \<open>A callable as its header statement and its scope have it. The text of a definition is its header, a brace, its body, a
  brace.\<close>

definition callable_fits :: "string \<Rightarrow> Statement \<Rightarrow> Callable \<Rightarrow> bool" where
  "callable_fits source q c \<longleftrightarrow> cl_statement c = st_id q \<and> cl_scope c = st_scope q \<and> range_start (cl_span c) = range_start (st_span q) \<and>
     inside source (st_span q) (cl_name c) \<and> inside source (st_span q) (cl_header c) \<and> inside source (0, length source) (cl_span c) \<and>
     (case cl_body c of
        None \<Rightarrow> cl_span c = st_span q
      | Some body \<Rightarrow> \<exists>hdr. definition_header_span source c = Some (Some hdr) \<and> inside source (cl_span c) hdr \<and> inside source (cl_span c) body \<and>
          range_end (st_span q) \<le> range_end hdr \<and>
          between source (range_start (cl_span c)) (range_end (cl_span c)) =
            between source (range_start hdr) (range_end hdr) @ ''{'' @ between source (range_start body) (range_end body) @ ''}'')"

lemma closed_definition_spec:
  assumes "closed_definition scs q = Some sc" "\<forall>k < length scs. sc_id (scs ! k) = k"
  shows "sc \<in> set scs" "sc_header sc = Some (st_id q)" "sc_close sc \<noteq> None"
proof -
  obtain k where k: "definition_scope_of scs q = Some k" "k < length scs" "sc_close (scs ! k) \<noteq> None" "sc = scs ! k"
    using assms(1) by (auto simp: closed_definition_def split: option.splits if_splits)
  then obtain j where "j < length scs" "sc_header (scs ! j) = Some (st_id q)" "sc_id (scs ! j) = k"
    by (auto simp: definition_scope_of_def find_Some_iff)
  then have "sc_header (scs ! k) = Some (st_id q)" using assms(2) by auto
  then show "sc \<in> set scs" "sc_header sc = Some (st_id q)" "sc_close sc \<noteq> None" using k by auto
qed

lemma definition_text:
  assumes "valid_str source" "a \<le> range_start opn" "brace_at source (CHR ''{'') opn" "brace_at source (CHR ''}'') cls" "range_end opn \<le> range_start cls"
  shows "between source a (range_end cls) =
      between source a (range_start opn) @ ''{'' @ between source (range_end opn) (range_start cls) @ ''}''"
    "bd source (range_start opn)" "bd source (range_end opn)" "bd source (range_start cls)" "bd source (range_end cls)"
proof -
  let ?o = "range_start opn" and ?c = "range_start cls"
  have o: "?o < length source" "source ! ?o = CHR ''{''" "range_end opn = Suc ?o" "?c < length source" "source ! ?c = CHR ''}''" "range_end cls = Suc ?c"
    using assms(3,4) by (auto simp: brace_at_def)
  have "between source a (Suc ?c) = between source a ?o @ between source ?o (Suc ?o) @ between source (Suc ?o) ?c @ between source ?c (Suc ?c)"
    using between_split [of a ?o "Suc ?c" source] between_split [of ?o "Suc ?o" "Suc ?c" source] between_split [of "Suc ?o" ?c "Suc ?c" source]
      assms(2,5) o(3) by simp
  then show "between source a (range_end cls) =
      between source a ?o @ ''{'' @ between source (range_end opn) ?c @ ''}''"
    using o between_Cons [of ?o "Suc ?o" source] between_Cons [of ?c "Suc ?c" source] by simp
  have "byte_val (source ! ?o) < 128" "byte_val (source ! ?c) < 128" unfolding o(2,5) by (simp_all add: byte_val_def)
  then show "bd source ?o" "bd source (range_end opn)" "bd source ?c" "bd source (range_end cls)"
    using bd_ascii bd_after_ascii [OF assms(1)] o by auto
qed

lemma definition_body:
  assumes ok: "parsed_ok source tokens p" and q: "q \<in> set (statements p)" and sc: "closed_definition (scopes p) q = Some sc"
  obtains opn cls where "body_span sc = (range_end opn, range_start cls)" "range_end (sc_span sc) = range_end cls"
    "brace_at source (CHR ''{'') opn" "brace_at source (CHR ''}'') cls" "range_end opn \<le> range_start cls" "range_end (st_span q) \<le> range_start opn"
proof -
  note d = closed_definition_spec [OF sc]
  have ids: "\<forall>k < length (scopes p). sc_id (scopes p ! k) = k" using ok by (simp add: parsed_ok_def)
  obtain k where k: "k < length (scopes p)" "sc = scopes p ! k" using d(1) [OF ids] by (auto simp: in_set_conv_nth)
  have br: "scope_braces source (statements p) sc" and dl: "\<And>a b. sc_open sc = Some a \<Longrightarrow> sc_close sc = Some b \<Longrightarrow>
      range_end a \<le> range_start b \<and> range_end (sc_span sc) = range_end b"
    using ok k by (auto simp: parsed_ok_def)
  have "statements p ! st_id q = q" using ok q by (simp add: parsed_ok_def)
  then obtain opn where opn: "sc_open sc = Some opn" "range_end (st_span q) \<le> range_start opn"
    using br d(2) [OF ids] by (auto simp: scope_braces_def)
  obtain cls where cls: "sc_close sc = Some cls" using d(3) [OF ids] by auto
  show ?thesis using that [of opn cls] opn cls br dl by (simp add: body_span_def scope_braces_def)
qed

lemma callable_of_spec:
  assumes ok: "parsed_ok source tokens p" and q: "q \<in> set (statements p)"
  shows "case callable_of source tokens (scopes p) q of Ok c \<Rightarrow> callable_fits source q c | Err ds \<Rightarrow> ds = [(MalformedCallable, st_span q)] | Panic \<Rightarrow> False"
proof -
  let ?sig = "significant_token_indices tokens q"
  have s: "statement_in source tokens q" using ok q by (simp add: parsed_ok_def)
  note v = s [unfolded statement_in_def]
  have qb: "bd source (range_start (st_span q))" "bd source (range_end (st_span q))" "range_start (st_span q) < range_end (st_span q)"
    using statement_bd [of tokens q source] v by auto
  have fits: "callable_fits source q \<lparr>cl_statement = st_id q, cl_scope = st_scope q, cl_definition_scope = definition_scope_of (scopes p) q,
       cl_kind = kind, cl_span = (case closed_definition (scopes p) q of None \<Rightarrow> st_span q | Some sc \<Rightarrow> (range_start (st_span q), range_end (sc_span sc))),
       cl_header = (range_start (st_span q), token_end (tokens ! (?sig ! cursor))), cl_body = map_option body_span (closed_definition (scopes p) q),
       cl_name = token_span (tokens ! (?sig ! cursor)), cl_extern = ext\<rparr>"
    if c: "cursor < length ?sig" for cursor kind ext
  proof -
    note name = sig_inside [OF s c]
    then have hdr: "inside source (st_span q) (range_start (st_span q), token_end (tokens ! (?sig ! cursor)))"
      using qb(1) by (auto simp: inside_def token_span_def)
    show ?thesis
    proof (cases "closed_definition (scopes p) q")
      case None
      then show ?thesis using name hdr qb by (simp add: callable_fits_def inside_def bd_def)
    next
      case (Some sc)
      obtain opn cls where b: "body_span sc = (range_end opn, range_start cls)" "range_end (sc_span sc) = range_end cls"
        "brace_at source (CHR ''{'') opn" "brace_at source (CHR ''}'') cls" "range_end opn \<le> range_start cls" "range_end (st_span q) \<le> range_start opn"
        using definition_body [OF ok q Some] .
      have "range_start (st_span q) \<le> range_start opn" using b(6) qb(3) by simp
      note t = definition_text [OF conjunct1 [OF v] this b(3-5)]
      show ?thesis using Some name hdr qb b t
        by (simp add: callable_fits_def definition_header_span_def inside_def brace_at_def bd_def)
    qed
  qed
  show ?thesis
    using fits by (auto simp: callable_of_def Let_def split: option.splits)
qed

end
