(* ===== verification/Ptx_Document.thy ===== *)
theory Ptx_Document
  imports Ptx_Callables
begin

text \<open>
  The document of a valid source: parsing never panics, every view fits the statement it comes from, range queries and
  lookups return exactly the views they promise, and the text of a definition is recovered from its parts.
\<close>

section \<open>Views of a document\<close>

definition views_fit :: "string \<Rightarrow> Document \<Rightarrow> bool" where
  "views_fit source doc \<longleftrightarrow>
     (\<forall>l \<in> set (doc_labels doc). \<exists>q \<in> set (doc_statements doc). label_fits source q l) \<and>
     (\<forall>d \<in> set (doc_directives doc). \<exists>q \<in> set (doc_statements doc). st_kind q = DirectiveStatement \<and> directive_fits source q d) \<and>
     (\<forall>c \<in> set (doc_callables doc). \<exists>q \<in> set (doc_statements doc). st_kind q = CallableHeader \<and> callable_fits source q c) \<and>
     (\<forall>i \<in> set (doc_instructions doc). \<exists>q \<in> set (doc_statements doc). st_kind q = InstructionStatement \<and> instruction_fits source q i)"

definition views_ordered :: "Document \<Rightarrow> bool" where
  "views_ordered doc \<longleftrightarrow>
     sorted_wrt (\<lambda>l l'. range_end (lb_span l) \<le> range_start (lb_span l')) (doc_labels doc) \<and>
     sorted_wrt (\<lambda>d d'. range_end (dr_span d) \<le> range_start (dr_span d')) (doc_directives doc) \<and>
     sorted_wrt (\<lambda>i i'. range_end (in_span i) \<le> range_start (in_span i')) (doc_instructions doc)"

definition lookups_ok :: "Document \<Rightarrow> bool" where
  "lookups_ok doc \<longleftrightarrow>
     (\<forall>k. statements_in_scope doc k = filter (\<lambda>q. st_scope q = k) (doc_statements doc)) \<and>
     (\<forall>k. labels_for_statement doc k = filter (\<lambda>l. lb_statement l = k) (doc_labels doc)) \<and>
     (\<forall>k. directive_for_statement doc k = find (\<lambda>d. dr_statement d = k) (doc_directives doc)) \<and>
     (\<forall>k. callable_for_statement doc k = find (\<lambda>c. cl_statement c = k) (doc_callables doc)) \<and>
     (\<forall>k. instruction_for_statement doc k = find (\<lambda>i. in_statement i = k) (doc_instructions doc))"

text \<open>The views of one kind of statements, projected by a function that never panics, and the table from statements to
  views.\<close>

lemma projected:
  assumes ok: "parsed_ok source tokens p"
    and spec: "\<And>q. q \<in> set (statements p) \<Longrightarrow> case f q of Ok v \<Rightarrow> F q v | Err _ \<Rightarrow> True | Panic \<Rightarrow> False"
    and keys: "\<And>q v. F q v \<Longrightarrow> key v = st_id q"
  obtains vs ds table where "project f (of_kind kind (statements p)) = Some (vs, ds)"
    "\<forall>v \<in> set vs. \<exists>q \<in> set (statements p). st_kind q = kind \<and> F q v"
    "slots_of key vs (length (statements p)) = Some table" "\<forall>k. slot_get table vs k = find (\<lambda>v. key v = k) vs"
    "(\<forall>q v. F q v \<longrightarrow> sp v = st_span q) \<longrightarrow> sorted_wrt (\<lambda>v v'. range_end (sp v) \<le> range_start (sp v')) vs"
proof -
  let ?qs = "of_kind kind (statements p)"
  have qs: "q \<in> set (statements p) \<and> st_kind q = kind" if "q \<in> set ?qs" for q using that by (auto simp: of_kind_def)
  have F: "F q v" if "q \<in> set ?qs" "f q = Ok v" for q v using spec [of q] qs that by fastforce
  have "f q \<noteq> Panic" if "q \<in> set ?qs" for q using spec [of q] qs that by fastforce
  then obtain vs ds where vs: "project f ?qs = Some (vs, ds)" using project_total by blast
  have mem: "\<exists>q \<in> set (statements p). st_kind q = kind \<and> F q v" if v: "v \<in> set vs" for v
  proof -
    obtain q where "q \<in> set ?qs" "f q = Ok v" using project_member [OF vs v] .
    then show ?thesis using qs F by blast
  qed
  have sorted: "sorted_wrt (\<lambda>q q'. st_id q < st_id q') ?qs" "sorted_wrt (\<lambda>q q'. range_end (st_span q) \<le> range_start (st_span q')) ?qs"
    using ok by (simp_all add: parsed_ok_def of_kind_def sorted_wrt_filter)
  have "sorted_wrt (\<lambda>v v'. key v < key v') vs" by (rule project_sorted [OF vs sorted(1)]) (metis F keys)
  then have "distinct (map key vs)" using sorted_wrt_map [of "(<)" key vs] strict_sorted_iff [of "map key vs"] by simp
  moreover have "\<forall>v \<in> set vs. key v < length (statements p)" using mem keys ok by (fastforce simp: parsed_ok_def)
  ultimately obtain table where "slots_of key vs (length (statements p)) = Some table" "\<forall>k. slot_get table vs k = find (\<lambda>v. key v = k) vs"
    using slot_get_spec by metis
  moreover have "sorted_wrt (\<lambda>v v'. range_end (sp v) \<le> range_start (sp v')) vs" if "\<forall>q v. F q v \<longrightarrow> sp v = st_span q"
    by (rule project_sorted [OF vs sorted(2)]) (use F that in metis)
  ultimately show ?thesis using that vs mem by blast
qed

lemma directives_projected:
  assumes "parsed_ok source tokens p"
  obtains vs ds table where "discover_directives source tokens (statements p) = Some (vs, ds)"
    "\<forall>v \<in> set vs. \<exists>q \<in> set (statements p). st_kind q = DirectiveStatement \<and> directive_fits source q v"
    "slots_of dr_statement vs (length (statements p)) = Some table" "\<forall>k. slot_get table vs k = find (\<lambda>v. dr_statement v = k) vs"
    "sorted_wrt (\<lambda>v v'. range_end (dr_span v) \<le> range_start (dr_span v')) vs"
proof -
  have "case directive_of source tokens q of Ok v \<Rightarrow> directive_fits source q v | Err _ \<Rightarrow> True | Panic \<Rightarrow> False"
    if "q \<in> set (statements p)" for q
    using directive_of_spec [of source tokens q] assms that by (auto simp: parsed_ok_def split: outcome.splits)
  note spec = this
  have keys: "dr_statement v = st_id q" if "directive_fits source q v" for q v using that by (simp add: directive_fits_def)
  obtain vs ds table where v: "project (directive_of source tokens) (of_kind DirectiveStatement (statements p)) = Some (vs, ds)"
    "\<forall>v \<in> set vs. \<exists>q \<in> set (statements p). st_kind q = DirectiveStatement \<and> directive_fits source q v"
    "slots_of dr_statement vs (length (statements p)) = Some table" "\<forall>k. slot_get table vs k = find (\<lambda>v. dr_statement v = k) vs"
    "(\<forall>q v. directive_fits source q v \<longrightarrow> dr_span v = st_span q) \<longrightarrow> sorted_wrt (\<lambda>v v'. range_end (dr_span v) \<le> range_start (dr_span v')) vs"
    using projected [where kind = DirectiveStatement and sp = dr_span, OF assms spec keys] .
  show ?thesis using that [OF _ v(2-4)] v(1,5) by (simp add: discover_directives_def directive_fits_def)
qed

lemma callables_projected:
  assumes "parsed_ok source tokens p"
  obtains vs ds table where "discover_callables source tokens (statements p) (scopes p) = Some (vs, ds)"
    "\<forall>v \<in> set vs. \<exists>q \<in> set (statements p). st_kind q = CallableHeader \<and> callable_fits source q v"
    "slots_of cl_statement vs (length (statements p)) = Some table" "\<forall>k. slot_get table vs k = find (\<lambda>v. cl_statement v = k) vs"
proof -
  have "case callable_of source tokens (scopes p) q of Ok v \<Rightarrow> callable_fits source q v | Err _ \<Rightarrow> True | Panic \<Rightarrow> False"
    if "q \<in> set (statements p)" for q
    using callable_of_spec [OF assms that] by (auto split: outcome.splits)
  note spec = this
  have keys: "cl_statement v = st_id q" if "callable_fits source q v" for q v using that by (simp add: callable_fits_def)
  obtain vs ds table where v: "project (callable_of source tokens (scopes p)) (of_kind CallableHeader (statements p)) = Some (vs, ds)"
    "\<forall>v \<in> set vs. \<exists>q \<in> set (statements p). st_kind q = CallableHeader \<and> callable_fits source q v"
    "slots_of cl_statement vs (length (statements p)) = Some table" "\<forall>k. slot_get table vs k = find (\<lambda>v. cl_statement v = k) vs"
    "(\<forall>q v. callable_fits source q v \<longrightarrow> cl_span v = st_span q) \<longrightarrow> sorted_wrt (\<lambda>v v'. range_end (cl_span v) \<le> range_start (cl_span v')) vs"
    using projected [where kind = CallableHeader and sp = cl_span, OF assms spec keys] .
  show ?thesis using that [OF _ v(2-4)] v(1,5) by (simp add: discover_callables_def)
qed

lemma instructions_projected:
  assumes "parsed_ok source tokens p"
  obtains vs ds table where "discover_instructions source (masked_text source tokens) tokens (statements p) diags = Some (vs, ds)"
    "\<forall>v \<in> set vs. \<exists>q \<in> set (statements p). st_kind q = InstructionStatement \<and> instruction_fits source q v"
    "slots_of in_statement vs (length (statements p)) = Some table" "\<forall>k. slot_get table vs k = find (\<lambda>v. in_statement v = k) vs"
    "sorted_wrt (\<lambda>v v'. range_end (in_span v) \<le> range_start (in_span v')) vs"
proof -
  have "case instruction_of source (masked_text source tokens) tokens diags q of Ok v \<Rightarrow> instruction_fits source q v | Err _ \<Rightarrow> True | Panic \<Rightarrow> False"
    if "q \<in> set (statements p)" for q
    using instruction_from_statement_spec [of source tokens q] assms that
    by (cases "instruction_from_statement source (masked_text source tokens) tokens q") (auto simp: instruction_of_def parsed_ok_def)
  note spec = this
  have keys: "in_statement v = st_id q" if "instruction_fits source q v" for q v using that by (simp add: instruction_fits_def)
  obtain vs ds table where v: "project (instruction_of source (masked_text source tokens) tokens diags) (of_kind InstructionStatement (statements p)) = Some (vs, ds)"
    "\<forall>v \<in> set vs. \<exists>q \<in> set (statements p). st_kind q = InstructionStatement \<and> instruction_fits source q v"
    "slots_of in_statement vs (length (statements p)) = Some table" "\<forall>k. slot_get table vs k = find (\<lambda>v. in_statement v = k) vs"
    "(\<forall>q v. instruction_fits source q v \<longrightarrow> in_span v = st_span q) \<longrightarrow> sorted_wrt (\<lambda>v v'. range_end (in_span v) \<le> range_start (in_span v')) vs"
    using projected [where kind = InstructionStatement and sp = in_span, OF assms spec keys] .
  show ?thesis using that [OF _ v(2-4)] v(1,5) by (simp add: discover_instructions_def instruction_fits_def)
qed

lemma labels_projected:
  assumes ok: "parsed_ok source tokens p"
  defines "ls \<equiv> discover_labels source tokens (statements p)"
  obtains table where "\<forall>l \<in> set ls. \<exists>q \<in> set (statements p). label_fits source q l"
    "push_under (map (\<lambda>l. (lb_statement l, lb_id l)) ls) (replicate (length (statements p)) []) = Some table"
    "\<forall>k. table_get table ls k = filter (\<lambda>l. lb_statement l = k) ls"
    "sorted_wrt (\<lambda>l l'. range_end (lb_span l) \<le> range_start (lb_span l')) ls"
proof -
  have sin: "\<forall>q \<in> set (statements p). statement_in source tokens q" using ok by (simp add: parsed_ok_def)
  have fit: "\<forall>l \<in> set ls. \<exists>q \<in> set (statements p). label_fits source q l" using discovered_label [OF _ sin] unfolding ls_def by metis
  have "lb_statement l < length (statements p) \<and> ls ! lb_id l = l" if l: "l \<in> set ls" for l
  proof -
    obtain k where "k < length ls" "l = ls ! k" using l by (auto simp: in_set_conv_nth)
    then have "ls ! lb_id l = l" using discover_labels_spec(2) [of k source tokens "statements p"] by (simp add: ls_def)
    then show ?thesis using fit l ok by (auto simp: label_fits_def parsed_ok_def)
  qed
  then have pre: "\<forall>l \<in> set ls. lb_statement l < length (statements p) \<and> ls ! lb_id l = l" by blast
  obtain table where "push_under (map (\<lambda>l. (lb_statement l, lb_id l)) ls) (replicate (length (statements p)) []) = Some table"
    "\<And>k. table_get table ls k = filter (\<lambda>l. lb_statement l = k) ls"
    using table_get_spec [where key = lb_statement and idx = lb_id, OF pre] by blast
  then show ?thesis using that fit discovered_sorted [OF sin] ok by (simp add: ls_def parsed_ok_def)
qed

lemma document_parse_spec:
  assumes "valid_str source" "lex source = Ok tokens"
  obtains doc where "document_parse source = Ok doc" "doc_source doc = source" "doc_tokens doc = tokens"
    "views_fit source doc" "views_ordered doc" "lookups_ok doc"
proof -
  obtain p where p: "parse source tokens = Some p" "parsed_ok source tokens p" using parse_ok [OF assms] .
  note masked = mask_non_code_spec [OF assms]
  obtain ds dd t1 where d: "discover_directives source tokens (statements p) = Some (ds, dd)"
    "\<forall>v \<in> set ds. \<exists>q \<in> set (statements p). st_kind q = DirectiveStatement \<and> directive_fits source q v"
    "slots_of dr_statement ds (length (statements p)) = Some t1" "\<forall>k. slot_get t1 ds k = find (\<lambda>v. dr_statement v = k) ds"
    "sorted_wrt (\<lambda>v v'. range_end (dr_span v) \<le> range_start (dr_span v')) ds" using directives_projected [OF p(2)] .
  obtain cs cd t2 where c: "discover_callables source tokens (statements p) (scopes p) = Some (cs, cd)"
    "\<forall>v \<in> set cs. \<exists>q \<in> set (statements p). st_kind q = CallableHeader \<and> callable_fits source q v"
    "slots_of cl_statement cs (length (statements p)) = Some t2" "\<forall>k. slot_get t2 cs k = find (\<lambda>v. cl_statement v = k) cs"
    using callables_projected [OF p(2)] .
  obtain ins ind t3 where i: "discover_instructions source (masked_text source tokens) tokens (statements p) (diagnostics p) = Some (ins, ind)"
    "\<forall>v \<in> set ins. \<exists>q \<in> set (statements p). st_kind q = InstructionStatement \<and> instruction_fits source q v"
    "slots_of in_statement ins (length (statements p)) = Some t3" "\<forall>k. slot_get t3 ins k = find (\<lambda>v. in_statement v = k) ins"
    "sorted_wrt (\<lambda>v v'. range_end (in_span v) \<le> range_start (in_span v')) ins" using instructions_projected [OF p(2)] .
  let ?ls = "discover_labels source tokens (statements p)"
  obtain t4 where l: "\<forall>l \<in> set ?ls. \<exists>q \<in> set (statements p). label_fits source q l"
    "push_under (map (\<lambda>l. (lb_statement l, lb_id l)) ?ls) (replicate (length (statements p)) []) = Some t4"
    "\<forall>k. table_get t4 ?ls k = filter (\<lambda>l. lb_statement l = k) ?ls"
    "sorted_wrt (\<lambda>l l'. range_end (lb_span l) \<le> range_start (lb_span l')) ?ls" using labels_projected [OF p(2)] .
  have pre: "\<forall>q \<in> set (statements p). st_scope q < length (scopes p) \<and> statements p ! st_id q = q" using p(2) by (simp add: parsed_ok_def)
  obtain t5 where s: "push_under (map (\<lambda>q. (st_scope q, st_id q)) (statements p)) (replicate (length (scopes p)) []) = Some t5"
    "\<And>k. table_get t5 (statements p) k = filter (\<lambda>q. st_scope q = k) (statements p)"
    using table_get_spec [where key = st_scope and idx = st_id, OF pre] by blast
  let ?doc = "\<lparr>doc_source = source, doc_tokens = tokens, doc_statements = statements p, doc_scopes = scopes p,
    doc_diagnostics = diagnostics p @ dd @ cd @ ind, doc_coverage = add_diagnostics (length dd + length cd + length ind) (coverage p),
    doc_labels = ?ls, doc_directives = ds, doc_callables = cs, doc_instructions = ins, statements_by_scope = t5, labels_by_statement = t4,
    directive_by_statement = t1, callable_by_statement = t2, instruction_by_statement = t3\<rparr>"
  have doc: "document_parse source = Ok ?doc"
    using masked p(1) d(1,3) c(1,3) i(1,3) l(2) s(1) assms(2) by (simp add: document_parse_def)
  show ?thesis
    using that [OF doc] d(2,4,5) c(2,4) i(2,4,5) l(1,3,4) s(2)
    by (simp add: views_fit_def views_ordered_def lookups_ok_def statements_in_scope_def labels_for_statement_def
        directive_for_statement_def callable_for_statement_def instruction_for_statement_def)
qed

end
