(* ===== verification/Ptx_Registers.thy ===== *)
theory Ptx_Registers
  imports Ptx_Views
begin

text \<open>
  Register declarations. The grammar of \<open>.reg\<close> directives as an inductive relation between tokens and bindings, and the
  parser against it.
\<close>

section \<open>Grammar\<close>

inductive one_binding :: "string \<Rightarrow> Token list \<Rightarrow> RegisterBinding \<Rightarrow> bool" for source where
  scalar: "is_binding_name source name \<Longrightarrow>
     one_binding source [name] \<lparr>rb_span = token_span name, rb_name = token_span name, rb_bank_size = None\<rparr>"
| bank: "is_binding_name source name \<Longrightarrow> token_text source lt = ''<'' \<Longrightarrow> token_text source gt = ''>'' \<Longrightarrow>
     u32_from_str (token_text source digits) = Some n \<Longrightarrow> 0 < n \<Longrightarrow>
     one_binding source [name, lt, digits, gt]
       \<lparr>rb_span = (token_start name, token_end gt), rb_name = token_span name, rb_bank_size = Some n\<rparr>"

inductive binding_list :: "string \<Rightarrow> Token list \<Rightarrow> RegisterBinding list \<Rightarrow> bool" for source where
  single: "one_binding source ts b \<Longrightarrow> binding_list source ts [b]"
| more: "one_binding source ts b \<Longrightarrow> token_text source comma = '','' \<Longrightarrow> binding_list source us bs \<Longrightarrow>
     binding_list source (ts @ comma # us) (b # bs)"

definition declares :: "string \<Rightarrow> Token list \<Rightarrow> Directive \<Rightarrow> RegisterDeclaration \<Rightarrow> bool" where
  "declares source tokens d rd \<longleftrightarrow>
     (\<exists>quals ts semicolon. argument_tokens tokens (dr_arguments d) = quals @ ts @ [semicolon] \<and> token_text source semicolon = '';'' \<and>
        quals \<noteq> [] \<and> list_all (is_qualifier source) quals \<and> binding_list source ts (rd_bindings rd) \<and>
        rd_qualifiers rd = map token_span quals) \<and>
     rd_statement rd = dr_statement d \<and> rd_scope rd = dr_scope d \<and> rd_span rd = dr_span d"

section \<open>One binding\<close>

text \<open>What a name and the tokens behind it parse to.\<close>

definition binding_at :: "string \<Rightarrow> nat \<Rightarrow> Token list \<Rightarrow> (RegisterBinding \<times> Token list, RegisterDeclarationError) outcome" where
  "binding_at source statement ts =
     (case ts of
        [] \<Rightarrow> Panic
      | name # rest \<Rightarrow> try_let (bank_size_of source statement (token_end name) rest) (\<lambda>(n, e, rest).
          Ok (\<lparr>rb_span = (token_start name, e), rb_name = token_span name, rb_bank_size = n\<rparr>, rest)))"

lemma register_error_simps [simp]: "register_error st off k \<noteq> Ok x" "register_error st off k \<noteq> Panic"
  by (simp_all add: register_error_def)

lemma bindings_from_step:
  "bindings_from source statement semicolon (name # ts) bindings =
     (if \<not> is_binding_name source name then register_error statement (token_start name) MissingBinding
      else try_let (binding_at source statement (name # ts)) (\<lambda>(b, rest).
        case rest of
          [] \<Rightarrow> Ok (bindings @ [b])
        | c # rest' \<Rightarrow>
            if token_text source c = '',''
            then if rest' \<noteq> [] then bindings_from source statement semicolon rest' (bindings @ [b])
                 else register_error statement (token_end c) MissingBinding
            else register_error statement (token_start c) UnexpectedToken))"
  by (cases "bank_size_of source statement (token_end name) ts") (auto simp: binding_at_def Let_def split: prod.splits)

declare bindings_from.simps(2) [simp del]

lemma bank_size_of_Ok:
  assumes "bank_size_of source statement e ts = Ok (n, e', rest)"
  shows "n = None \<and> e' = e \<and> rest = ts \<and> (ts \<noteq> [] \<longrightarrow> token_text source (hd ts) \<noteq> ''<'') \<or>
    (\<exists>lt digits gt k. ts = lt # digits # gt # rest \<and> token_text source lt = ''<'' \<and> token_text source gt = ''>'' \<and>
       u32_from_str (token_text source digits) = Some k \<and> 0 < k \<and> n = Some k \<and> e' = token_end gt)"
  using assms by (cases ts) (auto split: if_splits list.splits option.splits)

lemma bank_size_not_Panic: "bank_size_of source statement e ts \<noteq> Panic"
  by (cases ts) (auto split: list.splits option.splits)

lemma binding_at_sound:
  assumes "binding_at source statement (name # ts) = Ok (b, rest)" "is_binding_name source name"
  shows "\<exists>g. name # ts = g @ rest \<and> one_binding source g b"
proof -
  obtain n e where n: "bank_size_of source statement (token_end name) ts = Ok (n, e, rest)"
    "b = \<lparr>rb_span = (token_start name, e), rb_name = token_span name, rb_bank_size = n\<rparr>"
    using assms(1) by (auto simp: binding_at_def outcome_simps)
  consider (one) "n = None" "e = token_end name" "rest = ts"
    | (bank) lt digits gt k where "ts = lt # digits # gt # rest" "token_text source lt = ''<''" "token_text source gt = ''>''"
        "u32_from_str (token_text source digits) = Some k" "0 < k" "n = Some k" "e = token_end gt"
    using bank_size_of_Ok [OF n(1)] by blast
  then show ?thesis
  proof cases
    case one
    then show ?thesis using one_binding.scalar [OF assms(2)] n(2) by (intro exI [of _ "[name]"]) (simp add: token_span_def)
  next
    case bank
    then show ?thesis
      using one_binding.bank [OF assms(2) bank(2-5)] n(2) by (intro exI [of _ "[name, lt, digits, gt]"]) simp
  qed
qed

lemma binding_at_complete:
  assumes "one_binding source g b" "rest \<noteq> [] \<longrightarrow> token_text source (hd rest) = '',''"
  obtains name where "g @ rest = name # tl g @ rest" "is_binding_name source name" "binding_at source statement (name # tl g @ rest) = Ok (b, rest)"
  using assms
proof (cases rule: one_binding.cases)
  case (scalar name)
  have "bank_size_of source statement (token_end name) rest = Ok (None, token_end name, rest)" using assms(2) by (cases rest) auto
  then show ?thesis using that [of name] scalar by (simp add: binding_at_def token_span_def)
next
  case (bank name lt gt digits n)
  then show ?thesis using that [of name] by (simp add: binding_at_def)
qed

section \<open>Declarations\<close>

lemma bindings_sound:
  "bindings_from source statement semicolon ts acc = Ok out \<Longrightarrow> \<exists>bs. out = acc @ bs \<and> binding_list source ts bs"
proof (induction "length ts" arbitrary: ts acc rule: less_induct)
  case less
  then obtain name us where ts: "ts = name # us" by (cases ts) auto
  have name: "is_binding_name source name" using less.prems unfolding ts bindings_from_step by (auto split: if_splits)
  obtain b rest where b: "binding_at source statement ts = Ok (b, rest)"
    "(case rest of [] \<Rightarrow> Ok (acc @ [b])
      | c # rest' \<Rightarrow> if token_text source c = '',''
          then if rest' \<noteq> [] then bindings_from source statement semicolon rest' (acc @ [b])
               else register_error statement (token_end c) MissingBinding
          else register_error statement (token_start c) UnexpectedToken) = Ok out"
    using less.prems name unfolding ts bindings_from_step by (auto simp: outcome_simps)
  obtain g where g: "ts = g @ rest" "one_binding source g b" using binding_at_sound [OF b(1) [unfolded ts] name] ts by auto
  have "g \<noteq> []" using g(2) by (cases rule: one_binding.cases) auto
  show ?case
  proof (cases rest)
    case Nil
    then show ?thesis using b(2) g binding_list.single by auto
  next
    case (Cons c rest')
    then have c: "token_text source c = '',''" "bindings_from source statement semicolon rest' (acc @ [b]) = Ok out"
      using b(2) by (auto split: if_splits)
    have "length rest' < length ts" using g(1) Cons \<open>g \<noteq> []\<close> by simp
    then obtain bs where "out = (acc @ [b]) @ bs" "binding_list source rest' bs" using less.hyps c(2) by blast
    then show ?thesis using binding_list.more [OF g(2) c(1)] g(1) Cons by auto
  qed
qed

lemma binding_list_nonempty: "binding_list source ts bs \<Longrightarrow> ts \<noteq> [] \<and> is_binding_name source (hd ts)"
  by (induction rule: binding_list.induct) (auto elim: one_binding.cases)

lemma bindings_complete:
  "binding_list source ts bs \<Longrightarrow> bindings_from source statement semicolon ts acc = Ok (acc @ bs)"
proof (induction arbitrary: acc rule: binding_list.induct)
  case (single ts b)
  obtain name where n: "ts = name # tl ts" "is_binding_name source name" "binding_at source statement (name # tl ts) = Ok (b, [])"
    using binding_at_complete [OF single, of "[]" statement] by auto
  then show ?case using bindings_from_step [of source statement semicolon name "tl ts" acc] by simp
next
  case (more ts b comma us bs)
  obtain name where n: "ts @ comma # us = name # tl ts @ comma # us" "is_binding_name source name"
    "binding_at source statement (name # tl ts @ comma # us) = Ok (b, comma # us)"
    using binding_at_complete [OF more(1), of "comma # us" statement] more(2) by auto
  then show ?case
    using bindings_from_step [of source statement semicolon name "tl ts @ comma # us" acc] more(2,4) binding_list_nonempty [OF more(3)] unfolding n(1) by simp
qed

lemma bindings_not_Panic: "bindings_from source statement semicolon ts acc \<noteq> Panic"
proof (induction "length ts" arbitrary: ts acc rule: less_induct)
  case less
  show ?case
  proof (cases ts)
    case (Cons name us)
    have "bank_size_of source statement (token_end name) us \<noteq> Panic" by (rule bank_size_not_Panic)
    moreover have "bindings_from source statement semicolon rest' acc' \<noteq> Panic"
      if "bank_size_of source statement (token_end name) us = Ok (n, e, c # rest')" for n e c rest' acc'
      using bank_size_length [OF that] Cons by (intro less) simp
    ultimately show ?thesis unfolding Cons bindings_from_step
      by (auto simp: binding_at_def outcome_simps split: list.splits)
  qed simp
qed

lemma declaration_sound:
  assumes "register_declaration_from_directive source tokens d = Ok rd"
  shows "declares source tokens d rd"
proof -
  let ?sig = "argument_tokens tokens (dr_arguments d)"
  let ?body = "butlast ?sig" let ?quals = "takeWhile (is_qualifier source) ?body" and ?rest = "dropWhile (is_qualifier source) ?body"
  have ok: "?sig \<noteq> []" "token_text source (last ?sig) = '';''" "?quals \<noteq> []"
    using assms by (auto simp: register_declaration_from_directive_def Let_def split: if_splits)
  obtain bs where bs: "bindings_from source (dr_statement d) (last ?sig) ?rest [] = Ok bs"
    "rd = \<lparr>rd_statement = dr_statement d, rd_scope = dr_scope d, rd_span = dr_span d, rd_qualifiers = map token_span ?quals, rd_bindings = bs\<rparr>"
    using assms by (auto simp: register_declaration_from_directive_def Let_def outcome_simps split: if_splits)
  have "binding_list source ?rest bs" using bindings_sound [OF bs(1)] by simp
  moreover have "?sig = ?quals @ ?rest @ [last ?sig]" using ok(1) by (metis append.assoc append_butlast_last_id takeWhile_dropWhile_id)
  moreover have "list_all (is_qualifier source) ?quals" by (auto simp: list_all_iff dest: set_takeWhileD)
  ultimately show ?thesis using ok(2,3) bs(2) unfolding declares_def by (intro conjI exI [of _ ?quals] exI [of _ ?rest] exI [of _ "last ?sig"]) simp_all
qed

lemma declaration_complete:
  assumes "declares source tokens d rd"
  shows "register_declaration_from_directive source tokens d = Ok rd"
proof -
  obtain quals ts semicolon where g: "argument_tokens tokens (dr_arguments d) = quals @ ts @ [semicolon]" "token_text source semicolon = '';''"
    "quals \<noteq> []" "list_all (is_qualifier source) quals" "binding_list source ts (rd_bindings rd)" "rd_qualifiers rd = map token_span quals"
    and f: "rd_statement rd = dr_statement d" "rd_scope rd = dr_scope d" "rd_span rd = dr_span d"
    using assms by (auto simp: declares_def)
  obtain t us where ts: "ts = t # us" "is_binding_name source t" using binding_list_nonempty [OF g(5)] by (cases ts) auto
  then have "\<not> is_qualifier source t" by (auto simp: is_binding_name_def is_qualifier_def)
  then have "takeWhile (is_qualifier source) (quals @ ts) = quals" "dropWhile (is_qualifier source) (quals @ ts) = ts"
    using g(4) ts(1) by (auto simp: takeWhile_append2 dropWhile_append2 list_all_iff)
  moreover have "butlast (quals @ ts @ [semicolon]) = quals @ ts" by (simp add: butlast_append)
  ultimately show ?thesis
    using g f ts(1) bindings_complete [OF g(5), of "dr_statement d" semicolon "[]"]
    by (simp add: register_declaration_from_directive_def Let_def)
qed

text \<open>(C20) A register declaration is read exactly when the arguments of the directive are qualifiers, then bindings with optional bank
  sizes separated by commas, then a semicolon, and what is read is the one declaration those tokens make. Anything else is an
  error value: the parser has no panicking operation of its own, and the slices that take the texts of the tokens are in range
  for the tokens of a lexed source.\<close>

theorem register_declaration_exact:
  "register_declaration_from_directive source tokens d \<noteq> Panic \<and>
   (register_declaration_from_directive source tokens d = Ok rd \<longleftrightarrow> declares source tokens d rd)"
proof -
  have "register_declaration_from_directive source tokens d \<noteq> Panic"
    using bindings_not_Panic by (auto simp: register_declaration_from_directive_def Let_def outcome_simps)
  then show ?thesis using declaration_sound declaration_complete by blast
qed

end
