(* ===== verification/Ptx_Document_Properties.thy ===== *)
theory Ptx_Document_Properties
  imports Ptx_Document Ptx_Registers
begin

text \<open>
  What a parsed document promises: it exists for every source the lexer accepts, each of its views can be sliced from the
  source, queries by range and by statement are exact, and a definition is its header and its body in braces.
\<close>

section \<open>Range queries\<close>

text \<open>The contract of a list of views that are found by binary search: they stand in source order and none is empty.\<close>

definition is_document :: "Document \<Rightarrow> bool" where
  "is_document doc \<longleftrightarrow> valid_str (doc_source doc) \<and> document_parse (doc_source doc) = Ok doc"

locale source_view =
  fixes views :: "Document \<Rightarrow> 'v list" and span_of :: "'v \<Rightarrow> range"
  assumes ordered: "is_document doc \<Longrightarrow> sorted_wrt (\<lambda>x y. range_end (span_of x) \<le> range_start (span_of y)) (views doc)"
    and nonempty: "is_document doc \<Longrightarrow> x \<in> set (views doc) \<Longrightarrow> range_start (span_of x) < range_end (span_of x)"
begin

text \<open>The elements in front of the window start before it, those behind it do not end in it.\<close>

lemma window:
  assumes "sorted_wrt (\<lambda>x y. range_end (span_of x) \<le> range_start (span_of y)) xs" "\<forall>x \<in> set xs. range_start (span_of x) < range_end (span_of x)"
  shows "contained span_of xs span = filter (\<lambda>x. range_start span \<le> range_start (span_of x) \<and> range_end (span_of x) \<le> range_end span) xs"
  using assms
proof (induction xs)
  case (Cons x xs)
  have IH: "contained span_of xs span = filter (\<lambda>x. range_start span \<le> range_start (span_of x) \<and> range_end (span_of x) \<le> range_end span) xs"
    using Cons by simp
  show ?case
  proof (cases "range_start (span_of x) < range_start span")
    case True
    then show ?thesis using IH by (simp add: contained_def partition_point_def)
  next
    case False
    have later: "range_start (span_of x) < range_start (span_of y)" if "y \<in> set xs" for y using Cons.prems that by fastforce
    then have "takeWhile (\<lambda>y. range_start (span_of y) < range_start span) xs = []"
      using False by (cases xs) (auto simp: not_less intro: order.trans less_imp_le)
    moreover have "filter (\<lambda>x. range_start span \<le> range_start (span_of x) \<and> range_end (span_of x) \<le> range_end span) xs = []"
      if "\<not> range_start (span_of x) < range_end span"
      using that later Cons.prems(2) by (fastforce simp: filter_empty_conv)
    moreover have "\<not> range_end (span_of x) \<le> range_end span" if "\<not> range_start (span_of x) < range_end span"
      using that Cons.prems(2) by fastforce
    ultimately show ?thesis using IH False by (simp add: contained_def partition_point_def)
  qed
qed (simp add: contained_def)

lemma query_exact:
  "is_document doc \<Longrightarrow> contained span_of (views doc) span =
     filter (\<lambda>x. range_start span \<le> range_start (span_of x) \<and> range_end (span_of x) \<le> range_end span) (views doc)"
  using window [OF ordered] nonempty by blast

end

lemma document_origin:
  assumes "document_parse source = Ok doc"
  obtains p where "doc_source doc = source" "lex source = Ok (doc_tokens doc)" "parse source (doc_tokens doc) = Some p" "doc_statements doc = statements p"
  using assms by (auto simp: document_parse_def outcome_simps bind_eq_Some_conv Let_def split: prod.splits)

lemma is_documentI:
  assumes "valid_str source" "document_parse source = Ok doc"
  shows "is_document doc" "doc_source doc = source"
proof -
  show "doc_source doc = source" using document_origin [OF assms(2)] by metis
  then show "is_document doc" using assms by (simp add: is_document_def)
qed

lemma document_facts:
  assumes "is_document doc"
  shows "views_fit (doc_source doc) doc" "views_ordered doc" "lookups_ok doc" "lex (doc_source doc) = Ok (doc_tokens doc)"
proof -
  have v: "valid_str (doc_source doc)" and p: "document_parse (doc_source doc) = Ok doc" using assms by (auto simp: is_document_def)
  obtain tokens where t: "lex (doc_source doc) = Ok tokens" using p by (auto simp: document_parse_def outcome_simps)
  obtain doc' where "document_parse (doc_source doc) = Ok doc'" "doc_tokens doc' = tokens"
    "views_fit (doc_source doc) doc'" "views_ordered doc'" "lookups_ok doc'"
    using document_parse_spec [OF v t] by metis
  then show "views_fit (doc_source doc) doc" "views_ordered doc" "lookups_ok doc" "lex (doc_source doc) = Ok (doc_tokens doc)"
    using p t by auto
qed

lemma statement_span_nonempty:
  assumes "is_document doc" "q \<in> set (doc_statements doc)"
  shows "range_start (st_span q) < range_end (st_span q)"
proof -
  have v: "valid_str (doc_source doc)" and d: "document_parse (doc_source doc) = Ok doc" using assms(1) by (auto simp: is_document_def)
  obtain p where p: "lex (doc_source doc) = Ok (doc_tokens doc)" "parse (doc_source doc) (doc_tokens doc) = Some p" "doc_statements doc = statements p"
    using document_origin [OF d] by metis
  have "parsed_ok (doc_source doc) (doc_tokens doc) p" using parse_ok [OF v p(1)] p(2) by fastforce
  then have "statement_in (doc_source doc) (doc_tokens doc) q" using p(3) assms(2) by (simp add: parsed_ok_def)
  then show ?thesis using statement_bd(4) [of "doc_tokens doc" q "doc_source doc"] by (simp add: statement_in_def)
qed

interpretation label_view: source_view doc_labels lb_span
proof
  fix doc l assume doc: "is_document doc"
  show "sorted_wrt (\<lambda>x y. range_end (lb_span x) \<le> range_start (lb_span y)) (doc_labels doc)"
    using document_facts(2) [OF doc] by (simp add: views_ordered_def)
  show "range_start (lb_span l) < range_end (lb_span l)" if "l \<in> set (doc_labels doc)"
    using document_facts(1) [OF doc] that by (auto simp: views_fit_def label_fits_def)
qed

interpretation directive_view: source_view doc_directives dr_span
proof
  fix doc d assume doc: "is_document doc"
  show "sorted_wrt (\<lambda>x y. range_end (dr_span x) \<le> range_start (dr_span y)) (doc_directives doc)"
    using document_facts(2) [OF doc] by (simp add: views_ordered_def)
  show "range_start (dr_span d) < range_end (dr_span d)" if d: "d \<in> set (doc_directives doc)"
  proof -
    obtain q where "q \<in> set (doc_statements doc)" "dr_span d = st_span q"
      using document_facts(1) [OF doc] d by (auto simp: views_fit_def directive_fits_def)
    then show ?thesis using statement_span_nonempty [OF doc] by simp
  qed
qed

interpretation instruction_view: source_view doc_instructions in_span
proof
  fix doc i assume doc: "is_document doc"
  show "sorted_wrt (\<lambda>x y. range_end (in_span x) \<le> range_start (in_span y)) (doc_instructions doc)"
    using document_facts(2) [OF doc] by (simp add: views_ordered_def)
  show "range_start (in_span i) < range_end (in_span i)" if i: "i \<in> set (doc_instructions doc)"
  proof -
    obtain q where "q \<in> set (doc_statements doc)" "in_span i = st_span q"
      using document_facts(1) [OF doc] i by (auto simp: views_fit_def instruction_fits_def)
    then show ?thesis using statement_span_nonempty [OF doc] by simp
  qed
qed

section \<open>Properties\<close>

text \<open>(C16) Parsing a document of valid UTF-8 never panics: it fails exactly with the error of the lexer. In the document the tokens
  spell the source, and every label, directive, callable and instruction fits its statement: each span it exposes lies
  on character boundaries inside the statement, or inside the source for the line of a directive or an instruction and the span and body of a
  callable (so the accessors that slice the source cannot panic), the operands of an
  instruction stand in order between its head and its semicolon, and the parts of a guard are where its fields say.\<close>

theorem document_parse_safe:
  assumes "valid_str source"
  shows "case document_parse source of
      Ok doc \<Rightarrow> lex source = Ok (doc_tokens doc) \<and> doc_source doc = source \<and> concat (map (token_text source) (doc_tokens doc)) = source \<and>
        views_fit source doc
    | Err e \<Rightarrow> lex source = Err e
    | Panic \<Rightarrow> False"
proof (cases "lex source")
  case (Ok tokens)
  obtain doc where "document_parse source = Ok doc" "doc_source doc = source" "doc_tokens doc = tokens" "views_fit source doc"
    using document_parse_spec [OF assms Ok] by metis
  then show ?thesis using Ok partitioned_concat [OF lex_partitioned [OF assms Ok]] by simp
next
  case (Err e)
  then show ?thesis by (simp add: document_parse_def)
next
  case Panic
  then show ?thesis using lex_from_spec [OF assms bd_zero [OF assms]] by (auto simp: lex_def split: if_splits)
qed

text \<open>(C18) Range queries are exact: the binary search, the early stop and the filter return the labels, directives and instructions that
  the span contains, in source order.\<close>

theorem range_queries_exact:
  assumes "valid_str source" and "document_parse source = Ok doc"
  shows "labels_in doc span =
      filter (\<lambda>l. range_start span \<le> range_start (lb_span l) \<and> range_end (lb_span l) \<le> range_end span) (doc_labels doc) \<and>
    directives_in doc span =
      filter (\<lambda>d. range_start span \<le> range_start (dr_span d) \<and> range_end (dr_span d) \<le> range_end span) (doc_directives doc) \<and>
    instructions_in doc span =
      filter (\<lambda>i. range_start span \<le> range_start (in_span i) \<and> range_end (in_span i) \<le> range_end span) (doc_instructions doc)"
  using is_documentI(1) [OF assms] unfolding labels_in_def directives_in_def instructions_in_def
  by (simp add: label_view.query_exact directive_view.query_exact instruction_view.query_exact)

text \<open>Lookups are exact: by scope and by statement they return the statements of the scope and the labels of the statement in
  source order, and the one directive, callable or instruction of the statement if there is one.\<close>

theorem lookups_exact:
  assumes "valid_str source" and "document_parse source = Ok doc"
  shows "statements_in_scope doc k = filter (\<lambda>q. st_scope q = k) (doc_statements doc) \<and>
    labels_for_statement doc k = filter (\<lambda>l. lb_statement l = k) (doc_labels doc) \<and>
    directive_for_statement doc k = find (\<lambda>d. dr_statement d = k) (doc_directives doc) \<and>
    callable_for_statement doc k = find (\<lambda>c. cl_statement c = k) (doc_callables doc) \<and>
    instruction_for_statement doc k = find (\<lambda>i. in_statement i = k) (doc_instructions doc)"
  using document_facts(3) [OF is_documentI(1) [OF assms]] by (simp add: lookups_ok_def)

text \<open>(C19) The text of a callable definition is its header, an opening brace, its body and a closing brace; in particular the debug
  assertion that looks for the brace in front of the body holds for every callable of a document.\<close>

theorem definition_text_exact:
  assumes "valid_str source" and "document_parse source = Ok doc" and "c \<in> set (doc_callables doc)" and "cl_body c = Some body"
  shows "\<exists>hdr header_text body_text. definition_header_span source c = Some (Some hdr) \<and>
    span_text doc hdr = Some header_text \<and> span_text doc body = Some body_text \<and>
    span_text doc (cl_span c) = Some (header_text @ ''{'' @ body_text @ ''}'')"
proof -
  note doc = is_documentI [OF assms(1,2)]
  obtain q where "callable_fits source q c"
    using document_facts(1) [OF doc(1)] assms(3) doc(2) by (auto simp: views_fit_def)
  then obtain hdr where h: "definition_header_span source c = Some (Some hdr)" "inside source (cl_span c) hdr" "inside source (cl_span c) body"
    "inside source (0, length source) (cl_span c)"
    "between source (range_start (cl_span c)) (range_end (cl_span c)) =
       between source (range_start hdr) (range_end hdr) @ ''{'' @ between source (range_start body) (range_end body) @ ''}''"
    using assms(4) by (auto simp: callable_fits_def)
  have "span_text doc r = Some (between source (range_start r) (range_end r))" if "inside source outer r" for r outer
    using that slice_between [OF assms(1)] doc(2) by (simp add: span_text_def inside_def)
  then show ?thesis using h by metis
qed

section \<open>Witnesses\<close>

text \<open>The document of \<open>.entry k(){L: ret;}\<close>.\<close>

lemmas parse_eval = parse_def parse_loop.simps parse_step_def on_item_def on_open_def on_close_def close_scope_def push_statement_def
  push_diagnostic_def current_scope_def parser_init_def next_significant_def trivia_at_def is_trivia_def token_text_def scan_item_def
  scan_from.simps scan_one_def on_trivia_def on_punctuation_def outcome_of_def classify_def significant_indices_def skip_labels.simps
  label_here_def token_is_def is_word_def is_braced_header_def contains_scope_header_keyword_def contains_callable_keyword_def
  contains_word_def has_newline_def should_end_at_line_def starts_with_dot_def is_instruction_head_def is_char_boundary_def is_cont_def
  byte_val_def bytes_of_def range_len_def token_span_def Let_def is_ascii_alphabetic_def is_digit_def

definition entry_parsed :: ParsedSyntax where
  "entry_parsed = \<lparr>statements =
     [\<lparr>st_id = 0, st_kind = CallableHeader, st_scope = 0, st_span = (0, 10), st_tokens = (0, 5)\<rparr>,
      \<lparr>st_id = 1, st_kind = InstructionStatement, st_scope = 1, st_span = (11, 18), st_tokens = (6, 11)\<rparr>],
   scopes =
     [\<lparr>sc_id = 0, sc_parent = None, sc_header = None, sc_span = (0, 19), sc_open = None, sc_close = None\<rparr>,
      \<lparr>sc_id = 1, sc_parent = Some 0, sc_header = Some 0, sc_span = (10, 19), sc_open = Some (10, 11), sc_close = Some (18, 19)\<rparr>],
   diagnostics = [],
   coverage = \<lparr>source_bytes = 19, token_bytes = 19, non_trivia_bytes = 17, recognized_bytes = 17, unknown_bytes = 0, diagnostic_count = 0\<rparr>\<rparr>"

lemma entry_parse: "parse entry_source entry_tokens = Some entry_parsed"
  unfolding entry_source_def entry_tokens_def
  by (simp add: entry_parsed_def parse_eval upt_rec All_less_Suc cong: bind_weak option.case_cong_weak if_weak_cong)

definition entry_document :: Document where
  "entry_document = \<lparr>doc_source = entry_source, doc_tokens = entry_tokens, doc_statements = statements entry_parsed, doc_scopes = scopes entry_parsed,
   doc_diagnostics = [], doc_coverage = coverage entry_parsed,
   doc_labels = [\<lparr>lb_id = 0, lb_statement = 1, lb_scope = 1, lb_span = (11, 13), lb_name = (11, 12)\<rparr>],
   doc_directives = [],
   doc_callables = [\<lparr>cl_statement = 0, cl_scope = 0, cl_definition_scope = Some 1, cl_kind = Entry, cl_span = (0, 19), cl_header = (0, 8),
     cl_body = Some (11, 18), cl_name = (7, 8), cl_extern = False\<rparr>],
   doc_instructions = [\<lparr>in_statement = 1, in_scope = 1, in_span = (11, 18), in_prefix = (11, 13), in_head = (14, 17), in_operands = [],
     in_labels = [(11, 12)], in_predicate = None\<rparr>],
   statements_by_scope = [[0], [1]], labels_by_statement = [[], [0]], directive_by_statement = [None, None],
   callable_by_statement = [Some 0, None], instruction_by_statement = [None, Some 0]\<rparr>"

lemma entry_mask: "mask_non_code entry_source entry_tokens = Some entry_source"
  unfolding mask_non_code_spec [OF entry_valid entry_lex] by code_simp

lemma entry_labels: "discover_labels entry_source entry_tokens (statements entry_parsed) = doc_labels entry_document"
  by code_simp

lemma entry_directives: "discover_directives entry_source entry_tokens (statements entry_parsed) = Some ([], [])"
  by code_simp

lemma entry_callables:
  "discover_callables entry_source entry_tokens (statements entry_parsed) (scopes entry_parsed) = Some (doc_callables entry_document, [])"
  by code_simp

lemma entry_instructions:
  "discover_instructions entry_source entry_source entry_tokens (statements entry_parsed) (diagnostics entry_parsed) =
     Some (doc_instructions entry_document, [])"
  by code_simp

lemma entry_document_parse: "document_parse entry_source = Ok entry_document"
  by (simp add: document_parse_def entry_lex entry_mask entry_parse entry_labels entry_directives entry_callables entry_instructions)
     (simp add: entry_document_def entry_parsed_def slots_of_def add_diagnostics_def)

theorem document_parse_safe_witness: "concat (map (token_text entry_source) entry_tokens) = entry_source \<and> views_fit entry_source entry_document"
  using document_parse_safe [OF entry_valid] entry_document_parse entry_lex by auto

theorem range_queries_exact_witness: "instructions_in entry_document (11, 18) = doc_instructions entry_document \<and> labels_in entry_document (0, 12) = []"
  using range_queries_exact [OF entry_valid entry_document_parse, of "(11, 18)"] range_queries_exact [OF entry_valid entry_document_parse, of "(0, 12)"]
  by (simp add: entry_document_def)

theorem lookups_exact_witness: "map st_id (statements_in_scope entry_document 1) = [1] \<and> directive_for_statement entry_document 1 = None"
  using lookups_exact [OF entry_valid entry_document_parse, of 1] by (simp add: entry_document_def entry_parsed_def)

theorem definition_text_exact_witness:
  "\<exists>header_text. span_text entry_document (0, 10) = Some header_text \<and> span_text entry_document (0, 19) = Some (header_text @ ''{'' @ ''L: ret;'' @ ''}'')"
proof -
  let ?c = "doc_callables entry_document ! 0"
  have c: "?c \<in> set (doc_callables entry_document)" "cl_body ?c = Some (11, 18)" "cl_span ?c = (0, 19)" by (simp_all add: entry_document_def)
  have "definition_header_span entry_source ?c = Some (Some (0, 10))" "span_text entry_document (11, 18) = Some ''L: ret;''" by code_simp+
  then show ?thesis using definition_text_exact [OF entry_valid entry_document_parse c(1,2)] c(3) by auto
qed

end
