(* ===== verification/Spec2Isabelle.thy ===== *)
theory Spec2Isabelle
  imports Artifact_Properties Cute_Layout_Properties Cute_Algebra_Properties Cute_Composition Cute_Device_Properties
    Cute_Predication Cute_Cooperative_Properties Cute_Parse Slot_Protocol_Properties Target_Properties
    Tile_Properties Tile_Verify_Properties Ptx_Edit_Map Ptx_Document_Properties
begin

text \<open>
  A verification development for \<open>cuda-oxide\<close>, the toolchain that compiles Rust to CUDA device code. Paths
  are relative to \<open>src/\<close>.

  \<^bold>\<open>The program and how its parts meet.\<close> A compiler backend turns kernels into PTX, embeds the PTX and its
  metadata into host objects as an artifact bundle, and a host runtime finds the bundle, loads it and
  launches kernels; completions come back through a slot table that device-written flags drive. Kernels
  address memory through CuTe layouts, whose algebra and static checks are a library of their own; tile
  kernels are described to other tools as Tile IR bytecode; PTX text is read back, edited and remapped by a
  lossless parser. The development covers the parts with logic of their own that the source fully determines.

  \<^bold>\<open>Theories and the code they model.\<close>

  \<^item> \<open>Oxide_Prelude\<close>, \<open>Oxide_Text\<close>: results with errors and panics (\<open>outcome\<close>), checked machine arithmetic,
    \<open>for_each\<close>, little-endian bytes, what the code uses of \<open>str\<close>; shared lemmas and simplification collections.
  \<^item> \<open>Artifact_Bundle\<close> (\<open>cuda-oxide/crates/oxide-artifacts/src/lib.rs\<close>): bundle types, compile options, writer and
    readers. \<open>Artifact_Roundtrip\<close> and \<open>Artifact_Properties\<close>: reading back what was written, no panics in the readers on
    any bytes (every slice and index is partial), and the exact condition under which the writer succeeds.
  \<^item> \<open>Cute_Layout\<close>, \<open>Cute_Algebra\<close>, \<open>Cute_Swizzle\<close>, \<open>Cute_Composed\<close>, \<open>Cute_Device\<close>, \<open>Cute_Predication\<close>, \<open>Cute_Validation\<close>,
    \<open>Cute_Cooperative\<close>, \<open>Cute_Parse\<close> (\<open>cuda-oxide/cute-rs-preview/cute-layout/src\<close>, one theory per module or group of modules). The
    reference meaning of a layout (\<open>Cute_Layout_Facts\<close>, \<open>Cute_Offsets\<close>) is a mixed-radix decomposition over
    unbounded integers; the theories ending in \<open>Facts\<close> and \<open>Properties\<close> relate every evaluator to it and show the
    algebraic laws, how composition goes wrong on a misaligned stride, the swizzle involution, the soundness and completeness of the validators, and what an accepted copy plan means for
    the bytes that move.
  \<^item> \<open>Slot_Table\<close> (\<open>cuda-async/src/slot_table.rs\<close>) and \<open>Slot_Protocol\<close> (\<open>cuda-async/src/reactor.rs\<close>): the table operations, run alone and as
    atomic transitions of registrants, scanner and device; a probing pass loads the flag and asks the driver in two steps, between
    which the write may land. That the driver reports a fault only for a write that cannot land any more is what the comment of
    \<open>stream_is_faulted\<close> says. \<open>Slot_Invariant\<close> keeps one invariant along every interleaving;
    \<open>Slot_Protocol_Properties\<close> draws exclusive ownership, exactly-once delivery, delivery after the write, no lost
    wake-up and progress from it.
  \<^item> \<open>Target_Spec\<close> (\<open>cuda-oxide/crates/cuda-target-spec/src/lib.rs\<close>): architectures, their text and the two version tables.
    \<open>Target_Properties\<close>: exact languages of the parsers and exact lookups.
  \<^item> \<open>Tile_Encoding\<close>, \<open>Tile_Model\<close>, \<open>Tile_Writer\<close>, \<open>Tile_Verify\<close>, \<open>Tile_Reader\<close>, \<open>Tile_Interning\<close>
    (\<open>cuda-oxide/crates/oxide-tilebc/src\<close>): integer encodings, vocabulary, the two modules, the verifier, the reader of sections
    and strings. The properties: modules read back, the byte layout of the type section, stable interning, and the verifier
    accepts exactly the well-formed libraries.
  \<^item> \<open>Ptx_Source\<close>, \<open>Ptx_Edit\<close>, \<open>Ptx_Lexer\<close>, \<open>Ptx_Syntax\<close>, \<open>Ptx_Views\<close> (\<open>cuda-oxide/crates/ptx-parse/src\<close>: \<open>edit.rs\<close>, \<open>lexer.rs\<close>, \<open>syntax.rs\<close>, and
    the typed views and queries of \<open>lib.rs\<close>): edit scripts and their offset map, the lossless lexer, the structural parser, and the
    document. \<open>Ptx_Edit_Facts\<close> gives the reference substitution, \<open>Ptx_Edit_Map\<close> the laws of the two-way map, \<open>Ptx_Lexer_Properties\<close>
    losslessness and exact masking, \<open>Ptx_Syntax_Invariant\<close> and \<open>Ptx_Syntax_Properties\<close> the accounting of tokens and the braces and nesting of
    scopes, \<open>Ptx_Trim\<close> and \<open>Ptx_Split\<close> trimming by characters and the exact splitting of operand lists, \<open>Ptx_Views_Facts\<close>,
    \<open>Ptx_Document_Facts\<close>, \<open>Ptx_Callables\<close> and \<open>Ptx_Document\<close> that every view fits its statement, \<open>Ptx_Registers\<close> the grammar of register
    declarations, and \<open>Ptx_Document_Properties\<close> that parsing a document never panics and its queries are exact.

  \<^bold>\<open>Interfaces.\<close> Contracts that several operations share are locales, interpreted on the model: \<open>wire_int\<close> (fixed-width fields of the
  container), \<open>owner_table\<close> (the scan of the ownership validators, interpreted for threads and for thread/value pairs),
  \<open>offset_map\<close> (the two directions of the edit map), \<open>source_view\<close> (views found by binary search, interpreted for
  labels, directives and instructions), \<open>step_system\<close> (invariants along runs of the reactor) and \<open>intern_table\<close> (the
  string and type tables of the bytecode writer).

  \<^bold>\<open>Conventions, bounds and fuel.\<close> \<open>usize\<close>, \<open>u32\<close> and \<open>u64\<close> values are naturals, \<open>i64\<close> values integers; where the code can leave the
  type the model checks the bound and returns the code's error or a panic, and where the code wraps the model reduces. Debug assertions, failed slices and
  \<open>expect\<close> are panics (\<open>token_text\<close> alone is total: it is only taken of lexed tokens, whose spans are in range). A \<open>&str\<close> is its list of UTF-8 bytes, so offsets are byte offsets as in Rust. Loops are structural recursion
  or \<open>function\<close> with a termination proof; two readers use fuel: the layout parser runs with fuel \<open>2 * length + 2\<close>, which each
  character and nesting level pays for, and the section reader with the length of the file, of which each section takes at least one byte; the
  first is proved enough for every text, the second for every module the writer produces. The slot protocol assumes sequentially consistent atomics and fewer than \<open>2 ^ 63\<close> slots, the size the bitmap
  arithmetic needs.

  \<^bold>\<open>Not modelled, and why.\<close> The rustc backend, the IR dialects, lowering and exporters operate on data structures of rustc and of a
  third-party IR framework whose code is not in the tree. The driver API crates, the process drivers of \<open>cargo-oxide\<close> and the pinned
  allocations and probes of the reactor are calls into foreign code. The device crate consists of intrinsics with placeholder bodies and the
  intrinsic tables are generated. Procedural macros rewrite token streams of a third-party parser.
\<close>

end
